(* ===== verification/Prelude.thy ===== *)
theory Prelude
  imports Main "HOL-Library.Word"
begin

text \<open>
  Names and lemmas shared by the component theories: the fixed-width integer types of
  the sources (\<open>Bit8u\<close> to \<open>Bit64u\<close> of Bochs, \<open>uint32_t\<close> of SSUOS), single-bit
  masks, tests and clears as the C code writes them, and the collections of simplification
  rules the components add to.
\<close>

unbundle bit_operations_syntax

type_synonym Bit8u = "8 word"
type_synonym Bit16u = "16 word"
type_synonym Bit32u = "32 word"
type_synonym Bit64u = "64 word"

named_theorems frame_simps \<open>fields an operation leaves alone\<close>
named_theorems inv_intros \<open>preservation of a component's invariant, one rule per operation\<close>

text \<open>
  The C expression \<open>1 << n\<close>, truncated to the width of the word it meets.  It is a
  constant of its own, so that tests and clears of one bit reduce to \<open>bit\<close>.
\<close>

definition bitm :: "nat \<Rightarrow> 'a::len word" where
  "bitm n = push_bit n 1"

lemma bit_bitm [simp]: "bit (bitm n :: 'a::len word) k \<longleftrightarrow> k = n \<and> n < LENGTH('a)"
  by (auto simp: bitm_def bit_simps)

lemma and_bitm_eq_0 [simp]: "w AND bitm n = 0 \<longleftrightarrow> \<not> bit w n"
  for w :: "'a::len word"
  by (metis bitm_def bit_iff_and_push_bit_not_eq_0)

lemma bitm_and_eq_0 [simp]: "bitm n AND w = 0 \<longleftrightarrow> \<not> bit w n"
  for w :: "'a::len word"
  by (metis and.commute and_bitm_eq_0)

lemma drop_bit_and_1_eq_0 [simp]: "drop_bit n w AND 1 = 0 \<longleftrightarrow> \<not> bit w n"
  for w :: "'a::len word"
  by (simp add: and_one_eq bit_iff_odd_drop_bit mod_2_eq_odd)

lemma bit_and_not_bitm [simp]: "bit (w AND NOT (bitm n)) k \<longleftrightarrow> bit w k \<and> k \<noteq> n"
  for w :: "'a::len word"
  by (auto simp: bit_simps bit_imp_le_length)

lemma bit_or_bitm [simp]: "bit (w OR bitm n) k \<longleftrightarrow> bit w k \<or> k = n \<and> n < LENGTH('a)"
  for w :: "'a::len word"
  by (auto simp: bit_simps)

lemma word_eq_0_iff_no_bit: "w = 0 \<longleftrightarrow> (\<forall>n. \<not> bit w n)"
  for w :: "'a::len word"
  by (auto intro: bit_word_eqI)

lemma bit8_less: "bit w n \<Longrightarrow> n < 8" for w :: Bit8u
  using bit_imp_le_length [of w n] by simp

lemma unat_of_nat_le: "j \<le> unat x \<Longrightarrow> unat (of_nat j :: 'a::len word) = j" for x :: "'a::len word"
  using order.strict_trans1 [OF _ unsigned_less [of x, where 'a = nat]]
  by (simp add: unsigned_of_nat take_bit_nat_eq_self)

lemma unat_sub_of_nat: "j \<le> unat x \<Longrightarrow> unat (x - of_nat j) = unat x - j" for x :: "'a::len word"
  by (simp add: unat_sub word_le_nat_alt unat_of_nat_le)

lemma and_FFFF: "x AND 0xFFFF = take_bit 16 x" for x :: Bit32u
proof -
  have "(0xFFFF :: Bit32u) = mask 16" by (simp add: mask_eq_exp_minus_1)
  then show ?thesis by (simp add: take_bit_eq_mask)
qed

lemma uint_and_FFFF: "uint (x AND 0xFFFF) = uint x mod 65536" for x :: Bit32u
  unfolding and_FFFF unsigned_take_bit_eq by (simp add: take_bit_eq_mod)

lemma concat_replicate_Suc: "concat (replicate (Suc m) xs) = concat (replicate m xs) @ xs"
  by (induction m) simp_all

lemma uint_ucast_16_32 [simp]: "uint (ucast v :: Bit32u) = uint v" for v :: Bit16u
  using unsigned_less [of v, where 'a = int] by (simp add: unsigned_ucast_eq take_bit_int_eq_self)

lemma one_le_uint: "b \<noteq> 0 \<Longrightarrow> 1 \<le> uint b"
  using uint_ge_0 [of b] by (metis order_le_less uint_0_iff int_one_le_iff_zero_less)

lemma and_FFFF_id: "uint b < 65536 \<Longrightarrow> b AND 0xFFFF = b" for b :: Bit32u
  by (rule word_uint_eq_iff [THEN iffD2]) (simp add: uint_and_FFFF)

lemma uint_ucast_32_64: "uint (ucast d :: Bit64u) = uint d" for d :: Bit32u
  using unsigned_less [of d, where 'a = int] by (simp add: unsigned_ucast_eq take_bit_int_eq_self)

end
