(* ===== verification/LazyFlags.thy ===== *)
theory LazyFlags
  imports Prelude
begin

text \<open>
  The lazy arithmetic flags of the emulated processor: \<open>bochs-2.6.8/cpu/lazy_flags.h\<close> and the flag
  accessors of \<open>cpu/cpu.h\<close>, in the configuration of \<open>config.h\<close> (\<open>BX_SUPPORT_X86_64\<close> is 0, so a
  \<open>bx_address\<close> has 32 bits).  An instruction stores its result and its carry vector; the six flags
  of EFLAGS are computed when they are read.  A flag is a \<open>bool\<close>; the C code holds it as 0 or 1, or
  as a mask that is zero or not (\<open>get_CF\<close>).  \<open>Bit32s\<close> casts are \<open>scast\<close>.
\<close>

record bx_lf_flags_entry =
  lf_result :: Bit32u
  auxbits :: Bit32u

section \<open>The flags as they are read\<close>

definition getB_ZF :: "bx_lf_flags_entry \<Rightarrow> bool" where
  "getB_ZF e = (0 = lf_result e)"

definition getB_SF :: "bx_lf_flags_entry \<Rightarrow> bool" where
  "getB_SF e = bit (drop_bit 31 (lf_result e) XOR drop_bit 0 (auxbits e)) 0"

definition getB_PF :: "bx_lf_flags_entry \<Rightarrow> bool" where
  "getB_PF e =
     (let temp = 255 AND lf_result e;
          temp = temp XOR (255 AND drop_bit 8 (auxbits e));
          temp = (temp XOR drop_bit 4 temp) AND 0x0F
      in bit (drop_bit (unat temp) (0x9669 :: Bit32u)) 0)"

definition getB_AF :: "bx_lf_flags_entry \<Rightarrow> bool" where
  "getB_AF e = bit (drop_bit 3 (auxbits e)) 0"

definition getB_CF :: "bx_lf_flags_entry \<Rightarrow> bool" where
  "getB_CF e = bit (drop_bit 31 (auxbits e)) 0"

definition getB_OF :: "bx_lf_flags_entry \<Rightarrow> bool" where
  "getB_OF e = bit (drop_bit 31 (auxbits e + bitm 30)) 0"

section \<open>Writing one flag\<close>

definition SET_FLAGS_OxxxxC :: "bool \<Rightarrow> bool \<Rightarrow> bx_lf_flags_entry \<Rightarrow> bx_lf_flags_entry" where
  "SET_FLAGS_OxxxxC new_of new_cf e =
     (let temp_po = new_of \<noteq> new_cf;
          e = e\<lparr> auxbits := auxbits e AND NOT (bitm 30 OR bitm 31) \<rparr>
      in e\<lparr> auxbits := auxbits e OR (push_bit 30 (of_bool temp_po) OR push_bit 31 (of_bool new_cf)) \<rparr>)"

definition ASSERT_FLAGS_OxxxxC :: "bx_lf_flags_entry \<Rightarrow> bx_lf_flags_entry" where
  "ASSERT_FLAGS_OxxxxC = SET_FLAGS_OxxxxC True True"

definition clear_ZF :: "bx_lf_flags_entry \<Rightarrow> bx_lf_flags_entry" where
  "clear_ZF e = e\<lparr> lf_result := lf_result e OR bitm 8 \<rparr>"

text \<open>The sign and the parity of the result move into the deltas before it is cleared.\<close>

definition assert_ZF :: "bx_lf_flags_entry \<Rightarrow> bx_lf_flags_entry" where
  "assert_ZF e =
     (let e = e\<lparr> auxbits := auxbits e XOR push_bit 0 (drop_bit 31 (lf_result e) AND 1) \<rparr>;
          temp_pdb = 255 AND lf_result e;
          e = e\<lparr> auxbits := auxbits e XOR push_bit 8 temp_pdb \<rparr>
      in e\<lparr> lf_result := 0 \<rparr>)"

definition set_ZF :: "bool \<Rightarrow> bx_lf_flags_entry \<Rightarrow> bx_lf_flags_entry" where
  "set_ZF val e = (if val then assert_ZF e else clear_ZF e)"

definition set_SF :: "bool \<Rightarrow> bx_lf_flags_entry \<Rightarrow> bx_lf_flags_entry" where
  "set_SF val e =
     (let temp_sf = getB_SF e
      in e\<lparr> auxbits := auxbits e XOR push_bit 0 (of_bool (temp_sf \<noteq> val)) \<rparr>)"

definition set_PF :: "bool \<Rightarrow> bx_lf_flags_entry \<Rightarrow> bx_lf_flags_entry" where
  "set_PF val e =
     (let temp_pdb = (255 AND lf_result e) XOR of_bool (\<not> val);
          e = e\<lparr> auxbits := auxbits e AND NOT (push_bit 8 0xFF) \<rparr>
      in e\<lparr> auxbits := auxbits e OR push_bit 8 temp_pdb \<rparr>)"

definition set_AF :: "bool \<Rightarrow> bx_lf_flags_entry \<Rightarrow> bx_lf_flags_entry" where
  "set_AF val e =
     (let e = e\<lparr> auxbits := auxbits e AND NOT (bitm 3) \<rparr>
      in e\<lparr> auxbits := auxbits e OR push_bit 3 (of_bool val) \<rparr>)"

definition set_CF :: "bool \<Rightarrow> bx_lf_flags_entry \<Rightarrow> bx_lf_flags_entry" where
  "set_CF val e = (let temp_of = getB_OF e in SET_FLAGS_OxxxxC temp_of val e)"

definition set_OF :: "bool \<Rightarrow> bx_lf_flags_entry \<Rightarrow> bx_lf_flags_entry" where
  "set_OF val e = (let temp_cf = getB_CF e in SET_FLAGS_OxxxxC val temp_cf e)"

text \<open>All six from a value in the layout of EFLAGS.\<close>

definition setEFlagsOSZAPC :: "Bit32u \<Rightarrow> bx_lf_flags_entry \<Rightarrow> bx_lf_flags_entry" where
  "setEFlagsOSZAPC flags32 e =
     (let e = set_OF (bit (drop_bit 11 flags32) 0) e;
          e = set_SF (bit (drop_bit 7 flags32) 0) e;
          e = set_ZF (bit (drop_bit 6 flags32) 0) e;
          e = set_AF (bit (drop_bit 4 flags32) 0) e;
          e = set_PF (bit (drop_bit 2 flags32) 0) e
      in set_CF (bit (drop_bit 0 flags32) 0) e)"

section \<open>Writing the flags of an operation\<close>

definition ADD_COUT_VEC :: "'a::len word \<Rightarrow> 'a word \<Rightarrow> 'a word \<Rightarrow> 'a word" where
  "ADD_COUT_VEC op1 op2 result = (op1 AND op2) OR ((op1 OR op2) AND NOT result)"

definition SUB_COUT_VEC :: "'a::len word \<Rightarrow> 'a word \<Rightarrow> 'a word \<Rightarrow> 'a word" where
  "SUB_COUT_VEC op1 op2 result = (NOT op1 AND op2) OR ((NOT op1 XOR op2) AND result)"

text \<open>
  The carry vector moved so that the carry out of the operation is bit 31 and the carry into its
  sign bit is bit 30; and the result sign-extended from its size.
\<close>

definition lf_temp :: "nat \<Rightarrow> Bit32u \<Rightarrow> Bit32u" where
  "lf_temp sz lf_carries =
     (if sz = 32 then lf_carries AND NOT (push_bit 8 0xFF OR bitm 0)
      else if sz = 16 then (lf_carries AND bitm 3) OR push_bit 16 lf_carries
      else if sz = 8 then (lf_carries AND bitm 3) OR push_bit 24 lf_carries
      else (lf_carries AND bitm 3) OR push_bit 30 (drop_bit (sz - 2) lf_carries))"

definition lf_extend :: "nat \<Rightarrow> Bit32u \<Rightarrow> Bit32u" where
  "lf_extend sz r =
     (if sz = 8 then scast (ucast r :: 8 word) else if sz = 16 then scast (ucast r :: 16 word) else r)"

definition SET_FLAGS_OSZAPC_SIZE :: "nat \<Rightarrow> Bit32u \<Rightarrow> Bit32u \<Rightarrow> bx_lf_flags_entry \<Rightarrow> bx_lf_flags_entry" where
  "SET_FLAGS_OSZAPC_SIZE sz lf_carries r e =
     \<lparr> lf_result = lf_extend sz r, auxbits = lf_temp sz lf_carries \<rparr>"

definition SET_FLAGS_OSZAPC_LOGIC :: "nat \<Rightarrow> Bit32u \<Rightarrow> bx_lf_flags_entry \<Rightarrow> bx_lf_flags_entry" where
  "SET_FLAGS_OSZAPC_LOGIC sz r = SET_FLAGS_OSZAPC_SIZE sz 0 r"

definition SET_FLAGS_OSZAPC_ADD :: "nat \<Rightarrow> Bit32u \<Rightarrow> Bit32u \<Rightarrow> Bit32u \<Rightarrow> bx_lf_flags_entry \<Rightarrow> bx_lf_flags_entry" where
  "SET_FLAGS_OSZAPC_ADD sz op1 op2 r = SET_FLAGS_OSZAPC_SIZE sz (ADD_COUT_VEC op1 op2 r) r"

definition SET_FLAGS_OSZAPC_SUB :: "nat \<Rightarrow> Bit32u \<Rightarrow> Bit32u \<Rightarrow> Bit32u \<Rightarrow> bx_lf_flags_entry \<Rightarrow> bx_lf_flags_entry" where
  "SET_FLAGS_OSZAPC_SUB sz op1 op2 r = SET_FLAGS_OSZAPC_SIZE sz (SUB_COUT_VEC op1 op2 r) r"

text \<open>The variants that keep the carry flag: only the change of bit 31 is undone, in bits 31 and 30.\<close>

definition SET_FLAGS_OSZAP_SIZE :: "nat \<Rightarrow> Bit32u \<Rightarrow> Bit32u \<Rightarrow> bx_lf_flags_entry \<Rightarrow> bx_lf_flags_entry" where
  "SET_FLAGS_OSZAP_SIZE sz lf_carries r e =
     (let temp = lf_temp sz lf_carries;
          delta_c = (auxbits e XOR temp) AND bitm 31;
          delta_c = delta_c XOR drop_bit 1 delta_c
      in \<lparr> lf_result = lf_extend sz r, auxbits = temp XOR delta_c \<rparr>)"

definition SET_FLAGS_OSZAP_ADD :: "nat \<Rightarrow> Bit32u \<Rightarrow> Bit32u \<Rightarrow> Bit32u \<Rightarrow> bx_lf_flags_entry \<Rightarrow> bx_lf_flags_entry" where
  "SET_FLAGS_OSZAP_ADD sz op1 op2 r = SET_FLAGS_OSZAP_SIZE sz (ADD_COUT_VEC op1 op2 r) r"

definition SET_FLAGS_OSZAP_SUB :: "nat \<Rightarrow> Bit32u \<Rightarrow> Bit32u \<Rightarrow> Bit32u \<Rightarrow> bx_lf_flags_entry \<Rightarrow> bx_lf_flags_entry" where
  "SET_FLAGS_OSZAP_SUB sz op1 op2 r = SET_FLAGS_OSZAP_SIZE sz (SUB_COUT_VEC op1 op2 r) r"

definition SET_FLAGS_OSZAxC_LOGIC :: "nat \<Rightarrow> Bit32u \<Rightarrow> bx_lf_flags_entry \<Rightarrow> bx_lf_flags_entry" where
  "SET_FLAGS_OSZAxC_LOGIC sz r e =
     (let saved_PF = getB_PF e in set_PF saved_PF (SET_FLAGS_OSZAPC_SIZE sz 0 r e))"

definition clearEFlagsOSZAPC :: "bx_lf_flags_entry \<Rightarrow> bx_lf_flags_entry" where
  "clearEFlagsOSZAPC = SET_FLAGS_OSZAPC_LOGIC 32 1"

end
