(* ===== verification/LazyFlags_Spec.thy ===== *)
theory LazyFlags_Spec
  imports LazyFlags
begin

text \<open>
  What the lazy flags promise: the six flags as a plain record, with the accessors of
  \<open>LazyFlags\<close> as reads and updates of that record, and the flags of an addition and a subtraction as
  integer arithmetic defines them.
\<close>

record arith_flags =
  OF :: bool
  SF :: bool
  ZF :: bool
  AF :: bool
  PF :: bool
  CF :: bool

definition flags_of :: "bx_lf_flags_entry \<Rightarrow> arith_flags" where
  "flags_of e = \<lparr> OF = getB_OF e, SF = getB_SF e, ZF = getB_ZF e, AF = getB_AF e, PF = getB_PF e,
     CF = getB_CF e \<rparr>"

section \<open>The accessors in bits\<close>

lemma getB_CF_bit: "getB_CF e = bit (auxbits e) 31"
  by (simp add: getB_CF_def bit_simps)

lemma getB_AF_bit: "getB_AF e = bit (auxbits e) 3"
  by (simp add: getB_AF_def bit_simps)

lemma getB_SF_bit: "getB_SF e = (bit (lf_result e) 31 \<noteq> bit (auxbits e) 0)"
  by (simp add: getB_SF_def bit_simps)

section \<open>Carries\<close>

text \<open>The carry into bit \<open>n\<close> of a sum with carry-in \<open>c\<close>.\<close>

definition carry_into :: "nat \<Rightarrow> 'a::len word \<Rightarrow> 'a word \<Rightarrow> bool \<Rightarrow> bool" where
  "carry_into n a b c \<longleftrightarrow> take_bit n (uint a) + take_bit n (uint b) + of_bool c \<ge> 2 ^ n"

lemma bit_int_sum:
  "bit (A + B + of_bool c) n \<longleftrightarrow>
     (bit A n \<noteq> (bit B n \<noteq> (take_bit n A + take_bit n B + of_bool c \<ge> 2 ^ n)))" for A B :: int
proof -
  let ?s = "take_bit n A + take_bit n B + of_bool c"
  have "take_bit n A < 2 ^ n" "take_bit n B < 2 ^ n" "0 \<le> take_bit n A" "0 \<le> take_bit n B" "(of_bool c :: int) \<le> 1"
    "(0 :: int) \<le> of_bool c" by auto
  then have "0 \<le> ?s" "?s < 2 ^ n * 2" by linarith+
  then have d: "?s div 2 ^ n = of_bool (2 ^ n \<le> ?s)"
    by (auto simp: div_pos_pos_trivial intro: int_div_pos_eq [of _ _ _ "?s - 2 ^ n"])
  have "A + B + of_bool c = ?s + (A div 2 ^ n + B div 2 ^ n) * 2 ^ n"
    by (simp add: take_bit_eq_mod distrib_right minus_mult_div_eq_mod [symmetric] algebra_simps)
  then have "(A + B + of_bool c) div 2 ^ n = A div 2 ^ n + B div 2 ^ n + of_bool (2 ^ n \<le> ?s)"
    using div_mult_self1 [of "2 ^ n :: int" ?s "A div 2 ^ n + B div 2 ^ n"] by (simp only: d) simp
  then show ?thesis by (auto simp: bit_iff_odd)
qed

lemma bit_sum_carry:
  fixes a b :: "'a::len word"
  assumes "n < LENGTH('a)"
  shows "bit (a + b + of_bool c) n \<longleftrightarrow> (bit a n \<noteq> (bit b n \<noteq> carry_into n a b c))"
proof -
  have "bit (a + b + of_bool c) n = bit (uint (a + b + of_bool c)) n"
    using assms by (simp add: bit_uint_iff)
  also have "uint (a + b + of_bool c) = take_bit LENGTH('a) (uint a + uint b + of_bool c)"
    by (simp add: uint_word_ariths take_bit_eq_mod mod_simps)
  finally show ?thesis
    using assms by (simp add: bit_take_bit_iff bit_int_sum carry_into_def bit_uint_iff)
qed

lemma carry_into_Suc:
  fixes a b :: "'a::len word"
  assumes "n < LENGTH('a)"
  shows "carry_into (Suc n) a b c \<longleftrightarrow>
    bit a n \<and> bit b n \<or> (bit a n \<or> bit b n) \<and> carry_into n a b c"
proof -
  obtain x y where xy: "x = take_bit n (uint a)" "y = take_bit n (uint b)"
    "0 \<le> x" "x < 2 ^ n" "0 \<le> y" "y < 2 ^ n" by simp
  show ?thesis
    using assms xy(3-)
    by (cases "bit a n"; cases "bit b n"; cases c)
      (simp_all add: carry_into_def take_bit_Suc_from_most bit_uint_iff add.assoc flip: xy(1,2))
qed

text \<open>The vector of carries: bit \<open>n\<close> is the carry out of bit \<open>n\<close>.\<close>

lemma bit_ADD_COUT_VEC:
  fixes a b :: "'a::len word"
  assumes "n < LENGTH('a)"
  shows "bit (ADD_COUT_VEC a b (a + b + of_bool c)) n \<longleftrightarrow> carry_into (Suc n) a b c"
  using assms by (auto simp: ADD_COUT_VEC_def bit_simps bit_sum_carry carry_into_Suc)

lemma SUB_COUT_VEC_add: "SUB_COUT_VEC a b r = NOT (ADD_COUT_VEC a (NOT b) r)"
  by (rule bit_word_eqI) (auto simp: SUB_COUT_VEC_def ADD_COUT_VEC_def bit_simps)

lemma sub_as_add: "a - b - of_bool c = a + NOT b + of_bool (\<not> c)" for a b :: "'a::len word"
  by (cases c) (simp_all add: not_eq_complement)

lemma bit_SUB_COUT_VEC:
  fixes a b :: "'a::len word"
  assumes "n < LENGTH('a)"
  shows "bit (SUB_COUT_VEC a b (a - b - of_bool c)) n \<longleftrightarrow>
    take_bit (Suc n) (uint a) < take_bit (Suc n) (uint b) + of_bool c"
proof -
  have "take_bit (Suc n) (uint (NOT b)) = take_bit (Suc n) (NOT (uint b))"
    using assms by (simp add: unsigned_not_eq take_bit_take_bit min_def)
  then have "take_bit (Suc n) (uint (NOT b)) = 2 ^ Suc n - 1 - take_bit (Suc n) (uint b)"
    by (simp only: take_bit_not_eq_mask_diff mask_eq_exp_minus_1)
  then show ?thesis
    using assms by (simp add: SUB_COUT_VEC_add sub_as_add bit_ADD_COUT_VEC carry_into_def bit_not_iff) auto
qed

text \<open>Adding 1 at bit 30 flips bit 31 exactly when bit 30 is set.\<close>

lemma bit_31_add_30: "bit (x + bitm 30) 31 = (bit x 31 \<noteq> bit x 30)" for x :: Bit32u
proof -
  have "uint (bitm 30 :: Bit32u) = 2 ^ 30" by (simp add: bitm_def)
  moreover have "take_bit 31 (uint x) \<ge> 2 ^ 30 \<longleftrightarrow> bit x 30"
    using take_bit_Suc_from_most [of 30 "uint x"] take_bit_int_less_exp [of 30 "uint x"]
      take_bit_nonnegative [of 30 "uint x"] by (cases "bit x 30"; simp add: bit_uint_iff del: take_bit_int_less_exp; linarith)
  ultimately have "carry_into 31 x (bitm 30) False \<longleftrightarrow> bit x 30"
    by (simp add: carry_into_def)
  then show ?thesis using bit_sum_carry [of 31 x "bitm 30" False] by simp
qed

lemma getB_OF_bit: "getB_OF e = (bit (auxbits e) 31 \<noteq> bit (auxbits e) 30)"
  by (simp add: getB_OF_def bit_drop_bit_eq bit_31_add_30)

section \<open>Parity\<close>

text \<open>An even number of ones in the low byte.\<close>

definition even_parity :: "'a::len word \<Rightarrow> bool" where
  "even_parity w = even (length (filter (bit w) [0..<8]))"

lemma even_length_filter_Cons:
  "even (length (filter P (x # xs))) = (P x \<noteq> even (length (filter P xs)))"
  by simp

lemma upt_8: "[0..<8] = [0, 1, 2, 3, 4, 5, 6, 7]"
  by code_simp

lemma mask_lits: "(255 :: Bit32u) = mask 8" "(0x0F :: Bit32u) = mask 4"
  by (simp_all add: mask_eq_exp_minus_1)

text \<open>The table 0x9669 holds the parities of the sixteen nibbles.\<close>

lemma parity_table:
  assumes "w AND 0x0F = (w :: Bit32u)"
  shows "bit (0x9669 :: Bit32u) (unat w) \<longleftrightarrow> \<not> ((bit w 0 \<noteq> bit w 1) \<noteq> (bit w 2 \<noteq> bit w 3))"
proof -
  have "\<forall>b0 b1 b2 b3. bit (0x9669 :: Bit32u)
      (of_bool b0 + 2 * of_bool b1 + 4 * of_bool b2 + 8 * of_bool b3) =
      (\<not> ((b0 \<noteq> b1) \<noteq> (b2 \<noteq> b3)))"
    by code_simp
  moreover have "unat w = of_bool (bit w 0) + 2 * of_bool (bit w 1) + 4 * of_bool (bit w 2) + 8 * of_bool (bit w 3)"
  proof -
    have "take_bit 4 (unat w) = unat w"
      using arg_cong [OF assms, of unat] unfolding mask_lits take_bit_eq_mask [symmetric]
      by (simp only: unsigned_take_bit_eq)
    then show ?thesis
      by (simp add: numeral_eq_Suc take_bit_Suc_from_most bit_unsigned_iff)
  qed
  ultimately show ?thesis by simp
qed

lemma getB_PF_bits:
  "getB_PF e = even_parity (lf_result e XOR drop_bit 8 (auxbits e))"
proof -
  let ?x = "lf_result e XOR drop_bit 8 (auxbits e)"
  let ?t = "(255 AND ?x XOR drop_bit 4 (255 AND ?x)) AND 0x0F"
  have t: "?t AND 0x0F = ?t" by (simp add: and.assoc)
  have "255 AND lf_result e XOR (255 AND drop_bit 8 (auxbits e)) = 255 AND ?x"
    by (rule bit_word_eqI) (auto simp: bit_simps)
  then have "getB_PF e = bit (0x9669 :: Bit32u) (unat ?t)"
    by (simp only: getB_PF_def Let_def bit_drop_bit_eq) simp
  also have "\<dots> = (\<not> ((bit ?t 0 \<noteq> bit ?t 1) \<noteq> (bit ?t 2 \<noteq> bit ?t 3)))"
    by (rule parity_table [OF t])
  finally have pf: "getB_PF e = (\<not> ((bit ?t 0 \<noteq> bit ?t 1) \<noteq> (bit ?t 2 \<noteq> bit ?t 3)))" .
  have x: "bit ?t n = (n < 4 \<and> bit ?x n \<noteq> (n < 4 \<and> bit ?x (n + 4)))" for n
    unfolding mask_lits by (auto simp: bit_and_iff bit_xor_iff bit_mask_iff bit_drop_bit_eq add.commute)
  define b where "b = bit ?x"
  show ?thesis
    unfolding pf x even_parity_def upt_8 even_length_filter_Cons b_def [symmetric]
    by (cases "b 0"; cases "b 1"; cases "b 2"; cases "b 3"; cases "b 4"; cases "b 5"; cases "b 6";
        cases "b 7") simp_all
qed

section \<open>Reading back what was written\<close>

lemma even_parity_cong_words:
  "(\<And>n. n < 8 \<Longrightarrow> bit (v :: 'a::len word) n = bit (w :: 'b::len word) n) \<Longrightarrow> even_parity v = even_parity w"
  unfolding even_parity_def by (metis (mono_tags, lifting) atLeastLessThan_iff filter_cong set_upt)

lemma even_parity_cong: "(\<And>n. n < 8 \<Longrightarrow> bit (v :: 'a::len word) n = bit w n) \<Longrightarrow> even_parity v = even_parity w"
  by (rule even_parity_cong_words)

lemma even_parity_0 [simp]: "even_parity 0"
  by (simp add: even_parity_def)

lemma even_parity_1 [simp]: "\<not> even_parity (1 :: 'a::len word)"
  unfolding even_parity_def upt_8 by (simp add: bit_1_iff)

lemma bit32_less: "bit w n \<Longrightarrow> n < 32" for w :: Bit32u
  using bit_imp_le_length [of w n] by simp

lemmas getB_bits = getB_CF_bit getB_AF_bit getB_SF_bit getB_OF_bit getB_PF_bits getB_ZF_def

lemma set_OxxxxC_bits:
  "lf_result (SET_FLAGS_OxxxxC p c e) = lf_result e"
  "bit (auxbits (SET_FLAGS_OxxxxC p c e)) n \<longleftrightarrow>
     (if n = 30 then p \<noteq> c else if n = 31 then c else bit (auxbits e) n)"
  by (auto simp: SET_FLAGS_OxxxxC_def Let_def bit_simps dest: bit32_less split: if_splits)

lemma flags_set_OxxxxC: "flags_of (SET_FLAGS_OxxxxC p c e) = (flags_of e)\<lparr> OF := p, CF := c \<rparr>"
  by (auto simp: flags_of_def getB_bits set_OxxxxC_bits bit_simps intro!: even_parity_cong)

lemma flags_sel [simp]:
  "OF (flags_of e) = getB_OF e" "SF (flags_of e) = getB_SF e" "ZF (flags_of e) = getB_ZF e"
  "AF (flags_of e) = getB_AF e" "PF (flags_of e) = getB_PF e" "CF (flags_of e) = getB_CF e"
  by (simp_all add: flags_of_def)

lemma flags_set_CF: "flags_of (set_CF v e) = (flags_of e)\<lparr> CF := v \<rparr>"
  unfolding set_CF_def Let_def flags_set_OxxxxC by (simp add: flags_of_def)

lemma flags_set_OF: "flags_of (set_OF v e) = (flags_of e)\<lparr> OF := v \<rparr>"
  unfolding set_OF_def Let_def flags_set_OxxxxC by (simp add: flags_of_def)

lemma flags_set_AF: "flags_of (set_AF v e) = (flags_of e)\<lparr> AF := v \<rparr>"
proof -
  have "bit (auxbits (set_AF v e)) n \<longleftrightarrow> (if n = 3 then v else bit (auxbits e) n)"
    "lf_result (set_AF v e) = lf_result e" for n
    by (auto simp: set_AF_def Let_def bit_simps dest: bit32_less)
  then show ?thesis
    by (auto simp: flags_of_def getB_bits bit_simps intro!: even_parity_cong)
qed

lemma flags_set_SF: "flags_of (set_SF v e) = (flags_of e)\<lparr> SF := v \<rparr>"
proof -
  have "bit (auxbits (set_SF v e)) n \<longleftrightarrow> (bit (auxbits e) n \<noteq> (n = 0 \<and> getB_SF e \<noteq> v))"
    "lf_result (set_SF v e) = lf_result e" for n
    by (auto simp: set_SF_def Let_def bit_simps)
  then show ?thesis
    by (auto simp: flags_of_def getB_bits bit_simps intro!: even_parity_cong)
qed

lemma flags_set_PF: "flags_of (set_PF v e) = (flags_of e)\<lparr> PF := v \<rparr>"
proof -
  have b: "bit (auxbits (set_PF v e)) n \<longleftrightarrow> (if 8 \<le> n \<and> n < 16
      then bit (lf_result e) (n - 8) \<noteq> (n = 8 \<and> \<not> v) else bit (auxbits e) n)"
    and r: "lf_result (set_PF v e) = lf_result e" for n
  proof -
    have m: "(0xFF :: Bit32u) = mask 8" by (simp add: mask_eq_exp_minus_1)
    show "lf_result (set_PF v e) = lf_result e" by (simp add: set_PF_def Let_def)
    show "bit (auxbits (set_PF v e)) n \<longleftrightarrow> (if 8 \<le> n \<and> n < 16
      then bit (lf_result e) (n - 8) \<noteq> (n = 8 \<and> \<not> v) else bit (auxbits e) n)"
      unfolding set_PF_def Let_def m
      by (auto simp: bit_or_iff bit_and_iff bit_not_iff bit_push_bit_iff bit_mask_iff bit_xor_iff bit_of_bool_iff
          dest: bit32_less)
  qed
  have "even_parity (lf_result e XOR drop_bit 8 (auxbits (set_PF v e))) =
      even_parity (of_bool (\<not> v) :: Bit32u)"
    by (rule even_parity_cong) (auto simp: bit_simps b)
  then show ?thesis
    by (simp add: flags_of_def getB_bits r b)
qed

lemma flags_set_ZF: "flags_of (set_ZF v e) = (flags_of e)\<lparr> ZF := v \<rparr>"
proof (cases v)
  case True
  have m: "(255 :: Bit32u) = mask 8" by (simp add: mask_eq_exp_minus_1)
  have b: "bit (auxbits (assert_ZF e)) n \<longleftrightarrow> (bit (auxbits e) n \<noteq>
      (if n = 0 then bit (lf_result e) 31 else if 8 \<le> n \<and> n < 16 then bit (lf_result e) (n - 8) else False))" for n
    unfolding assert_ZF_def Let_def m
    by (auto simp: bit_or_iff bit_and_iff bit_push_bit_iff bit_mask_iff bit_xor_iff bit_drop_bit_eq bit_1_iff
        dest: bit_imp_le_length)
  have "lf_result (assert_ZF e) = 0" by (simp add: assert_ZF_def Let_def)
  then show ?thesis
    using True by (auto simp: set_ZF_def flags_of_def getB_bits b bit_simps intro!: even_parity_cong)
next
  case False
  have "bit (lf_result e OR bitm 8) 8" by simp
  then have "lf_result e OR bitm 8 \<noteq> 0" by (metis bit_0_eq bot_apply bot_bool_def)
  then show ?thesis
    using False by (auto simp: set_ZF_def clear_ZF_def flags_of_def getB_bits intro!: even_parity_cong) (auto simp: bit_simps)
qed

text \<open>The flags of a value in the layout of EFLAGS.\<close>

definition flags_of_bits :: "Bit32u \<Rightarrow> arith_flags" where
  "flags_of_bits v = \<lparr> OF = bit v 11, SF = bit v 7, ZF = bit v 6, AF = bit v 4, PF = bit v 2, CF = bit v 0 \<rparr>"

lemmas flags_set = flags_set_OF flags_set_SF flags_set_ZF flags_set_AF flags_set_PF flags_set_CF
  flags_set_OxxxxC

lemma flags_setEFlags: "flags_of (setEFlagsOSZAPC v e) = flags_of_bits v"
  by (simp add: setEFlagsOSZAPC_def flags_set flags_of_bits_def bit_drop_bit_eq)

section \<open>The flags of an operation\<close>

text \<open>
  An operation on \<open>w\<close>-bit operands: the carry (borrow), the carry out of the low nibble, and
  signed overflow, by the values of the operands as integers.
\<close>

definition add_flags :: "'a::len word \<Rightarrow> 'a word \<Rightarrow> bool \<Rightarrow> arith_flags" where
  "add_flags a b c =
     (let r = a + b + of_bool c in
      \<lparr> OF = (sint a + sint b + of_bool c \<noteq> sint r), SF = (sint r < 0), ZF = (r = 0),
        AF = (uint a mod 16 + uint b mod 16 + of_bool c \<ge> 16), PF = even_parity r,
        CF = (uint a + uint b + of_bool c \<ge> 2 ^ LENGTH('a)) \<rparr>)"

definition sub_flags :: "'a::len word \<Rightarrow> 'a word \<Rightarrow> bool \<Rightarrow> arith_flags" where
  "sub_flags a b c =
     (let r = a - b - of_bool c in
      \<lparr> OF = (sint a - sint b - of_bool c \<noteq> sint r), SF = (sint r < 0), ZF = (r = 0),
        AF = (uint a mod 16 < uint b mod 16 + of_bool c), PF = even_parity r,
        CF = (uint a < uint b + of_bool c) \<rparr>)"

definition logic_flags :: "'a::len word \<Rightarrow> arith_flags" where
  "logic_flags r =
     \<lparr> OF = False, SF = (sint r < 0), ZF = (r = 0), AF = False, PF = even_parity r, CF = False \<rparr>"

lemma sint_neg_bit: "sint r < 0 \<longleftrightarrow> bit r (LENGTH('a) - 1)" for r :: "'a::len word"
  by (simp add: bit_last_iff)

lemma sint_split:
  fixes a :: "'a::len word"
  shows "sint a = take_bit (LENGTH('a) - 1) (uint a) - 2 ^ (LENGTH('a) - 1) * of_bool (bit a (LENGTH('a) - 1))"
    and "uint a = take_bit (LENGTH('a) - 1) (uint a) + 2 ^ (LENGTH('a) - 1) * of_bool (bit a (LENGTH('a) - 1))"
proof -
  let ?n = "LENGTH('a) - 1"
  have "take_bit LENGTH('a) (uint a) = uint a" by (simp only: take_bit_length_eq flip: unsigned_take_bit_eq)
  then have "uint a = take_bit (Suc ?n) (uint a)" by simp
  then show u: "uint a = take_bit ?n (uint a) + 2 ^ ?n * of_bool (bit a ?n)"
    unfolding take_bit_Suc_from_most by (simp add: bit_uint_iff)
  have "sint a = signed_take_bit ?n (uint a)" by (simp add: sint_uint)
  also have "\<dots> = take_bit ?n (uint a) - 2 ^ ?n * of_bool (bit a ?n)"
    unfolding signed_take_bit_eq_take_bit_minus take_bit_Suc_from_most
    by (cases "bit a ?n") (simp_all only: bit_uint_iff, simp_all flip: power_Suc)
  finally show "sint a = take_bit ?n (uint a) - 2 ^ ?n * of_bool (bit a ?n)" .
qed

text \<open>Signed overflow is a carry into the sign bit without one out of it, or the reverse.\<close>

lemma overflow_carries:
  fixes a b :: "'a::len word"
  shows "sint a + sint b + of_bool c \<noteq> sint (a + b + of_bool c) \<longleftrightarrow>
    (carry_into LENGTH('a) a b c \<noteq> carry_into (LENGTH('a) - 1) a b c)"
proof -
  let ?n = "LENGTH('a) - 1" and ?r = "a + b + of_bool c"
  obtain x y z where xyz: "x = take_bit ?n (uint a)" "y = take_bit ?n (uint b)" "z = take_bit ?n (uint ?r)"
    "0 \<le> x" "x < 2 ^ ?n" "0 \<le> y" "y < 2 ^ ?n" "0 \<le> z" "z < 2 ^ ?n" by simp
  have len: "Suc ?n = LENGTH('a)" "?n < LENGTH('a)" by simp_all
  have c: "carry_into ?n a b c \<longleftrightarrow> 2 ^ ?n \<le> x + y + of_bool c"
    by (simp add: carry_into_def xyz)
  have "uint ?r = take_bit LENGTH('a) (uint a + uint b + of_bool c)"
    by (simp add: uint_word_ariths take_bit_eq_mod mod_simps)
  then have "z = take_bit ?n (uint a + uint b + of_bool c)"
    using len by (simp add: xyz take_bit_take_bit min_def)
  also have "\<dots> = take_bit ?n (x + y + of_bool c)"
    unfolding xyz by (metis take_bit_add)
  finally have "take_bit ?n (x + y + of_bool c) = z" ..
  then have z: "z = x + y + of_bool c - (if carry_into ?n a b c then 2 ^ ?n else 0)"
    using xyz(4-7) unfolding c take_bit_eq_mod
    by (cases c) (auto simp: mod_pos_pos_trivial not_le intro: int_mod_pos_eq [of _ _ 1])
  show ?thesis
    unfolding sint_split(1) [of a] sint_split(1) [of b] sint_split(1) [of ?r] bit_sum_carry [OF len(2)]
      xyz(1-3) [symmetric] z carry_into_Suc [OF len(2), unfolded len(1)]
    using power_le_zero_eq
    by (cases "bit a ?n"; cases "bit b ?n"; cases "carry_into ?n a b c") simp_all
qed

text \<open>
  The carry vector of a \<open>w\<close>-bit operation computed in 32 bits: only its low \<open>w\<close> bits matter, and
  they are those of the \<open>w\<close>-bit operation.
\<close>

definition lf_size :: "'a::len itself \<Rightarrow> bool" where
  "lf_size _ \<longleftrightarrow> LENGTH('a) \<in> {8, 16, 32}"

lemma lf_size_simps [simp]: "lf_size TYPE(8)" "lf_size TYPE(16)" "lf_size TYPE(32)"
  by (simp_all add: lf_size_def)

lemma COUT_VEC_narrow:
  assumes "n < LENGTH('a::len)" "n < 32"
  shows "bit (ADD_COUT_VEC x y s :: Bit32u) n = bit (ADD_COUT_VEC (ucast x) (ucast y) (ucast s) :: 'a word) n"
    and "bit (SUB_COUT_VEC x y s :: Bit32u) n = bit (SUB_COUT_VEC (ucast x) (ucast y) (ucast s) :: 'a word) n"
  using assms by (auto simp: ADD_COUT_VEC_def SUB_COUT_VEC_def bit_simps)

lemma lf_temp_bits:
  assumes "sz \<in> {8, 16, 32}"
  shows "bit (lf_temp sz v) 31 = bit v (sz - 1)" "bit (lf_temp sz v) 30 = bit v (sz - 2)"
    "bit (lf_temp sz v) 3 = bit v 3" "\<not> bit (lf_temp sz v) 0" "k < 8 \<Longrightarrow> \<not> bit (lf_temp sz v) (k + 8)"
proof -
  have m: "(0xFF :: Bit32u) = mask 8" by (simp add: mask_eq_exp_minus_1)
  show "bit (lf_temp sz v) 31 = bit v (sz - 1)" "bit (lf_temp sz v) 30 = bit v (sz - 2)"
    "bit (lf_temp sz v) 3 = bit v 3" "\<not> bit (lf_temp sz v) 0" "k < 8 \<Longrightarrow> \<not> bit (lf_temp sz v) (k + 8)"
    using assms unfolding lf_temp_def m
    by (auto simp: bit_or_iff bit_and_iff bit_not_iff bit_push_bit_iff bit_mask_iff)
qed

lemma lf_extend_bits:
  fixes r :: "'a::len word"
  assumes "lf_size TYPE('a)" "ucast s = r"
  shows "bit (lf_extend LENGTH('a) s) 31 = bit r (LENGTH('a) - 1)" "lf_extend LENGTH('a) s = 0 \<longleftrightarrow> r = 0"
    "k < 8 \<Longrightarrow> bit (lf_extend LENGTH('a) s) k = bit r k"
proof -
  have s: "bit r n \<longleftrightarrow> n < LENGTH('a) \<and> bit s n" for n using assms(2) by (auto simp: bit_simps)
  have last: "n = 7" if "7 \<le> n" "n < 8" for n :: nat using that by simp
  have last': "n = 15" if "15 \<le> n" "n < 16" for n :: nat using that by simp
  have b: "bit (lf_extend LENGTH('a) s) n = bit r (min n (LENGTH('a) - 1))" if "n < 32" for n
    using assms(1) that unfolding lf_size_def lf_extend_def
    by (auto simp: s bit_simps min_def dest: last last' split: if_splits)
  show "bit (lf_extend LENGTH('a) s) 31 = bit r (LENGTH('a) - 1)"
    "k < 8 \<Longrightarrow> bit (lf_extend LENGTH('a) s) k = bit r k"
    using assms(1) by (auto simp: b min_def lf_size_def)
  have "(\<forall>n < 32. \<not> bit r (min n (LENGTH('a) - 1))) \<longleftrightarrow> r = 0"
    using assms(1) bit_imp_le_length [of r] unfolding word_eq_0_iff_no_bit lf_size_def
    by (auto simp: min_def) (metis One_nat_def Suc_pred less_Suc_eq_le less_le_trans not_less_eq)+
  then show "lf_extend LENGTH('a) s = 0 \<longleftrightarrow> r = 0"
    unfolding word_eq_0_iff_no_bit [of "lf_extend LENGTH('a) s"] using b by (metis bit32_less)
qed

section \<open>What the flag macros compute\<close>

lemma flags_SIZE:
  fixes r :: "'a::len word"
  assumes "lf_size TYPE('a)" "ucast s = r"
  shows "flags_of (SET_FLAGS_OSZAPC_SIZE LENGTH('a) v s e) =
    \<lparr> OF = (bit v (LENGTH('a) - 1) \<noteq> bit v (LENGTH('a) - 2)), SF = (sint r < 0), ZF = (r = 0),
      AF = bit v 3, PF = even_parity r, CF = bit v (LENGTH('a) - 1) \<rparr>"
proof -
  have sz: "LENGTH('a) \<in> {8, 16, 32}" using assms(1) by (simp add: lf_size_def)
  have "even_parity (lf_extend LENGTH('a) s XOR drop_bit 8 (lf_temp LENGTH('a) v)) = even_parity r"
    using lf_extend_bits(3) [OF assms] lf_temp_bits(5) [OF sz]
    by (intro even_parity_cong_words) (simp add: bit_xor_iff bit_drop_bit_eq add.commute)
  then show ?thesis
    using lf_extend_bits(1,2) [OF assms] lf_temp_bits(1-4) [OF sz, of v]
    by (auto simp: flags_of_def SET_FLAGS_OSZAPC_SIZE_def getB_bits sint_neg_bit)
qed

text \<open>The variants without the carry flag differ in that flag only.\<close>

lemma flags_OSZAP_SIZE:
  assumes "sz \<in> {8, 16, 32}"
  shows "flags_of (SET_FLAGS_OSZAP_SIZE sz v s e) =
    (flags_of (SET_FLAGS_OSZAPC_SIZE sz v s e))\<lparr> CF := getB_CF e \<rparr>"
proof -
  let ?d = "(auxbits e XOR lf_temp sz v) AND bitm 31"
  define t where "t = lf_temp sz v XOR (?d XOR drop_bit 1 ?d)"
  have d: "bit t n \<longleftrightarrow>
      (if n = 31 then bit (auxbits e) 31
       else if n = 30 then bit (lf_temp sz v) 30 \<noteq> (bit (auxbits e) 31 \<noteq> bit (lf_temp sz v) 31)
       else bit (lf_temp sz v) n)" for n
    unfolding t_def by (auto simp: bit_xor_iff bit_and_iff bit_drop_bit_eq)
  have "even_parity (w XOR drop_bit 8 t) = even_parity (w XOR drop_bit 8 (lf_temp sz v))" for w
    by (rule even_parity_cong) (simp add: bit_xor_iff bit_drop_bit_eq d)
  moreover have "SET_FLAGS_OSZAP_SIZE sz v s e = \<lparr> lf_result = lf_extend sz s, auxbits = t \<rparr>"
    by (simp only: SET_FLAGS_OSZAP_SIZE_def Let_def t_def)
  ultimately show ?thesis
    by (cases "bit (auxbits e) 31"; cases "bit (lf_temp sz v) 31")
      (simp_all add: SET_FLAGS_OSZAPC_SIZE_def flags_of_def getB_bits d)
qed

lemma flags_LOGIC:
  fixes r :: "'a::len word"
  assumes "lf_size TYPE('a)" "ucast s = r"
  shows "flags_of (SET_FLAGS_OSZAPC_LOGIC LENGTH('a) s e) = logic_flags r"
  unfolding SET_FLAGS_OSZAPC_LOGIC_def flags_SIZE [OF assms] by (simp add: logic_flags_def)

lemma lf_size_bits:
  assumes "lf_size TYPE('a::len)"
  shows "LENGTH('a) - 1 < LENGTH('a)" "LENGTH('a) - 2 < LENGTH('a)" "3 < LENGTH('a)" "LENGTH('a) \<le> 32"
    "Suc (LENGTH('a) - 1) = LENGTH('a)" "Suc (LENGTH('a) - 2) = LENGTH('a) - 1"
    "LENGTH('a) - 1 < 32" "LENGTH('a) - 2 < 32"
  using assms by (auto simp: lf_size_def)

lemma take_bit_4: "take_bit (Suc 3) i = i mod 16" for i :: int
  by (simp add: take_bit_eq_mod)

lemma carry_into_LENGTH:
  "carry_into LENGTH('a) a b c \<longleftrightarrow> uint a + uint b + of_bool c \<ge> 2 ^ LENGTH('a)" for a b :: "'a::len word"
  by (simp add: carry_into_def take_bit_int_eq_self)

lemma flags_ADD:
  fixes r :: "'a::len word"
  assumes "lf_size TYPE('a)" and r: "ucast s = (ucast x + ucast y + of_bool c :: 'a word)"
  shows "flags_of (SET_FLAGS_OSZAPC_ADD LENGTH('a) x y s e) = add_flags (ucast x :: 'a word) (ucast y) c"
proof -
  note sz = lf_size_bits [OF assms(1)]
  have b: "bit (ADD_COUT_VEC x y s) n = carry_into (Suc n) (ucast x :: 'a word) (ucast y) c"
    if "n < LENGTH('a)" for n
    using that sz(4) by (simp only: COUT_VEC_narrow(1) [of n, where 'a = 'a] r bit_ADD_COUT_VEC less_le_trans)
  show ?thesis
    unfolding SET_FLAGS_OSZAPC_ADD_def flags_SIZE [OF assms] add_flags_def Let_def
    by (simp only: b sz overflow_carries carry_into_LENGTH) (simp add: carry_into_def take_bit_4 [simplified])
qed

lemma sint_not: "sint (NOT w) = - sint w - 1" for w :: "'a::len word"
proof -
  have "(2 :: int) ^ (LENGTH('a) - Suc 0) \<le> 2 ^ LENGTH('a)" by (rule power_increasing) auto
  then have "- (2 ^ LENGTH('a)) \<le> NOT (sint w)" "NOT (sint w) < 2 ^ LENGTH('a)"
    using sint_greater_eq [of w] sint_less [of w] unfolding not_eq_complement by linarith+
  then show ?thesis
    by (simp add: signed_not_eq signed_take_bit_int_eq_self) (simp add: not_eq_complement)
qed

lemma flags_SUB:
  fixes r :: "'a::len word"
  assumes "lf_size TYPE('a)" and r: "ucast s = (ucast x - ucast y - of_bool c :: 'a word)"
  shows "flags_of (SET_FLAGS_OSZAPC_SUB LENGTH('a) x y s e) = sub_flags (ucast x :: 'a word) (ucast y) c"
proof -
  note sz = lf_size_bits [OF assms(1)]
  let ?a = "ucast x :: 'a word" and ?b = "ucast y :: 'a word"
  have n: "bit (SUB_COUT_VEC x y s) n = (\<not> carry_into (Suc n) ?a (NOT ?b) (\<not> c))"
    if "n < LENGTH('a)" for n
  proof -
    have "bit (SUB_COUT_VEC x y s) n = bit (SUB_COUT_VEC ?a ?b (?a - ?b - of_bool c)) n"
      using that sz(4) COUT_VEC_narrow(2) [of n x y s, where 'a = 'a] by (simp add: r)
    also have "\<dots> = (\<not> carry_into (Suc n) ?a (NOT ?b) (\<not> c))"
      using that by (simp only: SUB_COUT_VEC_add sub_as_add bit_not_iff bit_ADD_COUT_VEC) simp
    finally show ?thesis .
  qed
  have b: "bit (SUB_COUT_VEC x y s) n \<longleftrightarrow> take_bit (Suc n) (uint ?a) < take_bit (Suc n) (uint ?b) + of_bool c"
    if "n < LENGTH('a)" for n
    using that sz(4)
    by (simp only: COUT_VEC_narrow(2) [of n, where 'a = 'a] r bit_SUB_COUT_VEC less_le_trans)
  have "sint (NOT ?b) = - sint ?b - 1" by (rule sint_not)
  then have eq: "sint ?a - sint ?b - of_bool c = sint ?a + sint (NOT ?b) + of_bool (\<not> c)" by simp
  have ov: "(sint ?a - sint ?b - of_bool c \<noteq> sint (?a - ?b - of_bool c)) =
      (bit (SUB_COUT_VEC x y s) (LENGTH('a) - 1) \<noteq> bit (SUB_COUT_VEC x y s) (LENGTH('a) - 2))"
    unfolding n [OF sz(1)] n [OF sz(2)] sz(5,6) sub_as_add eq overflow_carries by simp
  show ?thesis
    unfolding SET_FLAGS_OSZAPC_SUB_def flags_SIZE [OF assms] sub_flags_def Let_def ov
    by (simp only: b [OF sz(1)] b [OF sz(3)] sz(5)) (simp add: take_bit_int_eq_self take_bit_4 [simplified])
qed

lemma flags_OSZAP_ADD:
  fixes r :: "'a::len word"
  assumes "lf_size TYPE('a)" and "ucast s = (ucast x + ucast y + of_bool c :: 'a word)"
  shows "flags_of (SET_FLAGS_OSZAP_ADD LENGTH('a) x y s e) =
    (add_flags (ucast x :: 'a word) (ucast y) c)\<lparr> CF := getB_CF e \<rparr>"
  using assms flags_ADD [OF assms]
  by (simp add: SET_FLAGS_OSZAP_ADD_def flags_OSZAP_SIZE lf_size_def flip: SET_FLAGS_OSZAPC_ADD_def)

lemma flags_OSZAP_SUB:
  fixes r :: "'a::len word"
  assumes "lf_size TYPE('a)" and "ucast s = (ucast x - ucast y - of_bool c :: 'a word)"
  shows "flags_of (SET_FLAGS_OSZAP_SUB LENGTH('a) x y s e) =
    (sub_flags (ucast x :: 'a word) (ucast y) c)\<lparr> CF := getB_CF e \<rparr>"
  using assms flags_SUB [OF assms]
  by (simp add: SET_FLAGS_OSZAP_SUB_def flags_OSZAP_SIZE lf_size_def flip: SET_FLAGS_OSZAPC_SUB_def)

end
