(* ===== verification/CpuState.thy ===== *)
theory CpuState
  imports LazyFlags_Spec
begin

text \<open>
  The processor state the register instructions work on, \<open>cpu/cpu.h\<close>: the general registers, each
  with its 32-bit, 16-bit and two 8-bit views (the union \<open>bx_gen_reg_t\<close>, little-endian, without the
  64-bit extension), and the lazy flags.  An instruction is the record \<open>bxInstruction_c\<close> of the
  fields its handlers read: register numbers, immediates, and \<open>count_CL\<close>, whether the opcode of a
  shift is the one that counts in CL (\<open>getIaOpcode() == BX_IA_SHL_Ed\<close> and its likes).  Memory
  operands, the instruction pointer and the fetch loop are not part of it.
\<close>

record BX_CPU_C =
  gen_reg :: "nat \<Rightarrow> Bit32u"
  oszapc :: bx_lf_flags_entry

record bxInstruction_c =
  dst :: nat
  src :: nat
  Ib :: Bit8u
  Iw :: Bit16u
  Id :: Bit32u
  count_CL :: bool

type_synonym handler = "bxInstruction_c \<Rightarrow> BX_CPU_C \<Rightarrow> BX_CPU_C"

section \<open>Registers\<close>

definition upd_reg :: "nat \<Rightarrow> (Bit32u \<Rightarrow> Bit32u) \<Rightarrow> BX_CPU_C \<Rightarrow> BX_CPU_C" where
  "upd_reg r f c = c\<lparr> gen_reg := (gen_reg c)(r := f (gen_reg c r)) \<rparr>"

text \<open>The bytes \<open>rl\<close> and \<open>rh\<close> and the word \<open>rx\<close> of the union.\<close>

definition set_rl :: "Bit8u \<Rightarrow> Bit32u \<Rightarrow> Bit32u" where
  "set_rl v w = (w AND NOT (mask 8)) OR ucast v"

definition set_rh :: "Bit8u \<Rightarrow> Bit32u \<Rightarrow> Bit32u" where
  "set_rh v w = (w AND NOT (push_bit 8 (mask 8))) OR push_bit 8 (ucast v)"

definition set_rx :: "Bit16u \<Rightarrow> Bit32u \<Rightarrow> Bit32u" where
  "set_rx v w = (w AND NOT (mask 16)) OR ucast v"

definition READ_8BIT_REG :: "nat \<Rightarrow> BX_CPU_C \<Rightarrow> Bit8u" where
  "READ_8BIT_REG r c = (if bit r 2 then ucast (drop_bit 8 (gen_reg c (r - 4))) else ucast (gen_reg c r))"

definition READ_16BIT_REG :: "nat \<Rightarrow> BX_CPU_C \<Rightarrow> Bit16u" where
  "READ_16BIT_REG r c = ucast (gen_reg c r)"

definition READ_32BIT_REG :: "nat \<Rightarrow> BX_CPU_C \<Rightarrow> Bit32u" where
  "READ_32BIT_REG r c = gen_reg c r"

definition WRITE_8BIT_REG :: "nat \<Rightarrow> Bit8u \<Rightarrow> BX_CPU_C \<Rightarrow> BX_CPU_C" where
  "WRITE_8BIT_REG r v c = (if bit r 2 then upd_reg (r - 4) (set_rh v) c else upd_reg r (set_rl v) c)"

definition WRITE_16BIT_REG :: "nat \<Rightarrow> Bit16u \<Rightarrow> BX_CPU_C \<Rightarrow> BX_CPU_C" where
  "WRITE_16BIT_REG r v c = upd_reg r (set_rx v) c"

definition WRITE_32BIT_REGZ :: "nat \<Rightarrow> Bit32u \<Rightarrow> BX_CPU_C \<Rightarrow> BX_CPU_C" where
  "WRITE_32BIT_REGZ r v c = upd_reg r (\<lambda>_. v) c"

abbreviation AL :: "BX_CPU_C \<Rightarrow> Bit8u" where "AL c \<equiv> ucast (gen_reg c 0)"
abbreviation AH :: "BX_CPU_C \<Rightarrow> Bit8u" where "AH c \<equiv> ucast (drop_bit 8 (gen_reg c 0))"
abbreviation CL :: "BX_CPU_C \<Rightarrow> Bit8u" where "CL c \<equiv> ucast (gen_reg c 1)"
abbreviation AX :: "BX_CPU_C \<Rightarrow> Bit16u" where "AX c \<equiv> ucast (gen_reg c 0)"
abbreviation DX :: "BX_CPU_C \<Rightarrow> Bit16u" where "DX c \<equiv> ucast (gen_reg c 2)"
abbreviation EAX :: "BX_CPU_C \<Rightarrow> Bit32u" where "EAX c \<equiv> gen_reg c 0"
abbreviation EDX :: "BX_CPU_C \<Rightarrow> Bit32u" where "EDX c \<equiv> gen_reg c 2"

definition set_flags :: "(bx_lf_flags_entry \<Rightarrow> bx_lf_flags_entry) \<Rightarrow> BX_CPU_C \<Rightarrow> BX_CPU_C" where
  "set_flags f c = c\<lparr> oszapc := f (oszapc c) \<rparr>"

section \<open>The register file as an array of bytes and words\<close>

named_theorems reg_simps \<open>reading a register after a write\<close>

lemma views [reg_simps]:
  "ucast (set_rl v w) = v" "ucast (drop_bit 8 (set_rh v w)) = v" "ucast (set_rx x w) = x"
  "ucast (drop_bit 8 (set_rl v w)) = (ucast (drop_bit 8 w) :: Bit8u)"
  "ucast (set_rh v w) = (ucast w :: Bit8u)"
  by (rule bit_word_eqI; auto simp: set_rl_def set_rh_def set_rx_def bit_or_iff bit_and_iff bit_not_iff
      bit_mask_iff bit_push_bit_iff bit_drop_bit_eq bit_ucast_iff dest: bit8_less)+

lemma set_flags_reg [reg_simps]:
  "gen_reg (set_flags f c) = gen_reg c" "oszapc (set_flags f c) = f (oszapc c)"
  "READ_8BIT_REG r (set_flags f c) = READ_8BIT_REG r c" "READ_16BIT_REG r (set_flags f c) = READ_16BIT_REG r c"
  "READ_32BIT_REG r (set_flags f c) = READ_32BIT_REG r c"
  by (simp_all add: set_flags_def READ_8BIT_REG_def READ_16BIT_REG_def READ_32BIT_REG_def)

lemma write_oszapc [reg_simps]:
  "oszapc (WRITE_8BIT_REG r v c) = oszapc c" "oszapc (WRITE_16BIT_REG r x c) = oszapc c"
  "oszapc (WRITE_32BIT_REGZ r w c) = oszapc c"
  by (simp_all add: WRITE_8BIT_REG_def WRITE_16BIT_REG_def WRITE_32BIT_REGZ_def upd_reg_def)

lemma bit_2_reg: "r < 8 \<Longrightarrow> bit r 2 \<longleftrightarrow> 4 \<le> r" for r :: nat
proof -
  have "\<forall>r \<in> set [0..<8]. bit (r :: nat) 2 \<longleftrightarrow> 4 \<le> r" by code_simp
  then show "r < 8 \<Longrightarrow> bit r 2 \<longleftrightarrow> 4 \<le> r" by simp
qed

lemma read_write_8 [reg_simps]:
  "READ_8BIT_REG r (WRITE_8BIT_REG r v c) = v"
  by (simp add: READ_8BIT_REG_def WRITE_8BIT_REG_def upd_reg_def views)

lemma read_write_16 [reg_simps]:
  "READ_16BIT_REG r' (WRITE_16BIT_REG r v c) = (if r' = r then v else READ_16BIT_REG r' c)"
  by (simp add: READ_16BIT_REG_def WRITE_16BIT_REG_def upd_reg_def views)

lemma read_write_32 [reg_simps]:
  "READ_32BIT_REG r' (WRITE_32BIT_REGZ r v c) = (if r' = r then v else READ_32BIT_REG r' c)"
  by (simp add: READ_32BIT_REG_def WRITE_32BIT_REGZ_def upd_reg_def)

text \<open>The eight byte registers do not overlap.\<close>

lemma read_write_8_other [reg_simps]:
  assumes "r < 8" "r' < 8" "r' \<noteq> r"
  shows "READ_8BIT_REG r' (WRITE_8BIT_REG r v c) = READ_8BIT_REG r' c"
  using assms
  by (auto simp: READ_8BIT_REG_def WRITE_8BIT_REG_def upd_reg_def views bit_2_reg)

end
