(* ===== verification/CpuCond.thy ===== *)
theory CpuCond
  imports CpuState
begin

text \<open>
  The instructions that read the flags: SETcc on byte registers (\<open>cpu/bit.cc\<close>) and CMOVcc between
  registers (\<open>cpu/data_xfer32.cc\<close>, \<open>cpu/data_xfer16.cc\<close>), one definition per handler and condition.
\<close>

section \<open>SETcc (\<open>bit.cc\<close>)\<close>

definition SETO_EbR :: handler where
  "SETO_EbR i c = WRITE_8BIT_REG (dst i) (of_bool (getB_OF (oszapc c))) c"

definition SETNO_EbR :: handler where
  "SETNO_EbR i c = WRITE_8BIT_REG (dst i) (of_bool (\<not> getB_OF (oszapc c))) c"

definition SETB_EbR :: handler where
  "SETB_EbR i c = WRITE_8BIT_REG (dst i) (of_bool (getB_CF (oszapc c))) c"

definition SETNB_EbR :: handler where
  "SETNB_EbR i c = WRITE_8BIT_REG (dst i) (of_bool (\<not> getB_CF (oszapc c))) c"

definition SETZ_EbR :: handler where
  "SETZ_EbR i c = WRITE_8BIT_REG (dst i) (of_bool (getB_ZF (oszapc c))) c"

definition SETNZ_EbR :: handler where
  "SETNZ_EbR i c = WRITE_8BIT_REG (dst i) (of_bool (\<not> getB_ZF (oszapc c))) c"

definition SETBE_EbR :: handler where
  "SETBE_EbR i c = WRITE_8BIT_REG (dst i) (of_bool (getB_CF (oszapc c) \<or> getB_ZF (oszapc c))) c"

definition SETNBE_EbR :: handler where
  "SETNBE_EbR i c = WRITE_8BIT_REG (dst i) (of_bool (\<not> (getB_CF (oszapc c) \<or> getB_ZF (oszapc c)))) c"

definition SETS_EbR :: handler where
  "SETS_EbR i c = WRITE_8BIT_REG (dst i) (of_bool (getB_SF (oszapc c))) c"

definition SETNS_EbR :: handler where
  "SETNS_EbR i c = WRITE_8BIT_REG (dst i) (of_bool (\<not> getB_SF (oszapc c))) c"

definition SETP_EbR :: handler where
  "SETP_EbR i c = WRITE_8BIT_REG (dst i) (of_bool (getB_PF (oszapc c))) c"

definition SETNP_EbR :: handler where
  "SETNP_EbR i c = WRITE_8BIT_REG (dst i) (of_bool (\<not> getB_PF (oszapc c))) c"

definition SETL_EbR :: handler where
  "SETL_EbR i c = WRITE_8BIT_REG (dst i) (of_bool (getB_SF (oszapc c) \<noteq> getB_OF (oszapc c))) c"

definition SETNL_EbR :: handler where
  "SETNL_EbR i c = WRITE_8BIT_REG (dst i) (of_bool (\<not> (getB_SF (oszapc c) \<noteq> getB_OF (oszapc c)))) c"

definition SETLE_EbR :: handler where
  "SETLE_EbR i c = WRITE_8BIT_REG (dst i) (of_bool (getB_ZF (oszapc c) \<or> getB_SF (oszapc c) \<noteq> getB_OF (oszapc c))) c"

definition SETNLE_EbR :: handler where
  "SETNLE_EbR i c = WRITE_8BIT_REG (dst i) (of_bool (\<not> (getB_ZF (oszapc c) \<or> getB_SF (oszapc c) \<noteq> getB_OF (oszapc c)))) c"

section \<open>CMOVcc (\<open>data_xfer32.cc\<close>)\<close>

definition CMOVO_GdEdR :: handler where
  "CMOVO_GdEdR i c = (if getB_OF (oszapc c) then WRITE_32BIT_REGZ (dst i) (READ_32BIT_REG (src i) c) c else c)"

definition CMOVNO_GdEdR :: handler where
  "CMOVNO_GdEdR i c = (if \<not> getB_OF (oszapc c) then WRITE_32BIT_REGZ (dst i) (READ_32BIT_REG (src i) c) c else c)"

definition CMOVB_GdEdR :: handler where
  "CMOVB_GdEdR i c = (if getB_CF (oszapc c) then WRITE_32BIT_REGZ (dst i) (READ_32BIT_REG (src i) c) c else c)"

definition CMOVNB_GdEdR :: handler where
  "CMOVNB_GdEdR i c = (if \<not> getB_CF (oszapc c) then WRITE_32BIT_REGZ (dst i) (READ_32BIT_REG (src i) c) c else c)"

definition CMOVZ_GdEdR :: handler where
  "CMOVZ_GdEdR i c = (if getB_ZF (oszapc c) then WRITE_32BIT_REGZ (dst i) (READ_32BIT_REG (src i) c) c else c)"

definition CMOVNZ_GdEdR :: handler where
  "CMOVNZ_GdEdR i c = (if \<not> getB_ZF (oszapc c) then WRITE_32BIT_REGZ (dst i) (READ_32BIT_REG (src i) c) c else c)"

definition CMOVBE_GdEdR :: handler where
  "CMOVBE_GdEdR i c = (if getB_CF (oszapc c) \<or> getB_ZF (oszapc c) then WRITE_32BIT_REGZ (dst i) (READ_32BIT_REG (src i) c) c else c)"

definition CMOVNBE_GdEdR :: handler where
  "CMOVNBE_GdEdR i c = (if \<not> (getB_CF (oszapc c) \<or> getB_ZF (oszapc c)) then WRITE_32BIT_REGZ (dst i) (READ_32BIT_REG (src i) c) c else c)"

definition CMOVS_GdEdR :: handler where
  "CMOVS_GdEdR i c = (if getB_SF (oszapc c) then WRITE_32BIT_REGZ (dst i) (READ_32BIT_REG (src i) c) c else c)"

definition CMOVNS_GdEdR :: handler where
  "CMOVNS_GdEdR i c = (if \<not> getB_SF (oszapc c) then WRITE_32BIT_REGZ (dst i) (READ_32BIT_REG (src i) c) c else c)"

definition CMOVP_GdEdR :: handler where
  "CMOVP_GdEdR i c = (if getB_PF (oszapc c) then WRITE_32BIT_REGZ (dst i) (READ_32BIT_REG (src i) c) c else c)"

definition CMOVNP_GdEdR :: handler where
  "CMOVNP_GdEdR i c = (if \<not> getB_PF (oszapc c) then WRITE_32BIT_REGZ (dst i) (READ_32BIT_REG (src i) c) c else c)"

definition CMOVL_GdEdR :: handler where
  "CMOVL_GdEdR i c = (if getB_SF (oszapc c) \<noteq> getB_OF (oszapc c) then WRITE_32BIT_REGZ (dst i) (READ_32BIT_REG (src i) c) c else c)"

definition CMOVNL_GdEdR :: handler where
  "CMOVNL_GdEdR i c = (if getB_SF (oszapc c) = getB_OF (oszapc c) then WRITE_32BIT_REGZ (dst i) (READ_32BIT_REG (src i) c) c else c)"

definition CMOVLE_GdEdR :: handler where
  "CMOVLE_GdEdR i c = (if getB_ZF (oszapc c) \<or> getB_SF (oszapc c) \<noteq> getB_OF (oszapc c) then WRITE_32BIT_REGZ (dst i) (READ_32BIT_REG (src i) c) c else c)"

definition CMOVNLE_GdEdR :: handler where
  "CMOVNLE_GdEdR i c = (if \<not> (getB_ZF (oszapc c) \<or> getB_SF (oszapc c) \<noteq> getB_OF (oszapc c)) then WRITE_32BIT_REGZ (dst i) (READ_32BIT_REG (src i) c) c else c)"

section \<open>CMOVcc (\<open>data_xfer16.cc\<close>)\<close>

definition CMOVO_GwEwR :: handler where
  "CMOVO_GwEwR i c = (if getB_OF (oszapc c) then WRITE_16BIT_REG (dst i) (READ_16BIT_REG (src i) c) c else c)"

definition CMOVNO_GwEwR :: handler where
  "CMOVNO_GwEwR i c = (if \<not> getB_OF (oszapc c) then WRITE_16BIT_REG (dst i) (READ_16BIT_REG (src i) c) c else c)"

definition CMOVB_GwEwR :: handler where
  "CMOVB_GwEwR i c = (if getB_CF (oszapc c) then WRITE_16BIT_REG (dst i) (READ_16BIT_REG (src i) c) c else c)"

definition CMOVNB_GwEwR :: handler where
  "CMOVNB_GwEwR i c = (if \<not> getB_CF (oszapc c) then WRITE_16BIT_REG (dst i) (READ_16BIT_REG (src i) c) c else c)"

definition CMOVZ_GwEwR :: handler where
  "CMOVZ_GwEwR i c = (if getB_ZF (oszapc c) then WRITE_16BIT_REG (dst i) (READ_16BIT_REG (src i) c) c else c)"

definition CMOVNZ_GwEwR :: handler where
  "CMOVNZ_GwEwR i c = (if \<not> getB_ZF (oszapc c) then WRITE_16BIT_REG (dst i) (READ_16BIT_REG (src i) c) c else c)"

definition CMOVBE_GwEwR :: handler where
  "CMOVBE_GwEwR i c = (if getB_CF (oszapc c) \<or> getB_ZF (oszapc c) then WRITE_16BIT_REG (dst i) (READ_16BIT_REG (src i) c) c else c)"

definition CMOVNBE_GwEwR :: handler where
  "CMOVNBE_GwEwR i c = (if \<not> (getB_CF (oszapc c) \<or> getB_ZF (oszapc c)) then WRITE_16BIT_REG (dst i) (READ_16BIT_REG (src i) c) c else c)"

definition CMOVS_GwEwR :: handler where
  "CMOVS_GwEwR i c = (if getB_SF (oszapc c) then WRITE_16BIT_REG (dst i) (READ_16BIT_REG (src i) c) c else c)"

definition CMOVNS_GwEwR :: handler where
  "CMOVNS_GwEwR i c = (if \<not> getB_SF (oszapc c) then WRITE_16BIT_REG (dst i) (READ_16BIT_REG (src i) c) c else c)"

definition CMOVP_GwEwR :: handler where
  "CMOVP_GwEwR i c = (if getB_PF (oszapc c) then WRITE_16BIT_REG (dst i) (READ_16BIT_REG (src i) c) c else c)"

definition CMOVNP_GwEwR :: handler where
  "CMOVNP_GwEwR i c = (if \<not> getB_PF (oszapc c) then WRITE_16BIT_REG (dst i) (READ_16BIT_REG (src i) c) c else c)"

definition CMOVL_GwEwR :: handler where
  "CMOVL_GwEwR i c = (if getB_SF (oszapc c) \<noteq> getB_OF (oszapc c) then WRITE_16BIT_REG (dst i) (READ_16BIT_REG (src i) c) c else c)"

definition CMOVNL_GwEwR :: handler where
  "CMOVNL_GwEwR i c = (if getB_SF (oszapc c) = getB_OF (oszapc c) then WRITE_16BIT_REG (dst i) (READ_16BIT_REG (src i) c) c else c)"

definition CMOVLE_GwEwR :: handler where
  "CMOVLE_GwEwR i c = (if getB_ZF (oszapc c) \<or> getB_SF (oszapc c) \<noteq> getB_OF (oszapc c) then WRITE_16BIT_REG (dst i) (READ_16BIT_REG (src i) c) c else c)"

definition CMOVNLE_GwEwR :: handler where
  "CMOVNLE_GwEwR i c = (if \<not> (getB_ZF (oszapc c) \<or> getB_SF (oszapc c) \<noteq> getB_OF (oszapc c)) then WRITE_16BIT_REG (dst i) (READ_16BIT_REG (src i) c) c else c)"

end
