(* ===== verification/CpuArith.thy ===== *)
theory CpuArith
  imports CpuState
begin

text \<open>
  The integer arithmetic instructions on registers and immediates: the register forms of
  \<open>cpu/arith8.cc\<close>, \<open>cpu/arith16.cc\<close> and \<open>cpu/arith32.cc\<close>, one definition per handler.  The 8 and 16-bit
  handlers compute in \<open>Bit32u\<close> variables and truncate when they write the register, as the C code
  does.  The memory forms of the same instructions and \<open>CMPXCHG8B\<close> are left out.
\<close>

section \<open>\<open>arith8.cc\<close>\<close>

definition ADD_GbEbR :: handler where
  "ADD_GbEbR i c =
     (let op1 = (ucast (READ_8BIT_REG (dst i) c) :: Bit32u);
          op2 = (ucast (READ_8BIT_REG (src i) c) :: Bit32u);
          sm = op1 + op2
      in set_flags (SET_FLAGS_OSZAPC_ADD 8 op1 op2 sm) (WRITE_8BIT_REG (dst i) (ucast sm) c))"

definition ADC_GbEbR :: handler where
  "ADC_GbEbR i c =
     (let op1 = (ucast (READ_8BIT_REG (dst i) c) :: Bit32u);
          op2 = (ucast (READ_8BIT_REG (src i) c) :: Bit32u);
          sm = op1 + op2 + of_bool (getB_CF (oszapc c))
      in set_flags (SET_FLAGS_OSZAPC_ADD 8 op1 op2 sm) (WRITE_8BIT_REG (dst i) (ucast sm) c))"

definition SBB_GbEbR :: handler where
  "SBB_GbEbR i c =
     (let op1 = (ucast (READ_8BIT_REG (dst i) c) :: Bit32u);
          op2 = (ucast (READ_8BIT_REG (src i) c) :: Bit32u);
          diff = op1 - (op2 + of_bool (getB_CF (oszapc c)))
      in set_flags (SET_FLAGS_OSZAPC_SUB 8 op1 op2 diff) (WRITE_8BIT_REG (dst i) (ucast diff) c))"

definition SUB_GbEbR :: handler where
  "SUB_GbEbR i c =
     (let op1 = (ucast (READ_8BIT_REG (dst i) c) :: Bit32u);
          op2 = (ucast (READ_8BIT_REG (src i) c) :: Bit32u);
          diff = op1 - op2
      in set_flags (SET_FLAGS_OSZAPC_SUB 8 op1 op2 diff) (WRITE_8BIT_REG (dst i) (ucast diff) c))"

definition CMP_GbEbR :: handler where
  "CMP_GbEbR i c =
     (let op1 = (ucast (READ_8BIT_REG (dst i) c) :: Bit32u);
          op2 = (ucast (READ_8BIT_REG (src i) c) :: Bit32u);
          diff = op1 - op2
      in set_flags (SET_FLAGS_OSZAPC_SUB 8 op1 op2 diff) c)"

definition ADD_EbIbR :: handler where
  "ADD_EbIbR i c =
     (let op1 = (ucast (READ_8BIT_REG (dst i) c) :: Bit32u);
          op2 = (ucast (Ib i) :: Bit32u);
          sm = op1 + op2
      in set_flags (SET_FLAGS_OSZAPC_ADD 8 op1 op2 sm) (WRITE_8BIT_REG (dst i) (ucast sm) c))"

definition ADC_EbIbR :: handler where
  "ADC_EbIbR i c =
     (let op1 = (ucast (READ_8BIT_REG (dst i) c) :: Bit32u);
          op2 = (ucast (Ib i) :: Bit32u);
          sm = op1 + op2 + of_bool (getB_CF (oszapc c))
      in set_flags (SET_FLAGS_OSZAPC_ADD 8 op1 op2 sm) (WRITE_8BIT_REG (dst i) (ucast sm) c))"

definition SBB_EbIbR :: handler where
  "SBB_EbIbR i c =
     (let op1 = (ucast (READ_8BIT_REG (dst i) c) :: Bit32u);
          op2 = (ucast (Ib i) :: Bit32u);
          diff = op1 - (op2 + of_bool (getB_CF (oszapc c)))
      in set_flags (SET_FLAGS_OSZAPC_SUB 8 op1 op2 diff) (WRITE_8BIT_REG (dst i) (ucast diff) c))"

definition SUB_EbIbR :: handler where
  "SUB_EbIbR i c =
     (let op1 = (ucast (READ_8BIT_REG (dst i) c) :: Bit32u);
          op2 = (ucast (Ib i) :: Bit32u);
          diff = op1 - op2
      in set_flags (SET_FLAGS_OSZAPC_SUB 8 op1 op2 diff) (WRITE_8BIT_REG (dst i) (ucast diff) c))"

definition CMP_EbIbR :: handler where
  "CMP_EbIbR i c =
     (let op1 = (ucast (READ_8BIT_REG (dst i) c) :: Bit32u);
          op2 = (ucast (Ib i) :: Bit32u);
          diff = op1 - op2
      in set_flags (SET_FLAGS_OSZAPC_SUB 8 op1 op2 diff) c)"

definition XADD_EbGbR :: handler where
  "XADD_EbGbR i c =
     (let op1 = (ucast (READ_8BIT_REG (dst i) c) :: Bit32u);
          op2 = (ucast (READ_8BIT_REG (src i) c) :: Bit32u);
          sm = op1 + op2
      in set_flags (SET_FLAGS_OSZAPC_ADD 8 op1 op2 sm)
           (WRITE_8BIT_REG (dst i) (ucast sm) (WRITE_8BIT_REG (src i) (ucast op1) c)))"

definition NEG_EbR :: handler where
  "NEG_EbR i c =
     (let op1 = (ucast (READ_8BIT_REG (dst i) c) :: Bit32u);
          op1 = - scast (ucast op1 :: 8 word)
      in set_flags (SET_FLAGS_OSZAPC_SUB 8 0 (0 - op1) op1) (WRITE_8BIT_REG (dst i) (ucast op1) c))"

definition INC_EbR :: handler where
  "INC_EbR i c =
     (let op1 = (ucast (READ_8BIT_REG (dst i) c) :: Bit32u) + 1
      in set_flags (SET_FLAGS_OSZAP_ADD 8 (op1 - 1) 0 op1) (WRITE_8BIT_REG (dst i) (ucast op1) c))"

definition DEC_EbR :: handler where
  "DEC_EbR i c =
     (let op1 = (ucast (READ_8BIT_REG (dst i) c) :: Bit32u) - 1
      in set_flags (SET_FLAGS_OSZAP_SUB 8 (op1 + 1) 0 op1) (WRITE_8BIT_REG (dst i) (ucast op1) c))"

definition CMPXCHG_EbGbR :: handler where
  "CMPXCHG_EbGbR i c =
     (let op1 = (ucast (READ_8BIT_REG (dst i) c) :: Bit32u);
          diff = ucast (AL c) - op1;
          c1 = set_flags (SET_FLAGS_OSZAPC_SUB 8 (ucast (AL c)) op1 diff) c
      in if diff = 0 then WRITE_8BIT_REG (dst i) (READ_8BIT_REG (src i) c1) c1
         else WRITE_8BIT_REG 0 (ucast op1) c1)"

section \<open>\<open>arith16.cc\<close>\<close>

definition ADD_GwEwR :: handler where
  "ADD_GwEwR i c =
     (let op1 = (ucast (READ_16BIT_REG (dst i) c) :: Bit32u);
          op2 = (ucast (READ_16BIT_REG (src i) c) :: Bit32u);
          sm = op1 + op2
      in set_flags (SET_FLAGS_OSZAPC_ADD 16 op1 op2 sm) (WRITE_16BIT_REG (dst i) (ucast sm) c))"

definition ADC_GwEwR :: handler where
  "ADC_GwEwR i c =
     (let op1 = (ucast (READ_16BIT_REG (dst i) c) :: Bit32u);
          op2 = (ucast (READ_16BIT_REG (src i) c) :: Bit32u);
          sm = op1 + op2 + of_bool (getB_CF (oszapc c))
      in set_flags (SET_FLAGS_OSZAPC_ADD 16 op1 op2 sm) (WRITE_16BIT_REG (dst i) (ucast sm) c))"

definition SBB_GwEwR :: handler where
  "SBB_GwEwR i c =
     (let op1 = (ucast (READ_16BIT_REG (dst i) c) :: Bit32u);
          op2 = (ucast (READ_16BIT_REG (src i) c) :: Bit32u);
          diff = op1 - (op2 + of_bool (getB_CF (oszapc c)))
      in set_flags (SET_FLAGS_OSZAPC_SUB 16 op1 op2 diff) (WRITE_16BIT_REG (dst i) (ucast diff) c))"

definition SUB_GwEwR :: handler where
  "SUB_GwEwR i c =
     (let op1 = (ucast (READ_16BIT_REG (dst i) c) :: Bit32u);
          op2 = (ucast (READ_16BIT_REG (src i) c) :: Bit32u);
          diff = op1 - op2
      in set_flags (SET_FLAGS_OSZAPC_SUB 16 op1 op2 diff) (WRITE_16BIT_REG (dst i) (ucast diff) c))"

definition CMP_GwEwR :: handler where
  "CMP_GwEwR i c =
     (let op1 = (ucast (READ_16BIT_REG (dst i) c) :: Bit32u);
          op2 = (ucast (READ_16BIT_REG (src i) c) :: Bit32u);
          diff = op1 - op2
      in set_flags (SET_FLAGS_OSZAPC_SUB 16 op1 op2 diff) c)"

definition ADD_EwIwR :: handler where
  "ADD_EwIwR i c =
     (let op1 = (ucast (READ_16BIT_REG (dst i) c) :: Bit32u);
          op2 = (ucast (Iw i) :: Bit32u);
          sm = op1 + op2
      in set_flags (SET_FLAGS_OSZAPC_ADD 16 op1 op2 sm) (WRITE_16BIT_REG (dst i) (ucast sm) c))"

definition ADC_EwIwR :: handler where
  "ADC_EwIwR i c =
     (let op1 = (ucast (READ_16BIT_REG (dst i) c) :: Bit32u);
          op2 = (ucast (Iw i) :: Bit32u);
          sm = op1 + op2 + of_bool (getB_CF (oszapc c))
      in set_flags (SET_FLAGS_OSZAPC_ADD 16 op1 op2 sm) (WRITE_16BIT_REG (dst i) (ucast sm) c))"

definition SBB_EwIwR :: handler where
  "SBB_EwIwR i c =
     (let op1 = (ucast (READ_16BIT_REG (dst i) c) :: Bit32u);
          op2 = (ucast (Iw i) :: Bit32u);
          diff = op1 - (op2 + of_bool (getB_CF (oszapc c)))
      in set_flags (SET_FLAGS_OSZAPC_SUB 16 op1 op2 diff) (WRITE_16BIT_REG (dst i) (ucast diff) c))"

definition SUB_EwIwR :: handler where
  "SUB_EwIwR i c =
     (let op1 = (ucast (READ_16BIT_REG (dst i) c) :: Bit32u);
          op2 = (ucast (Iw i) :: Bit32u);
          diff = op1 - op2
      in set_flags (SET_FLAGS_OSZAPC_SUB 16 op1 op2 diff) (WRITE_16BIT_REG (dst i) (ucast diff) c))"

definition CMP_EwIwR :: handler where
  "CMP_EwIwR i c =
     (let op1 = (ucast (READ_16BIT_REG (dst i) c) :: Bit32u);
          op2 = (ucast (Iw i) :: Bit32u);
          diff = op1 - op2
      in set_flags (SET_FLAGS_OSZAPC_SUB 16 op1 op2 diff) c)"

definition XADD_EwGwR :: handler where
  "XADD_EwGwR i c =
     (let op1 = (ucast (READ_16BIT_REG (dst i) c) :: Bit32u);
          op2 = (ucast (READ_16BIT_REG (src i) c) :: Bit32u);
          sm = op1 + op2
      in set_flags (SET_FLAGS_OSZAPC_ADD 16 op1 op2 sm)
           (WRITE_16BIT_REG (dst i) (ucast sm) (WRITE_16BIT_REG (src i) (ucast op1) c)))"

definition NEG_EwR :: handler where
  "NEG_EwR i c =
     (let op1 = (ucast (READ_16BIT_REG (dst i) c) :: Bit32u);
          op1 = 0 - scast (ucast op1 :: 16 word)
      in set_flags (SET_FLAGS_OSZAPC_SUB 16 0 (0 - op1) op1) (WRITE_16BIT_REG (dst i) (ucast op1) c))"

definition INC_EwR :: handler where
  "INC_EwR i c =
     (let r = READ_16BIT_REG (dst i) c + 1;
          rx = (ucast r :: Bit32u)
      in set_flags (SET_FLAGS_OSZAP_ADD 16 (rx - 1) 0 rx) (WRITE_16BIT_REG (dst i) r c))"

definition DEC_EwR :: handler where
  "DEC_EwR i c =
     (let r = READ_16BIT_REG (dst i) c - 1;
          rx = (ucast r :: Bit32u)
      in set_flags (SET_FLAGS_OSZAP_SUB 16 (rx + 1) 0 rx) (WRITE_16BIT_REG (dst i) r c))"

definition CMPXCHG_EwGwR :: handler where
  "CMPXCHG_EwGwR i c =
     (let op1 = READ_16BIT_REG (dst i) c;
          diff = AX c - op1;
          c1 = set_flags (SET_FLAGS_OSZAPC_SUB 16 (ucast (AX c)) (ucast op1) (ucast diff)) c
      in if diff = 0 then WRITE_16BIT_REG (dst i) (READ_16BIT_REG (src i) c1) c1
         else WRITE_16BIT_REG 0 op1 c1)"

definition CBW :: handler where
  "CBW i c =
     (WRITE_16BIT_REG 0 (scast (AL c)) c)"

definition CWD :: handler where
  "CWD i c =
     (if bit (AX c) 15 then WRITE_16BIT_REG 2 0xFFFF c else WRITE_16BIT_REG 2 0 c)"

section \<open>\<open>arith32.cc\<close>\<close>

definition ADD_GdEdR :: handler where
  "ADD_GdEdR i c =
     (let op1 = READ_32BIT_REG (dst i) c;
          op2 = READ_32BIT_REG (src i) c;
          sm = op1 + op2
      in set_flags (SET_FLAGS_OSZAPC_ADD 32 op1 op2 sm) (WRITE_32BIT_REGZ (dst i) sm c))"

definition ADC_GdEdR :: handler where
  "ADC_GdEdR i c =
     (let op1 = READ_32BIT_REG (dst i) c;
          op2 = READ_32BIT_REG (src i) c;
          sm = op1 + op2 + of_bool (getB_CF (oszapc c))
      in set_flags (SET_FLAGS_OSZAPC_ADD 32 op1 op2 sm) (WRITE_32BIT_REGZ (dst i) sm c))"

definition SBB_GdEdR :: handler where
  "SBB_GdEdR i c =
     (let op1 = READ_32BIT_REG (dst i) c;
          op2 = READ_32BIT_REG (src i) c;
          diff = op1 - (op2 + of_bool (getB_CF (oszapc c)))
      in set_flags (SET_FLAGS_OSZAPC_SUB 32 op1 op2 diff) (WRITE_32BIT_REGZ (dst i) diff c))"

definition SUB_GdEdR :: handler where
  "SUB_GdEdR i c =
     (let op1 = READ_32BIT_REG (dst i) c;
          op2 = READ_32BIT_REG (src i) c;
          diff = op1 - op2
      in set_flags (SET_FLAGS_OSZAPC_SUB 32 op1 op2 diff) (WRITE_32BIT_REGZ (dst i) diff c))"

definition CMP_GdEdR :: handler where
  "CMP_GdEdR i c =
     (let op1 = READ_32BIT_REG (dst i) c;
          op2 = READ_32BIT_REG (src i) c;
          diff = op1 - op2
      in set_flags (SET_FLAGS_OSZAPC_SUB 32 op1 op2 diff) c)"

definition ADD_EdIdR :: handler where
  "ADD_EdIdR i c =
     (let op1 = READ_32BIT_REG (dst i) c;
          op2 = Id i;
          sm = op1 + op2
      in set_flags (SET_FLAGS_OSZAPC_ADD 32 op1 op2 sm) (WRITE_32BIT_REGZ (dst i) sm c))"

definition ADC_EdIdR :: handler where
  "ADC_EdIdR i c =
     (let op1 = READ_32BIT_REG (dst i) c;
          op2 = Id i;
          sm = op1 + op2 + of_bool (getB_CF (oszapc c))
      in set_flags (SET_FLAGS_OSZAPC_ADD 32 op1 op2 sm) (WRITE_32BIT_REGZ (dst i) sm c))"

definition SBB_EdIdR :: handler where
  "SBB_EdIdR i c =
     (let op1 = READ_32BIT_REG (dst i) c;
          op2 = Id i;
          diff = op1 - (op2 + of_bool (getB_CF (oszapc c)))
      in set_flags (SET_FLAGS_OSZAPC_SUB 32 op1 op2 diff) (WRITE_32BIT_REGZ (dst i) diff c))"

definition SUB_EdIdR :: handler where
  "SUB_EdIdR i c =
     (let op1 = READ_32BIT_REG (dst i) c;
          op2 = Id i;
          diff = op1 - op2
      in set_flags (SET_FLAGS_OSZAPC_SUB 32 op1 op2 diff) (WRITE_32BIT_REGZ (dst i) diff c))"

definition CMP_EdIdR :: handler where
  "CMP_EdIdR i c =
     (let op1 = READ_32BIT_REG (dst i) c;
          op2 = Id i;
          diff = op1 - op2
      in set_flags (SET_FLAGS_OSZAPC_SUB 32 op1 op2 diff) c)"

definition XADD_EdGdR :: handler where
  "XADD_EdGdR i c =
     (let op1 = READ_32BIT_REG (dst i) c;
          op2 = READ_32BIT_REG (src i) c;
          sm = op1 + op2
      in set_flags (SET_FLAGS_OSZAPC_ADD 32 op1 op2 sm)
           (WRITE_32BIT_REGZ (dst i) sm (WRITE_32BIT_REGZ (src i) op1 c)))"

definition NEG_EdR :: handler where
  "NEG_EdR i c =
     (let op1 = READ_32BIT_REG (dst i) c;
          op1 = - op1
      in set_flags (SET_FLAGS_OSZAPC_SUB 32 0 (0 - op1) op1) (WRITE_32BIT_REGZ (dst i) op1 c))"

definition INC_EdR :: handler where
  "INC_EdR i c =
     (let op1 = READ_32BIT_REG (dst i) c + 1
      in set_flags (SET_FLAGS_OSZAP_ADD 32 (op1 - 1) 0 op1) (WRITE_32BIT_REGZ (dst i) op1 c))"

definition DEC_EdR :: handler where
  "DEC_EdR i c =
     (let op1 = READ_32BIT_REG (dst i) c - 1
      in set_flags (SET_FLAGS_OSZAP_SUB 32 (op1 + 1) 0 op1) (WRITE_32BIT_REGZ (dst i) op1 c))"

definition CMPXCHG_EdGdR :: handler where
  "CMPXCHG_EdGdR i c =
     (let op1 = READ_32BIT_REG (dst i) c;
          diff = EAX c - op1;
          c1 = set_flags (SET_FLAGS_OSZAPC_SUB 32 (EAX c) op1 diff) c
      in if diff = 0 then WRITE_32BIT_REGZ (dst i) (READ_32BIT_REG (src i) c1) c1
         else WRITE_32BIT_REGZ 0 op1 c1)"

definition CWDE :: handler where
  "CWDE i c =
     (WRITE_32BIT_REGZ 0 (scast (AX c)) c)"

definition CDQ :: handler where
  "CDQ i c =
     (if bit (EAX c) 31 then WRITE_32BIT_REGZ 2 0xFFFFFFFF c else WRITE_32BIT_REGZ 2 0 c)"

end
