(* ===== verification/CpuArith_Spec.thy ===== *)
theory CpuArith_Spec
  imports CpuArith
begin

text \<open>
  What the arithmetic instructions compute: the result in the destination and the six flags, by the
  integer specification of \<open>LazyFlags_Spec\<close>, for every instruction of \<open>CpuArith\<close>.
\<close>

text \<open>
  A handler computes \<open>f\<close> at a register width: \<open>f\<close> maps the destination, the second operand and the
  flags before to the result and the flags after; the handler writes the result to the destination
  and changes nothing else.
\<close>

definition computes ::
  "(nat \<Rightarrow> BX_CPU_C \<Rightarrow> 'a::len word) \<Rightarrow> (nat \<Rightarrow> 'a word \<Rightarrow> BX_CPU_C \<Rightarrow> BX_CPU_C) \<Rightarrow>
   (bxInstruction_c \<Rightarrow> BX_CPU_C \<Rightarrow> 'a word) \<Rightarrow>
   ('a word \<Rightarrow> 'a word \<Rightarrow> arith_flags \<Rightarrow> 'a word \<times> arith_flags) \<Rightarrow> handler \<Rightarrow> bool" where
  "computes rd wr op2 f h \<longleftrightarrow> (\<forall>i c.
     (let (r, fl) = f (rd (dst i) c) (op2 i c) (flags_of (oszapc c))
      in gen_reg (h i c) = gen_reg (wr (dst i) r c) \<and> flags_of (oszapc (h i c)) = fl))"

definition computes8 where "computes8 = computes READ_8BIT_REG WRITE_8BIT_REG"
definition computes16 where "computes16 = computes READ_16BIT_REG WRITE_16BIT_REG"
definition computes32 where "computes32 = computes READ_32BIT_REG WRITE_32BIT_REGZ"

text \<open>The second operand: a register or an immediate.\<close>

definition r8 where "r8 i c = READ_8BIT_REG (src i) c"
definition r16 where "r16 i c = READ_16BIT_REG (src i) c"
definition r32 where "r32 i c = READ_32BIT_REG (src i) c"
definition i8 where "i8 i (c :: BX_CPU_C) = Ib i"
definition i16 where "i16 i (c :: BX_CPU_C) = Iw i"
definition i32 where "i32 i (c :: BX_CPU_C) = Id i"

definition op_add where "op_add a b fl = (a + b, add_flags a b False)"
definition op_adc where "op_adc a b fl = (a + b + of_bool (CF fl), add_flags a b (CF fl))"
definition op_sub where "op_sub a b fl = (a - b, sub_flags a b False)"
definition op_sbb where "op_sbb a b fl = (a - b - of_bool (CF fl), sub_flags a b (CF fl))"
definition op_cmp where "op_cmp a b fl = (a, sub_flags a b False)"
definition op_neg where "op_neg a b fl = (- a, sub_flags 0 a False)"
definition op_inc where "op_inc a b fl = (a + 1, (add_flags a 1 False)\<lparr> CF := CF fl \<rparr>)"
definition op_dec where "op_dec a b fl = (a - 1, (sub_flags a 1 False)\<lparr> CF := CF fl \<rparr>)"

lemmas spec_defs = computes8_def computes16_def computes32_def computes_def
  r8_def r16_def r32_def i8_def i16_def i32_def
lemmas op_defs = op_add_def op_adc_def op_sub_def op_sbb_def op_cmp_def op_neg_def op_inc_def op_dec_def

lemmas add_defs =
  ADD_GbEbR_def ADC_GbEbR_def ADD_EbIbR_def ADC_EbIbR_def ADD_GwEwR_def ADC_GwEwR_def ADD_EwIwR_def
  ADC_EwIwR_def ADD_GdEdR_def ADC_GdEdR_def ADD_EdIdR_def ADC_EdIdR_def

section \<open>Narrow results\<close>

lemma ucast_ucast_id [simp]:
  "ucast (ucast a :: Bit32u) = (a :: Bit8u)" "ucast (ucast b :: Bit32u) = (b :: Bit16u)"
  by (simp_all add: ucast_down_ucast_id is_down)

text \<open>Truncation to fewer bits respects the ring operations.\<close>

lemma ucast_down_ring:
  fixes x y :: "'a::len word"
  assumes "LENGTH('b::len) \<le> LENGTH('a)"
  shows "ucast (x + y) = (ucast x + ucast y :: 'b word)" "ucast (x - y) = (ucast x - ucast y :: 'b word)"
    "ucast (- x) = (- ucast x :: 'b word)"
  using assms
  by (intro word_uint_eq_iff [THEN iffD2]; simp add: unsigned_ucast_eq uint_word_ariths take_bit_eq_mod
      mod_simps mod_mod_cancel le_imp_power_dvd)+

lemmas ucast_arith [simp] = ucast_down_ring [where 'a = 32 and 'b = 8, simplified]
  ucast_down_ring [where 'a = 32 and 'b = 16, simplified]

lemmas flags_macros = flags_ADD flags_SUB flags_OSZAP_ADD flags_OSZAP_SUB
lemmas flags8 = flags_macros [where 'a = 8 and c = False, simplified]
  flags_macros [where 'a = 8 and c = True, simplified]
lemmas flags16 = flags_macros [where 'a = 16 and c = False, simplified]
  flags_macros [where 'a = 16 and c = True, simplified]
lemmas flags32 = flags_macros [where 'a = 32 and c = False, simplified]
  flags_macros [where 'a = 32 and c = True, simplified]

section \<open>Addition\<close>

text \<open>
  C18. Every form of ADD and ADC leaves the sum (with the carry flag for ADC) in its destination, and
  the lazy flags read as the specification says: CF is the unsigned carry, OF the signed overflow,
  AF the carry of the low digit, ZF, SF and PF those of the result.
\<close>
theorem additions_correct:
  "computes8 r8 op_add ADD_GbEbR \<and> computes8 i8 op_add ADD_EbIbR \<and>
   computes8 r8 op_adc ADC_GbEbR \<and> computes8 i8 op_adc ADC_EbIbR \<and>
   computes16 r16 op_add ADD_GwEwR \<and> computes16 i16 op_add ADD_EwIwR \<and>
   computes16 r16 op_adc ADC_GwEwR \<and> computes16 i16 op_adc ADC_EwIwR \<and>
   computes32 r32 op_add ADD_GdEdR \<and> computes32 i32 op_add ADD_EdIdR \<and>
   computes32 r32 op_adc ADC_GdEdR \<and> computes32 i32 op_adc ADC_EdIdR"
  by (intro conjI; simp add: spec_defs op_defs add_defs Let_def reg_simps;
      simp add: flags8 flags16 flags32)

section \<open>Subtraction, comparison, negation\<close>

lemmas sub_defs =
  SUB_GbEbR_def SBB_GbEbR_def SUB_EbIbR_def SBB_EbIbR_def CMP_GbEbR_def CMP_EbIbR_def NEG_EbR_def
  SUB_GwEwR_def SBB_GwEwR_def SUB_EwIwR_def SBB_EwIwR_def CMP_GwEwR_def CMP_EwIwR_def NEG_EwR_def
  SUB_GdEdR_def SBB_GdEdR_def SUB_EdIdR_def SBB_EdIdR_def CMP_GdEdR_def CMP_EdIdR_def NEG_EdR_def

lemma last_bit: "(7 :: nat) \<le> n \<Longrightarrow> n < 8 \<Longrightarrow> n = 7" "(15 :: nat) \<le> n \<Longrightarrow> n < 16 \<Longrightarrow> n = 15"
  by simp_all

lemma ucast_scast_id [simp]:
  "ucast (scast a :: Bit32u) = (a :: Bit8u)" "ucast (scast b :: Bit32u) = (b :: Bit16u)"
  by (rule bit_word_eqI, auto simp: bit_simps min_def dest: last_bit)+

lemma set_same:
  "set_rl (ucast w) w = w" "set_rh (ucast (drop_bit 8 w)) w = w" "set_rx (ucast w) w = w"
  by (rule bit_word_eqI, auto simp: set_rl_def set_rh_def set_rx_def bit_simps)+

lemma write_back [simp]:
  "WRITE_8BIT_REG r (READ_8BIT_REG r c) c = c" "WRITE_16BIT_REG r (READ_16BIT_REG r c) c = c"
  "WRITE_32BIT_REGZ r (READ_32BIT_REG r c) c = c"
  by (simp_all add: WRITE_8BIT_REG_def READ_8BIT_REG_def WRITE_16BIT_REG_def READ_16BIT_REG_def
      WRITE_32BIT_REGZ_def READ_32BIT_REG_def upd_reg_def set_same)

text \<open>
  C19. Every form of SUB, SBB, CMP and NEG: the difference in the destination (CMP writes nothing),
  CF the borrow, OF the signed overflow, AF the borrow of the low digit; NEG sets the flags of
  0 minus its operand.
\<close>
theorem subtractions_correct:
  "computes8 r8 op_sub SUB_GbEbR \<and> computes8 i8 op_sub SUB_EbIbR \<and> computes8 r8 op_sbb SBB_GbEbR \<and>
   computes8 i8 op_sbb SBB_EbIbR \<and> computes8 r8 op_cmp CMP_GbEbR \<and> computes8 i8 op_cmp CMP_EbIbR \<and>
   computes8 r8 op_neg NEG_EbR \<and>
   computes16 r16 op_sub SUB_GwEwR \<and> computes16 i16 op_sub SUB_EwIwR \<and> computes16 r16 op_sbb SBB_GwEwR \<and>
   computes16 i16 op_sbb SBB_EwIwR \<and> computes16 r16 op_cmp CMP_GwEwR \<and> computes16 i16 op_cmp CMP_EwIwR \<and>
   computes16 r16 op_neg NEG_EwR \<and>
   computes32 r32 op_sub SUB_GdEdR \<and> computes32 i32 op_sub SUB_EdIdR \<and> computes32 r32 op_sbb SBB_GdEdR \<and>
   computes32 i32 op_sbb SBB_EdIdR \<and> computes32 r32 op_cmp CMP_GdEdR \<and> computes32 i32 op_cmp CMP_EdIdR \<and>
   computes32 r32 op_neg NEG_EdR"
  by (intro conjI; simp add: spec_defs op_defs sub_defs Let_def reg_simps diff_diff_eq;
      simp add: flags8 flags16 flags32)

section \<open>Increment and decrement\<close>

lemmas inc_defs = INC_EbR_def DEC_EbR_def INC_EwR_def DEC_EwR_def INC_EdR_def DEC_EdR_def

lemma flags_unit:
  assumes "lf_size TYPE('a::len)"
  shows "add_flags a 0 True = add_flags (a :: 'a word) 1 False" "sub_flags a 0 True = sub_flags a 1 False"
  using assms by (auto simp: add_flags_def sub_flags_def Let_def lf_size_def signed_1)

lemmas flags_unit_8 = flags_unit [where 'a = 8, simplified]
  and flags_unit_16 = flags_unit [where 'a = 16, simplified]
  and flags_unit_32 = flags_unit [where 'a = 32, simplified]

text \<open>
  INC and DEC set the flags of adding and subtracting 1, except CF, which keeps its value
  although the lazy entry is rewritten.
\<close>
theorem increments_keep_carry:
  "computes8 r8 op_inc INC_EbR \<and> computes8 r8 op_dec DEC_EbR \<and>
   computes16 r16 op_inc INC_EwR \<and> computes16 r16 op_dec DEC_EwR \<and>
   computes32 r32 op_inc INC_EdR \<and> computes32 r32 op_dec DEC_EdR"
  by (intro conjI; simp add: spec_defs op_defs inc_defs Let_def reg_simps;
      simp add: flags8 flags16 flags32 flags_unit_8 flags_unit_16 flags_unit_32)

end
