(* ===== verification/CpuCond_Spec.thy ===== *)
theory CpuCond_Spec
  imports CpuCond CpuArith_Spec
begin

text \<open>
  Comparisons as programs make them: a CMP followed by a conditional instruction.
\<close>

section \<open>The conditions of a subtraction\<close>

lemma signed_less_flags:
  fixes a b :: "'a::len word"
  shows "(sint (a - b) < 0) \<noteq> (sint a - sint b \<noteq> sint (a - b)) \<longleftrightarrow> sint a < sint b"
proof -
  let ?n = "LENGTH('a) - 1" and ?d = "sint a - sint b"
  have pos: "(0 :: int) < 2 ^ ?n" by simp
  have len: "(2 :: int) ^ LENGTH('a) = 2 * 2 ^ ?n" by (simp flip: power_Suc)
  have range: "- (2 ^ ?n) \<le> sint a" "sint a < 2 ^ ?n" "- (2 ^ ?n) \<le> sint b" "sint b < 2 ^ ?n"
    using sint_greater_eq [of a] sint_less [of a] sint_greater_eq [of b] sint_less [of b] by simp_all
  have "sint (a - b) = (?d + 2 ^ ?n) mod 2 ^ LENGTH('a) - 2 ^ ?n"
    by (simp add: sint_word_ariths signed_take_bit_eq_take_bit_shift take_bit_eq_mod)
  also have "(?d + 2 ^ ?n) mod 2 ^ LENGTH('a) =
      (if ?d < - (2 ^ ?n) then ?d + 2 ^ ?n + 2 * 2 ^ ?n else if ?d < 2 ^ ?n then ?d + 2 ^ ?n else ?d - 2 ^ ?n)"
    unfolding len using range pos
    by (auto simp: mod_pos_pos_trivial intro: int_mod_pos_eq [of _ _ "- 1"] int_mod_pos_eq [of _ _ 1])
  finally show ?thesis using range pos by (auto split: if_splits)
qed

text \<open>What the four orders of the operands say about the flags of a comparison.\<close>

lemma sub_flags_conditions:
  fixes a b :: "'a::len word"
  assumes "flags_of e = sub_flags a b False"
  shows "getB_CF e \<longleftrightarrow> a < b" "getB_ZF e \<longleftrightarrow> a = b" "getB_SF e \<noteq> getB_OF e \<longleftrightarrow> sint a < sint b"
proof -
  have f: "getB_CF e = CF (sub_flags a b False)" "getB_ZF e = ZF (sub_flags a b False)"
    "getB_SF e = SF (sub_flags a b False)" "getB_OF e = OF (sub_flags a b False)"
    using assms flags_sel [of e] by simp_all
  show "getB_CF e \<longleftrightarrow> a < b" "getB_ZF e \<longleftrightarrow> a = b" "getB_SF e \<noteq> getB_OF e \<longleftrightarrow> sint a < sint b"
    unfolding f using signed_less_flags [of a b] by (simp_all add: sub_flags_def Let_def word_less_def)
qed

lemma order_cases:
  fixes a b :: "'a::len word"
  shows "a < b \<or> a = b \<longleftrightarrow> a \<le> b" "a = b \<or> sint a < sint b \<longleftrightarrow> sint a \<le> sint b"
  by (auto simp: order_le_less dest: signed_word_eqI)

section \<open>CMP and SETcc\<close>

text \<open>A SETcc handler after a comparison writes 1 when \<open>P\<close> holds of the operands and 0 otherwise.\<close>

definition decides :: "handler \<Rightarrow> handler \<Rightarrow> (bxInstruction_c \<Rightarrow> BX_CPU_C \<Rightarrow> bool) \<Rightarrow> bool" where
  "decides cmp setcc P \<longleftrightarrow>
     (\<forall>i j c. setcc j (cmp i c) = WRITE_8BIT_REG (dst j) (of_bool (P i c)) (cmp i c))"

lemmas setcc_defs =
  SETB_EbR_def SETNB_EbR_def SETZ_EbR_def SETNZ_EbR_def SETBE_EbR_def SETNBE_EbR_def
  SETL_EbR_def SETNL_EbR_def SETLE_EbR_def SETNLE_EbR_def

lemma cmp_flags:
  "flags_of (oszapc (CMP_GbEbR i c)) = sub_flags (READ_8BIT_REG (dst i) c) (READ_8BIT_REG (src i) c) False"
  "flags_of (oszapc (CMP_GwEwR i c)) = sub_flags (READ_16BIT_REG (dst i) c) (READ_16BIT_REG (src i) c) False"
  "flags_of (oszapc (CMP_GdEdR i c)) = sub_flags (READ_32BIT_REG (dst i) c) (READ_32BIT_REG (src i) c) False"
  by (simp add: CMP_GbEbR_def CMP_GwEwR_def CMP_GdEdR_def Let_def reg_simps flags8 flags16 flags32)+

lemmas cmp_conditions =
  sub_flags_conditions [OF cmp_flags(1)] sub_flags_conditions [OF cmp_flags(2)] sub_flags_conditions [OF cmp_flags(3)]

text \<open>
  C29. The conditions decide the comparison they are named after: after CMP of two registers the
  B/BE conditions are the unsigned orders, the L/LE conditions the signed orders (overflow
  included), Z equality, and the N forms their negations, at every operand size.
\<close>
theorem conditions_decide_comparisons:
  "(let P = (\<lambda>R i c. R (READ_8BIT_REG (dst i) c) (READ_8BIT_REG (src i) c)) in
      decides CMP_GbEbR SETB_EbR (P (<)) \<and> decides CMP_GbEbR SETNB_EbR (P (\<ge>)) \<and>
      decides CMP_GbEbR SETBE_EbR (P (\<le>)) \<and> decides CMP_GbEbR SETNBE_EbR (P (>)) \<and>
      decides CMP_GbEbR SETZ_EbR (P (=)) \<and> decides CMP_GbEbR SETNZ_EbR (P (\<noteq>)) \<and>
      decides CMP_GbEbR SETL_EbR (P (\<lambda>a b. sint a < sint b)) \<and> decides CMP_GbEbR SETNL_EbR (P (\<lambda>a b. sint a \<ge> sint b)) \<and>
      decides CMP_GbEbR SETLE_EbR (P (\<lambda>a b. sint a \<le> sint b)) \<and> decides CMP_GbEbR SETNLE_EbR (P (\<lambda>a b. sint a > sint b))) \<and>
   (let P = (\<lambda>R i c. R (READ_16BIT_REG (dst i) c) (READ_16BIT_REG (src i) c)) in
      decides CMP_GwEwR SETB_EbR (P (<)) \<and> decides CMP_GwEwR SETNB_EbR (P (\<ge>)) \<and>
      decides CMP_GwEwR SETBE_EbR (P (\<le>)) \<and> decides CMP_GwEwR SETNBE_EbR (P (>)) \<and>
      decides CMP_GwEwR SETZ_EbR (P (=)) \<and> decides CMP_GwEwR SETNZ_EbR (P (\<noteq>)) \<and>
      decides CMP_GwEwR SETL_EbR (P (\<lambda>a b. sint a < sint b)) \<and> decides CMP_GwEwR SETNL_EbR (P (\<lambda>a b. sint a \<ge> sint b)) \<and>
      decides CMP_GwEwR SETLE_EbR (P (\<lambda>a b. sint a \<le> sint b)) \<and> decides CMP_GwEwR SETNLE_EbR (P (\<lambda>a b. sint a > sint b))) \<and>
   (let P = (\<lambda>R i c. R (READ_32BIT_REG (dst i) c) (READ_32BIT_REG (src i) c)) in
      decides CMP_GdEdR SETB_EbR (P (<)) \<and> decides CMP_GdEdR SETNB_EbR (P (\<ge>)) \<and>
      decides CMP_GdEdR SETBE_EbR (P (\<le>)) \<and> decides CMP_GdEdR SETNBE_EbR (P (>)) \<and>
      decides CMP_GdEdR SETZ_EbR (P (=)) \<and> decides CMP_GdEdR SETNZ_EbR (P (\<noteq>)) \<and>
      decides CMP_GdEdR SETL_EbR (P (\<lambda>a b. sint a < sint b)) \<and> decides CMP_GdEdR SETNL_EbR (P (\<lambda>a b. sint a \<ge> sint b)) \<and>
      decides CMP_GdEdR SETLE_EbR (P (\<lambda>a b. sint a \<le> sint b)) \<and> decides CMP_GdEdR SETNLE_EbR (P (\<lambda>a b. sint a > sint b)))"
  unfolding Let_def decides_def setcc_defs cmp_conditions order_cases not_less not_le by simp

section \<open>CMP and CMOVcc\<close>

text \<open>
  CMP followed by a conditional move is the branch-free minimum or maximum: of unsigned values
  with CMOVNBE and CMOVB, of signed values with CMOVNLE and CMOVL.
\<close>
theorem compare_and_move_extremum:
  "READ_32BIT_REG (dst i) (CMOVNBE_GdEdR i (CMP_GdEdR i c)) =
     min (READ_32BIT_REG (dst i) c) (READ_32BIT_REG (src i) c) \<and>
   READ_32BIT_REG (dst i) (CMOVB_GdEdR i (CMP_GdEdR i c)) =
     max (READ_32BIT_REG (dst i) c) (READ_32BIT_REG (src i) c) \<and>
   sint (READ_32BIT_REG (dst i) (CMOVNLE_GdEdR i (CMP_GdEdR i c))) =
     min (sint (READ_32BIT_REG (dst i) c)) (sint (READ_32BIT_REG (src i) c)) \<and>
   sint (READ_16BIT_REG (dst i) (CMOVL_GwEwR i (CMP_GwEwR i c))) =
     max (sint (READ_16BIT_REG (dst i) c)) (sint (READ_16BIT_REG (src i) c))"
proof -
  have "READ_32BIT_REG r (CMP_GdEdR i c) = READ_32BIT_REG r c"
    "READ_16BIT_REG r (CMP_GwEwR i c) = READ_16BIT_REG r c" for r
    by (simp_all add: CMP_GdEdR_def CMP_GwEwR_def Let_def reg_simps)
  then show ?thesis
    unfolding CMOVNBE_GdEdR_def CMOVB_GdEdR_def CMOVNLE_GdEdR_def CMOVL_GwEwR_def cmp_conditions order_cases
    by (intro conjI; simp add: reg_simps min_def max_def not_less not_le; auto)
qed

end
