(* ===== verification/CpuLogic.thy ===== *)
theory CpuLogic
  imports CpuArith_Spec
begin

text \<open>
  The logical instructions on registers and immediates: the register forms of \<open>cpu/logical8.cc\<close>,
  \<open>cpu/logical16.cc\<close> and \<open>cpu/logical32.cc\<close>, one definition per handler.
\<close>

section \<open>\<open>logical8.cc\<close>\<close>

definition XOR_GbEbR :: handler where
  "XOR_GbEbR i c =
     (let r = READ_8BIT_REG (dst i) c XOR READ_8BIT_REG (src i) c
      in set_flags (SET_FLAGS_OSZAPC_LOGIC 8 (ucast r)) (WRITE_8BIT_REG (dst i) r c))"

definition XOR_EbIbR :: handler where
  "XOR_EbIbR i c =
     (let r = READ_8BIT_REG (dst i) c XOR Ib i
      in set_flags (SET_FLAGS_OSZAPC_LOGIC 8 (ucast r)) (WRITE_8BIT_REG (dst i) r c))"

definition OR_GbEbR :: handler where
  "OR_GbEbR i c =
     (let r = READ_8BIT_REG (dst i) c OR READ_8BIT_REG (src i) c
      in set_flags (SET_FLAGS_OSZAPC_LOGIC 8 (ucast r)) (WRITE_8BIT_REG (dst i) r c))"

definition OR_EbIbR :: handler where
  "OR_EbIbR i c =
     (let r = READ_8BIT_REG (dst i) c OR Ib i
      in set_flags (SET_FLAGS_OSZAPC_LOGIC 8 (ucast r)) (WRITE_8BIT_REG (dst i) r c))"

definition AND_GbEbR :: handler where
  "AND_GbEbR i c =
     (let r = READ_8BIT_REG (dst i) c AND READ_8BIT_REG (src i) c
      in set_flags (SET_FLAGS_OSZAPC_LOGIC 8 (ucast r)) (WRITE_8BIT_REG (dst i) r c))"

definition AND_EbIbR :: handler where
  "AND_EbIbR i c =
     (let r = READ_8BIT_REG (dst i) c AND Ib i
      in set_flags (SET_FLAGS_OSZAPC_LOGIC 8 (ucast r)) (WRITE_8BIT_REG (dst i) r c))"

definition TEST_EbGbR :: handler where
  "TEST_EbGbR i c =
     (let r = READ_8BIT_REG (dst i) c AND READ_8BIT_REG (src i) c
      in set_flags (SET_FLAGS_OSZAPC_LOGIC 8 (ucast r)) c)"

definition TEST_EbIbR :: handler where
  "TEST_EbIbR i c =
     (let r = READ_8BIT_REG (dst i) c AND Ib i
      in set_flags (SET_FLAGS_OSZAPC_LOGIC 8 (ucast r)) c)"

definition NOT_EbR :: handler where
  "NOT_EbR i c =
     (WRITE_8BIT_REG (dst i) (NOT (READ_8BIT_REG (dst i) c)) c)"

section \<open>\<open>logical16.cc\<close>\<close>

definition XOR_GwEwR :: handler where
  "XOR_GwEwR i c =
     (let r = READ_16BIT_REG (dst i) c XOR READ_16BIT_REG (src i) c
      in set_flags (SET_FLAGS_OSZAPC_LOGIC 16 (ucast r)) (WRITE_16BIT_REG (dst i) r c))"

definition XOR_EwIwR :: handler where
  "XOR_EwIwR i c =
     (let r = READ_16BIT_REG (dst i) c XOR Iw i
      in set_flags (SET_FLAGS_OSZAPC_LOGIC 16 (ucast r)) (WRITE_16BIT_REG (dst i) r c))"

definition OR_GwEwR :: handler where
  "OR_GwEwR i c =
     (let r = READ_16BIT_REG (dst i) c OR READ_16BIT_REG (src i) c
      in set_flags (SET_FLAGS_OSZAPC_LOGIC 16 (ucast r)) (WRITE_16BIT_REG (dst i) r c))"

definition OR_EwIwR :: handler where
  "OR_EwIwR i c =
     (let r = READ_16BIT_REG (dst i) c OR Iw i
      in set_flags (SET_FLAGS_OSZAPC_LOGIC 16 (ucast r)) (WRITE_16BIT_REG (dst i) r c))"

definition AND_GwEwR :: handler where
  "AND_GwEwR i c =
     (let r = READ_16BIT_REG (dst i) c AND READ_16BIT_REG (src i) c
      in set_flags (SET_FLAGS_OSZAPC_LOGIC 16 (ucast r)) (WRITE_16BIT_REG (dst i) r c))"

definition AND_EwIwR :: handler where
  "AND_EwIwR i c =
     (let r = READ_16BIT_REG (dst i) c AND Iw i
      in set_flags (SET_FLAGS_OSZAPC_LOGIC 16 (ucast r)) (WRITE_16BIT_REG (dst i) r c))"

definition TEST_EwGwR :: handler where
  "TEST_EwGwR i c =
     (let r = READ_16BIT_REG (dst i) c AND READ_16BIT_REG (src i) c
      in set_flags (SET_FLAGS_OSZAPC_LOGIC 16 (ucast r)) c)"

definition TEST_EwIwR :: handler where
  "TEST_EwIwR i c =
     (let r = READ_16BIT_REG (dst i) c AND Iw i
      in set_flags (SET_FLAGS_OSZAPC_LOGIC 16 (ucast r)) c)"

definition NOT_EwR :: handler where
  "NOT_EwR i c =
     (WRITE_16BIT_REG (dst i) (NOT (READ_16BIT_REG (dst i) c)) c)"

section \<open>\<open>logical32.cc\<close>\<close>

definition XOR_GdEdR :: handler where
  "XOR_GdEdR i c =
     (let r = READ_32BIT_REG (dst i) c XOR READ_32BIT_REG (src i) c
      in set_flags (SET_FLAGS_OSZAPC_LOGIC 32 r) (WRITE_32BIT_REGZ (dst i) r c))"

definition XOR_EdIdR :: handler where
  "XOR_EdIdR i c =
     (let r = READ_32BIT_REG (dst i) c XOR Id i
      in set_flags (SET_FLAGS_OSZAPC_LOGIC 32 r) (WRITE_32BIT_REGZ (dst i) r c))"

definition OR_GdEdR :: handler where
  "OR_GdEdR i c =
     (let r = READ_32BIT_REG (dst i) c OR READ_32BIT_REG (src i) c
      in set_flags (SET_FLAGS_OSZAPC_LOGIC 32 r) (WRITE_32BIT_REGZ (dst i) r c))"

definition OR_EdIdR :: handler where
  "OR_EdIdR i c =
     (let r = READ_32BIT_REG (dst i) c OR Id i
      in set_flags (SET_FLAGS_OSZAPC_LOGIC 32 r) (WRITE_32BIT_REGZ (dst i) r c))"

definition AND_GdEdR :: handler where
  "AND_GdEdR i c =
     (let r = READ_32BIT_REG (dst i) c AND READ_32BIT_REG (src i) c
      in set_flags (SET_FLAGS_OSZAPC_LOGIC 32 r) (WRITE_32BIT_REGZ (dst i) r c))"

definition AND_EdIdR :: handler where
  "AND_EdIdR i c =
     (let r = READ_32BIT_REG (dst i) c AND Id i
      in set_flags (SET_FLAGS_OSZAPC_LOGIC 32 r) (WRITE_32BIT_REGZ (dst i) r c))"

definition TEST_EdGdR :: handler where
  "TEST_EdGdR i c =
     (let r = READ_32BIT_REG (dst i) c AND READ_32BIT_REG (src i) c
      in set_flags (SET_FLAGS_OSZAPC_LOGIC 32 r) c)"

definition TEST_EdIdR :: handler where
  "TEST_EdIdR i c =
     (let r = READ_32BIT_REG (dst i) c AND Id i
      in set_flags (SET_FLAGS_OSZAPC_LOGIC 32 r) c)"

definition NOT_EdR :: handler where
  "NOT_EdR i c =
     (WRITE_32BIT_REGZ (dst i) (NOT (READ_32BIT_REG (dst i) c)) c)"

section \<open>What they compute\<close>

definition op_and where "op_and a b (fl :: arith_flags) = (a AND b, logic_flags (a AND b))"
definition op_or where "op_or a b (fl :: arith_flags) = (a OR b, logic_flags (a OR b))"
definition op_xor where "op_xor a b (fl :: arith_flags) = (a XOR b, logic_flags (a XOR b))"
definition op_test where "op_test a b (fl :: arith_flags) = (a, logic_flags (a AND b))"
definition op_not where "op_not a (b :: 'a::len word) (fl :: arith_flags) = (NOT (a :: 'a word), fl)"

lemmas logic_defs = op_and_def op_or_def op_xor_def op_test_def op_not_def
lemmas logic_handlers_8 = XOR_GbEbR_def XOR_EbIbR_def OR_GbEbR_def OR_EbIbR_def AND_GbEbR_def AND_EbIbR_def
  TEST_EbGbR_def TEST_EbIbR_def NOT_EbR_def
lemmas logic_handlers_16 = XOR_GwEwR_def XOR_EwIwR_def OR_GwEwR_def OR_EwIwR_def AND_GwEwR_def AND_EwIwR_def
  TEST_EwGwR_def TEST_EwIwR_def NOT_EwR_def
lemmas logic_handlers_32 = XOR_GdEdR_def XOR_EdIdR_def OR_GdEdR_def OR_EdIdR_def AND_GdEdR_def AND_EdIdR_def
  TEST_EdGdR_def TEST_EdIdR_def NOT_EdR_def
lemmas flags_LOGIC_sizes = flags_LOGIC [where 'a = 8, simplified, OF refl] flags_LOGIC [where 'a = 16, simplified, OF refl]
  flags_LOGIC [where 'a = 32, simplified, OF refl]

text \<open>
  AND, OR, XOR and TEST leave the bitwise result (TEST writes nothing) with CF, OF and AF clear and
  ZF, SF and PF of the result; NOT changes no flag.
\<close>
theorem logic_correct:
  "computes8 r8 op_and AND_GbEbR \<and> computes8 i8 op_and AND_EbIbR \<and> computes8 r8 op_or OR_GbEbR \<and> computes8 i8 op_or OR_EbIbR \<and> computes8 r8 op_xor XOR_GbEbR \<and> computes8 i8 op_xor XOR_EbIbR \<and>
   computes8 r8 op_test TEST_EbGbR \<and> computes8 i8 op_test TEST_EbIbR \<and> computes8 r8 op_not NOT_EbR \<and>
   computes16 r16 op_and AND_GwEwR \<and> computes16 i16 op_and AND_EwIwR \<and> computes16 r16 op_or OR_GwEwR \<and> computes16 i16 op_or OR_EwIwR \<and> computes16 r16 op_xor XOR_GwEwR \<and> computes16 i16 op_xor XOR_EwIwR \<and>
   computes16 r16 op_test TEST_EwGwR \<and> computes16 i16 op_test TEST_EwIwR \<and> computes16 r16 op_not NOT_EwR \<and>
   computes32 r32 op_and AND_GdEdR \<and> computes32 i32 op_and AND_EdIdR \<and> computes32 r32 op_or OR_GdEdR \<and> computes32 i32 op_or OR_EdIdR \<and> computes32 r32 op_xor XOR_GdEdR \<and> computes32 i32 op_xor XOR_EdIdR \<and>
   computes32 r32 op_test TEST_EdGdR \<and> computes32 i32 op_test TEST_EdIdR \<and> computes32 r32 op_not NOT_EdR"
  by (intro conjI; simp add: spec_defs logic_defs logic_handlers_8 logic_handlers_16 logic_handlers_32 Let_def reg_simps;
      simp add: flags_LOGIC_sizes)

end
