(* ===== verification/CpuShift.thy ===== *)
theory CpuShift
  imports CpuState
begin

text \<open>
  The shift and rotate instructions on registers: the register forms of \<open>cpu/shift8.cc\<close>,
  \<open>cpu/shift16.cc\<close> and \<open>cpu/shift32.cc\<close>, one definition per handler.  The 8 and 16-bit handlers
  compute in 32 bits (the promotion of C) and truncate; \<open>>>\<close> on a signed operand is
  \<open>signed_drop_bit\<close>.  The macros clear the upper half of a 64-bit register when the count is 0,
  which a 32-bit build leaves out.
\<close>

text \<open>Every handler starts by choosing CL or the immediate as its count.\<close>

definition shift_by :: "bxInstruction_c \<Rightarrow> BX_CPU_C \<Rightarrow> Bit32u" where
  "shift_by i c = (if count_CL i then ucast (CL c) else ucast (Ib i))"

section \<open>\<open>shift8.cc\<close>\<close>

definition ROL_EbR :: handler where
  "ROL_EbR i c =
     (let count = shift_by i c;
          op1 = (ucast (READ_8BIT_REG (dst i) c) :: Bit32u)
      in if count AND 0x07 = 0
         then (if count AND 0x18 \<noteq> 0 then set_flags (SET_FLAGS_OxxxxC (bit op1 0 \<noteq> bit (drop_bit 7 op1) 0) (bit op1 0)) c else c)
         else let count = unat (count AND 0x07);
                  result = (ucast (push_bit count op1 OR drop_bit (8 - count) op1) :: Bit8u)
              in set_flags (SET_FLAGS_OxxxxC (bit result 0 \<noteq> bit (drop_bit 7 result) 0) (bit result 0)) (WRITE_8BIT_REG (dst i) result c))"

definition ROR_EbR :: handler where
  "ROR_EbR i c =
     (let count = shift_by i c;
          op1 = (ucast (READ_8BIT_REG (dst i) c) :: Bit32u)
      in if count AND 0x07 = 0
         then (if count AND 0x18 \<noteq> 0 then set_flags (SET_FLAGS_OxxxxC (bit (drop_bit 6 op1) 0 \<noteq> bit (drop_bit 7 op1) 0) (bit (drop_bit 7 op1) 0)) c else c)
         else let count = unat (count AND 0x07);
                  result = (ucast (drop_bit count op1 OR push_bit (8 - count) op1) :: Bit8u)
              in set_flags (SET_FLAGS_OxxxxC (bit (drop_bit 6 result) 0 \<noteq> bit (drop_bit 7 result) 0) (bit (drop_bit 7 result) 0)) (WRITE_8BIT_REG (dst i) result c))"

definition RCL_EbR :: handler where
  "RCL_EbR i c =
     (let count = unat (shift_by i c AND 0x1f) mod 9
      in if count = 0 then c
         else let op1 = (ucast (READ_8BIT_REG (dst i) c) :: Bit32u);
                  result = (if count = 1 then (ucast (push_bit 1 op1 OR (of_bool (getB_CF (oszapc c)) :: Bit32u)) :: Bit8u)
                            else (ucast (push_bit count op1 OR push_bit (count - 1) (of_bool (getB_CF (oszapc c)) :: Bit32u) OR drop_bit (9 - count) op1) :: Bit8u));
                  cf = bit (drop_bit (8 - count) op1) 0
              in set_flags (SET_FLAGS_OxxxxC (cf \<noteq> bit (drop_bit 7 result) 0) cf) (WRITE_8BIT_REG (dst i) result c))"

definition RCR_EbR :: handler where
  "RCR_EbR i c =
     (let count = unat (shift_by i c AND 0x1f) mod 9
      in if count = 0 then c
         else let op1 = (ucast (READ_8BIT_REG (dst i) c) :: Bit32u);
                  result = (ucast (drop_bit count op1 OR push_bit (8 - count) (of_bool (getB_CF (oszapc c)) :: Bit32u) OR push_bit (9 - count) op1) :: Bit8u);
                  cf = bit (drop_bit (count - 1) op1) 0
              in set_flags (SET_FLAGS_OxxxxC (bit (drop_bit 7 (push_bit 1 result XOR result)) 0) cf) (WRITE_8BIT_REG (dst i) result c))"

definition SHL_EbR :: handler where
  "SHL_EbR i c =
     (let count = unat (shift_by i c AND 0x1f)
      in if count = 0 then c
         else let op1 = (ucast (READ_8BIT_REG (dst i) c) :: Bit32u);
                  (result, cf, ovf) =
                    (if count \<le> 8
                     then let result = (ucast (push_bit count op1) :: Bit8u);
                              cf = bit (drop_bit (8 - count) op1) 0
                          in (result, cf, cf \<noteq> bit (drop_bit 7 result) 0)
                     else (0, False, False))
              in set_flags (SET_FLAGS_OxxxxC (ovf) cf) (set_flags (SET_FLAGS_OSZAPC_LOGIC 8 (ucast result)) (WRITE_8BIT_REG (dst i) result c)))"

definition SHR_EbR :: handler where
  "SHR_EbR i c =
     (let count = unat (shift_by i c AND 0x1f)
      in if count = 0 then c
         else let op1 = (ucast (READ_8BIT_REG (dst i) c) :: Bit32u);
                  result = (ucast (drop_bit count op1) :: Bit8u);
                  cf = bit (drop_bit (count - 1) op1) 0;
                  ovf = bit (drop_bit 7 (push_bit 1 result XOR result)) 0
              in set_flags (SET_FLAGS_OxxxxC (ovf) cf) (set_flags (SET_FLAGS_OSZAPC_LOGIC 8 (ucast result)) (WRITE_8BIT_REG (dst i) result c)))"

definition SAR_EbR :: handler where
  "SAR_EbR i c =
     (let count = unat (shift_by i c AND 0x1f)
      in if count = 0 then c
         else let op1 = (scast (READ_8BIT_REG (dst i) c) :: Bit32u);
                  result = (ucast (signed_drop_bit count op1) :: Bit8u);
                  cf = bit (signed_drop_bit (count - 1) op1) 0
              in set_flags (SET_FLAGS_OxxxxC (False) cf) (set_flags (SET_FLAGS_OSZAPC_LOGIC 8 (ucast result)) (WRITE_8BIT_REG (dst i) result c)))"

section \<open>\<open>shift16.cc\<close>\<close>

definition SHLD_EwGwR :: handler where
  "SHLD_EwGwR i c =
     (let count = unat (shift_by i c AND 0x1f)
      in if count = 0 then c
         else let op1 = (ucast (READ_16BIT_REG (dst i) c) :: Bit32u);
                  op2 = (ucast (READ_16BIT_REG (src i) c) :: Bit32u);
                  temp = push_bit 16 op1 OR op2;
                  result_32 = push_bit count temp;
                  result_32 = (if count > 16 then result_32 OR push_bit (count - 16) op1 else result_32);
                  result = (ucast (drop_bit 16 result_32) :: Bit16u);
                  cf = bit (drop_bit (32 - count) temp) 0
              in set_flags (SET_FLAGS_OxxxxC (cf \<noteq> bit (drop_bit 15 result) 0) cf)
                   (set_flags (SET_FLAGS_OSZAPC_LOGIC 16 (ucast result)) (WRITE_16BIT_REG (dst i) result c)))"

definition SHRD_EwGwR :: handler where
  "SHRD_EwGwR i c =
     (let count = unat (shift_by i c AND 0x1f)
      in if count = 0 then c
         else let op1 = (ucast (READ_16BIT_REG (dst i) c) :: Bit32u);
                  op2 = (ucast (READ_16BIT_REG (src i) c) :: Bit32u);
                  temp = push_bit 16 op2 OR op1;
                  result_32 = drop_bit count temp;
                  result_32 = (if count > 16 then result_32 OR push_bit (32 - count) op1 else result_32);
                  result = (ucast result_32 :: Bit16u);
                  cf = bit (drop_bit (count - 1) op1) 0
              in set_flags (SET_FLAGS_OxxxxC (bit (drop_bit 15 (push_bit 1 result XOR result)) 0) cf)
                   (set_flags (SET_FLAGS_OSZAPC_LOGIC 16 (ucast result)) (WRITE_16BIT_REG (dst i) result c)))"

definition ROL_EwR :: handler where
  "ROL_EwR i c =
     (let count = shift_by i c;
          op1 = (ucast (READ_16BIT_REG (dst i) c) :: Bit32u)
      in if count AND 0x0f = 0
         then (if count AND 0x10 \<noteq> 0 then set_flags (SET_FLAGS_OxxxxC (bit op1 0 \<noteq> bit (drop_bit 15 op1) 0) (bit op1 0)) c else c)
         else let count = unat (count AND 0x0f);
                  result = (ucast (push_bit count op1 OR drop_bit (16 - count) op1) :: Bit16u)
              in set_flags (SET_FLAGS_OxxxxC (bit result 0 \<noteq> bit (drop_bit 15 result) 0) (bit result 0)) (WRITE_16BIT_REG (dst i) result c))"

definition ROR_EwR :: handler where
  "ROR_EwR i c =
     (let count = shift_by i c;
          op1 = (ucast (READ_16BIT_REG (dst i) c) :: Bit32u)
      in if count AND 0x0f = 0
         then (if count AND 0x10 \<noteq> 0 then set_flags (SET_FLAGS_OxxxxC (bit (drop_bit 14 op1) 0 \<noteq> bit (drop_bit 15 op1) 0) (bit (drop_bit 15 op1) 0)) c else c)
         else let count = unat (count AND 0x0f);
                  result = (ucast (drop_bit count op1 OR push_bit (16 - count) op1) :: Bit16u)
              in set_flags (SET_FLAGS_OxxxxC (bit (drop_bit 14 result) 0 \<noteq> bit (drop_bit 15 result) 0) (bit (drop_bit 15 result) 0)) (WRITE_16BIT_REG (dst i) result c))"

definition RCL_EwR :: handler where
  "RCL_EwR i c =
     (let count = unat (shift_by i c AND 0x1f) mod 17
      in if count = 0 then c
         else let op1 = (ucast (READ_16BIT_REG (dst i) c) :: Bit32u);
                  result = (if count = 1 then (ucast (push_bit 1 op1 OR (of_bool (getB_CF (oszapc c)) :: Bit32u)) :: Bit16u)
                            else if count = 16 then (ucast (push_bit 15 (of_bool (getB_CF (oszapc c)) :: Bit32u) OR drop_bit 1 op1) :: Bit16u)
                            else (ucast (push_bit count op1 OR push_bit (count - 1) (of_bool (getB_CF (oszapc c)) :: Bit32u) OR drop_bit (17 - count) op1) :: Bit16u));
                  cf = bit (drop_bit (16 - count) op1) 0
              in set_flags (SET_FLAGS_OxxxxC (cf \<noteq> bit (drop_bit 15 result) 0) cf) (WRITE_16BIT_REG (dst i) result c))"

definition RCR_EwR :: handler where
  "RCR_EwR i c =
     (let count = unat (shift_by i c AND 0x1f) mod 17
      in if count = 0 then c
         else let op1 = (ucast (READ_16BIT_REG (dst i) c) :: Bit32u);
                  result = (ucast (drop_bit count op1 OR push_bit (16 - count) (of_bool (getB_CF (oszapc c)) :: Bit32u) OR push_bit (17 - count) op1) :: Bit16u);
                  cf = bit (drop_bit (count - 1) op1) 0
              in set_flags (SET_FLAGS_OxxxxC (bit (drop_bit 15 (push_bit 1 result XOR result)) 0) cf) (WRITE_16BIT_REG (dst i) result c))"

definition SHL_EwR :: handler where
  "SHL_EwR i c =
     (let count = unat (shift_by i c AND 0x1f)
      in if count = 0 then c
         else let op1 = (ucast (READ_16BIT_REG (dst i) c) :: Bit32u);
                  (result, cf, ovf) =
                    (if count \<le> 16
                     then let result = (ucast (push_bit count op1) :: Bit16u);
                              cf = bit (drop_bit (16 - count) op1) 0
                          in (result, cf, cf \<noteq> bit (drop_bit 15 result) 0)
                     else (0, False, False))
              in set_flags (SET_FLAGS_OxxxxC (ovf) cf) (set_flags (SET_FLAGS_OSZAPC_LOGIC 16 (ucast result)) (WRITE_16BIT_REG (dst i) result c)))"

definition SHR_EwR :: handler where
  "SHR_EwR i c =
     (let count = unat (shift_by i c AND 0x1f)
      in if count = 0 then c
         else let op1 = (ucast (READ_16BIT_REG (dst i) c) :: Bit32u);
                  result = (ucast (drop_bit count op1) :: Bit16u);
                  cf = bit (drop_bit (count - 1) op1) 0;
                  ovf = bit (drop_bit 15 (push_bit 1 result XOR result)) 0
              in set_flags (SET_FLAGS_OxxxxC (ovf) cf) (set_flags (SET_FLAGS_OSZAPC_LOGIC 16 (ucast result)) (WRITE_16BIT_REG (dst i) result c)))"

definition SAR_EwR :: handler where
  "SAR_EwR i c =
     (let count = unat (shift_by i c AND 0x1f)
      in if count = 0 then c
         else let op1 = (scast (READ_16BIT_REG (dst i) c) :: Bit32u);
                  result = (ucast (signed_drop_bit count op1) :: Bit16u);
                  cf = bit (signed_drop_bit (count - 1) op1) 0
              in set_flags (SET_FLAGS_OxxxxC (False) cf) (set_flags (SET_FLAGS_OSZAPC_LOGIC 16 (ucast result)) (WRITE_16BIT_REG (dst i) result c)))"

section \<open>\<open>shift32.cc\<close>\<close>

definition SHLD_EdGdR :: handler where
  "SHLD_EdGdR i c =
     (let count = unat (shift_by i c AND 0x1f)
      in if count = 0 then c
         else let op1 = READ_32BIT_REG (dst i) c;
                  op2 = READ_32BIT_REG (src i) c;
                  result = push_bit count op1 OR drop_bit (32 - count) op2;
                  cf = bit (drop_bit (32 - count) op1) 0
              in set_flags (SET_FLAGS_OxxxxC (cf \<noteq> bit (drop_bit 31 result) 0) cf)
                   (set_flags (SET_FLAGS_OSZAPC_LOGIC 32 result) (WRITE_32BIT_REGZ (dst i) result c)))"

definition SHRD_EdGdR :: handler where
  "SHRD_EdGdR i c =
     (let count = unat (shift_by i c AND 0x1f)
      in if count = 0 then c
         else let op1 = READ_32BIT_REG (dst i) c;
                  op2 = READ_32BIT_REG (src i) c;
                  result = push_bit (32 - count) op2 OR drop_bit count op1;
                  cf = bit (drop_bit (count - 1) op1) 0
              in set_flags (SET_FLAGS_OxxxxC (bit (drop_bit 31 (push_bit 1 result XOR result)) 0) cf)
                   (set_flags (SET_FLAGS_OSZAPC_LOGIC 32 result) (WRITE_32BIT_REGZ (dst i) result c)))"

definition ROL_EdR :: handler where
  "ROL_EdR i c =
     (let count = unat (shift_by i c AND 0x1f)
      in if count = 0 then c
         else let op1 = READ_32BIT_REG (dst i) c;
                  result = push_bit count op1 OR drop_bit (32 - count) op1
              in set_flags (SET_FLAGS_OxxxxC (bit result 0 \<noteq> bit (drop_bit 31 result) 0) (bit result 0)) (WRITE_32BIT_REGZ (dst i) result c))"

definition ROR_EdR :: handler where
  "ROR_EdR i c =
     (let count = unat (shift_by i c AND 0x1f)
      in if count = 0 then c
         else let op1 = READ_32BIT_REG (dst i) c;
                  result = drop_bit count op1 OR push_bit (32 - count) op1
              in set_flags (SET_FLAGS_OxxxxC (bit (drop_bit 30 result) 0 \<noteq> bit (drop_bit 31 result) 0) (bit (drop_bit 31 result) 0)) (WRITE_32BIT_REGZ (dst i) result c))"

definition RCL_EdR :: handler where
  "RCL_EdR i c =
     (let count = unat (shift_by i c AND 0x1f)
      in if count = 0 then c
         else let op1 = READ_32BIT_REG (dst i) c;
                  result = (if count = 1 then push_bit 1 op1 OR (of_bool (getB_CF (oszapc c)) :: Bit32u)
                            else push_bit count op1 OR push_bit (count - 1) (of_bool (getB_CF (oszapc c)) :: Bit32u) OR drop_bit (33 - count) op1);
                  cf = bit (drop_bit (32 - count) op1) 0
              in set_flags (SET_FLAGS_OxxxxC (cf \<noteq> bit (drop_bit 31 result) 0) cf) (WRITE_32BIT_REGZ (dst i) result c))"

definition RCR_EdR :: handler where
  "RCR_EdR i c =
     (let count = unat (shift_by i c AND 0x1f)
      in if count = 0 then c
         else let op1 = READ_32BIT_REG (dst i) c;
                  result = (if count = 1 then drop_bit 1 op1 OR push_bit 31 (of_bool (getB_CF (oszapc c)) :: Bit32u)
                            else drop_bit count op1 OR push_bit (32 - count) (of_bool (getB_CF (oszapc c)) :: Bit32u) OR push_bit (33 - count) op1);
                  cf = bit (drop_bit (count - 1) op1) 0
              in set_flags (SET_FLAGS_OxxxxC (bit (drop_bit 31 (push_bit 1 result XOR result)) 0) cf) (WRITE_32BIT_REGZ (dst i) result c))"

definition SHL_EdR :: handler where
  "SHL_EdR i c =
     (let count = unat (shift_by i c AND 0x1f)
      in if count = 0 then c
         else let op1 = READ_32BIT_REG (dst i) c;
                  result = push_bit count op1;
                  cf = bit (drop_bit (32 - count) op1) 0;
                  ovf = (cf \<noteq> bit (drop_bit 31 result) 0)
              in set_flags (SET_FLAGS_OxxxxC (ovf) cf) (set_flags (SET_FLAGS_OSZAPC_LOGIC 32 result) (WRITE_32BIT_REGZ (dst i) result c)))"

definition SHR_EdR :: handler where
  "SHR_EdR i c =
     (let count = unat (shift_by i c AND 0x1f)
      in if count = 0 then c
         else let op1 = READ_32BIT_REG (dst i) c;
                  result = drop_bit count op1;
                  cf = bit (drop_bit (count - 1) op1) 0;
                  ovf = bit (drop_bit 31 (push_bit 1 result XOR result)) 0
              in set_flags (SET_FLAGS_OxxxxC (ovf) cf) (set_flags (SET_FLAGS_OSZAPC_LOGIC 32 result) (WRITE_32BIT_REGZ (dst i) result c)))"

definition SAR_EdR :: handler where
  "SAR_EdR i c =
     (let count = unat (shift_by i c AND 0x1f)
      in if count = 0 then c
         else let op1 = READ_32BIT_REG (dst i) c;
                  result = signed_drop_bit count op1;
                  cf = bit (drop_bit (count - 1) op1) 0
              in set_flags (SET_FLAGS_OxxxxC (False) cf) (set_flags (SET_FLAGS_OSZAPC_LOGIC 32 result) (WRITE_32BIT_REGZ (dst i) result c)))"

end
