(* ===== verification/CpuShift_Spec.thy ===== *)
theory CpuShift_Spec
  imports CpuLogic CpuShift
begin

text \<open>
  What the shifts and rotates compute.  The reference is one step: the word moves by one bit, the bit
  that falls out becomes CF, and OF tells whether the sign changed in the way the manuals define.  An
  instruction with a count is that many steps; the closed forms of repeated steps connect this with
  the shifts and masks of the handlers.  A double shift is a rotation of the two operands joined.
\<close>

section \<open>One step\<close>

definition shl1 where
  "shl1 = (\<lambda>(a :: 'a::len word, fl :: arith_flags). let r = push_bit 1 a; cf = bit a (LENGTH('a) - 1) in
     (r, (logic_flags r)\<lparr> OF := cf \<noteq> bit r (LENGTH('a) - 1), CF := cf \<rparr>))"

definition shr1 where
  "shr1 = (\<lambda>(a :: 'a::len word, fl :: arith_flags). let r = drop_bit 1 a in
     (r, (logic_flags r)\<lparr> OF := bit a (LENGTH('a) - 1), CF := bit a 0 \<rparr>))"

definition sar1 where
  "sar1 = (\<lambda>(a :: 'a::len word, fl :: arith_flags). let r = signed_drop_bit 1 a in
     (r, (logic_flags r)\<lparr> OF := False, CF := bit a 0 \<rparr>))"

definition rol1 where
  "rol1 = (\<lambda>(a :: 'a::len word, fl :: arith_flags). let r = word_rotl 1 a in
     (r, fl\<lparr> OF := bit r 0 \<noteq> bit r (LENGTH('a) - 1), CF := bit r 0 \<rparr>))"

definition ror1 where
  "ror1 = (\<lambda>(a :: 'a::len word, fl :: arith_flags). let r = word_rotr 1 a in
     (r, fl\<lparr> OF := bit r (LENGTH('a) - 2) \<noteq> bit r (LENGTH('a) - 1), CF := bit r (LENGTH('a) - 1) \<rparr>))"

definition rcl1 where
  "rcl1 = (\<lambda>(a :: 'a::len word, fl :: arith_flags). let r = push_bit 1 a OR of_bool (CF fl); cf = bit a (LENGTH('a) - 1) in
     (r, fl\<lparr> OF := cf \<noteq> bit r (LENGTH('a) - 1), CF := cf \<rparr>))"

definition rcr1 where
  "rcr1 = (\<lambda>(a :: 'a::len word, fl :: arith_flags). let r = drop_bit 1 a OR push_bit (LENGTH('a) - 1) (of_bool (CF fl)) in
     (r, fl\<lparr> OF := bit r (LENGTH('a) - 2) \<noteq> bit r (LENGTH('a) - 1), CF := bit a 0 \<rparr>))"

text \<open>The count is CL or the immediate modulo 32; \<open>f\<close> maps it, the destination and the flags to the new ones.\<close>

definition shift_count :: "bxInstruction_c \<Rightarrow> BX_CPU_C \<Rightarrow> nat" where
  "shift_count i c = unat (if count_CL i then CL c else Ib i) mod 32"

definition shifts ::
  "(nat \<Rightarrow> BX_CPU_C \<Rightarrow> 'a::len word) \<Rightarrow> (nat \<Rightarrow> 'a word \<Rightarrow> BX_CPU_C \<Rightarrow> BX_CPU_C) \<Rightarrow>
   (nat \<Rightarrow> 'a word \<times> arith_flags \<Rightarrow> 'a word \<times> arith_flags) \<Rightarrow> handler \<Rightarrow> bool" where
  "shifts rd wr f h \<longleftrightarrow> (\<forall>i c.
     (let (r, fl) = f (shift_count i c) (rd (dst i) c, flags_of (oszapc c))
      in gen_reg (h i c) = gen_reg (wr (dst i) r c) \<and> flags_of (oszapc (h i c)) = fl))"

definition shifts8 where "shifts8 = shifts READ_8BIT_REG WRITE_8BIT_REG"
definition shifts16 where "shifts16 = shifts READ_16BIT_REG WRITE_16BIT_REG"
definition shifts32 where "shifts32 = shifts READ_32BIT_REG WRITE_32BIT_REGZ"

section \<open>Counts\<close>

lemma masks: "(0x07 :: Bit32u) = mask 3" "(0x0f :: Bit32u) = mask 4" "(0x1f :: Bit32u) = mask 5"
  by (simp_all add: mask_eq_exp_minus_1)

lemma unat_and_mask: "unat (v AND mask n) = unat v mod 2 ^ n" for v :: Bit32u
proof -
  have "v AND mask n = take_bit n v" by (simp add: take_bit_eq_mask)
  then show ?thesis by (simp only: unsigned_take_bit_eq) (simp add: take_bit_eq_mod)
qed

lemma shift_by_unat: "unat (shift_by i c) = unat (if count_CL i then CL c else Ib i)"
proof -
  have "unat (ucast v :: Bit32u) = unat v" for v :: Bit8u
    by (simp add: unsigned_ucast_eq take_bit_nat_eq_self_iff order_less_trans [OF unsigned_less])
  then show ?thesis by (simp add: shift_by_def)
qed

lemma count_mask: "unat (shift_by i c AND 0x1f) = shift_count i c"
  "unat (shift_by i c AND 0x07) = shift_count i c mod 8" "unat (shift_by i c AND 0x0f) = shift_count i c mod 16"
  unfolding masks unat_and_mask shift_by_unat shift_count_def by (simp_all add: mod_mod_cancel)

lemma count_0: "v AND 0x07 = 0 \<longleftrightarrow> unat (v AND 0x07) = 0" "v AND 0x0f = 0 \<longleftrightarrow> unat (v AND 0x0f) = 0" for v :: Bit32u
  by (simp_all add: unat_eq_zero)

lemma count_rest:
  "v AND 0x07 = 0 \<Longrightarrow> v AND 0x18 = 0 \<longleftrightarrow> unat (v AND 0x1f) = 0"
  "v AND 0x0f = 0 \<Longrightarrow> v AND 0x10 = 0 \<longleftrightarrow> unat (v AND 0x1f) = 0" for v :: Bit32u
proof -
  have "(0x1f :: Bit32u) = 0x18 OR 0x07" "(0x1f :: Bit32u) = 0x10 OR 0x0f" by simp_all
  then have s: "v AND 0x1f = (v AND 0x18) OR (v AND 0x07)" "v AND 0x1f = (v AND 0x10) OR (v AND 0x0f)"
    by (metis bit.conj_disj_distrib)+
  show "v AND 0x07 = 0 \<Longrightarrow> v AND 0x18 = 0 \<longleftrightarrow> unat (v AND 0x1f) = 0"
    "v AND 0x0f = 0 \<Longrightarrow> v AND 0x10 = 0 \<longleftrightarrow> unat (v AND 0x1f) = 0"
    by (simp_all only: unat_eq_zero s(1), simp) (simp only: s(1) [symmetric] s(2), simp)
qed

lemma shift_count_less: "shift_count i c < 32"
  by (simp add: shift_count_def)

section \<open>Repeated steps in closed form\<close>

lemma word_rotl_word_rotl: "word_rotl m (word_rotl n w) = word_rotl (m + n) w" for w :: "'a::len word"
  by (simp add: word_rotl_rev word_rotr_word_rotr_eq)

lemma rot_mod: "word_rotl (n mod LENGTH('a)) w = word_rotl n w" "word_rotr (n mod LENGTH('a)) w = word_rotr n w"
  for w :: "'a::len word"
  by (rule bit_word_eqI, simp add: bit_simps mod_simps)+

lemma rot_0: "word_rotl 0 w = w" "word_rotr 0 w = w" for w :: "'a::len word"
  by (rule bit_word_eqI, simp add: bit_simps)+

lemma steps_fst:
  "fst ((shl1 ^^ n) (a, fl)) = push_bit n a" "fst ((shr1 ^^ n) (a, fl)) = drop_bit n a"
  "fst ((sar1 ^^ n) (a, fl)) = signed_drop_bit n a" "fst ((rol1 ^^ n) (a, fl)) = word_rotl n a"
  "fst ((ror1 ^^ n) (a, fl)) = word_rotr n a"
  by (induction n) (simp_all add: shl1_def shr1_def sar1_def rol1_def ror1_def Let_def split_beta rot_0
      word_rotl_word_rotl word_rotr_word_rotr_eq push_bit_double)

lemma steps_apply:
  fixes a :: "'a::len word"
  shows "shl1 (a, fl) = (push_bit 1 a, (logic_flags (push_bit 1 a))\<lparr>
      OF := bit a (LENGTH('a) - 1) \<noteq> bit (push_bit 1 a) (LENGTH('a) - 1), CF := bit a (LENGTH('a) - 1) \<rparr>)"
    "shr1 (a, fl) = (drop_bit 1 a, (logic_flags (drop_bit 1 a))\<lparr> OF := bit a (LENGTH('a) - 1), CF := bit a 0 \<rparr>)"
    "sar1 (a, fl) = (signed_drop_bit 1 a, (logic_flags (signed_drop_bit 1 a))\<lparr> OF := False, CF := bit a 0 \<rparr>)"
    "rol1 (a, fl) = (word_rotl 1 a,
      fl\<lparr> OF := bit (word_rotl 1 a) 0 \<noteq> bit (word_rotl 1 a) (LENGTH('a) - 1), CF := bit (word_rotl 1 a) 0 \<rparr>)"
    "ror1 (a, fl) = (word_rotr 1 a, fl\<lparr> OF := bit (word_rotr 1 a) (LENGTH('a) - 2) \<noteq> bit (word_rotr 1 a) (LENGTH('a) - 1), CF := bit (word_rotr 1 a) (LENGTH('a) - 1) \<rparr>)"
    "rcl1 (a, fl) = (push_bit 1 a OR of_bool (CF fl), fl\<lparr> OF := bit a (LENGTH('a) - 1) \<noteq> bit (push_bit 1 a OR of_bool (CF fl)) (LENGTH('a) - 1), CF := bit a (LENGTH('a) - 1) \<rparr>)"
    "rcr1 (a, fl) = (let r = drop_bit 1 a OR push_bit (LENGTH('a) - 1) (of_bool (CF fl)) in
      (r, fl\<lparr> OF := bit r (LENGTH('a) - 2) \<noteq> bit r (LENGTH('a) - 1), CF := bit a 0 \<rparr>))"
  by (simp_all only: shl1_def shr1_def sar1_def rol1_def ror1_def rcl1_def rcr1_def Let_def prod.case)

lemma rot_frame:
  "(snd ((rol1 ^^ n) (a, fl)))\<lparr> OF := y, CF := x \<rparr> = fl\<lparr> OF := y, CF := x \<rparr>"
  "(snd ((ror1 ^^ n) (a, fl)))\<lparr> OF := y, CF := x \<rparr> = fl\<lparr> OF := y, CF := x \<rparr>"
  by (induction n arbitrary: x y) (simp_all add: rol1_def ror1_def Let_def split_beta)

lemma steps_Suc:
  fixes a :: "'a::len word"
  shows "(shl1 ^^ Suc n) (a, fl) = (push_bit (Suc n) a, (logic_flags (push_bit (Suc n) a))\<lparr>
      OF := bit (push_bit n a) (LENGTH('a) - 1) \<noteq> bit (push_bit (Suc n) a) (LENGTH('a) - 1), CF := bit (push_bit n a) (LENGTH('a) - 1) \<rparr>)"
    "(shr1 ^^ Suc n) (a, fl) = (drop_bit (Suc n) a, (logic_flags (drop_bit (Suc n) a))\<lparr>
      OF := bit (drop_bit n a) (LENGTH('a) - 1), CF := bit a n \<rparr>)"
    "(sar1 ^^ Suc n) (a, fl) = (signed_drop_bit (Suc n) a, (logic_flags (signed_drop_bit (Suc n) a))\<lparr>
      OF := False, CF := bit (signed_drop_bit n a) 0 \<rparr>)"
    "(rol1 ^^ Suc n) (a, fl) = (let r = word_rotl (Suc n) a in (r, fl\<lparr> OF := bit r 0 \<noteq> bit r (LENGTH('a) - 1), CF := bit r 0 \<rparr>))"
    "(ror1 ^^ Suc n) (a, fl) = (let r = word_rotr (Suc n) a in
      (r, fl\<lparr> OF := bit r (LENGTH('a) - 2) \<noteq> bit r (LENGTH('a) - 1), CF := bit r (LENGTH('a) - 1) \<rparr>))"
proof -
  have step: "(f ^^ Suc n) x = (let y = (f ^^ n) x in f (fst y, snd y))" for f :: "'a word \<times> arith_flags \<Rightarrow> 'a word \<times> arith_flags" and x
    by (simp add: Let_def)
  show "(shl1 ^^ Suc n) (a, fl) = (push_bit (Suc n) a, (logic_flags (push_bit (Suc n) a))\<lparr>
      OF := bit (push_bit n a) (LENGTH('a) - 1) \<noteq> bit (push_bit (Suc n) a) (LENGTH('a) - 1), CF := bit (push_bit n a) (LENGTH('a) - 1) \<rparr>)"
    "(shr1 ^^ Suc n) (a, fl) = (drop_bit (Suc n) a, (logic_flags (drop_bit (Suc n) a))\<lparr>
      OF := bit (drop_bit n a) (LENGTH('a) - 1), CF := bit a n \<rparr>)"
    "(sar1 ^^ Suc n) (a, fl) = (signed_drop_bit (Suc n) a, (logic_flags (signed_drop_bit (Suc n) a))\<lparr>
      OF := False, CF := bit (signed_drop_bit n a) 0 \<rparr>)"
    "(rol1 ^^ Suc n) (a, fl) = (let r = word_rotl (Suc n) a in (r, fl\<lparr> OF := bit r 0 \<noteq> bit r (LENGTH('a) - 1), CF := bit r 0 \<rparr>))"
    "(ror1 ^^ Suc n) (a, fl) = (let r = word_rotr (Suc n) a in
      (r, fl\<lparr> OF := bit r (LENGTH('a) - 2) \<noteq> bit r (LENGTH('a) - 1), CF := bit r (LENGTH('a) - 1) \<rparr>))"
    unfolding step Let_def steps_fst steps_apply rot_frame word_rotl_word_rotl word_rotr_word_rotr_eq
    by (simp_all add: push_bit_double bit_simps)
qed

lemma bit_of_bool_word: "bit (of_bool b :: 'a::len word) n \<longleftrightarrow> b \<and> n = 0"
  by (auto simp: bit_simps)

lemmas bits = bit_or_iff bit_push_bit_iff bit_drop_bit_eq o_apply bit_of_bool_word possible_bit_word

lemma rcl_Suc:
  fixes a :: "'a::len word"
  assumes "n < LENGTH('a)"
  shows "(rcl1 ^^ Suc n) (a, fl) = (let r = push_bit (Suc n) a OR push_bit n (of_bool (CF fl)) OR drop_bit (LENGTH('a) - n) a in
    (r, fl\<lparr> OF := bit a (LENGTH('a) - Suc n) \<noteq> bit r (LENGTH('a) - 1), CF := bit a (LENGTH('a) - Suc n) \<rparr>))"
  using assms
proof (induction n)
  case 0
  have z: "drop_bit LENGTH('a) a = 0" by (rule bit_word_eqI) (simp add: bit_simps)
  have s: "(rcl1 ^^ Suc 0) (a, fl) = rcl1 (a, fl)" by simp
  show ?case unfolding s steps_apply by (simp add: Let_def z)
next
  case (Suc n)
  let ?r = "push_bit (Suc n) a OR push_bit n (of_bool (CF fl)) OR drop_bit (LENGTH('a) - n) a"
  let ?r' = "push_bit (Suc (Suc n)) a OR push_bit (Suc n) (of_bool (CF fl)) OR drop_bit (LENGTH('a) - Suc n) a"
  have r: "push_bit 1 ?r OR of_bool (bit a (LENGTH('a) - Suc n)) = ?r'"
  proof (rule bit_word_eqI)
    fix k assume "k < LENGTH('a)"
    then show "bit (push_bit 1 ?r OR of_bool (bit a (LENGTH('a) - Suc n))) k = bit ?r' k"
      using Suc.prems unfolding bits by (cases k) (auto simp: Suc_diff_Suc Suc_diff_le algebra_simps dest: bit_imp_le_length)
  qed
  have cf: "bit ?r (LENGTH('a) - 1) = bit a (LENGTH('a) - Suc (Suc n))"
    using Suc.prems unfolding bits by (auto dest: bit_imp_le_length)
  have "(rcl1 ^^ Suc (Suc n)) (a, fl) = rcl1 ((rcl1 ^^ Suc n) (a, fl))" by simp
  also have "\<dots> = rcl1 (?r, fl\<lparr> OF := bit a (LENGTH('a) - Suc n) \<noteq> bit ?r (LENGTH('a) - 1), CF := bit a (LENGTH('a) - Suc n) \<rparr>)"
    using Suc by (simp add: Let_def)
  finally show ?case unfolding steps_apply using r cf by (simp add: Let_def)
qed

lemma rcr_Suc:
  fixes a :: "'a::len word"
  assumes "n < LENGTH('a)"
  shows "(rcr1 ^^ Suc n) (a, fl) = (let r = drop_bit (Suc n) a OR push_bit (LENGTH('a) - Suc n) (of_bool (CF fl)) OR push_bit (LENGTH('a) - n) a in
    (r, fl\<lparr> OF := bit r (LENGTH('a) - 2) \<noteq> bit r (LENGTH('a) - 1), CF := bit a n \<rparr>))"
  using assms
proof (induction n)
  case 0
  have z: "push_bit LENGTH('a) a = 0" by (rule bit_word_eqI) (simp add: bit_simps)
  have s: "(rcr1 ^^ Suc 0) (a, fl) = rcr1 (a, fl)" by simp
  show ?case unfolding s steps_apply by (simp add: Let_def z)
next
  case (Suc n)
  let ?r = "drop_bit (Suc n) a OR push_bit (LENGTH('a) - Suc n) (of_bool (CF fl)) OR push_bit (LENGTH('a) - n) a"
  let ?r' = "drop_bit (Suc (Suc n)) a OR push_bit (LENGTH('a) - Suc (Suc n)) (of_bool (CF fl)) OR push_bit (LENGTH('a) - Suc n) a"
  have r: "drop_bit 1 ?r OR push_bit (LENGTH('a) - 1) (of_bool (bit a n)) = ?r'"
  proof (rule bit_word_eqI)
    fix k assume k: "k < LENGTH('a)"
    have "k = LENGTH('a) - 1 \<or> Suc k < LENGTH('a)" using k by arith
    then show "bit (drop_bit 1 ?r OR push_bit (LENGTH('a) - 1) (of_bool (bit a n))) k = bit ?r' k"
      using Suc.prems unfolding bits by (auto simp: Suc_diff_le algebra_simps dest: bit_imp_le_length)
  qed
  have cf: "bit ?r 0 = bit a (Suc n)" using Suc.prems unfolding bits by auto
  have "(rcr1 ^^ Suc (Suc n)) (a, fl) = rcr1 ((rcr1 ^^ Suc n) (a, fl))" by simp
  also have "\<dots> = rcr1 (?r, fl\<lparr> OF := bit ?r (LENGTH('a) - 2) \<noteq> bit ?r (LENGTH('a) - 1), CF := bit a n \<rparr>)"
    using Suc by (simp add: Let_def)
  finally show ?case unfolding steps_apply using r cf by (simp add: Let_def)
qed

section \<open>Shifts\<close>

lemma narrow_shifts [simp]:
  "ucast (push_bit n (ucast a :: Bit32u)) = push_bit n (a :: Bit8u)" "ucast (push_bit n (ucast b :: Bit32u)) = push_bit n (b :: Bit16u)"
  "ucast (drop_bit n (ucast a :: Bit32u)) = drop_bit n a" "ucast (drop_bit n (ucast b :: Bit32u)) = drop_bit n b"
  "ucast (signed_drop_bit n (scast a :: Bit32u)) = signed_drop_bit n a"
  "ucast (signed_drop_bit n (scast b :: Bit32u)) = signed_drop_bit n b"
  by (rule bit_word_eqI, auto simp: bit_simps min_def dest: bit_imp_le_length last_bit)+

lemma bit_widen [simp]: "bit (ucast a :: Bit32u) n = bit (a :: Bit8u) n" "bit (ucast b :: Bit32u) n = bit (b :: Bit16u) n"
  by (auto simp: bit_ucast_iff dest: bit_imp_le_length)

lemma bit_sign_widen [simp]:
  "n < 32 \<Longrightarrow> bit (scast a :: Bit32u) n = (if 8 \<le> n then bit a 7 else bit (a :: Bit8u) n)"
  "n < 32 \<Longrightarrow> bit (scast b :: Bit32u) n = (if 16 \<le> n then bit b 15 else bit (b :: Bit16u) n)"
  by (auto simp: bit_simps min_def dest: last_bit)

text \<open>No step leaves the processor alone; otherwise the closed form of the steps is compared.\<close>

lemma shiftsI:
  fixes b :: nat
  assumes "\<And>m. m < 32 \<Longrightarrow> g m \<le> b" "\<And>i c. g (shift_count i c) = 0 \<Longrightarrow> h i c = c" "\<And>r c. wr r (rd r c) c = c"
    and "\<And>i c n. n < b \<Longrightarrow> g (shift_count i c) = Suc n \<Longrightarrow>
      gen_reg (h i c) = gen_reg (wr (dst i) (fst ((step ^^ Suc n) (rd (dst i) c, flags_of (oszapc c)))) c) \<and>
      flags_of (oszapc (h i c)) = snd ((step ^^ Suc n) (rd (dst i) c, flags_of (oszapc c)))"
  shows "shifts rd wr (\<lambda>n. step ^^ g n) h"
  unfolding shifts_def
proof (intro allI)
  fix i c
  show "let (r, fl) = (step ^^ g (shift_count i c)) (rd (dst i) c, flags_of (oszapc c)) in
      gen_reg (h i c) = gen_reg (wr (dst i) r c) \<and> flags_of (oszapc (h i c)) = fl"
  proof (cases "g (shift_count i c)")
    case 0
    then show ?thesis using assms(2) [OF 0] assms(3) by simp
  next
    case (Suc n)
    then have "n < b" using assms(1) [OF shift_count_less, of i c] by simp
    from assms(4) [OF this Suc] show ?thesis by (simp only: Suc split_beta Let_def)
  qed
qed

lemmas shift_sizes = shifts8_def shifts16_def shifts32_def
lemmas shift_simps = steps_Suc reg_simps flags_set_OxxxxC flags_LOGIC_sizes bits bit_signed_drop_bit_iff
  add.commute [of _ "numeral k" for k]

lemmas shift_handlers = SHL_EbR_def SHL_EwR_def SHL_EdR_def SHR_EbR_def SHR_EwR_def SHR_EdR_def SAR_EbR_def SAR_EwR_def SAR_EdR_def

lemma single_shifts:
  "shifts8 (\<lambda>n. shl1 ^^ n) SHL_EbR \<and> shifts16 (\<lambda>n. shl1 ^^ n) SHL_EwR \<and> shifts32 (\<lambda>n. shl1 ^^ n) SHL_EdR \<and>
   shifts8 (\<lambda>n. shr1 ^^ n) SHR_EbR \<and> shifts16 (\<lambda>n. shr1 ^^ n) SHR_EwR \<and> shifts32 (\<lambda>n. shr1 ^^ n) SHR_EdR \<and>
   shifts8 (\<lambda>n. sar1 ^^ n) SAR_EbR \<and> shifts16 (\<lambda>n. sar1 ^^ n) SAR_EwR \<and> shifts32 (\<lambda>n. sar1 ^^ n) SAR_EdR"
  unfolding shift_sizes
  by (intro conjI shiftsI [where b = 31]; simp add: shift_handlers count_mask Let_def shift_simps del: funpow.simps push_bit_Suc drop_bit_Suc)

section \<open>Rotations\<close>

lemma count_tests:
  "shift_by i c AND 0x07 = 0 \<longleftrightarrow> shift_count i c mod 8 = 0" "shift_by i c AND 0x0f = 0 \<longleftrightarrow> shift_count i c mod 16 = 0"
  "shift_count i c mod 8 = 0 \<Longrightarrow> shift_by i c AND 0x18 = 0 \<longleftrightarrow> shift_count i c = 0"
  "shift_count i c mod 16 = 0 \<Longrightarrow> shift_by i c AND 0x10 = 0 \<longleftrightarrow> shift_count i c = 0"
  using count_rest [of "shift_by i c"] by (simp_all only: count_0 count_mask)

lemma rot_index:
  fixes k n w :: nat
  assumes "n < w" "k < w"
  shows "(k + (w - n mod w)) mod w = (if k < n then k + w - n else k - n)" "(k + n) mod w = (if k + n < w then k + n else k + n - w)"
  using assms by (auto simp: mod_if)

lemma rot_bits:
  fixes a :: "'a::len word"
  assumes "n < LENGTH('a)"
  shows "push_bit n a OR drop_bit (LENGTH('a) - n) a = word_rotl n a" "drop_bit n a OR push_bit (LENGTH('a) - n) a = word_rotr n a"
proof -
  show "push_bit n a OR drop_bit (LENGTH('a) - n) a = word_rotl n a"
  proof (rule bit_word_eqI)
    fix k assume k: "k < LENGTH('a)"
    have "bit a (LENGTH('a) - n + k) \<longleftrightarrow> k < n \<and> bit a (k + LENGTH('a) - n)"
      using assms by (auto simp: add.commute dest: bit_imp_le_length)
    then show "bit (push_bit n a OR drop_bit (LENGTH('a) - n) a) k = bit (word_rotl n a) k"
      unfolding bits bit_word_rotl_iff rot_index(1) [OF assms k] using k by auto
  qed
  show "drop_bit n a OR push_bit (LENGTH('a) - n) a = word_rotr n a"
  proof (rule bit_word_eqI)
    fix k assume k: "k < LENGTH('a)"
    have "bit a (n + k) \<longleftrightarrow> k + n < LENGTH('a) \<and> bit a (k + n)"
      by (auto simp: add.commute dest: bit_imp_le_length)
    moreover have "LENGTH('a) - n \<le> k \<longleftrightarrow> \<not> k + n < LENGTH('a)" "k - (LENGTH('a) - n) = k + n - LENGTH('a)" using assms by auto
    ultimately show "bit (drop_bit n a OR push_bit (LENGTH('a) - n) a) k = bit (word_rotr n a) k"
      unfolding bits bit_word_rotr_iff rot_index(2) [OF assms k] using k by auto
  qed
qed

lemma rot_narrow:
  "n < 8 \<Longrightarrow> ucast (push_bit n (ucast a :: Bit32u) OR drop_bit (8 - n) (ucast a)) = word_rotl n (a :: Bit8u)"
  "n < 8 \<Longrightarrow> ucast (drop_bit n (ucast a :: Bit32u) OR push_bit (8 - n) (ucast a)) = word_rotr n a"
  "n < 16 \<Longrightarrow> ucast (push_bit n (ucast b :: Bit32u) OR drop_bit (16 - n) (ucast b)) = word_rotl n (b :: Bit16u)"
  "n < 16 \<Longrightarrow> ucast (drop_bit n (ucast b :: Bit32u) OR push_bit (16 - n) (ucast b)) = word_rotr n b"
  "n < 31 \<Longrightarrow> push_bit (Suc n) d OR drop_bit (31 - n) d = word_rotl (Suc n) (d :: Bit32u)"
  "n < 31 \<Longrightarrow> drop_bit (Suc n) d OR push_bit (31 - n) d = word_rotr (Suc n) d"
proof -
  have u: "ucast (x OR y) = (ucast x OR ucast y :: 'x::len word)" for x y :: Bit32u
    by (rule bit_word_eqI) (auto simp: bit_or_iff bit_ucast_iff)
  show "n < 8 \<Longrightarrow> ucast (push_bit n (ucast a :: Bit32u) OR drop_bit (8 - n) (ucast a)) = word_rotl n (a :: Bit8u)"
    "n < 8 \<Longrightarrow> ucast (drop_bit n (ucast a :: Bit32u) OR push_bit (8 - n) (ucast a)) = word_rotr n a"
    using rot_bits [of n a] by (simp_all add: u)
  show "n < 16 \<Longrightarrow> ucast (push_bit n (ucast b :: Bit32u) OR drop_bit (16 - n) (ucast b)) = word_rotl n (b :: Bit16u)"
    "n < 16 \<Longrightarrow> ucast (drop_bit n (ucast b :: Bit32u) OR push_bit (16 - n) (ucast b)) = word_rotr n b"
    using rot_bits [of n b] by (simp_all add: u)
  show "n < 31 \<Longrightarrow> push_bit (Suc n) d OR drop_bit (31 - n) d = word_rotl (Suc n) (d :: Bit32u)"
    "n < 31 \<Longrightarrow> drop_bit (Suc n) d OR push_bit (31 - n) d = word_rotr (Suc n) d"
    using rot_bits [of "Suc n" d] by simp_all
qed

lemma rot_reduce: 
  "word_rotl (n mod 8) a = word_rotl n (a :: Bit8u)" "word_rotl (n mod 16) b = word_rotl n (b :: Bit16u)"
  "word_rotr (n mod 8) a = word_rotr n a" "word_rotr (n mod 16) b = word_rotr n b"
  using rot_mod [of n a] rot_mod [of n b] by simp_all

lemma rot_whole:
  "n mod 8 = 0 \<Longrightarrow> word_rotl n a = (a :: Bit8u)" "n mod 16 = 0 \<Longrightarrow> word_rotl n b = (b :: Bit16u)"
  "n mod 8 = 0 \<Longrightarrow> word_rotr n a = a" "n mod 16 = 0 \<Longrightarrow> word_rotr n b = b"
  using rot_reduce(1,3) [of n a] rot_reduce(2,4) [of n b] by (simp_all add: rot_0)

lemmas rot_handlers = ROL_EbR_def ROL_EwR_def ROL_EdR_def ROR_EbR_def ROR_EwR_def ROR_EdR_def 

lemma plain_rotations:
  "shifts8 (\<lambda>n. rol1 ^^ n) ROL_EbR \<and> shifts16 (\<lambda>n. rol1 ^^ n) ROL_EwR \<and> shifts32 (\<lambda>n. rol1 ^^ n) ROL_EdR \<and>
   shifts8 (\<lambda>n. ror1 ^^ n) ROR_EbR \<and> shifts16 (\<lambda>n. ror1 ^^ n) ROR_EwR \<and> shifts32 (\<lambda>n. ror1 ^^ n) ROR_EdR"
  unfolding shift_sizes
  by (intro conjI shiftsI [where b = 31]; simp add: rot_handlers count_mask count_tests Let_def steps_Suc reg_simps flags_set_OxxxxC rot_narrow rot_reduce rot_whole bit_drop_bit_eq del: funpow.simps push_bit_Suc drop_bit_Suc)

section \<open>Rotations through the carry\<close>

text \<open>The handlers' words in the shape their definitions have.\<close>

lemma rcl_words:
  "n < 8 \<Longrightarrow> (if Suc n = 1 then ucast (push_bit 1 (ucast a :: Bit32u) OR of_bool z)
      else ucast (push_bit (Suc n) (ucast a :: Bit32u) OR push_bit (Suc n - 1) (of_bool z) OR drop_bit (9 - Suc n) (ucast a))) =
    push_bit (Suc n) a OR push_bit n (of_bool z) OR drop_bit (LENGTH(8) - n) (a :: Bit8u)"
  "n < 16 \<Longrightarrow> (if Suc n = 1 then ucast (push_bit 1 (ucast b :: Bit32u) OR of_bool z)
      else if Suc n = 16 then ucast (push_bit 15 (of_bool z) OR drop_bit 1 (ucast b :: Bit32u))
      else ucast (push_bit (Suc n) (ucast b :: Bit32u) OR push_bit (Suc n - 1) (of_bool z) OR drop_bit (17 - Suc n) (ucast b))) =
    push_bit (Suc n) b OR push_bit n (of_bool z) OR drop_bit (LENGTH(16) - n) (b :: Bit16u)"
  "n < 31 \<Longrightarrow> (if Suc n = 1 then push_bit 1 d OR of_bool z
      else push_bit (Suc n) d OR push_bit (Suc n - 1) (of_bool z) OR drop_bit (33 - Suc n) d) =
    push_bit (Suc n) d OR push_bit n (of_bool z) OR drop_bit (LENGTH(32) - n) (d :: Bit32u)"
  by (intro bit_word_eqI; unfold if_distrib [of bit] if_distribR bits bit_ucast_iff; auto dest: bit_imp_le_length)+

lemma rcr_words:
  "n < 8 \<Longrightarrow> ucast (drop_bit (Suc n) (ucast a :: Bit32u) OR push_bit (8 - Suc n) (of_bool z) OR push_bit (9 - Suc n) (ucast a)) =
    drop_bit (Suc n) a OR push_bit (LENGTH(8) - Suc n) (of_bool z) OR push_bit (LENGTH(8) - n) (a :: Bit8u)"
  "n < 16 \<Longrightarrow> ucast (drop_bit (Suc n) (ucast b :: Bit32u) OR push_bit (16 - Suc n) (of_bool z) OR push_bit (17 - Suc n) (ucast b)) =
    drop_bit (Suc n) b OR push_bit (LENGTH(16) - Suc n) (of_bool z) OR push_bit (LENGTH(16) - n) (b :: Bit16u)"
  "n < 31 \<Longrightarrow> (if Suc n = 1 then drop_bit 1 d OR push_bit 31 (of_bool z)
      else drop_bit (Suc n) d OR push_bit (32 - Suc n) (of_bool z) OR push_bit (33 - Suc n) d) =
    drop_bit (Suc n) d OR push_bit (LENGTH(32) - Suc n) (of_bool z) OR push_bit (LENGTH(32) - n) (d :: Bit32u)"
  by (intro bit_word_eqI; unfold if_distrib [of bit] if_distribR bits bit_ucast_iff; auto dest: bit_imp_le_length)+

lemma bit_beyond:
  "8 \<le> n \<Longrightarrow> \<not> bit (a :: Bit8u) n" "16 \<le> n \<Longrightarrow> \<not> bit (b :: Bit16u) n" "32 \<le> n \<Longrightarrow> \<not> bit (d :: Bit32u) n"
  using bit_imp_le_length [of a n] bit_imp_le_length [of b n] bit_imp_le_length [of d n] by auto

lemma top_two:
  "bit (drop_bit 7 (push_bit 1 a XOR a)) 0 \<longleftrightarrow> bit a 6 \<noteq> bit (a :: Bit8u) 7"
  "bit (drop_bit 15 (push_bit 1 b XOR b)) 0 \<longleftrightarrow> bit b 14 \<noteq> bit (b :: Bit16u) 15"
  "bit (drop_bit 31 (push_bit 1 d XOR d)) 0 \<longleftrightarrow> bit d 30 \<noteq> bit (d :: Bit32u) 31"
  unfolding bits bit_xor_iff by auto

lemmas rc_simps = rcl_Suc rcr_Suc Let_def reg_simps flags_set_OxxxxC bits bit_beyond

lemma RCL8: "shifts8 (\<lambda>n. rcl1 ^^ (n mod 9)) RCL_EbR"
  unfolding shift_sizes
  apply (rule shiftsI [where b = 8])
     apply simp
    apply (simp add: RCL_EbR_def count_mask)
   apply simp
  subgoal premises p for i c n
    using p(1) unfolding RCL_EbR_def count_mask p(2) Let_def rcl_words(1) [OF p(1)]
    by (simp add: rc_simps del: funpow.simps push_bit_Suc drop_bit_Suc)
  done

lemma RCL16: "shifts16 (\<lambda>n. rcl1 ^^ (n mod 17)) RCL_EwR"
  unfolding shift_sizes
  apply (rule shiftsI [where b = 16])
     apply simp
    apply (simp add: RCL_EwR_def count_mask)
   apply simp
  subgoal premises p for i c n
    using p(1) unfolding RCL_EwR_def count_mask p(2) Let_def rcl_words(2) [OF p(1)]
    by (simp add: rc_simps del: funpow.simps push_bit_Suc drop_bit_Suc)
  done

lemma RCL32: "shifts32 (\<lambda>n. rcl1 ^^ n) RCL_EdR"
  unfolding shift_sizes
  apply (rule shiftsI [where b = 31])
     apply simp
    apply (simp add: RCL_EdR_def count_mask)
   apply simp
  subgoal premises p for i c n
    using p(1) unfolding RCL_EdR_def count_mask p(2) Let_def rcl_words(3) [OF p(1)]
    by (simp add: rc_simps del: funpow.simps push_bit_Suc drop_bit_Suc)
  done

lemma RCR8: "shifts8 (\<lambda>n. rcr1 ^^ (n mod 9)) RCR_EbR"
  unfolding shift_sizes
  apply (rule shiftsI [where b = 8])
     apply simp
    apply (simp add: RCR_EbR_def count_mask)
   apply simp
  subgoal premises p for i c n
    using p(1) unfolding RCR_EbR_def count_mask p(2) Let_def rcr_words(1) [OF p(1)] top_two
    by (simp add: rc_simps del: funpow.simps push_bit_Suc drop_bit_Suc)
  done

lemma RCR16: "shifts16 (\<lambda>n. rcr1 ^^ (n mod 17)) RCR_EwR"
  unfolding shift_sizes
  apply (rule shiftsI [where b = 16])
     apply simp
    apply (simp add: RCR_EwR_def count_mask)
   apply simp
  subgoal premises p for i c n
    using p(1) unfolding RCR_EwR_def count_mask p(2) Let_def rcr_words(2) [OF p(1)] top_two
    by (simp add: rc_simps del: funpow.simps push_bit_Suc drop_bit_Suc)
  done

lemma RCR32: "shifts32 (\<lambda>n. rcr1 ^^ n) RCR_EdR"
  unfolding shift_sizes
  apply (rule shiftsI [where b = 31])
     apply simp
    apply (simp add: RCR_EdR_def count_mask)
   apply simp
  subgoal premises p for i c n
    using p(1) unfolding RCR_EdR_def count_mask p(2) Let_def rcr_words(3) [OF p(1)] top_two
    by (simp add: rc_simps del: funpow.simps push_bit_Suc drop_bit_Suc)
  done


section \<open>Double shifts\<close>

definition shld :: "nat \<Rightarrow> 'a::len word \<Rightarrow> 'a word \<Rightarrow> arith_flags \<Rightarrow> 'b::len itself \<Rightarrow> 'a word \<times> arith_flags" where
  "shld n a b fl _ = (if n = 0 then (a, fl) else
     let d = word_rotl n (word_cat a b :: 'b word); r = ucast (drop_bit LENGTH('a) d); cf = bit d 0
     in (r, (logic_flags r)\<lparr> OF := cf \<noteq> bit r (LENGTH('a) - 1), CF := cf \<rparr>))"

definition shrd :: "nat \<Rightarrow> 'a::len word \<Rightarrow> 'a word \<Rightarrow> arith_flags \<Rightarrow> 'b::len itself \<Rightarrow> 'a word \<times> arith_flags" where
  "shrd n a b fl _ = (if n = 0 then (a, fl) else
     let r = ucast (word_rotr n (word_cat b a :: 'b word)); cf = bit a (n - 1)
     in (r, (logic_flags r)\<lparr> OF := bit r (LENGTH('a) - 2) \<noteq> bit r (LENGTH('a) - 1), CF := cf \<rparr>))"

lemma rot_bit:
  fixes w :: "'a::len word"
  assumes "n < LENGTH('a)" "k < LENGTH('a)"
  shows "bit (word_rotl n w) k = bit w (if k < n then k + LENGTH('a) - n else k - n)"
    "bit (word_rotr n w) k = bit w (if k + n < LENGTH('a) then k + n else k + n - LENGTH('a))"
  using assms rot_index [OF assms] by (simp_all add: bit_word_rotl_iff bit_word_rotr_iff)

lemma shld_words_16:
  fixes a b :: Bit16u
  assumes "0 < n" "n < 32"
  shows "ucast (drop_bit 16 (if 16 < n then push_bit n (push_bit 16 (ucast a) OR ucast b) OR push_bit (n - 16) (ucast a)
      else push_bit n (push_bit 16 (ucast a) OR ucast b :: Bit32u))) =
    (ucast (drop_bit 16 (word_rotl n (word_cat a b :: 32 word))) :: Bit16u)"
    "bit (drop_bit (32 - n) (push_bit 16 (ucast a) OR ucast b :: Bit32u)) 0 = bit (word_rotl n (word_cat a b :: 32 word)) 0"
proof -
  show "ucast (drop_bit 16 (if 16 < n then push_bit n (push_bit 16 (ucast a) OR ucast b) OR push_bit (n - 16) (ucast a)
      else push_bit n (push_bit 16 (ucast a) OR ucast b :: Bit32u))) =
    (ucast (drop_bit 16 (word_rotl n (word_cat a b :: 32 word))) :: Bit16u)"
  proof (rule bit_word_eqI)
    fix k assume "k < LENGTH(16)"
    then have k: "k < 16" "16 + k < LENGTH(32)" by simp_all
    have n: "n < LENGTH(32)" using assms by simp
    show "bit (ucast (drop_bit 16 (if 16 < n then push_bit n (push_bit 16 (ucast a) OR ucast b) OR push_bit (n - 16) (ucast a)
      else push_bit n (push_bit 16 (ucast a) OR ucast b :: Bit32u))) :: Bit16u) k =
      bit (ucast (drop_bit 16 (word_rotl n (word_cat a b :: 32 word))) :: Bit16u) k"
      unfolding bit_ucast_iff bits if_distrib [of bit] if_distribR rot_bit [OF n k(2)] bit_word_cat_iff
      using k(1) assms bit_beyond(2) [of "16 + k - n" b] bit_beyond(2) [of "32 + k - n" a] by auto
  qed
  show "bit (drop_bit (32 - n) (push_bit 16 (ucast a) OR ucast b :: Bit32u)) 0 = bit (word_rotl n (word_cat a b :: 32 word)) 0"
    using assms unfolding bits by (auto simp: rot_bit bit_word_cat_iff bit_beyond)
qed

lemma shld_words_32:
  fixes a b :: Bit32u
  assumes "0 < n" "n < 32"
  shows "push_bit n a OR drop_bit (32 - n) b = ucast (drop_bit 32 (word_rotl n (word_cat a b :: 64 word)))"
    "bit (word_rotl n (word_cat a b :: 64 word)) 0 = bit a (32 - n)"
proof -
  show "push_bit n a OR drop_bit (32 - n) b = ucast (drop_bit 32 (word_rotl n (word_cat a b :: 64 word)))"
  proof (rule bit_word_eqI)
    fix k assume "k < LENGTH(32)"
    then have k: "k < 32" "32 + k < LENGTH(64)" by simp_all
    have n: "n < LENGTH(64)" using assms by simp
    show "bit (push_bit n a OR drop_bit (32 - n) b) k = bit (ucast (drop_bit 32 (word_rotl n (word_cat a b :: 64 word))) :: Bit32u) k"
      unfolding bit_ucast_iff bits rot_bit [OF n k(2)] bit_word_cat_iff
      using k(1) assms bit_beyond(3) [of "32 + k - n" b] by auto
  qed
  show "bit (word_rotl n (word_cat a b :: 64 word)) 0 = bit a (32 - n)"
    using assms unfolding bits by (auto simp: rot_bit bit_word_cat_iff bit_beyond)
qed

lemma shrd_words_16:
  fixes a b :: Bit16u
  assumes "0 < n" "n < 32"
  shows "ucast (if 16 < n then drop_bit n (push_bit 16 (ucast b) OR ucast a) OR push_bit (32 - n) (ucast a)
      else drop_bit n (push_bit 16 (ucast b) OR ucast a :: Bit32u)) = (ucast (word_rotr n (word_cat b a :: 32 word)) :: Bit16u)"
proof (rule bit_word_eqI)
  fix k assume "k < LENGTH(16)"
  then have k: "k < 16" "k < LENGTH(32)" by simp_all
  have n: "n < LENGTH(32)" using assms by simp
  show "bit (ucast (if 16 < n then drop_bit n (push_bit 16 (ucast b) OR ucast a) OR push_bit (32 - n) (ucast a)
      else drop_bit n (push_bit 16 (ucast b) OR ucast a :: Bit32u)) :: Bit16u) k =
    bit (ucast (word_rotr n (word_cat b a :: 32 word)) :: Bit16u) k"
    unfolding bit_ucast_iff bits if_distrib [of bit] if_distribR rot_bit [OF n k(2)] bit_word_cat_iff
    using k(1) assms bit_beyond(2) [of "n + k" a] bit_beyond(2) [of "n + k - 16" b] by (auto simp: add.commute [of n k])
qed

lemma shrd_words_32:
  fixes a b :: Bit32u
  assumes "0 < n" "n < 32"
  shows "push_bit (32 - n) b OR drop_bit n a = ucast (word_rotr n (word_cat b a :: 64 word))"
proof (rule bit_word_eqI)
  fix k assume "k < LENGTH(32)"
  then have k: "k < 32" "k < LENGTH(64)" by simp_all
  have n: "n < LENGTH(64)" using assms by simp
  show "bit (push_bit (32 - n) b OR drop_bit n a) k = bit (ucast (word_rotr n (word_cat b a :: 64 word)) :: Bit32u) k"
    unfolding bit_ucast_iff bits rot_bit [OF n k(2)] bit_word_cat_iff
    using k(1) assms bit_beyond(3) [of "n + k" a] by (auto simp: add.commute [of n k])
qed

definition double_shifts ::
  "(nat \<Rightarrow> BX_CPU_C \<Rightarrow> 'a::len word) \<Rightarrow> (nat \<Rightarrow> 'a word \<Rightarrow> BX_CPU_C \<Rightarrow> BX_CPU_C) \<Rightarrow>
   (nat \<Rightarrow> 'a word \<Rightarrow> 'a word \<Rightarrow> arith_flags \<Rightarrow> 'b::len itself \<Rightarrow> 'a word \<times> arith_flags) \<Rightarrow> handler \<Rightarrow> bool" where
  "double_shifts rd wr f h \<longleftrightarrow> (\<forall>i c.
     (let (r, fl) = f (shift_count i c) (rd (dst i) c) (rd (src i) c) (flags_of (oszapc c)) TYPE('b)
      in gen_reg (h i c) = gen_reg (wr (dst i) r c) \<and> flags_of (oszapc (h i c)) = fl))"

definition double_shifts16 where
  "double_shifts16 f = double_shifts READ_16BIT_REG WRITE_16BIT_REG (f :: nat \<Rightarrow> 16 word \<Rightarrow> 16 word \<Rightarrow> arith_flags \<Rightarrow> 32 itself \<Rightarrow> 16 word \<times> arith_flags)"
definition double_shifts32 where
  "double_shifts32 f = double_shifts READ_32BIT_REG WRITE_32BIT_REGZ (f :: nat \<Rightarrow> 32 word \<Rightarrow> 32 word \<Rightarrow> arith_flags \<Rightarrow> 64 itself \<Rightarrow> 32 word \<times> arith_flags)"

lemma SHLD16: "double_shifts16 shld SHLD_EwGwR"
  unfolding double_shifts16_def double_shifts_def
proof (intro allI)
  fix i c
  show "let (r, fl) = shld (shift_count i c) (READ_16BIT_REG (dst i) c) (READ_16BIT_REG (src i) c) (flags_of (oszapc c)) TYPE(32)
    in gen_reg (SHLD_EwGwR i c) = gen_reg (WRITE_16BIT_REG (dst i) r c) \<and> flags_of (oszapc (SHLD_EwGwR i c)) = fl"
    using shift_count_less [of i c] unfolding SHLD_EwGwR_def shld_def count_mask Let_def
    by (cases "shift_count i c = 0") (simp_all only: if_True if_False shld_words_16,
      simp_all add: reg_simps flags_set_OxxxxC flags_LOGIC_sizes bits)
qed

lemma SHLD32: "double_shifts32 shld SHLD_EdGdR"
  unfolding double_shifts32_def double_shifts_def
proof (intro allI)
  fix i c
  show "let (r, fl) = shld (shift_count i c) (READ_32BIT_REG (dst i) c) (READ_32BIT_REG (src i) c) (flags_of (oszapc c)) TYPE(64)
    in gen_reg (SHLD_EdGdR i c) = gen_reg (WRITE_32BIT_REGZ (dst i) r c) \<and> flags_of (oszapc (SHLD_EdGdR i c)) = fl"
    using shift_count_less [of i c] unfolding SHLD_EdGdR_def shld_def count_mask Let_def
    by (cases "shift_count i c = 0") (simp_all only: if_True if_False shld_words_32,
      simp_all add: reg_simps flags_set_OxxxxC flags_LOGIC_sizes bits)
qed

lemma SHRD16: "double_shifts16 shrd SHRD_EwGwR"
  unfolding double_shifts16_def double_shifts_def
proof (intro allI)
  fix i c
  show "let (r, fl) = shrd (shift_count i c) (READ_16BIT_REG (dst i) c) (READ_16BIT_REG (src i) c) (flags_of (oszapc c)) TYPE(32)
    in gen_reg (SHRD_EwGwR i c) = gen_reg (WRITE_16BIT_REG (dst i) r c) \<and> flags_of (oszapc (SHRD_EwGwR i c)) = fl"
    using shift_count_less [of i c] unfolding SHRD_EwGwR_def shrd_def count_mask Let_def top_two
    by (cases "shift_count i c = 0") (simp_all only: if_True if_False shrd_words_16,
      simp_all add: reg_simps flags_set_OxxxxC flags_LOGIC_sizes bits)
qed

lemma SHRD32: "double_shifts32 shrd SHRD_EdGdR"
  unfolding double_shifts32_def double_shifts_def
proof (intro allI)
  fix i c
  show "let (r, fl) = shrd (shift_count i c) (READ_32BIT_REG (dst i) c) (READ_32BIT_REG (src i) c) (flags_of (oszapc c)) TYPE(64)
    in gen_reg (SHRD_EdGdR i c) = gen_reg (WRITE_32BIT_REGZ (dst i) r c) \<and> flags_of (oszapc (SHRD_EdGdR i c)) = fl"
    using shift_count_less [of i c] unfolding SHRD_EdGdR_def shrd_def count_mask Let_def top_two
    by (cases "shift_count i c = 0") (simp_all only: if_True if_False shrd_words_32,
      simp_all add: reg_simps flags_set_OxxxxC flags_LOGIC_sizes bits)
qed

section \<open>Properties\<close>

text \<open>
  C17. Every SHL, SHR and SAR on a register is its count of single steps, counts beyond the width
  included: the word, CF as the last bit shifted out, OF, and ZF, SF, PF of the result; a count of 0
  modulo 32 changes nothing, not even a flag.  SHLD and SHRD are rotations of the two operands joined:
  the destination is the upper or the lower half, and the flags follow.
\<close>
theorem shifts_correct:
  "(shifts8 (\<lambda>n. shl1 ^^ n) SHL_EbR \<and> shifts16 (\<lambda>n. shl1 ^^ n) SHL_EwR \<and> shifts32 (\<lambda>n. shl1 ^^ n) SHL_EdR) \<and>
   (shifts8 (\<lambda>n. shr1 ^^ n) SHR_EbR \<and> shifts16 (\<lambda>n. shr1 ^^ n) SHR_EwR \<and> shifts32 (\<lambda>n. shr1 ^^ n) SHR_EdR) \<and>
   (shifts8 (\<lambda>n. sar1 ^^ n) SAR_EbR \<and> shifts16 (\<lambda>n. sar1 ^^ n) SAR_EwR \<and> shifts32 (\<lambda>n. sar1 ^^ n) SAR_EdR) \<and>
   double_shifts16 shld SHLD_EwGwR \<and> double_shifts32 shld SHLD_EdGdR \<and>
   double_shifts16 shrd SHRD_EwGwR \<and> double_shifts32 shrd SHRD_EdGdR"
  using single_shifts SHLD16 SHLD32 SHRD16 SHRD32 by blast

text \<open>
  C26. Every rotate on a register is its count of single steps.  ROL and ROR set CF and OF even when the
  count is a multiple of the width, when the word comes back to itself.  RCL and RCR turn the word and
  CF together, so at 8 and 16 bits their count is taken modulo 9 and 17.  No other flag changes.
\<close>
theorem rotations_correct:
  "(shifts8 (\<lambda>n. rol1 ^^ n) ROL_EbR \<and> shifts16 (\<lambda>n. rol1 ^^ n) ROL_EwR \<and> shifts32 (\<lambda>n. rol1 ^^ n) ROL_EdR) \<and>
   (shifts8 (\<lambda>n. ror1 ^^ n) ROR_EbR \<and> shifts16 (\<lambda>n. ror1 ^^ n) ROR_EwR \<and> shifts32 (\<lambda>n. ror1 ^^ n) ROR_EdR) \<and>
   (shifts8 (\<lambda>n. rcl1 ^^ (n mod 9)) RCL_EbR \<and> shifts16 (\<lambda>n. rcl1 ^^ (n mod 17)) RCL_EwR \<and> shifts32 (\<lambda>n. rcl1 ^^ n) RCL_EdR) \<and>
   (shifts8 (\<lambda>n. rcr1 ^^ (n mod 9)) RCR_EbR \<and> shifts16 (\<lambda>n. rcr1 ^^ (n mod 17)) RCR_EwR \<and> shifts32 (\<lambda>n. rcr1 ^^ n) RCR_EdR)"
  using plain_rotations RCL8 RCL16 RCL32 RCR8 RCR16 RCR32 by blast

end
