(* ===== verification/CpuMul.thy ===== *)
theory CpuMul
  imports CpuLogic "HOL-Library.Signed_Division"
begin

text \<open>
  Multiplication and division on registers: \<open>cpu/mult8.cc\<close>, \<open>cpu/mult16.cc\<close> and \<open>cpu/mult32.cc\<close>, one
  definition per handler.  A \<open>Bit16s\<close> is the word with the same bits: a conversion to a wider signed
  type is \<open>scast\<close>, and C's division, which rounds towards zero, is \<open>sdiv\<close> and \<open>smod\<close> on the signed
  values.  \<open>exception\<close> leaves the handler: its result is \<open>Inl\<close>, and no handler has changed the
  processor by then.
\<close>

datatype cpu_exception = BX_DE_EXCEPTION

type_synonym faulting = "bxInstruction_c \<Rightarrow> BX_CPU_C \<Rightarrow> cpu_exception + BX_CPU_C"

text \<open>Assignments to the named registers.\<close>

abbreviation set_AL :: "Bit8u \<Rightarrow> BX_CPU_C \<Rightarrow> BX_CPU_C" where "set_AL \<equiv> WRITE_8BIT_REG 0"
abbreviation set_AH :: "Bit8u \<Rightarrow> BX_CPU_C \<Rightarrow> BX_CPU_C" where "set_AH \<equiv> WRITE_8BIT_REG 4"
abbreviation set_AX :: "Bit16u \<Rightarrow> BX_CPU_C \<Rightarrow> BX_CPU_C" where "set_AX \<equiv> WRITE_16BIT_REG 0"
abbreviation set_DX :: "Bit16u \<Rightarrow> BX_CPU_C \<Rightarrow> BX_CPU_C" where "set_DX \<equiv> WRITE_16BIT_REG 2"
abbreviation set_EAX :: "Bit32u \<Rightarrow> BX_CPU_C \<Rightarrow> BX_CPU_C" where "set_EAX \<equiv> WRITE_32BIT_REGZ 0"
abbreviation set_EDX :: "Bit32u \<Rightarrow> BX_CPU_C \<Rightarrow> BX_CPU_C" where "set_EDX \<equiv> WRITE_32BIT_REGZ 2"

section \<open>\<open>mult8.cc\<close>\<close>

definition MUL_ALEbR :: handler where
  "MUL_ALEbR i c =
     (let op1 = AL c;
          op2 = READ_8BIT_REG (src i) c;
          product_16 = (ucast op1 :: Bit32u) * ucast op2;
          product_8l = (ucast (product_16 AND 0xFF) :: Bit8u);
          product_8h = (ucast (drop_bit 8 product_16) :: Bit8u);
          c = set_flags (SET_FLAGS_OSZAPC_LOGIC 8 (ucast product_8l)) (set_AX (ucast product_16) c)
      in if product_8h \<noteq> 0 then set_flags ASSERT_FLAGS_OxxxxC c else c)"

definition IMUL_ALEbR :: handler where
  "IMUL_ALEbR i c =
     (let op1 = AL c;
          op2 = READ_8BIT_REG (src i) c;
          product_16 = (scast op1 :: Bit16u) * scast op2;
          product_8 = (ucast (product_16 AND 0xFF) :: Bit8u);
          c = set_flags (SET_FLAGS_OSZAPC_LOGIC 8 (ucast product_8)) (set_AX product_16 c)
      in if product_16 \<noteq> scast (ucast product_16 :: Bit8u) then set_flags ASSERT_FLAGS_OxxxxC c else c)"

definition DIV_ALEbR :: faulting where
  "DIV_ALEbR i c =
     (let op2 = READ_8BIT_REG (src i) c
      in if op2 = 0 then Inl BX_DE_EXCEPTION
         else let op1 = AX c;
                  quotient_16 = op1 div ucast op2;
                  remainder_8 = (ucast (op1 mod ucast op2) :: Bit8u);
                  quotient_8l = (ucast (quotient_16 AND 0xFF) :: Bit8u)
              in if quotient_16 \<noteq> ucast quotient_8l then Inl BX_DE_EXCEPTION
                 else Inr (set_AH remainder_8 (set_AL quotient_8l c)))"

definition IDIV_ALEbR :: faulting where
  "IDIV_ALEbR i c =
     (let op1 = AX c
      in if op1 = 0x8000 then Inl BX_DE_EXCEPTION
         else let op2 = READ_8BIT_REG (src i) c
              in if op2 = 0 then Inl BX_DE_EXCEPTION
                 else let quotient_16 = (word_of_int (sint op1 sdiv sint op2) :: Bit16u);
                          remainder_8 = (word_of_int (sint op1 smod sint op2) :: Bit8u);
                          quotient_8l = (ucast (quotient_16 AND 0xFF) :: Bit8u)
                      in if quotient_16 \<noteq> scast quotient_8l then Inl BX_DE_EXCEPTION
                         else Inr (set_AH remainder_8 (set_AL quotient_8l c)))"

section \<open>\<open>mult16.cc\<close>\<close>

definition MUL_AXEwR :: handler where
  "MUL_AXEwR i c =
     (let op1_16 = AX c;
          op2_16 = READ_16BIT_REG (src i) c;
          product_32 = (ucast op1_16 :: Bit32u) * ucast op2_16;
          product_16l = (ucast (product_32 AND 0xFFFF) :: Bit16u);
          product_16h = (ucast (drop_bit 16 product_32) :: Bit16u);
          c = set_flags (SET_FLAGS_OSZAPC_LOGIC 16 (ucast product_16l)) (set_DX product_16h (set_AX product_16l c))
      in if product_16h \<noteq> 0 then set_flags ASSERT_FLAGS_OxxxxC c else c)"

definition IMUL_AXEwR :: handler where
  "IMUL_AXEwR i c =
     (let op1_16 = AX c;
          op2_16 = READ_16BIT_REG (src i) c;
          product_32 = (scast op1_16 :: Bit32u) * scast op2_16;
          product_16l = (ucast (product_32 AND 0xFFFF) :: Bit16u);
          product_16h = (ucast (signed_drop_bit 16 product_32) :: Bit16u);
          c = set_flags (SET_FLAGS_OSZAPC_LOGIC 16 (ucast product_16l)) (set_DX product_16h (set_AX product_16l c))
      in if product_32 \<noteq> scast (ucast product_32 :: Bit16u) then set_flags ASSERT_FLAGS_OxxxxC c else c)"

definition DIV_AXEwR :: faulting where
  "DIV_AXEwR i c =
     (let op2_16 = READ_16BIT_REG (src i) c
      in if op2_16 = 0 then Inl BX_DE_EXCEPTION
         else let op1_32 = push_bit 16 (ucast (DX c) :: Bit32u) OR ucast (AX c);
                  quotient_32 = op1_32 div ucast op2_16;
                  remainder_16 = (ucast (op1_32 mod ucast op2_16) :: Bit16u);
                  quotient_16l = (ucast (quotient_32 AND 0xFFFF) :: Bit16u)
              in if quotient_32 \<noteq> ucast quotient_16l then Inl BX_DE_EXCEPTION
                 else Inr (set_DX remainder_16 (set_AX quotient_16l c)))"

definition IDIV_AXEwR :: faulting where
  "IDIV_AXEwR i c =
     (let op1_32 = push_bit 16 (ucast (DX c) :: Bit32u) OR ucast (AX c)
      in if op1_32 = 0x80000000 then Inl BX_DE_EXCEPTION
         else let op2_16 = READ_16BIT_REG (src i) c
              in if op2_16 = 0 then Inl BX_DE_EXCEPTION
                 else let quotient_32 = (word_of_int (sint op1_32 sdiv sint op2_16) :: Bit32u);
                          remainder_16 = (word_of_int (sint op1_32 smod sint op2_16) :: Bit16u);
                          quotient_16l = (ucast (quotient_32 AND 0xFFFF) :: Bit16u)
                      in if quotient_32 \<noteq> scast quotient_16l then Inl BX_DE_EXCEPTION
                         else Inr (set_DX remainder_16 (set_AX quotient_16l c)))"

definition IMUL_GwEwIwR :: handler where
  "IMUL_GwEwIwR i c =
     (let op2_16 = READ_16BIT_REG (src i) c;
          op3_16 = Iw i;
          product_32 = (scast op2_16 :: Bit32u) * scast op3_16;
          product_16 = (ucast (product_32 AND 0xFFFF) :: Bit16u);
          c = set_flags (SET_FLAGS_OSZAPC_LOGIC 16 (ucast product_16)) (WRITE_16BIT_REG (dst i) product_16 c)
      in if product_32 \<noteq> scast (ucast product_32 :: Bit16u) then set_flags ASSERT_FLAGS_OxxxxC c else c)"

definition IMUL_GwEwR :: handler where
  "IMUL_GwEwR i c =
     (let op1_16 = READ_16BIT_REG (dst i) c;
          op2_16 = READ_16BIT_REG (src i) c;
          product_32 = (scast op1_16 :: Bit32u) * scast op2_16;
          product_16 = (ucast (product_32 AND 0xFFFF) :: Bit16u);
          c = set_flags (SET_FLAGS_OSZAPC_LOGIC 16 (ucast product_16)) (WRITE_16BIT_REG (dst i) product_16 c)
      in if product_32 \<noteq> scast (ucast product_32 :: Bit16u) then set_flags ASSERT_FLAGS_OxxxxC c else c)"

section \<open>\<open>mult32.cc\<close>\<close>

definition MUL_EAXEdR :: handler where
  "MUL_EAXEdR i c =
     (let op1_32 = EAX c;
          op2_32 = READ_32BIT_REG (src i) c;
          product_64 = (ucast op1_32 :: Bit64u) * ucast op2_32;
          product_32l = (ucast product_64 :: Bit32u);
          product_32h = (ucast (drop_bit 32 product_64) :: Bit32u);
          c = set_flags (SET_FLAGS_OSZAPC_LOGIC 32 product_32l) (set_EDX product_32h (set_EAX product_32l c))
      in if product_32h \<noteq> 0 then set_flags ASSERT_FLAGS_OxxxxC c else c)"

definition IMUL_EAXEdR :: handler where
  "IMUL_EAXEdR i c =
     (let op1_32 = EAX c;
          op2_32 = READ_32BIT_REG (src i) c;
          product_64 = (scast op1_32 :: Bit64u) * scast op2_32;
          product_32l = (ucast product_64 :: Bit32u);
          product_32h = (ucast (drop_bit 32 product_64) :: Bit32u);
          c = set_flags (SET_FLAGS_OSZAPC_LOGIC 32 product_32l) (set_EDX product_32h (set_EAX product_32l c))
      in if product_64 \<noteq> scast (ucast product_64 :: Bit32u) then set_flags ASSERT_FLAGS_OxxxxC c else c)"

definition DIV_EAXEdR :: faulting where
  "DIV_EAXEdR i c =
     (let op2_32 = READ_32BIT_REG (src i) c
      in if op2_32 = 0 then Inl BX_DE_EXCEPTION
         else let op1_64 = push_bit 32 (ucast (EDX c) :: Bit64u) + ucast (EAX c);
                  quotient_64 = op1_64 div ucast op2_32;
                  remainder_32 = (ucast (op1_64 mod ucast op2_32) :: Bit32u);
                  quotient_32l = (ucast (quotient_64 AND 0xFFFFFFFF) :: Bit32u)
              in if quotient_64 \<noteq> ucast quotient_32l then Inl BX_DE_EXCEPTION
                 else Inr (set_EDX remainder_32 (set_EAX quotient_32l c)))"

definition IDIV_EAXEdR :: faulting where
  "IDIV_EAXEdR i c =
     (let op1_64 = push_bit 32 (ucast (EDX c) :: Bit64u) OR ucast (EAX c)
      in if op1_64 = 0x8000000000000000 then Inl BX_DE_EXCEPTION
         else let op2_32 = READ_32BIT_REG (src i) c
              in if op2_32 = 0 then Inl BX_DE_EXCEPTION
                 else let quotient_64 = (word_of_int (sint op1_64 sdiv sint op2_32) :: Bit64u);
                          remainder_32 = (word_of_int (sint op1_64 smod sint op2_32) :: Bit32u);
                          quotient_32l = (ucast (quotient_64 AND 0xFFFFFFFF) :: Bit32u)
                      in if quotient_64 \<noteq> scast quotient_32l then Inl BX_DE_EXCEPTION
                         else Inr (set_EDX remainder_32 (set_EAX quotient_32l c)))"

definition IMUL_GdEdIdR :: handler where
  "IMUL_GdEdIdR i c =
     (let op2_32 = READ_32BIT_REG (src i) c;
          op3_32 = Id i;
          product_64 = (scast op2_32 :: Bit64u) * scast op3_32;
          product_32 = (ucast (product_64 AND 0xFFFFFFFF) :: Bit32u);
          c = set_flags (SET_FLAGS_OSZAPC_LOGIC 32 product_32) (WRITE_32BIT_REGZ (dst i) product_32 c)
      in if product_64 \<noteq> scast (ucast product_64 :: Bit32u) then set_flags ASSERT_FLAGS_OxxxxC c else c)"

definition IMUL_GdEdR :: handler where
  "IMUL_GdEdR i c =
     (let op1_32 = READ_32BIT_REG (dst i) c;
          op2_32 = READ_32BIT_REG (src i) c;
          product_64 = (scast op1_32 :: Bit64u) * scast op2_32;
          product_32 = (ucast (product_64 AND 0xFFFFFFFF) :: Bit32u);
          c = set_flags (SET_FLAGS_OSZAPC_LOGIC 32 product_32) (WRITE_32BIT_REGZ (dst i) product_32 c)
      in if product_64 \<noteq> scast (ucast product_64 :: Bit32u) then set_flags ASSERT_FLAGS_OxxxxC c else c)"

end
