(* ===== verification/CpuMul_Spec.thy ===== *)
theory CpuMul_Spec
  imports CpuMul
begin

text \<open>
  What multiplication and division compute, over the integers: the product is exact, CF and OF tell
  whether it needs its upper half, and a division either gives the quotient and the remainder of its
  definition or is refused, exactly when there is no quotient that fits.
\<close>

section \<open>The two halves of a double word\<close>

lemma and_masks: "(x :: 16 word) AND 0xFF = take_bit 8 x" "(y :: 32 word) AND 0xFF = take_bit 8 y" "y AND 0xFFFF = take_bit 16 y" "(z :: 64 word) AND 0xFFFFFFFF = take_bit 32 z"
proof -
  have "(0xFF :: 16 word) = mask 8" "(0xFF :: 32 word) = mask 8" "(0xFFFF :: 32 word) = mask 16" "(0xFFFFFFFF :: 64 word) = mask 32"
    by (simp_all add: mask_eq_exp_minus_1)
  then show "(x :: 16 word) AND 0xFF = take_bit 8 x" "(y :: 32 word) AND 0xFF = take_bit 8 y" "y AND 0xFFFF = take_bit 16 y" "(z :: 64 word) AND 0xFFFFFFFF = take_bit 32 z"
    by (simp_all only: take_bit_eq_mask)
qed

lemma ucast_take_bit:
  fixes x :: "'b::len word"
  assumes "LENGTH('a::len) \<le> n"
  shows "ucast (take_bit n x) = (ucast x :: 'a word)"
  using assms by (intro bit_word_eqI) (auto simp: bit_ucast_iff bit_take_bit_iff)

lemma low_half [simp]:
  "ucast ((x :: 16 word) AND 0xFF) = (ucast x :: 8 word)" "ucast ((y :: 32 word) AND 0xFF) = (ucast y :: 8 word)"
  "ucast (y AND 0xFFFF) = (ucast y :: 16 word)" "ucast ((z :: 64 word) AND 0xFFFFFFFF) = (ucast z :: 32 word)"
  unfolding and_masks by (simp_all add: ucast_take_bit)

lemma int_div_less:
  fixes x k :: int
  assumes "x < k * k" "0 < k"
  shows "x div k < k"
proof (rule ccontr)
  assume "\<not> x div k < k"
  then have "k * k \<le> x div k * k" using assms(2) by simp
  also have "\<dots> \<le> x" using assms(2) by (simp add: minus_mod_eq_div_mult [symmetric])
  finally show False using assms(1) by simp
qed

lemma last_bit_index: "n < LENGTH('a) \<Longrightarrow> LENGTH('a) - Suc 0 \<le> n \<Longrightarrow> n = LENGTH('a::len) - Suc 0"
  by linarith

lemma uint_halves:
  fixes p :: "'b::len word"
  assumes "2 * LENGTH('a) \<le> LENGTH('b)" "uint p < 2 ^ LENGTH('a) * 2 ^ LENGTH('a)"
  shows "uint (ucast (drop_bit LENGTH('a) p) :: 'a::len word) * 2 ^ LENGTH('a) + uint (ucast p :: 'a word) = uint p"
proof -
  have "drop_bit LENGTH('a) (uint p) < 2 ^ LENGTH('a)"
    using assms(2) by (simp add: drop_bit_eq_div int_div_less)
  then have "take_bit LENGTH('a) (drop_bit LENGTH('a) (uint p)) = drop_bit LENGTH('a) (uint p)"
    by (intro take_bit_int_eq_self) simp_all
  moreover have "take_bit LENGTH('b) (uint p) = uint p" by (intro take_bit_int_eq_self) (simp_all add: uint_lt2p)
  ultimately have "uint (ucast (drop_bit LENGTH('a) p) :: 'a word) = drop_bit LENGTH('a) (uint p)"
    unfolding unsigned_ucast_eq unsigned_drop_bit_eq by (simp only:)
  then have "uint (ucast (drop_bit LENGTH('a) p) :: 'a word) = uint p div 2 ^ LENGTH('a)"
    by (simp only: drop_bit_eq_div)
  moreover have "uint (ucast p :: 'a word) = uint p mod 2 ^ LENGTH('a)"
    by (simp add: unsigned_ucast_eq take_bit_eq_mod)
  ultimately show ?thesis by (simp only: div_mult_mod_eq)
qed

lemma bit_sint: "bit (sint w) n \<longleftrightarrow> bit w (min n (LENGTH('a) - 1))" for w :: "'a::len word"
  by (simp add: bit_sint_iff min_def bit_imp_le_length) (auto dest: bit_imp_le_length simp: not_le)

lemma sint_halves:
  fixes p :: "'b::len word"
  assumes "LENGTH('b) = 2 * LENGTH('a)"
  shows "sint (ucast (drop_bit LENGTH('a) p) :: 'a::len word) * 2 ^ LENGTH('a) + uint (ucast p :: 'a word) = sint p"
proof -
  obtain m where m: "LENGTH('a) = Suc m" by (cases "LENGTH('a)") auto
  have "min n m + Suc m = min (n + Suc m) (2 * Suc m - 1)" for n by (simp add: min_def)
  then have "sint (ucast (drop_bit LENGTH('a) p) :: 'a word) = drop_bit LENGTH('a) (sint p)"
    using assms m by (intro bit_eqI) (simp add: bit_sint bit_ucast_iff bit_drop_bit_eq add.commute min_less_iff_disj del: min_Suc_Suc)
  moreover have "uint (ucast p :: 'a word) = take_bit LENGTH('a) (sint p)"
    using assms by (intro bit_eqI) (auto simp: bit_sint bit_uint_iff bit_ucast_iff bit_take_bit_iff min_def)
  ultimately show ?thesis by (simp only: drop_bit_eq_div take_bit_eq_mod div_mult_mod_eq)
qed

lemma sint_widen: "LENGTH('a) \<le> LENGTH('b) \<Longrightarrow> sint (scast w :: 'b::len word) = sint w" for w :: "'a::len word"
  by (intro bit_eqI) (auto simp: bit_sint bit_signed_iff min_def dest: bit_imp_le_length last_bit_index)

lemma uint_product:
  fixes a b :: "'a::len word"
  assumes "2 * LENGTH('a) \<le> LENGTH('b)"
  shows "uint (ucast a * ucast b :: 'b::len word) = uint a * uint b" "uint a * uint b < 2 ^ LENGTH('a) * 2 ^ LENGTH('a)"
proof -
  have u: "uint (ucast w :: 'b word) = uint w" for w :: "'a word"
    using assms by (simp add: unsigned_ucast_eq take_bit_int_eq_self order_less_le_trans [OF uint_lt2p])
  show m: "uint a * uint b < 2 ^ LENGTH('a) * 2 ^ LENGTH('a)"
    using mult_strict_mono' [OF uint_lt2p [of a] uint_lt2p [of b]] by simp
  also have "\<dots> \<le> 2 ^ LENGTH('b)" using assms by (simp add: power_add [symmetric] mult_2)
  finally show "uint (ucast a * ucast b :: 'b::len word) = uint a * uint b" by (simp add: uint_word_ariths u)
qed

lemma sint_product:
  fixes a b :: "'a::len word"
  assumes "LENGTH('b) = 2 * LENGTH('a)"
  shows "sint (scast a * scast b :: 'b::len word) = sint a * sint b"
proof -
  have l: "LENGTH('b) - 1 = (LENGTH('a) - 1) + (LENGTH('a) - 1) + 1" using assms by (cases "LENGTH('a)") auto
  have "\<bar>sint a\<bar> \<le> 2 ^ (LENGTH('a) - 1)" "\<bar>sint b\<bar> \<le> 2 ^ (LENGTH('a) - 1)"
    using sint_range_size [of a] sint_range_size [of b] by (auto simp: word_size abs_le_iff)
  then have "\<bar>sint a * sint b\<bar> \<le> 2 ^ (LENGTH('a) - 1) * 2 ^ (LENGTH('a) - 1)"
    by (simp add: abs_mult mult_mono)
  also have "\<dots> < 2 ^ (LENGTH('b) - 1)" unfolding l power_add by simp
  finally have "- (2 ^ (LENGTH('b) - 1)) \<le> sint a * sint b" "sint a * sint b < 2 ^ (LENGTH('b) - 1)" by (auto simp: abs_less_iff)
  then have "signed_take_bit (LENGTH('b) - 1) (sint a * sint b) = sint a * sint b"
    by (simp add: signed_take_bit_int_eq_self)
  then show ?thesis using assms by (simp add: sint_word_ariths sint_widen)
qed

lemma fits_signed:
  fixes p :: "'b::len word"
  assumes "LENGTH('a) \<le> LENGTH('b)"
  shows "p = scast (ucast p :: 'a::len word) \<longleftrightarrow> - (2 ^ (LENGTH('a) - 1)) \<le> sint p \<and> sint p < 2 ^ (LENGTH('a) - 1)"
proof -
  have "sint (ucast p :: 'a word) = signed_take_bit (LENGTH('a) - 1) (sint p)"
    using assms by (intro bit_eqI) (auto simp: bit_sint bit_ucast_iff bit_signed_take_bit_iff min_def dest: last_bit_index)
  moreover have "p = scast (ucast p :: 'a word) \<longleftrightarrow> sint p = sint (scast (ucast p :: 'a word) :: 'b word)"
    by (auto intro: signed_word_eqI)
  ultimately have "p = scast (ucast p :: 'a word) \<longleftrightarrow> signed_take_bit (LENGTH('a) - 1) (sint p) = sint p"
    using assms by (auto simp: sint_widen)
  then show ?thesis by (simp only: signed_take_bit_int_eq_self_iff)
qed

section \<open>Products\<close>

text \<open>\<open>h\<close> multiplies \<open>lo\<close> by \<open>op2\<close> into \<open>hi\<close> and \<open>lo\<close>; \<open>num\<close> reads the upper half and the operands.\<close>

definition multiplies ::
  "('a::len word \<Rightarrow> int) \<Rightarrow> (int \<Rightarrow> bool) \<Rightarrow> (BX_CPU_C \<Rightarrow> 'a word) \<Rightarrow> (BX_CPU_C \<Rightarrow> 'a word) \<Rightarrow>
   (bxInstruction_c \<Rightarrow> BX_CPU_C \<Rightarrow> 'a word) \<Rightarrow> handler \<Rightarrow> bool" where
  "multiplies num small hi lo op2 h \<longleftrightarrow> (\<forall>i c.
     (let p = num (lo c) * num (op2 i c); c' = h i c in
      num (hi c') * 2 ^ LENGTH('a) + uint (lo c') = p \<and>
      flags_of (oszapc c') = (logic_flags (lo c'))\<lparr> OF := \<not> small p, CF := \<not> small p \<rparr> \<and>
      (\<forall>r. r \<noteq> 0 \<and> r \<noteq> 2 \<longrightarrow> gen_reg c' r = gen_reg c r)))"

abbreviation below :: "nat \<Rightarrow> int \<Rightarrow> bool" where "below w p \<equiv> p < 2 ^ w"
abbreviation fits :: "nat \<Rightarrow> int \<Rightarrow> bool" where "fits w p \<equiv> - (2 ^ (w - 1)) \<le> p \<and> p < 2 ^ (w - 1)"

text \<open>The forms with two and three operands keep the lower half only.\<close>

definition multiplies_low ::
  "(nat \<Rightarrow> 'a::len word \<Rightarrow> BX_CPU_C \<Rightarrow> BX_CPU_C) \<Rightarrow> (bxInstruction_c \<Rightarrow> BX_CPU_C \<Rightarrow> 'a word) \<Rightarrow>
   (bxInstruction_c \<Rightarrow> BX_CPU_C \<Rightarrow> 'a word) \<Rightarrow> handler \<Rightarrow> bool" where
  "multiplies_low wr op1 op2 h \<longleftrightarrow> (\<forall>i c.
     (let p = sint (op1 i c) * sint (op2 i c); c' = h i c in
      gen_reg c' = gen_reg (wr (dst i) (word_of_int p) c) \<and>
      flags_of (oszapc c') = (logic_flags (word_of_int p :: 'a word))\<lparr> OF := \<not> fits LENGTH('a) p, CF := \<not> fits LENGTH('a) p \<rparr>))"

definition d16 where "d16 i c = READ_16BIT_REG (dst i) c"
definition d32 where "d32 i c = READ_32BIT_REG (dst i) c"

lemma assert_carry:
  "gen_reg (if b then set_flags ASSERT_FLAGS_OxxxxC c else c) = gen_reg c"
  "flags_of (oszapc c) = logic_flags r \<Longrightarrow>
    flags_of (oszapc (if b then set_flags ASSERT_FLAGS_OxxxxC c else c)) = (logic_flags r)\<lparr> OF := b, CF := b \<rparr>"
  by (simp_all add: reg_simps ASSERT_FLAGS_OxxxxC_def flags_set_OxxxxC logic_flags_def)

text \<open>One rule for the handlers that write both halves: what has to be shown of the written halves.\<close>

lemma multipliesI:
  fixes op2 :: "bxInstruction_c \<Rightarrow> BX_CPU_C \<Rightarrow> 'a::len word"
  assumes "\<And>i c. h i c = (let c' = set_flags (SET_FLAGS_OSZAPC_LOGIC LENGTH('a) (ucast (l (lo c) (op2 i c)))) (wr (u (lo c) (op2 i c)) (l (lo c) (op2 i c)) c)
      in if big (lo c) (op2 i c) then set_flags ASSERT_FLAGS_OxxxxC c' else c')"
    and "\<And>x y c. hi (wr x y c) = x" "\<And>x y c. lo (wr x y c) = y" "\<And>f c. hi (set_flags f c) = hi c" "\<And>f c. lo (set_flags f c) = lo c"
    and "\<And>x y c r. r \<noteq> 0 \<Longrightarrow> r \<noteq> 2 \<Longrightarrow> gen_reg (wr x y c) r = gen_reg c r"
    and "\<And>a b. num (u a b) * 2 ^ LENGTH('a) + uint (l a b) = num a * num b"
    and "\<And>a b. big a b \<longleftrightarrow> \<not> small (num a * num b)"
    and "lf_size TYPE('a)" "LENGTH('a) \<le> 32"
  shows "multiplies num small hi lo op2 h"
  unfolding multiplies_def
proof (intro allI)
  fix i c
  let ?l = "l (lo c) (op2 i c)" and ?u = "u (lo c) (op2 i c)"
  let ?c = "set_flags (SET_FLAGS_OSZAPC_LOGIC LENGTH('a) (ucast ?l)) (wr ?u ?l c)"
  let ?p = "num (lo c) * num (op2 i c)"
  have h: "h i c = (if big (lo c) (op2 i c) then set_flags ASSERT_FLAGS_OxxxxC ?c else ?c)"
    using assms(1) by (simp add: Let_def)
  have "ucast (ucast ?l :: Bit32u) = ?l" using assms(10) by (intro bit_word_eqI) (auto simp: bit_ucast_iff)
  then have "flags_of (oszapc ?c) = logic_flags ?l"
    using flags_LOGIC [OF assms(9)] by (simp add: reg_simps)
  note f = assert_carry(2) [OF this, of "big (lo c) (op2 i c)"]
  have g: "gen_reg (h i c) = gen_reg (wr ?u ?l c)" unfolding h assert_carry(1) by (simp add: reg_simps)
  have hl: "hi (h i c) = ?u" "lo (h i c) = ?l" unfolding h by (simp_all add: assms(2-5))
  show "let p = ?p; c' = h i c in num (hi c') * 2 ^ LENGTH('a) + uint (lo c') = p \<and>
      flags_of (oszapc c') = (logic_flags (lo c'))\<lparr> OF := \<not> small p, CF := \<not> small p \<rparr> \<and>
      (\<forall>r. r \<noteq> 0 \<and> r \<noteq> 2 \<longrightarrow> gen_reg c' r = gen_reg c r)"
    unfolding Let_def hl g using f h assms(6-8) by simp
qed

lemma unsigned_halves:
  fixes a b :: "'a::len word"
  assumes "2 * LENGTH('a) \<le> LENGTH('b)"
  shows "uint (ucast (drop_bit LENGTH('a) (ucast a * ucast b :: 'b::len word)) :: 'a word) * 2 ^ LENGTH('a) +
      uint (ucast (ucast a * ucast b :: 'b word) :: 'a word) = uint a * uint b"
    "(ucast (drop_bit LENGTH('a) (ucast a * ucast b :: 'b word)) :: 'a word) \<noteq> 0 \<longleftrightarrow> \<not> uint a * uint b < 2 ^ LENGTH('a)"
proof -
  let ?h = "ucast (drop_bit LENGTH('a) (ucast a * ucast b :: 'b word)) :: 'a word" and ?l = "ucast (ucast a * ucast b :: 'b word) :: 'a word"
  note p = uint_product [OF assms, of a b]
  have "uint (ucast a * ucast b :: 'b word) < 2 ^ LENGTH('a) * 2 ^ LENGTH('a)" unfolding p(1) by (rule p(2))
  from uint_halves [OF assms this] show u: "uint ?h * 2 ^ LENGTH('a) + uint ?l = uint a * uint b" unfolding p(1) .
  have "2 ^ LENGTH('a) \<le> uint a * uint b" if "?h \<noteq> 0"
  proof -
    have "1 * 2 ^ LENGTH('a) \<le> uint ?h * 2 ^ LENGTH('a)"
      by (rule mult_right_mono [OF one_le_uint [OF that]]) simp
    then show ?thesis using u uint_ge_0 [of ?l] by linarith
  qed
  moreover have "uint a * uint b < 2 ^ LENGTH('a)" if "?h = 0"
    using u uint_lt2p [of ?l] that by simp
  ultimately show "?h \<noteq> 0 \<longleftrightarrow> \<not> uint a * uint b < 2 ^ LENGTH('a)" by (meson not_le)
qed

lemma signed_halves:
  fixes a b :: "'a::len word"
  assumes "LENGTH('b) = 2 * LENGTH('a)"
  shows "sint (ucast (drop_bit LENGTH('a) (scast a * scast b :: 'b::len word)) :: 'a word) * 2 ^ LENGTH('a) +
      uint (ucast (scast a * scast b :: 'b word) :: 'a word) = sint a * sint b"
    "(scast a * scast b :: 'b word) \<noteq> scast (ucast (scast a * scast b :: 'b word) :: 'a word) \<longleftrightarrow> \<not> fits LENGTH('a) (sint a * sint b)"
  unfolding sint_halves [OF assms] sint_product [OF assms] using assms by (simp_all add: fits_signed sint_product del: not_le)

lemma word_cat_halves: "word_cat (ucast (drop_bit 8 p) :: 8 word) (ucast p :: 8 word) = (ucast (p :: 'a::len word) :: 16 word)"
  by (rule bit_word_eqI) (auto simp: bit_word_cat_iff bit_ucast_iff bit_drop_bit_eq)

lemma signed_drop_half: "ucast (signed_drop_bit 16 (p :: 32 word)) = (ucast (drop_bit 16 p) :: 16 word)"
  by (rule bit_word_eqI) (auto simp: bit_simps)

lemmas reg_write = Let_def WRITE_16BIT_REG_def WRITE_32BIT_REGZ_def upd_reg_def views set_flags_reg r8_def r16_def r32_def
  READ_32BIT_REG_def

lemma views_cat: "ucast (word_cat x y :: 16 word) = (y :: 8 word)" "ucast (drop_bit 8 (set_rx (word_cat x y) w)) = (x :: 8 word)"
   "ucast (set_rx (word_cat x y) w) = (y :: 8 word)"
  by (rule bit_word_eqI; auto simp: bit_word_cat_iff bit_simps set_rx_def)+

lemma MUL8: "multiplies uint (below 8) AH AL r8 MUL_ALEbR"
  by (rule multipliesI [where wr = "\<lambda>x y. set_AX (word_cat x y)" and u = "\<lambda>a b. ucast (drop_bit 8 (ucast a * ucast b :: Bit32u))"
    and l = "\<lambda>a b. ucast (ucast a * ucast b :: Bit32u)" and big = "\<lambda>a b. (ucast (drop_bit 8 (ucast a * ucast b :: Bit32u)) :: Bit8u) \<noteq> 0"])
    (use unsigned_halves [where 'a = 8 and 'b = 32] in \<open>simp_all add: MUL_ALEbR_def word_cat_halves views_cat reg_write\<close>)

lemma IMUL8: "multiplies sint (fits 8) AH AL r8 IMUL_ALEbR"
  by (rule multipliesI [where wr = "\<lambda>x y. set_AX (word_cat x y)" and u = "\<lambda>a b. ucast (drop_bit 8 (scast a * scast b :: Bit16u))"
    and l = "\<lambda>a b. ucast (scast a * scast b :: Bit16u)" and big = "\<lambda>a b. (scast a * scast b :: Bit16u) \<noteq> scast (ucast (scast a * scast b :: Bit16u) :: Bit8u)"])
    (use signed_halves [where 'a = 8 and 'b = 16] in \<open>simp_all add: IMUL_ALEbR_def word_cat_halves views_cat reg_write\<close>)

lemma MUL16: "multiplies uint (below 16) DX AX r16 MUL_AXEwR"
  by (rule multipliesI [where wr = "\<lambda>x y c. set_DX x (set_AX y c)" and u = "\<lambda>a b. ucast (drop_bit 16 (ucast a * ucast b :: Bit32u))"
    and l = "\<lambda>a b. ucast (ucast a * ucast b :: Bit32u)" and big = "\<lambda>a b. (ucast (drop_bit 16 (ucast a * ucast b :: Bit32u)) :: Bit16u) \<noteq> 0"])
    (use unsigned_halves [where 'a = 16 and 'b = 32] in \<open>simp_all add: MUL_AXEwR_def reg_write\<close>)

lemma IMUL16: "multiplies sint (fits 16) DX AX r16 IMUL_AXEwR"
  by (rule multipliesI [where wr = "\<lambda>x y c. set_DX x (set_AX y c)" and u = "\<lambda>a b. ucast (drop_bit 16 (scast a * scast b :: Bit32u))"
    and l = "\<lambda>a b. ucast (scast a * scast b :: Bit32u)" and big = "\<lambda>a b. (scast a * scast b :: Bit32u) \<noteq> scast (ucast (scast a * scast b :: Bit32u) :: Bit16u)"])
    (use signed_halves [where 'a = 16 and 'b = 32] in \<open>simp_all add: IMUL_AXEwR_def signed_drop_half reg_write\<close>)

lemma MUL32: "multiplies uint (below 32) EDX EAX r32 MUL_EAXEdR"
  by (rule multipliesI [where wr = "\<lambda>x y c. set_EDX x (set_EAX y c)" and u = "\<lambda>a b. ucast (drop_bit 32 (ucast a * ucast b :: Bit64u))"
    and l = "\<lambda>a b. ucast (ucast a * ucast b :: Bit64u)" and big = "\<lambda>a b. (ucast (drop_bit 32 (ucast a * ucast b :: Bit64u)) :: Bit32u) \<noteq> 0"])
    (use unsigned_halves [where 'a = 32 and 'b = 64] in \<open>simp_all add: MUL_EAXEdR_def reg_write\<close>)

lemma IMUL32: "multiplies sint (fits 32) EDX EAX r32 IMUL_EAXEdR"
  by (rule multipliesI [where wr = "\<lambda>x y c. set_EDX x (set_EAX y c)" and u = "\<lambda>a b. ucast (drop_bit 32 (scast a * scast b :: Bit64u))"
    and l = "\<lambda>a b. ucast (scast a * scast b :: Bit64u)" and big = "\<lambda>a b. (scast a * scast b :: Bit64u) \<noteq> scast (ucast (scast a * scast b :: Bit64u) :: Bit32u)"])
    (use signed_halves [where 'a = 32 and 'b = 64] in \<open>simp_all add: IMUL_EAXEdR_def reg_write\<close>)

lemma low_product:
  fixes a b :: "'a::len word"
  assumes "LENGTH('b) = 2 * LENGTH('a)"
  shows "ucast (scast a * scast b :: 'b::len word) = (word_of_int (sint a * sint b) :: 'a word)"
proof -
  have "ucast p = (word_of_int (sint p) :: 'a word)" for p :: "'b word"
    using assms by (intro bit_word_eqI) (auto simp: bit_ucast_iff bit_signed_iff min_def)
  then show ?thesis unfolding sint_product [OF assms, symmetric] .
qed

lemma len_double: "LENGTH(16) = 2 * LENGTH(8)" "LENGTH(32) = 2 * LENGTH(16)" "LENGTH(64) = 2 * LENGTH(32)"
  by simp_all

lemma IMUL_low:
  "multiplies_low WRITE_16BIT_REG r16 i16 IMUL_GwEwIwR" "multiplies_low WRITE_16BIT_REG d16 r16 IMUL_GwEwR"
  "multiplies_low WRITE_32BIT_REGZ r32 i32 IMUL_GdEdIdR" "multiplies_low WRITE_32BIT_REGZ d32 r32 IMUL_GdEdR"
  unfolding multiplies_low_def IMUL_GwEwIwR_def IMUL_GwEwR_def IMUL_GdEdIdR_def IMUL_GdEdR_def Let_def
    r16_def i16_def d16_def r32_def i32_def d32_def low_half
  unfolding signed_halves(2) [OF len_double(2)] signed_halves(2) [OF len_double(3)]
  unfolding low_product [OF len_double(2)] low_product [OF len_double(3)]
  by (simp_all add: assert_carry reg_simps flags_LOGIC_sizes)

section \<open>Quotients\<close>

definition divides :: "(BX_CPU_C \<Rightarrow> 'a::len word) \<Rightarrow> (BX_CPU_C \<Rightarrow> 'a word) \<Rightarrow> (bxInstruction_c \<Rightarrow> BX_CPU_C \<Rightarrow> 'a word) \<Rightarrow> faulting \<Rightarrow> bool" where
  "divides hi lo op2 h \<longleftrightarrow> (\<forall>i c.
     (let n = uint (hi c) * 2 ^ LENGTH('a) + uint (lo c); d = uint (op2 i c) in
      case h i c of
        Inl e \<Rightarrow> d = 0 \<or> \<not> below LENGTH('a) (n div d)
      | Inr c' \<Rightarrow> n = uint (lo c') * d + uint (hi c') \<and> uint (hi c') < d \<and> oszapc c' = oszapc c \<and>
          (\<forall>r. r \<noteq> 0 \<and> r \<noteq> 2 \<longrightarrow> gen_reg c' r = gen_reg c r)))"

definition divides_signed :: "(BX_CPU_C \<Rightarrow> 'a::len word) \<Rightarrow> (BX_CPU_C \<Rightarrow> 'a word) \<Rightarrow> (bxInstruction_c \<Rightarrow> BX_CPU_C \<Rightarrow> 'a word) \<Rightarrow> faulting \<Rightarrow> bool" where
  "divides_signed hi lo op2 h \<longleftrightarrow> (\<forall>i c.
     (let n = sint (hi c) * 2 ^ LENGTH('a) + uint (lo c); d = sint (op2 i c) in
      case h i c of
        Inl e \<Rightarrow> d = 0 \<or> \<not> fits LENGTH('a) (n sdiv d)
      | Inr c' \<Rightarrow> n = sint (lo c') * d + sint (hi c') \<and> \<bar>sint (hi c')\<bar> < \<bar>d\<bar> \<and> (sint (hi c') = 0 \<or> sgn (sint (hi c')) = sgn n) \<and>
          oszapc c' = oszapc c \<and> (\<forall>r. r \<noteq> 0 \<and> r \<noteq> 2 \<longrightarrow> gen_reg c' r = gen_reg c r)))"

lemma quotient_words:
  fixes n :: "'b::len word" and d :: "'a::len word"
  assumes "LENGTH('b) = 2 * LENGTH('a)" "d \<noteq> 0"
  shows "n div ucast d \<noteq> ucast (ucast (n div ucast d) :: 'a word) \<longleftrightarrow> \<not> below LENGTH('a) (uint n div uint d)"
    "below LENGTH('a) (uint n div uint d) \<Longrightarrow> uint (ucast (n div ucast d) :: 'a word) = uint n div uint d"
    "uint (ucast (n mod ucast d) :: 'a word) = uint n mod uint d"
proof -
  have up: "uint (ucast w :: 'b word) = uint w" for w :: "'a word"
    using assms(1) by (simp add: unsigned_ucast_eq take_bit_int_eq_self order_less_le_trans [OF uint_lt2p])
  have down: "uint (ucast p :: 'a word) = uint p mod 2 ^ LENGTH('a)" for p :: "'b word"
    by (simp add: unsigned_ucast_eq take_bit_eq_mod)
  have q: "uint (n div ucast d) = uint n div uint d" and r: "uint (n mod ucast d) = uint n mod uint d"
    by (simp_all add: uint_div uint_mod up)
  have "0 < uint d" using one_le_uint [OF assms(2)] by simp
  then have nn: "0 \<le> uint n div uint d" by (simp add: pos_imp_zdiv_nonneg_iff)
  have "n div ucast d = ucast (ucast (n div ucast d) :: 'a word) \<longleftrightarrow> uint n div uint d = (uint n div uint d) mod 2 ^ LENGTH('a)"
    unfolding word_uint_eq_iff up down q ..
  also have "\<dots> \<longleftrightarrow> below LENGTH('a) (uint n div uint d)"
    using nn by (metis mod_pos_pos_trivial pos_mod_bound zero_less_numeral zero_less_power)
  finally show "n div ucast d \<noteq> ucast (ucast (n div ucast d) :: 'a word) \<longleftrightarrow> \<not> below LENGTH('a) (uint n div uint d)" by simp
  show "below LENGTH('a) (uint n div uint d) \<Longrightarrow> uint (ucast (n div ucast d) :: 'a word) = uint n div uint d"
    unfolding down q using nn by simp
  have "uint n mod uint d < uint d" "0 \<le> uint n mod uint d" using \<open>0 < uint d\<close> by simp_all
  then have "uint n mod uint d < 2 ^ LENGTH('a)" "0 \<le> uint n mod uint d" using uint_lt2p [of d] by (auto intro: order.strict_trans)
  then show "uint (ucast (n mod ucast d) :: 'a word) = uint n mod uint d"
    unfolding down r by (rule mod_pos_pos_trivial [rotated])
qed

lemma sint_abs: "\<bar>sint w\<bar> \<le> 2 ^ (LENGTH('a) - 1)" for w :: "'a::len word"
  using sint_range_size [of w] by (auto simp: word_size abs_le_iff)

lemma sint_of_int: "fits LENGTH('a) k \<Longrightarrow> sint (word_of_int k :: 'a::len word) = k"
  by (simp add: sint_sbintrunc' signed_take_bit_int_eq_self)

lemma signed_quotient_words:
  fixes n :: "'b::len word" and d :: "'a::len word"
  assumes "LENGTH('b) = 2 * LENGTH('a)" "d \<noteq> 0" "sint n \<noteq> - (2 ^ (LENGTH('b) - 1))"
  shows "(word_of_int (sint n sdiv sint d) :: 'b word) \<noteq> scast (ucast (word_of_int (sint n sdiv sint d) :: 'b word) :: 'a word) \<longleftrightarrow>
      \<not> fits LENGTH('a) (sint n sdiv sint d)"
    "fits LENGTH('a) (sint n sdiv sint d) \<Longrightarrow> sint (ucast (word_of_int (sint n sdiv sint d) :: 'b word) :: 'a word) = sint n sdiv sint d"
    "sint (word_of_int (sint n smod sint d) :: 'a word) = sint n smod sint d"
proof -
  have "\<bar>sint n\<bar> < 2 ^ (LENGTH('b) - 1)"
    using assms(3) sint_range_size [of n] by (auto simp: word_size abs_less_iff)
  then have "fits LENGTH('b) (sint n sdiv sint d)" using sdiv_int_range [of "sint n" "sint d"] by auto
  note q = sint_of_int [OF this]
  show f: "(word_of_int (sint n sdiv sint d) :: 'b word) \<noteq> scast (ucast (word_of_int (sint n sdiv sint d) :: 'b word) :: 'a word) \<longleftrightarrow>
      \<not> fits LENGTH('a) (sint n sdiv sint d)"
    using assms(1) by (subst fits_signed) (simp_all only: q)
  show "fits LENGTH('a) (sint n sdiv sint d) \<Longrightarrow> sint (ucast (word_of_int (sint n sdiv sint d) :: 'b word) :: 'a word) = sint n sdiv sint d"
    using f q assms(1) sint_widen [of "ucast (word_of_int (sint n sdiv sint d) :: 'b word) :: 'a word", where 'b = 'b] by simp
  have "sint d \<noteq> 0" using assms(2) by (simp only: signed_eq_0_iff not_False_eq_True)
  from smod_int_range [OF this, of "sint n"] have "fits LENGTH('a) (sint n smod sint d)"
    using sint_abs [of d] by auto
  then show "sint (word_of_int (sint n smod sint d) :: 'a word) = sint n smod sint d" by (rule sint_of_int)
qed

lemma least_quotient:
  fixes n :: "'b::len word" and d :: "'a::len word"
  assumes "LENGTH('b) = 2 * LENGTH('a)" "d \<noteq> 0" "sint n = - (2 ^ (LENGTH('b) - 1))"
  shows "\<not> fits LENGTH('a) (sint n sdiv sint d)"
proof -
  have d: "0 < \<bar>sint d\<bar>" using assms(2) by (simp only: zero_less_abs_iff signed_eq_0_iff not_False_eq_True)
  obtain m where m: "LENGTH('a) = Suc m" by (cases "LENGTH('a)") auto
  have e: "2 ^ (LENGTH('b) - 1) = 2 ^ LENGTH('a) * (2 ^ (LENGTH('a) - 1) :: int)"
  proof -
    have "LENGTH('b) - 1 = LENGTH('a) + (LENGTH('a) - 1)" using assms(1) m by simp
    then show ?thesis by (simp only: power_add)
  qed
  have a: "\<bar>sint n\<bar> = 2 ^ LENGTH('a) * 2 ^ (LENGTH('a) - 1)" unfolding assms(3) e by (simp only: abs_minus_cancel) (simp add: abs_mult)
  have "2 ^ LENGTH('a) * \<bar>sint d\<bar> \<le> \<bar>sint n\<bar>"
    unfolding a by (rule mult_left_mono [OF sint_abs]) simp
  from zdiv_mono1 [OF this d] have "2 ^ LENGTH('a) \<le> \<bar>sint n\<bar> div \<bar>sint d\<bar>"
    using d by simp
  also have "\<dots> = \<bar>sint n sdiv sint d\<bar>"
    using d assms(3) by (auto simp: signed_divide_int_def abs_mult sgn_if pos_imp_zdiv_nonneg_iff)
  finally have "2 ^ LENGTH('a) \<le> \<bar>sint n sdiv sint d\<bar>" .
  moreover have "(2 :: int) ^ LENGTH('a) = 2 * 2 ^ (LENGTH('a) - 1)" "(0 :: int) < 2 ^ (LENGTH('a) - 1)" by (simp_all add: m)
  ultimately show ?thesis by auto
qed

lemma dividesI:
  fixes op2 :: "bxInstruction_c \<Rightarrow> BX_CPU_C \<Rightarrow> 'a::len word" and acc :: "BX_CPU_C \<Rightarrow> 'b::len word"
  assumes "LENGTH('b) = 2 * LENGTH('a)"
    and "\<And>i c. h i c = (if op2 i c = 0 then Inl BX_DE_EXCEPTION
      else if acc c div ucast (op2 i c) \<noteq> ucast (ucast (acc c div ucast (op2 i c)) :: 'a word) then Inl BX_DE_EXCEPTION
      else Inr (wr (ucast (acc c mod ucast (op2 i c))) (ucast (acc c div ucast (op2 i c))) c))"
    and "\<And>c. uint (acc c) = uint (hi c) * 2 ^ LENGTH('a) + uint (lo c)"
    and "\<And>x y c. hi (wr x y c) = x" "\<And>x y c. lo (wr x y c) = y" "\<And>x y c. oszapc (wr x y c) = oszapc c"
    and "\<And>x y c r. r \<noteq> 0 \<Longrightarrow> r \<noteq> 2 \<Longrightarrow> gen_reg (wr x y c) r = gen_reg c r"
  shows "divides hi lo op2 h"
  unfolding divides_def assms(3) [symmetric]
proof (intro allI)
  fix i c
  note q = quotient_words [OF assms(1), of "op2 i c" "acc c"]
  have "0 < uint (op2 i c)" if "op2 i c \<noteq> 0" using one_le_uint [OF that] by simp
  then show "let n = uint (acc c); d = uint (op2 i c) in case h i c of
        Inl e \<Rightarrow> d = 0 \<or> \<not> below LENGTH('a) (n div d)
      | Inr c' \<Rightarrow> n = uint (lo c') * d + uint (hi c') \<and> uint (hi c') < d \<and> oszapc c' = oszapc c \<and>
          (\<forall>r. r \<noteq> 0 \<and> r \<noteq> 2 \<longrightarrow> gen_reg c' r = gen_reg c r)"
    unfolding assms(2) Let_def using q by (simp add: assms(4-7))
qed

lemma divides_signedI:
  fixes op2 :: "bxInstruction_c \<Rightarrow> BX_CPU_C \<Rightarrow> 'a::len word" and acc :: "BX_CPU_C \<Rightarrow> 'b::len word"
  assumes "LENGTH('b) = 2 * LENGTH('a)"
    and "\<And>i c. h i c = (if least (acc c) then Inl BX_DE_EXCEPTION else if op2 i c = 0 then Inl BX_DE_EXCEPTION
      else if (word_of_int (sint (acc c) sdiv sint (op2 i c)) :: 'b word) \<noteq>
          scast (ucast (word_of_int (sint (acc c) sdiv sint (op2 i c)) :: 'b word) :: 'a word) then Inl BX_DE_EXCEPTION
      else Inr (wr (word_of_int (sint (acc c) smod sint (op2 i c))) (ucast (word_of_int (sint (acc c) sdiv sint (op2 i c)) :: 'b word)) c))"
    and "\<And>c. sint (acc c) = sint (hi c) * 2 ^ LENGTH('a) + uint (lo c)"
    and "\<And>x y c. hi (wr x y c) = x" "\<And>x y c. lo (wr x y c) = y" "\<And>x y c. oszapc (wr x y c) = oszapc c"
    and "\<And>x y c r. r \<noteq> 0 \<Longrightarrow> r \<noteq> 2 \<Longrightarrow> gen_reg (wr x y c) r = gen_reg c r"
    and "\<And>n. least n \<longleftrightarrow> sint n = - (2 ^ (LENGTH('b) - 1))"
  shows "divides_signed hi lo op2 h"
  unfolding divides_signed_def assms(3) [symmetric]
proof (intro allI)
  fix i c
  let ?n = "sint (acc c)" and ?d = "sint (op2 i c)"
  have "op2 i c = 0 \<longleftrightarrow> ?d = 0" by (simp only: signed_eq_0_iff)
  note z = this
  show "let n = ?n; d = ?d in case h i c of
        Inl e \<Rightarrow> d = 0 \<or> \<not> fits LENGTH('a) (n sdiv d)
      | Inr c' \<Rightarrow> n = sint (lo c') * d + sint (hi c') \<and> \<bar>sint (hi c')\<bar> < \<bar>d\<bar> \<and> (sint (hi c') = 0 \<or> sgn (sint (hi c')) = sgn n) \<and>
          oszapc c' = oszapc c \<and> (\<forall>r. r \<noteq> 0 \<and> r \<noteq> 2 \<longrightarrow> gen_reg c' r = gen_reg c r)"
  proof (cases "least (acc c) \<or> op2 i c = 0")
    case True
    then have "h i c = Inl BX_DE_EXCEPTION" by (auto simp: assms(2))
    moreover have "?d = 0 \<or> \<not> fits LENGTH('a) (?n sdiv ?d)"
      using True z least_quotient [OF assms(1), of "op2 i c" "acc c"] assms(8) by blast
    ultimately show ?thesis by (simp only: Let_def sum.case)
  next
    case False
    then have d: "op2 i c \<noteq> 0" "?d \<noteq> 0" and n: "?n \<noteq> - (2 ^ (LENGTH('b) - 1))" using z assms(8) by auto
    note q = signed_quotient_words [OF assms(1) d(1) n]
    have m: "?n = (?n sdiv ?d) * ?d + ?n smod ?d" by (rule sdiv_mult_smod_eq [symmetric])
    have r: "\<bar>?n smod ?d\<bar> < \<bar>?d\<bar>" using smod_int_range [OF d(2), of ?n] by auto
    have s: "?n smod ?d = 0 \<or> sgn (?n smod ?d) = sgn ?n"
    proof -
      have "0 \<le> \<bar>?n\<bar> mod \<bar>?d\<bar>" using d(2) by simp
      then have "\<bar>?n\<bar> mod \<bar>?d\<bar> = 0 \<or> sgn (\<bar>?n\<bar> mod \<bar>?d\<bar>) = 1" by (auto simp: sgn_1_pos)
      then show ?thesis by (auto simp: signed_modulo_int_def sgn_mult)
    qed
    show ?thesis
    proof (cases "fits LENGTH('a) (?n sdiv ?d)")
      case True
      then have "h i c = Inr (wr (word_of_int (?n smod ?d)) (ucast (word_of_int (?n sdiv ?d) :: 'b word)) c)"
        using q(1) False by (simp only: assms(2) if_False) simp
      then show ?thesis
        using m r s assms(4-7) by (simp only: Let_def sum.case assms(4-6) q(2) [OF True] q(3)) simp
    next
      case f: False
      then have "h i c = Inl BX_DE_EXCEPTION" using q(1) False by (simp only: assms(2) if_False) simp
      then show ?thesis using f by (simp only: Let_def sum.case simp_thms)
    qed
  qed
qed

text \<open>The dividend: its two halves put together.\<close>

lemma joined:
  fixes h l :: "'a::len word"
  assumes "LENGTH('b) = 2 * LENGTH('a)"
  shows "uint (push_bit LENGTH('a) (ucast h :: 'b::len word) OR ucast l) = uint h * 2 ^ LENGTH('a) + uint l"
    "sint (push_bit LENGTH('a) (ucast h :: 'b::len word) OR ucast l) = sint h * 2 ^ LENGTH('a) + uint l"
    "push_bit LENGTH('a) (ucast h :: 'b::len word) + ucast l = push_bit LENGTH('a) (ucast h) OR ucast l"
proof -
  let ?p = "push_bit LENGTH('a) (ucast h :: 'b::len word) OR ucast l"
  have u: "ucast (drop_bit LENGTH('a) ?p) = h" 
    using assms by (intro bit_word_eqI) (auto simp: bit_ucast_iff bit_drop_bit_eq bit_or_iff bit_push_bit_iff dest: bit_imp_le_length)
  have l: "ucast ?p = l" 
    using assms by (intro bit_word_eqI) (auto simp: bit_ucast_iff bit_or_iff bit_push_bit_iff)
  have "uint ?p < 2 ^ LENGTH('a) * 2 ^ LENGTH('a)"
    using uint_lt2p [of ?p] assms by (simp add: power_add [symmetric] mult_2)
  from uint_halves [OF _ this] show "uint ?p = uint h * 2 ^ LENGTH('a) + uint l" using assms by (simp only: u l)
  show "sint ?p = sint h * 2 ^ LENGTH('a) + uint l" using sint_halves [OF assms, of ?p] by (simp only: u l)
  show "push_bit LENGTH('a) (ucast h :: 'b::len word) + ucast l = ?p"
    by (rule disjunctive_add) (auto simp: bit_push_bit_iff bit_ucast_iff dest: bit_imp_le_length)
qed

lemma AX_halves: "uint (AX c) = uint (AH c) * 2 ^ LENGTH(8) + uint (AL c)" "sint (AX c) = sint (AH c) * 2 ^ LENGTH(8) + uint (AL c)"
proof -
  have a: "(ucast (drop_bit LENGTH(8) (AX c)) :: Bit8u) = AH c" "(ucast (AX c) :: Bit8u) = AL c"
    by (rule bit_word_eqI; auto simp: bit_ucast_iff bit_drop_bit_eq)+
  have "uint (AX c) < 2 ^ LENGTH(8) * 2 ^ LENGTH(8)" using uint_lt2p [of "AX c"] by simp
  from uint_halves [OF _ this] show "uint (AX c) = uint (AH c) * 2 ^ LENGTH(8) + uint (AL c)" by (simp add: a [simplified])
  show "sint (AX c) = sint (AH c) * 2 ^ LENGTH(8) + uint (AL c)"
    using sint_halves [OF len_double(1), of "AX c"] by (simp only: a)
qed

lemma least_words: "n = 0x8000 \<longleftrightarrow> sint (n :: 16 word) = - (2 ^ (LENGTH(16) - 1))" "m = 0x80000000 \<longleftrightarrow> sint (m :: 32 word) = - (2 ^ (LENGTH(32) - 1))"
  "k = 0x8000000000000000 \<longleftrightarrow> sint (k :: 64 word) = - (2 ^ (LENGTH(64) - 1))"
proof -
  have "sint (0x8000 :: 16 word) = - (2 ^ (LENGTH(16) - 1))" "sint (0x80000000 :: 32 word) = - (2 ^ (LENGTH(32) - 1))"
    "sint (0x8000000000000000 :: 64 word) = - (2 ^ (LENGTH(64) - 1))" by simp_all
  then show "n = 0x8000 \<longleftrightarrow> sint (n :: 16 word) = - (2 ^ (LENGTH(16) - 1))" "m = 0x80000000 \<longleftrightarrow> sint (m :: 32 word) = - (2 ^ (LENGTH(32) - 1))"
    "k = 0x8000000000000000 \<longleftrightarrow> sint (k :: 64 word) = - (2 ^ (LENGTH(64) - 1))"
    by (metis signed_word_eqI)+
qed

lemmas div_write = reg_write WRITE_8BIT_REG_def bit_Suc_0_iff

lemma DIV8: "divides AH AL r8 DIV_ALEbR"
  by (rule dividesI [where acc = "AX" and wr = "\<lambda>x y c. set_AH x (set_AL y c)"], rule len_double, simp_all only: AX_halves)
    (simp_all add: DIV_ALEbR_def div_write)

lemma DIV16: "divides DX AX r16 DIV_AXEwR"
  by (rule dividesI [where acc = "\<lambda>c. push_bit LENGTH(16) (ucast (DX c) :: Bit32u) OR ucast (AX c)" and wr = "\<lambda>x y c. set_DX x (set_AX y c)"],
      rule len_double, simp_all only: joined [OF len_double(2)])
    (simp_all add: DIV_AXEwR_def div_write)

lemma DIV32: "divides EDX EAX r32 DIV_EAXEdR"
  by (rule dividesI [where acc = "\<lambda>c. push_bit LENGTH(32) (ucast (EDX c) :: Bit64u) + ucast (EAX c)" and wr = "\<lambda>x y c. set_EDX x (set_EAX y c)"],
      rule len_double)
    (simp_all only: joined [OF len_double(3)], simp_all add: DIV_EAXEdR_def div_write joined(3) [OF len_double(3), simplified])

lemma IDIV8: "divides_signed AH AL r8 IDIV_ALEbR"
  by (rule divides_signedI [where acc = "AX" and wr = "\<lambda>x y c. set_AH x (set_AL y c)" and least = "\<lambda>n. n = 0x8000",
      OF len_double(1) _ AX_halves(2) _ _ _ _ least_words(1)])
    (simp_all add: IDIV_ALEbR_def div_write)

lemma IDIV16: "divides_signed DX AX r16 IDIV_AXEwR"
  by (rule divides_signedI [where acc = "\<lambda>c. push_bit LENGTH(16) (ucast (DX c) :: Bit32u) OR ucast (AX c)" and
      wr = "\<lambda>x y c. set_DX x (set_AX y c)" and least = "\<lambda>n. n = 0x80000000",
      OF len_double(2) _ joined(2) [OF len_double(2)] _ _ _ _ least_words(2)])
    (simp_all add: IDIV_AXEwR_def div_write)

lemma IDIV32: "divides_signed EDX EAX r32 IDIV_EAXEdR"
  by (rule divides_signedI [where acc = "\<lambda>c. push_bit LENGTH(32) (ucast (EDX c) :: Bit64u) OR ucast (EAX c)" and
      wr = "\<lambda>x y c. set_EDX x (set_EAX y c)" and least = "\<lambda>n. n = 0x8000000000000000",
      OF len_double(3) _ joined(2) [OF len_double(3)] _ _ _ _ least_words(3)])
    (simp_all add: IDIV_EAXEdR_def div_write)

section \<open>Properties\<close>

text \<open>
  C27. Products are exact.  MUL and the one-operand IMUL write the product of the integers they read,
  unsigned or signed, into the upper and the lower half; CF and OF are set exactly when the product
  needs the upper half; ZF, SF and PF are those of the lower half.  The forms of IMUL with two and three
  operands write the lower half only, with CF and OF set exactly when that is not the product.
\<close>
theorem products_exact:
  "multiplies uint (below 8) AH AL r8 MUL_ALEbR \<and> multiplies uint (below 16) DX AX r16 MUL_AXEwR \<and>
   multiplies uint (below 32) EDX EAX r32 MUL_EAXEdR \<and>
   multiplies sint (fits 8) AH AL r8 IMUL_ALEbR \<and> multiplies sint (fits 16) DX AX r16 IMUL_AXEwR \<and>
   multiplies sint (fits 32) EDX EAX r32 IMUL_EAXEdR \<and>
   multiplies_low WRITE_16BIT_REG r16 i16 IMUL_GwEwIwR \<and> multiplies_low WRITE_16BIT_REG d16 r16 IMUL_GwEwR \<and>
   multiplies_low WRITE_32BIT_REGZ r32 i32 IMUL_GdEdIdR \<and> multiplies_low WRITE_32BIT_REGZ d32 r32 IMUL_GdEdR"
  using MUL8 MUL16 MUL32 IMUL8 IMUL16 IMUL32 IMUL_low by blast

text \<open>
  C16. A division gives the quotient and the remainder or is refused.  DIV and IDIV raise the divide error
  exactly when the divisor is 0 or the quotient does not fit its register (the explicit test for
  the least dividend never refuses a quotient that would fit); otherwise dividend = quotient * divisor + remainder, the
  remainder is smaller than the divisor and, for IDIV, has the sign of the dividend; no flag changes.
\<close>
theorem divisions_exact_or_refused:
  "divides AH AL r8 DIV_ALEbR \<and> divides DX AX r16 DIV_AXEwR \<and> divides EDX EAX r32 DIV_EAXEdR \<and>
   divides_signed AH AL r8 IDIV_ALEbR \<and> divides_signed DX AX r16 IDIV_AXEwR \<and> divides_signed EDX EAX r32 IDIV_EAXEdR"
  using DIV8 DIV16 DIV32 IDIV8 IDIV16 IDIV32 by blast

end
