(* ===== verification/CpuBcd.thy ===== *)
theory CpuBcd
  imports CpuMul_Spec
begin

text \<open>
  The decimal adjustments, \<open>cpu/bcd.cc\<close>: AAA, AAS, AAM, AAD on unpacked and DAA, DAS on packed
  decimal digits.  The reference is arithmetic modulo 10 and 100 on the digits of the operands.
\<close>

text \<open>Every handler ends with the flags of AL; four then set CF and AF.\<close>

definition AAA :: handler where
  "AAA i c =
     (let adj = (AL c AND 0x0f > 9 \<or> getB_AF (oszapc c));
          c1 = (if adj then set_AX (AX c + 0x106) c else c);
          c1 = set_AL (AL c1 AND 0x0f) c1;
          c1 = set_flags (SET_FLAGS_OSZAPC_LOGIC 8 (ucast (AL c1))) c1
      in set_flags (set_AF adj) (set_flags (set_CF adj) c1))"

definition AAS :: handler where
  "AAS i c =
     (let adj = (AL c AND 0x0F > 0x09 \<or> getB_AF (oszapc c));
          c1 = (if adj then set_AX (AX c - 0x106) c else c);
          c1 = set_AL (AL c1 AND 0x0f) c1;
          c1 = set_flags (SET_FLAGS_OSZAPC_LOGIC 8 (ucast (AL c1))) c1
      in set_flags (set_AF adj) (set_flags (set_CF adj) c1))"

definition AAM :: faulting where
  "AAM i c =
     (let imm8 = Ib i
      in if imm8 = 0 then Inl BX_DE_EXCEPTION
         else let al = AL c;
                  c = set_AL (al mod imm8) (set_AH (al div imm8) c)
              in Inr (set_flags (SET_FLAGS_OSZAPC_LOGIC 8 (ucast (AL c))) c))"

definition AAD :: handler where
  "AAD i c =
     (let tmp = (ucast (AH c) :: Bit16u);
          tmp = tmp * ucast (Ib i);
          tmp = tmp + ucast (AL c);
          c = set_AX (tmp AND 0xff) c
      in set_flags (SET_FLAGS_OSZAPC_LOGIC 8 (ucast (AL c))) c)"

definition DAA :: handler where
  "DAA i c =
     (let tmpAL = AL c;
          (c1, tmpCF, tmpAF) =
            (if tmpAL AND 0x0F > 0x09 \<or> getB_AF (oszapc c)
             then (set_AL (AL c + 0x06) c, AL c > 0xF9 \<or> getB_CF (oszapc c), True)
             else (c, False, False));
          (c1, tmpCF) =
            (if tmpAL > 0x99 \<or> getB_CF (oszapc c1) then (set_AL (AL c1 + 0x60) c1, True) else (c1, tmpCF));
          c1 = set_flags (SET_FLAGS_OSZAPC_LOGIC 8 (ucast (AL c1))) c1
      in set_flags (set_AF tmpAF) (set_flags (set_CF tmpCF) c1))"

definition DAS :: handler where
  "DAS i c =
     (let tmpAL = AL c;
          (c1, tmpCF, tmpAF) =
            (if tmpAL AND 0x0F > 0x09 \<or> getB_AF (oszapc c)
             then (set_AL (AL c - 0x06) c, AL c < 0x06 \<or> getB_CF (oszapc c), True)
             else (c, False, False));
          (c1, tmpCF) =
            (if tmpAL > 0x99 \<or> getB_CF (oszapc c1) then (set_AL (AL c1 - 0x60) c1, True) else (c1, tmpCF));
          c1 = set_flags (SET_FLAGS_OSZAPC_LOGIC 8 (ucast (AL c1))) c1
      in set_flags (set_AF tmpAF) (set_flags (set_CF tmpCF) c1))"

section \<open>Decimal digits in a byte\<close>

definition packed :: "int \<Rightarrow> Bit8u" where
  "packed x = of_int (16 * (x div 10) + x mod 10)"

text \<open>The adjustments as functions of AL, CF and AF.\<close>

definition daa :: "Bit8u \<Rightarrow> bool \<Rightarrow> bool \<Rightarrow> Bit8u \<times> bool" where
  "daa al cf af =
     (let lo = (al AND 0x0F > 0x09 \<or> af); hi = (al > 0x99 \<or> cf); r = (if lo then al + 0x06 else al)
      in (if hi then r + 0x60 else r, hi \<or> lo \<and> (al > 0xF9 \<or> cf)))"

definition das :: "Bit8u \<Rightarrow> bool \<Rightarrow> bool \<Rightarrow> Bit8u \<times> bool" where
  "das al cf af =
     (let lo = (al AND 0x0F > 0x09 \<or> af); hi = (al > 0x99 \<or> cf); r = (if lo then al - 0x06 else al)
      in (if hi then r - 0x60 else r, hi \<or> lo \<and> (al < 0x06 \<or> cf)))"

lemma AL_set [simp]: "AL (set_AL v c) = v" "oszapc (set_AL v c) = oszapc c"
  by (simp_all add: WRITE_8BIT_REG_def upd_reg_def views bit_simps)

lemma DAA_daa:
  "(AL (DAA i c), getB_CF (oszapc (DAA i c))) = daa (AL c) (getB_CF (oszapc c)) (getB_AF (oszapc c))"
  unfolding DAA_def daa_def Let_def
  by (simp add: set_flags_reg flags_sel(6) [symmetric] flags_set_AF flags_set_CF del: flags_sel)

lemma DAS_das:
  "(AL (DAS i c), getB_CF (oszapc (DAS i c))) = das (AL c) (getB_CF (oszapc c)) (getB_AF (oszapc c))"
  unfolding DAS_def das_def Let_def
  by (simp add: set_flags_reg flags_sel(6) [symmetric] flags_set_AF flags_set_CF del: flags_sel)

text \<open>
  A sum of two packed numbers depends on the sums \<open>t\<close> and \<open>s\<close> of their upper and lower digits only, the
  incoming carry counted in \<open>s\<close>; likewise a difference.
\<close>

lemma byte_tests:
  fixes n :: int
  shows "(of_int n AND 0x0F :: Bit8u) > 0x09 \<longleftrightarrow> 9 < n mod 16" "(of_int n :: Bit8u) > 0x99 \<longleftrightarrow> 153 < n mod 256"
    "(of_int n :: Bit8u) > 0xF9 \<longleftrightarrow> 249 < n mod 256" "(of_int n :: Bit8u) < 0x06 \<longleftrightarrow> n mod 256 < 6"
proof -
  have "(0x0F :: Bit8u) = mask 4" by (simp add: mask_eq_exp_minus_1)
  then have "(of_int n AND 0x0F :: Bit8u) = take_bit 4 (of_int n)" by (simp only: take_bit_eq_mask)
  then have "uint (of_int n AND 0x0F :: Bit8u) = n mod 16"
    by (simp only: unsigned_take_bit_eq) (simp add: take_bit_eq_mod uint_word_of_int mod_mod_cancel)
  then show "(of_int n AND 0x0F :: Bit8u) > 0x09 \<longleftrightarrow> 9 < n mod 16" by (simp only: word_less_iff_unsigned [where 'a = int]) simp
  have "uint (of_int n :: Bit8u) = n mod 256" by (simp add: uint_word_of_int)
  then show "(of_int n :: Bit8u) > 0x99 \<longleftrightarrow> 153 < n mod 256" "(of_int n :: Bit8u) > 0xF9 \<longleftrightarrow> 249 < n mod 256"
    "(of_int n :: Bit8u) < 0x06 \<longleftrightarrow> n mod 256 < 6"
    by (simp_all only: word_less_iff_unsigned [where 'a = int], simp_all)
qed

lemma of_int_byte_eq: "n mod 256 = m mod 256 \<Longrightarrow> (of_int n :: Bit8u) = of_int m"
  by (simp add: word_uint_eq_iff uint_word_of_int)

lemma packed_digits:
  assumes "m = 10 * a + b + 100 * k" "0 \<le> a" "a \<le> 9" "0 \<le> b" "b \<le> 9"
  shows "packed (m mod 100) = of_int (16 * a + b)"
proof -
  have "m mod 100 = 10 * a + b" using assms by simp
  moreover have "(10 * a + b) div 10 = a" "(10 * a + b) mod 10 = b" using assms by simp_all
  ultimately show ?thesis by (simp add: packed_def)
qed

lemma of_int_byte_shift: "x = y + 256 * k \<Longrightarrow> (of_int x :: Bit8u) = of_int y"
  by (rule of_int_byte_eq) simp

lemma daa_sums:
  fixes t s :: int
  assumes "0 \<le> t" "t \<le> 18" "0 \<le> s" "s \<le> 19"
  shows "daa (of_int (16 * t + s)) (256 \<le> 16 * t + s) (16 \<le> s) = (packed ((10 * t + s) mod 100), 100 \<le> 10 * t + s)"
proof -
  let ?n = "16 * t + s"
  have lo: "9 < ?n mod 16 \<or> 16 \<le> s \<longleftrightarrow> 9 < s" using assms by presburger
  consider "t \<le> 8" | "t = 9" | "10 \<le> t" by linarith
  then have h: "153 < ?n \<longleftrightarrow> 100 \<le> 10 * t + s" by cases (use assms in linarith)+
  have "?n mod 256 = ?n" if "\<not> 256 \<le> ?n" using assms that by simp
  then have hi: "153 < ?n mod 256 \<or> 256 \<le> ?n \<longleftrightarrow> 100 \<le> 10 * t + s"
    and up: "249 < ?n mod 256 \<or> 256 \<le> ?n \<Longrightarrow> 100 \<le> 10 * t + s" using h by linarith+
  let ?a = "t + (if 9 < s then 1 else 0) - (if 100 \<le> 10 * t + s then 10 else 0)" and ?b = "s - (if 9 < s then 10 else 0)"
  have p: "packed ((10 * t + s) mod 100) = of_int (16 * ?a + ?b)"
  proof (rule packed_digits [where k = "if 100 \<le> 10 * t + s then 1 else 0"])
    show "10 * t + s = 10 * ?a + ?b + 100 * (if 100 \<le> 10 * t + s then 1 else 0)" by (cases "9 < s") simp_all
    show "0 \<le> ?a" "?a \<le> 9" "0 \<le> ?b" "?b \<le> 9" using assms by (simp_all split: if_split)
  qed
  have "(of_int (?n + (if 9 < s then 6 else 0) + (if 100 \<le> 10 * t + s then 96 else 0)) :: Bit8u) = of_int (16 * ?a + ?b)"
    by (rule of_int_byte_shift [where k = "if 100 \<le> 10 * t + s then 1 else 0"]) auto
  then show ?thesis
    unfolding daa_def Let_def byte_tests lo hi p using up by (auto split: if_splits)
qed

lemma das_sums:
  fixes t s :: int
  assumes "- 9 \<le> t" "t \<le> 9" "- 10 \<le> s" "s \<le> 9"
  shows "das (of_int (16 * t + s)) (16 * t + s < 0) (s < 0) = (packed ((10 * t + s) mod 100), 10 * t + s < 0)"
proof -
  let ?n = "16 * t + s"
  have lo: "9 < ?n mod 16 \<or> s < 0 \<longleftrightarrow> s < 0" using assms by presburger
  consider "t \<le> - 1" | "t = 0" | "1 \<le> t" by linarith
  then have h: "?n < 0 \<longleftrightarrow> 10 * t + s < 0" "s < 0 \<and> ?n < 6 \<longrightarrow> 10 * t + s < 0" by (cases, (use assms in linarith)+)+
  have "?n mod 256 = ?n" "?n \<le> 153" if "\<not> ?n < 0" using assms that by simp_all
  then have hi: "153 < ?n mod 256 \<or> ?n < 0 \<longleftrightarrow> 10 * t + s < 0"
    and up: "s < 0 \<and> (?n mod 256 < 6 \<or> ?n < 0) \<Longrightarrow> 10 * t + s < 0" using h by linarith+
  let ?a = "t - (if s < 0 then 1 else 0) + (if 10 * t + s < 0 then 10 else 0)" and ?b = "s + (if s < 0 then 10 else 0)"
  have p: "packed ((10 * t + s) mod 100) = of_int (16 * ?a + ?b)"
  proof (rule packed_digits [where k = "if 10 * t + s < 0 then - 1 else 0"])
    show "10 * t + s = 10 * ?a + ?b + 100 * (if 10 * t + s < 0 then - 1 else 0)" by (cases "s < 0") simp_all
    show "0 \<le> ?a" "?a \<le> 9" "0 \<le> ?b" "?b \<le> 9" using assms by (simp_all split: if_split)
  qed
  have "(of_int (?n - (if s < 0 then 6 else 0) - (if 10 * t + s < 0 then 96 else 0)) :: Bit8u) = of_int (16 * ?a + ?b)"
    by (rule of_int_byte_shift [where k = "if 10 * t + s < 0 then - 1 else 0"]) auto
  then show ?thesis
    unfolding das_def Let_def byte_tests lo hi p using up by (auto split: if_splits)
qed

section \<open>Packed numbers\<close>

lemma packed_uint:
  assumes "0 \<le> x" "x < 100"
  shows "uint (packed x) = 16 * (x div 10) + x mod 10" "uint (packed x) mod 16 = x mod 10"
proof -
  have "0 \<le> x div 10" "x div 10 \<le> 9" "0 \<le> x mod 10" "x mod 10 \<le> 9" using assms by simp_all
  then have "16 * (x div 10) + x mod 10 < 256" "0 \<le> 16 * (x div 10) + x mod 10" "x mod 10 < 16" by linarith+
  then show "uint (packed x) = 16 * (x div 10) + x mod 10" "uint (packed x) mod 16 = x mod 10"
    unfolding packed_def by (simp_all only: uint_word_of_int) simp_all
qed

lemma adc_sbb: "computes8 i8 op_adc ADC_EbIbR" "computes8 i8 op_sbb SBB_EbIbR"
  by (simp_all add: spec_defs op_defs ADC_EbIbR_def SBB_EbIbR_def Let_def reg_simps diff_diff_eq flags8)

lemma READ_AL: "READ_8BIT_REG 0 c = AL c"
  by (simp add: READ_8BIT_REG_def)

lemma adc_sbb_AL:
  assumes "dst i = 0" "AL c = a" "Ib i = b" "getB_CF (oszapc c) = k"
  shows "AL (ADC_EbIbR i c) = a + b + of_bool k" "flags_of (oszapc (ADC_EbIbR i c)) = add_flags a b k"
    "AL (SBB_EbIbR i c) = a - b - of_bool k" "flags_of (oszapc (SBB_EbIbR i c)) = sub_flags a b k"
proof -
  have g: "AL c' = AL c''" if "gen_reg c' = gen_reg c''" for c' c'' using that by simp
  show "flags_of (oszapc (ADC_EbIbR i c)) = add_flags a b k" "flags_of (oszapc (SBB_EbIbR i c)) = sub_flags a b k"
    using adc_sbb assms by (simp_all add: spec_defs op_adc_def op_sbb_def READ_AL)
  have "gen_reg (ADC_EbIbR i c) = gen_reg (set_AL (a + b + of_bool k) c)" "gen_reg (SBB_EbIbR i c) = gen_reg (set_AL (a - b - of_bool k) c)"
    using adc_sbb assms by (simp_all add: spec_defs op_adc_def op_sbb_def READ_AL)
  from this [THEN g] show "AL (ADC_EbIbR i c) = a + b + of_bool k" "AL (SBB_EbIbR i c) = a - b - of_bool k" by simp_all
qed

lemma digit_bounds: "0 \<le> x \<Longrightarrow> x < 100 \<Longrightarrow> 0 \<le> x div 10 \<and> x div 10 \<le> 9 \<and> 0 \<le> x mod 10 \<and> x mod 10 \<le> 9" for x :: int
  by (intro conjI) simp_all

text \<open>
  C28. Decimal arithmetic: ADC of two packed decimal numbers followed by DAA leaves in AL the packed sum
  modulo 100 and in CF the decimal carry; SBB followed by DAS the packed difference modulo 100 and
  the decimal borrow; the incoming carry is counted, so bytes of longer numbers can be chained.
\<close>
theorem decimal_adjustment:
  assumes "dst i = 0" "AL c = packed x" "Ib i = packed y" "0 \<le> x" "x < 100" "0 \<le> y" "y < 100"
  shows "let k = of_bool (getB_CF (oszapc c)); plus = DAA j (ADC_EbIbR i c); less = DAS j (SBB_EbIbR i c) in
    AL plus = packed ((x + y + k) mod 100) \<and> getB_CF (oszapc plus) = (100 \<le> x + y + k) \<and>
    AL less = packed ((x - y - k) mod 100) \<and> getB_CF (oszapc less) = (x - y - k < 0)"
proof -
  let ?k = "of_bool (getB_CF (oszapc c)) :: int" and ?a = "packed x" and ?b = "packed y"
  note r = adc_sbb_AL [OF assms(1-3) refl]
  note ux = packed_uint [OF assms(4,5)] and uy = packed_uint [OF assms(6,7)]
  note bx = digit_bounds [OF assms(4,5)] and byy = digit_bounds [OF assms(6,7)]
  have k: "0 \<le> ?k" "?k \<le> 1" by simp_all
  let ?t = "x div 10 + y div 10" and ?s = "x mod 10 + y mod 10 + ?k"
  have "?a + ?b + of_bool (getB_CF (oszapc c)) = of_int (16 * ?t + ?s)"
    unfolding packed_def by simp
  moreover have "CF (add_flags ?a ?b (getB_CF (oszapc c))) \<longleftrightarrow> 256 \<le> 16 * ?t + ?s" "AF (add_flags ?a ?b (getB_CF (oszapc c))) \<longleftrightarrow> 16 \<le> ?s"
    by (simp_all add: add_flags_def Let_def ux uy algebra_simps)
  moreover have "10 * ?t + ?s = x + y + ?k" using mult_div_mod_eq [of 10 x] mult_div_mod_eq [of 10 y] by (simp only: distrib_left)
  moreover have "0 \<le> ?t" "?t \<le> 18" "0 \<le> ?s" "?s \<le> 19" using bx byy k by linarith+
  ultimately have 1: "AL (DAA j (ADC_EbIbR i c)) = packed ((x + y + ?k) mod 100)"
    "getB_CF (oszapc (DAA j (ADC_EbIbR i c))) \<longleftrightarrow> 100 \<le> x + y + ?k"
    using DAA_daa [of j "ADC_EbIbR i c"] daa_sums [of ?t ?s] r(1,2)
    by (simp_all only: flags_sel [symmetric] prod.inject)
  let ?d = "x div 10 - y div 10" and ?e = "x mod 10 - y mod 10 - ?k"
  have "?a - ?b - of_bool (getB_CF (oszapc c)) = of_int (16 * ?d + ?e)"
    unfolding packed_def by simp
  moreover have "CF (sub_flags ?a ?b (getB_CF (oszapc c))) \<longleftrightarrow> 16 * ?d + ?e < 0" "AF (sub_flags ?a ?b (getB_CF (oszapc c))) \<longleftrightarrow> ?e < 0"
    by (simp_all add: sub_flags_def Let_def ux uy algebra_simps)
  moreover have "10 * ?d + ?e = x - y - ?k" using mult_div_mod_eq [of 10 x] mult_div_mod_eq [of 10 y] by (simp only: right_diff_distrib)
  moreover have "- 9 \<le> ?d" "?d \<le> 9" "- 10 \<le> ?e" "?e \<le> 9" using bx byy k by linarith+
  ultimately have 2: "AL (DAS j (SBB_EbIbR i c)) = packed ((x - y - ?k) mod 100)"
    "getB_CF (oszapc (DAS j (SBB_EbIbR i c))) \<longleftrightarrow> x - y - ?k < 0"
    using DAS_das [of j "SBB_EbIbR i c"] das_sums [of ?d ?e] r(3,4)
    by (simp_all only: flags_sel [symmetric] prod.inject)
  from 1 2 show ?thesis by (simp only: Let_def simp_thms)
qed

lemma decimal_adjustment_witness:
  "let c = \<lparr> gen_reg = (\<lambda>_. 0x58), oszapc = \<lparr> lf_result = 0, auxbits = 0 \<rparr> \<rparr>;
       i = \<lparr> dst = 0, src = 0, Ib = 0x67, Iw = 0, Id = 0, count_CL = False \<rparr>;
       plus = DAA i (ADC_EbIbR i c)
   in AL plus = 0x25 \<and> getB_CF (oszapc plus)"
proof -
  have "AL \<lparr> gen_reg = (\<lambda>_. 0x58), oszapc = \<lparr> lf_result = 0, auxbits = 0 \<rparr> \<rparr> = packed 58" "(0x67 :: Bit8u) = packed 67"
    by (simp_all add: packed_def)
  then show ?thesis
    using decimal_adjustment [of "\<lparr> dst = 0, src = 0, Ib = 0x67, Iw = 0, Id = 0, count_CL = False \<rparr>"
      "\<lparr> gen_reg = (\<lambda>_. 0x58), oszapc = \<lparr> lf_result = 0, auxbits = 0 \<rparr> \<rparr>" 58 67
      "\<lparr> dst = 0, src = 0, Ib = 0x67, Iw = 0, Id = 0, count_CL = False \<rparr>"]
    by (simp add: Let_def packed_def getB_CF_bit)
qed

section \<open>Unpacked digits\<close>

lemma mod_65536_div:
  fixes q r :: int
  assumes "0 \<le> r" "r < 256"
  shows "(256 * q + r) mod 65536 div 256 mod 256 = q mod 256"
proof -
  have d: "(256 * q + r) div 256 = q" "(256 * q + r) mod 256 = r" using assms by simp_all
  have "(256 * q + r) mod (256 * 256) = 256 * (q mod 256) + r"
    using zmod_zmult2_eq [of 256 "256 * q + r" 256] unfolding d by simp
  then show ?thesis using assms by simp
qed

lemma AX_add:
  assumes "0 \<le> uint (AL c) + k" "uint (AL c) + k < 256"
  shows "(ucast (AX c + of_int (256 * h + k)) :: Bit8u) = AL c + of_int k"
    "(ucast (drop_bit 8 (AX c + of_int (256 * h + k))) :: Bit8u) = AH c + of_int h"
proof -
  let ?w = "AX c + of_int (256 * h + k)"
  have w: "uint ?w = (256 * (uint (AH c) + h) + (uint (AL c) + k)) mod 65536"
  proof -
    have "uint ?w = (uint (AX c) + (256 * h + k)) mod 65536"
      by (simp only: uint_word_ariths uint_word_of_int mod_simps) simp
    also have "uint (AX c) = 256 * uint (AH c) + uint (AL c)" using AX_halves(1) [of c] by simp
    finally show ?thesis by (simp add: algebra_simps)
  qed
  have "uint (ucast ?w :: Bit8u) = uint ?w mod 256" by (simp add: unsigned_ucast_eq take_bit_eq_mod)
  also have "\<dots> = (uint (AL c) + k) mod 256" unfolding w
    by (subst mod_mod_cancel) (simp, metis mod_mult_self4 mult.commute add.commute mod_mult_self2)
  finally show "(ucast ?w :: Bit8u) = AL c + of_int k"
    by (simp add: word_uint_eq_iff uint_word_ariths uint_word_of_int mod_simps)
  have "uint (ucast (drop_bit 8 ?w) :: Bit8u) = uint ?w div 256 mod 256"
  proof -
    have "uint (drop_bit 8 ?w) = drop_bit 8 (take_bit LENGTH(16) (uint ?w))" by (rule unsigned_drop_bit_eq)
    also have "\<dots> = uint ?w div 256" by (simp add: drop_bit_eq_div take_bit_int_eq_self uint_lt2p [of ?w, simplified])
    finally show ?thesis by (simp only: unsigned_ucast_eq) (simp add: take_bit_eq_mod)
  qed
  also have "\<dots> = (uint (AH c) + h) mod 256" unfolding w by (rule mod_65536_div [OF assms])
  finally show "(ucast (drop_bit 8 ?w) :: Bit8u) = AH c + of_int h"
    by (simp add: word_uint_eq_iff uint_word_ariths uint_word_of_int mod_simps)
qed

lemma AH_set: "AH (set_AL v c) = AH c" "AH (set_AX w c) = ucast (drop_bit 8 w)" "AL (set_AX w c) = ucast w"
proof -
  show "AH (set_AL v c) = AH c" by (simp add: WRITE_8BIT_REG_def upd_reg_def views)
  show "AH (set_AX w c) = ucast (drop_bit 8 w)" "AL (set_AX w c) = ucast w"
    by (rule bit_word_eqI; auto simp: WRITE_16BIT_REG_def upd_reg_def set_rx_def bit_simps)+
qed

lemma AAA_parts:
  fixes i :: bxInstruction_c and c :: BX_CPU_C
  defines "adj \<equiv> AL c AND 0x0F > 9 \<or> getB_AF (oszapc c)"
  shows "AL (AAA i c) = (if adj then ucast (AX c + 0x106) else AL c) AND 0x0F"
    "AH (AAA i c) = (if adj then ucast (drop_bit 8 (AX c + 0x106)) else AH c)" "getB_CF (oszapc (AAA i c)) = adj"
    "AL (AAS i c) = (if adj then ucast (AX c - 0x106) else AL c) AND 0x0F"
    "AH (AAS i c) = (if adj then ucast (drop_bit 8 (AX c - 0x106)) else AH c)" "getB_CF (oszapc (AAS i c)) = adj"
  unfolding AAA_def AAS_def Let_def adj_def
  by (simp_all add: set_flags_reg AH_set flags_sel(6) [symmetric] flags_set_AF flags_set_CF del: flags_sel)

lemma low_nibble: "of_int n AND 0x0F = (of_int (n mod 16) :: Bit8u)"
proof -
  have "(0x0F :: Bit8u) = mask 4" by (simp add: mask_eq_exp_minus_1)
  then have "of_int n AND 0x0F = (take_bit 4 (of_int n) :: Bit8u)" by (simp only: take_bit_eq_mask)
  then have "uint (of_int n AND 0x0F :: Bit8u) = n mod 16"
    by (simp only: unsigned_take_bit_eq) (simp add: take_bit_eq_mod uint_word_of_int mod_mod_cancel)
  then show ?thesis by (simp add: word_uint_eq_iff uint_word_of_int)
qed

lemma AAA_digits:
  assumes "AL c = of_int s" "0 \<le> s" "s < 20" "getB_AF (oszapc c) = (16 \<le> s)"
  shows "AL (AAA i c) = of_int (s mod 10)" "AH (AAA i c) = AH c + of_bool (10 \<le> s)" "getB_CF (oszapc (AAA i c)) = (10 \<le> s)"
proof -
  have adj: "AL c AND 0x0F > 9 \<or> getB_AF (oszapc c) \<longleftrightarrow> 10 \<le> s"
    unfolding assms(1,4) byte_tests using assms(2,3) by presburger
  have "uint (AL c) = s" unfolding assms(1) using assms(2,3) by (simp add: uint_word_of_int)
  then have "(ucast (AX c + of_int (256 * 1 + 6)) :: Bit8u) = AL c + of_int 6" "(ucast (drop_bit 8 (AX c + of_int (256 * 1 + 6))) :: Bit8u) = AH c + of_int 1"
    using AX_add [of c 6 1] assms(2,3) by simp_all
  then have x: "(ucast (AX c + 0x106) :: Bit8u) = of_int (s + 6)" "(ucast (drop_bit 8 (AX c + 0x106)) :: Bit8u) = AH c + 1"
    unfolding assms(1) by simp_all
  have m: "(s + 6) mod 16 = s mod 10" if "10 \<le> s"
    using that assms(3) mod_pos_geq [of 16 "s + 6"] mod_pos_pos_trivial [of "s - 10" 10] by simp
  have m': "s mod 16 = s mod 10" if "\<not> 10 \<le> s" using that assms(2) by simp
  show "AL (AAA i c) = of_int (s mod 10)"
    unfolding AAA_parts adj unfolding x(1) assms(1) by (cases "10 \<le> s") (simp_all only: if_True if_False low_nibble m m' simp_thms)
  show "AH (AAA i c) = AH c + of_bool (10 \<le> s)" "getB_CF (oszapc (AAA i c)) = (10 \<le> s)"
    unfolding AAA_parts adj x(2) by simp_all
qed

lemma AAS_digits:
  assumes "AL c = of_int s" "- 10 \<le> s" "s < 10" "getB_AF (oszapc c) = (s < 0)"
  shows "AL (AAS i c) = of_int (s mod 10)" "AH (AAS i c) = AH c - of_bool (s < 0)" "getB_CF (oszapc (AAS i c)) = (s < 0)"
proof -
  have adj: "AL c AND 0x0F > 9 \<or> getB_AF (oszapc c) \<longleftrightarrow> s < 0"
    unfolding assms(1,4) byte_tests using assms(2,3) by presburger
  have x: "(ucast (AX c - 0x106) :: Bit8u) = of_int (s - 6)" "(ucast (drop_bit 8 (AX c - 0x106)) :: Bit8u) = AH c - 1" if "s < 0"
  proof -
    have "uint (AL c) = s mod 256" unfolding assms(1) by (simp add: uint_word_of_int)
    also have "\<dots> = s + 256" using that assms(2) by presburger
    finally have u: "uint (AL c) = s + 256" .
    have "(ucast (AX c + of_int (256 * - 1 + - 6)) :: Bit8u) = AL c + of_int (- 6)"
      "(ucast (drop_bit 8 (AX c + of_int (256 * - 1 + - 6))) :: Bit8u) = AH c + of_int (- 1)"
      using AX_add [of c "- 6" "- 1"] u assms(2) that by simp_all
    then show "(ucast (AX c - 0x106) :: Bit8u) = of_int (s - 6)" "(ucast (drop_bit 8 (AX c - 0x106)) :: Bit8u) = AH c - 1"
      unfolding assms(1) by simp_all
  qed
  have m: "(s - 6) mod 16 = s mod 10" if "s < 0"
    using that assms(2) mod_add_self2 [of "s - 6" 16] mod_add_self2 [of s 10] by (simp add: algebra_simps)
  have m': "s mod 16 = s mod 10" if "\<not> s < 0" using that assms(3) by simp
  show "AL (AAS i c) = of_int (s mod 10)"
    unfolding AAA_parts adj unfolding assms(1) by (cases "s < 0") (simp_all only: if_True if_False low_nibble x m m' simp_thms)
  show "AH (AAS i c) = AH c - of_bool (s < 0)" "getB_CF (oszapc (AAS i c)) = (s < 0)"
    unfolding AAA_parts adj by (simp_all add: x)
qed

text \<open>
  Unpacked digits: after ADC or SBB of two digits, AAA and AAS leave the digit in AL, pass the decimal
  carry or borrow to AH, and set CF by it.
\<close>
theorem unpacked_adjustment:
  assumes "dst i = 0" "AL c = of_int x" "Ib i = of_int y" "0 \<le> x" "x < 10" "0 \<le> y" "y < 10"
  shows "let k = of_bool (getB_CF (oszapc c)); plus = AAA j (ADC_EbIbR i c); less = AAS j (SBB_EbIbR i c) in
    AL plus = of_int ((x + y + k) mod 10) \<and> AH plus = AH c + of_bool (10 \<le> x + y + k) \<and> getB_CF (oszapc plus) = (10 \<le> x + y + k) \<and>
    AL less = of_int ((x - y - k) mod 10) \<and> AH less = AH c - of_bool (x - y - k < 0) \<and> getB_CF (oszapc less) = (x - y - k < 0)"
proof -
  let ?k = "of_bool (getB_CF (oszapc c)) :: int"
  note r = adc_sbb_AL [OF assms(1-3) refl]
  have k: "0 \<le> ?k" "?k \<le> 1" by simp_all
  have u: "uint (of_int x :: Bit8u) = x" "uint (of_int y :: Bit8u) = y" using assms(4-7) by (simp_all add: uint_word_of_int)
  have af: "getB_AF (oszapc (ADC_EbIbR i c)) = (16 \<le> x + y + ?k)" "getB_AF (oszapc (SBB_EbIbR i c)) = (x - y - ?k < 0)"
    unfolding flags_sel(4) [symmetric] r(2,4) add_flags_def sub_flags_def Let_def u using assms(4-7) by auto
  have al: "AL (ADC_EbIbR i c) = of_int (x + y + ?k)" "AL (SBB_EbIbR i c) = of_int (x - y - ?k)" unfolding r by simp_all
  have "gen_reg (ADC_EbIbR i c) = gen_reg (set_AL (of_int x + of_int y + of_bool (getB_CF (oszapc c))) c)"
    "gen_reg (SBB_EbIbR i c) = gen_reg (set_AL (of_int x - of_int y - of_bool (getB_CF (oszapc c))) c)"
    using adc_sbb assms(1-3) by (simp_all add: spec_defs op_adc_def op_sbb_def READ_AL)
  then have ah: "AH (ADC_EbIbR i c) = AH c" "AH (SBB_EbIbR i c) = AH c" by (simp_all only: AH_set)
  have b: "0 \<le> x + y + ?k" "x + y + ?k < 20" "- 10 \<le> x - y - ?k" "x - y - ?k < 10" using assms(4-7) k by linarith+
  show ?thesis unfolding Let_def
    using AAA_digits [OF al(1) b(1,2) af(1), of j] AAS_digits [OF al(2) b(3,4) af(2), of j] unfolding ah by blast
qed

text \<open>AAM splits AL into a quotient and a remainder, and AAD puts them together again.\<close>

theorem split_and_join:
  "case AAM i c of
     Inl e \<Rightarrow> Ib i = 0
   | Inr c' \<Rightarrow> uint (AL c) = uint (AH c') * uint (Ib i) + uint (AL c') \<and> uint (AL c') < uint (Ib i) \<and>
       AL (AAD i c') = AL c \<and> AH (AAD i c') = 0"
proof (cases "Ib i = 0")
  case True
  then show ?thesis by (simp add: AAM_def)
next
  case False
  let ?c = "set_AL (AL c mod Ib i) (set_AH (AL c div Ib i) c)"
  let ?c' = "set_flags (SET_FLAGS_OSZAPC_LOGIC 8 (ucast (AL ?c))) ?c"
  have h: "AAM i c = Inr ?c'" using False by (simp add: AAM_def Let_def)
  have r: "AL ?c' = AL c mod Ib i" "AH ?c' = AL c div Ib i"
    by (simp_all add: set_flags_reg AH_set) (simp add: WRITE_8BIT_REG_def upd_reg_def views bit_simps)
  have d: "0 < uint (Ib i)" using one_le_uint [OF False] by simp
  have e: "uint (AL c) = uint (AL c div Ib i) * uint (Ib i) + uint (AL c mod Ib i)" "uint (AL c mod Ib i) < uint (Ib i)"
    using d by (simp_all add: uint_div uint_mod)
  have "uint (AL c) < 256" using uint_lt2p [of "AL c"] by simp
  have u: "uint (ucast v :: Bit16u) = uint v" for v :: Bit8u
    using uint_lt2p [of v] by (simp add: unsigned_ucast_eq take_bit_int_eq_self)
  let ?t = "(ucast (AL c div Ib i) :: Bit16u) * ucast (Ib i) + ucast (AL c mod Ib i)"
  have "uint ?t = (uint (AL c div Ib i) * uint (Ib i) + uint (AL c mod Ib i)) mod 65536"
    by (simp add: uint_word_ariths u mod_simps)
  also have "\<dots> = uint (AL c)" unfolding e(1) [symmetric] using uint_lt2p [of "AL c"] by simp
  finally have t: "?t = ucast (AL c)" by (simp only: word_uint_eq_iff u)
  have m: "(ucast (AL c) :: Bit16u) AND 0xff = ucast (AL c)"
    unfolding and_masks by (rule bit_word_eqI) (auto simp: bit_simps dest: bit_imp_le_length)
  have "gen_reg (AAD i ?c') = gen_reg (set_AX (ucast (AL c)) ?c')"
    unfolding AAD_def Let_def r t m by (simp add: set_flags_reg)
  then have "AL (AAD i ?c') = ucast (ucast (AL c) :: Bit16u)" "AH (AAD i ?c') = ucast (drop_bit 8 (ucast (AL c) :: Bit16u))"
    by (simp_all only: AH_set)
  moreover have "ucast (ucast v :: Bit16u) = v" "ucast (drop_bit 8 (ucast v :: Bit16u)) = (0 :: Bit8u)" for v :: Bit8u
    by (rule bit_word_eqI; auto simp: bit_simps dest: bit_imp_le_length)+
  ultimately have "AL (AAD i ?c') = AL c" "AH (AAD i ?c') = 0" by (simp_all only:)
  then show ?thesis unfolding h sum.case using r e by (simp only: simp_thms)
qed

end
