(* ===== verification/Pic8259.thy ===== *)
theory Pic8259
  imports Prelude
begin

text \<open>
  The 8259A interrupt controllers of the emulated machine, \<open>bochs-2.6.8/iodev/pic.cc\<close> and
  \<open>pic.h\<close>: a master and a cascaded slave.  Every method of \<open>bx_pic_c\<close> that changes state is
  one definition on the record \<open>bx_pic_c\<close>.  What the class does to other components is part
  of the state: the CPU's INTR line (\<open>BX_RAISE_INTR\<close>, \<open>BX_CLEAR_INTR\<close>), the calls
  forwarded to the I/O APIC and the texts given to \<open>BX_PANIC\<close>, after which the code goes on
  as it does when the panic is not configured to stop the simulation.
\<close>

section \<open>State\<close>

record bx_pic_t =
  single_PIC :: Bit8u
  interrupt_offset :: Bit8u
  connect_u :: Bit8u
  sfnm :: Bit8u
  buffered_mode :: Bit8u
  master_slave :: Bit8u
  auto_eoi :: Bit8u
  imr :: Bit8u
  isr :: Bit8u
  irr :: Bit8u
  read_reg_select :: Bit8u
  irq :: Bit8u
  lowest_priority :: Bit8u
  INT_pin :: bool
  IRQ_in :: Bit8u
  in_init :: bool
  requires_4 :: bool
  byte_expected :: Bit8u
  special_mask :: bool
  polled :: bool
  rotate_on_autoeoi :: bool
  edge_level :: Bit8u

record bx_pic_c =
  master_pic :: bx_pic_t
  slave_pic :: bx_pic_t
  INTR :: bool
  ioapic_present :: bool
  ioapic_calls :: "(nat \<times> bool) list"
  panics :: "string list"

definition init_master_pic :: bx_pic_t where
  "init_master_pic =
     \<lparr> single_PIC = 0, interrupt_offset = 0x08, connect_u = 0x04, sfnm = 0, buffered_mode = 0,
       master_slave = 1, auto_eoi = 0, imr = 0xFF, isr = 0x00, irr = 0x00, read_reg_select = 0,
       irq = 0, lowest_priority = 7, INT_pin = False, IRQ_in = 0, in_init = False,
       requires_4 = False, byte_expected = 0, special_mask = False, polled = False,
       rotate_on_autoeoi = False, edge_level = 0 \<rparr>"

definition init_slave_pic :: bx_pic_t where
  "init_slave_pic =
     \<lparr> single_PIC = 0, interrupt_offset = 0x70, connect_u = 0x02, sfnm = 0, buffered_mode = 0,
       master_slave = 0, auto_eoi = 0, imr = 0xFF, isr = 0x00, irr = 0x00, read_reg_select = 0,
       irq = 0, lowest_priority = 7, INT_pin = False, IRQ_in = 0, in_init = False,
       requires_4 = False, byte_expected = 0, special_mask = False, polled = False,
       rotate_on_autoeoi = False, edge_level = 0 \<rparr>"

text \<open>\<open>bx_pic_c::init\<close>; the argument says whether an I/O APIC is plugged in.\<close>

definition pic_init :: "bool \<Rightarrow> bx_pic_c" where
  "pic_init apic =
     \<lparr> master_pic = init_master_pic, slave_pic = init_slave_pic, INTR = False,
       ioapic_present = apic, ioapic_calls = [], panics = [] \<rparr>"

definition BX_PANIC :: "string \<Rightarrow> bx_pic_c \<Rightarrow> bx_pic_c" where
  "BX_PANIC msg s = s\<lparr> panics := panics s @ [msg] \<rparr>"

definition BX_RAISE_INTR :: "bx_pic_c \<Rightarrow> bx_pic_c" where
  "BX_RAISE_INTR s = s\<lparr> INTR := True \<rparr>"

definition BX_CLEAR_INTR :: "bx_pic_c \<Rightarrow> bx_pic_c" where
  "BX_CLEAR_INTR s = s\<lparr> INTR := False \<rparr>"

abbreviation upd_master :: "(bx_pic_t \<Rightarrow> bx_pic_t) \<Rightarrow> bx_pic_c \<Rightarrow> bx_pic_c" where
  "upd_master f s \<equiv> s\<lparr> master_pic := f (master_pic s) \<rparr>"

abbreviation upd_slave :: "(bx_pic_t \<Rightarrow> bx_pic_t) \<Rightarrow> bx_pic_c \<Rightarrow> bx_pic_c" where
  "upd_slave f s \<equiv> s\<lparr> slave_pic := f (slave_pic s) \<rparr>"

section \<open>Priority scans\<close>

text \<open>\<open>irq ++; if(irq > 7) irq = 0;\<close> and the highest priority, the one after the lowest.\<close>

definition next_irq :: "nat \<Rightarrow> nat" where
  "next_irq i = (if i + 1 > 7 then 0 else i + 1)"

definition highest_priority :: "bx_pic_t \<Rightarrow> nat" where
  "highest_priority p =
     (let h = unat (lowest_priority p) + 1 in if h > 7 then 0 else h)"

text \<open>
  The three loops of the file.  Each visits at most the eight inputs, so fuel 8 is enough
  (\<open>clear_loop_enough\<close>, \<open>in_service_loop_enough\<close>, \<open>request_loop_enough\<close>); running out
  would be \<open>None\<close>.
\<close>

fun clear_loop :: "nat \<Rightarrow> nat \<Rightarrow> nat \<Rightarrow> Bit8u \<Rightarrow> Bit8u option" where
  "clear_loop 0 hp i w = None"
| "clear_loop (Suc n) hp i w =
     (if w AND bitm i \<noteq> 0 then Some (w AND NOT (bitm i))
      else if next_irq i \<noteq> hp then clear_loop n hp (next_irq i) w
      else Some w)"

definition clear_highest_interrupt :: "bx_pic_t \<Rightarrow> bx_pic_t" where
  "clear_highest_interrupt p =
     (let hp = highest_priority p
      in case clear_loop 8 hp hp (isr p) of
           None \<Rightarrow> p
         | Some w \<Rightarrow> p\<lparr> isr := w \<rparr>)"

fun in_service_loop :: "nat \<Rightarrow> Bit8u \<Rightarrow> nat \<Rightarrow> nat option" where
  "in_service_loop 0 w i = None"
| "in_service_loop (Suc n) w i =
     (if w AND bitm i = 0 then in_service_loop n w (next_irq i) else Some i)"

fun request_loop :: "nat \<Rightarrow> bool \<Rightarrow> Bit8u \<Rightarrow> Bit8u \<Rightarrow> nat \<Rightarrow> nat \<Rightarrow> nat option option" where
  "request_loop 0 sm w req mx i = None"
| "request_loop (Suc n) sm w req mx i =
     (if \<not> (sm \<and> drop_bit i w AND 1 \<noteq> 0) \<and> req AND bitm i \<noteq> 0 then Some (Some i)
      else if next_irq i \<noteq> mx then request_loop n sm w req mx (next_irq i)
      else Some None)"

text \<open>
  The decision both \<open>service_master_pic\<close> and \<open>service_slave_pic\<close> take: which input, if
  any, to signal.  \<open>None\<close> stands for each early \<open>return\<close> and for the end of the scan.  The
  check \<open>max_irq > 7\<close> after the first loop never fires, the loop wraps at 7.
\<close>

definition service_scan :: "bx_pic_t \<Rightarrow> nat option" where
  "service_scan p =
     (let hp = highest_priority p in
      if INT_pin p then None
      else case (if special_mask p then Some hp
                 else if isr p \<noteq> 0
                 then (case in_service_loop 8 (isr p) hp of
                         None \<Rightarrow> None
                       | Some m \<Rightarrow> if m = hp then None else Some m)
                 else Some hp) of
             None \<Rightarrow> None
           | Some mx \<Rightarrow>
               (let unmasked_requests = irr p AND NOT (imr p)
                in if unmasked_requests \<noteq> 0
                   then (case request_loop 8 (special_mask p) (isr p) unmasked_requests mx hp of
                           None \<Rightarrow> None
                         | Some r \<Rightarrow> r)
                   else None))"

section \<open>Interrupt lines\<close>

definition service_master_pic :: "bx_pic_c \<Rightarrow> bx_pic_c" where
  "service_master_pic s =
     (case service_scan (master_pic s) of
        None \<Rightarrow> s
      | Some i \<Rightarrow>
          BX_RAISE_INTR (upd_master (\<lambda>m. m\<lparr> INT_pin := True, irq := of_nat i \<rparr>) s))"

text \<open>Both line handlers first forward to the I/O APIC, except for the cascade input.\<close>

definition forward_ioapic :: "nat \<Rightarrow> bool \<Rightarrow> bx_pic_c \<Rightarrow> bx_pic_c" where
  "forward_ioapic irq_no level s =
     (if ioapic_present s \<and> irq_no \<noteq> 2
      then s\<lparr> ioapic_calls := ioapic_calls s @ [(irq_no, level)] \<rparr> else s)"

text \<open>\<open>raise_irq\<close> on an input of the master (the first branch of the method).\<close>

definition raise_irq_master :: "nat \<Rightarrow> bx_pic_c \<Rightarrow> bx_pic_c" where
  "raise_irq_master irq_no s0 =
     (let s = forward_ioapic irq_no True s0; mask = bitm (irq_no mod 8) in
      if IRQ_in (master_pic s) AND mask = 0
      then service_master_pic
             (upd_master (\<lambda>m. m\<lparr> IRQ_in := IRQ_in m OR mask, irr := irr m OR mask \<rparr>) s)
      else s)"

definition service_slave_pic :: "bx_pic_c \<Rightarrow> bx_pic_c" where
  "service_slave_pic s =
     (case service_scan (slave_pic s) of
        None \<Rightarrow> s
      | Some i \<Rightarrow>
          raise_irq_master 2 (upd_slave (\<lambda>m. m\<lparr> INT_pin := True, irq := of_nat i \<rparr>) s))"

definition raise_irq :: "nat \<Rightarrow> bx_pic_c \<Rightarrow> bx_pic_c" where
  "raise_irq irq_no s0 =
     (if irq_no \<le> 7 then raise_irq_master irq_no s0
      else
        (let s = forward_ioapic irq_no True s0; mask = bitm (irq_no mod 8) in
         if irq_no > 7 \<and> irq_no \<le> 15 \<and> IRQ_in (slave_pic s) AND mask = 0
         then service_slave_pic
                (upd_slave (\<lambda>m. m\<lparr> IRQ_in := IRQ_in m OR mask, irr := irr m OR mask \<rparr>) s)
         else s))"

definition lower_irq :: "nat \<Rightarrow> bx_pic_c \<Rightarrow> bx_pic_c" where
  "lower_irq irq_no s0 =
     (let s = forward_ioapic irq_no False s0; mask = bitm (irq_no mod 8) in
      if irq_no \<le> 7 \<and> IRQ_in (master_pic s) AND mask \<noteq> 0
      then upd_master (\<lambda>m. m\<lparr> IRQ_in := IRQ_in m AND NOT mask, irr := irr m AND NOT mask \<rparr>) s
      else if irq_no > 7 \<and> irq_no \<le> 15 \<and> IRQ_in (slave_pic s) AND mask \<noteq> 0
      then upd_slave (\<lambda>m. m\<lparr> IRQ_in := IRQ_in m AND NOT mask, irr := irr m AND NOT mask \<rparr>) s
      else s)"

definition set_mode :: "bool \<Rightarrow> Bit8u \<Rightarrow> bx_pic_c \<Rightarrow> bx_pic_c" where
  "set_mode ma_sl mode s =
     (if ma_sl then upd_master (\<lambda>m. m\<lparr> edge_level := mode \<rparr>) s
      else upd_slave (\<lambda>m. m\<lparr> edge_level := mode \<rparr>) s)"

section \<open>Interrupt acknowledge\<close>

text \<open>What \<open>IAC\<close> does to one controller's IRR, ISR and priority for its current \<open>irq\<close>.\<close>

definition iac_ack :: "bx_pic_t \<Rightarrow> bx_pic_t" where
  "iac_ack p0 =
     (let i = unat (irq p0);
          p1 = (if edge_level p0 AND bitm i = 0 then p0\<lparr> irr := irr p0 AND NOT (bitm i) \<rparr> else p0)
      in if auto_eoi p1 = 0 then p1\<lparr> isr := isr p1 OR bitm i \<rparr>
         else if rotate_on_autoeoi p1 then p1\<lparr> lowest_priority := irq p1 \<rparr>
         else p1)"

definition IAC :: "bx_pic_c \<Rightarrow> Bit8u \<times> bx_pic_c" where
  "IAC s0 =
     (let s1 = upd_master (\<lambda>m. m\<lparr> INT_pin := False \<rparr>) (BX_CLEAR_INTR s0) in
      if irr (master_pic s1) = 0 then (interrupt_offset (master_pic s1) + 7, s1)
      else
        (let s2 = upd_master iac_ack s1 in
         if irq (master_pic s2) \<noteq> 2
         then (irq (master_pic s2) + interrupt_offset (master_pic s2), service_master_pic s2)
         else
           (let s3 = upd_master (\<lambda>m. m\<lparr> IRQ_in := IRQ_in m AND NOT (bitm 2) \<rparr>)
                       (upd_slave (\<lambda>m. m\<lparr> INT_pin := False \<rparr>) s2) in
            if irr (slave_pic s3) = 0 then (interrupt_offset (slave_pic s3) + 7, s3)
            else (irq (slave_pic s3) + interrupt_offset (slave_pic s3),
                  service_master_pic (service_slave_pic (upd_slave iac_ack s3))))))"

section \<open>Port reads\<close>

text \<open>
  A read in polled mode: the code clears the highest in-service bit, leaves polled mode,
  rescans and returns the current \<open>irq\<close>, twice for a 16-bit access.
\<close>

definition polled_value :: "nat \<Rightarrow> Bit8u \<Rightarrow> Bit32u" where
  "polled_value io_len i =
     (if io_len = 1 then ucast i else push_bit 8 (ucast i) OR ucast i)"

definition pic_read :: "Bit32u \<Rightarrow> nat \<Rightarrow> bx_pic_c \<Rightarrow> Bit32u \<times> bx_pic_c" where
  "pic_read address io_len s =
     (if (address = 0x20 \<or> address = 0x21) \<and> polled (master_pic s) then
        (let s' = service_master_pic
                    (upd_master (\<lambda>m. (clear_highest_interrupt m)\<lparr> polled := False \<rparr>) s)
         in (polled_value io_len (irq (master_pic s')), s'))
      else if (address = 0xa0 \<or> address = 0xa1) \<and> polled (slave_pic s) then
        (let s' = service_slave_pic
                    (upd_slave (\<lambda>m. (clear_highest_interrupt m)\<lparr> polled := False \<rparr>) s)
         in (polled_value io_len (irq (slave_pic s')), s'))
      else if address = 0x20 then
        (if read_reg_select (master_pic s) \<noteq> 0 then (ucast (isr (master_pic s)), s)
         else (ucast (irr (master_pic s)), s))
      else if address = 0x21 then (ucast (imr (master_pic s)), s)
      else if address = 0xA0 then
        (if read_reg_select (slave_pic s) \<noteq> 0 then (ucast (isr (slave_pic s)), s)
         else (ucast (irr (slave_pic s)), s))
      else if address = 0xA1 then (ucast (imr (slave_pic s)), s)
      else (0, BX_PANIC ''io read to address'' s))"

section \<open>Port writes\<close>

text \<open>Initialization command word 1 (\<open>value & 0x10\<close>).\<close>

definition icw1_fields :: "Bit32u \<Rightarrow> bx_pic_t \<Rightarrow> bx_pic_t" where
  "icw1_fields value p =
     p\<lparr> in_init := True, requires_4 := (value AND 0x01 \<noteq> 0), byte_expected := 2,
        imr := 0x00, isr := 0x00, irr := 0x00, lowest_priority := 7, INT_pin := False,
        auto_eoi := 0, rotate_on_autoeoi := False \<rparr>"

definition icw1_panics :: "Bit32u \<Rightarrow> bx_pic_c \<Rightarrow> bx_pic_c" where
  "icw1_panics value s =
     (let s1 = (if value AND 0x02 \<noteq> 0 then BX_PANIC ''ICW1: single mode not supported'' s else s)
      in if value AND 0x08 \<noteq> 0
         then BX_PANIC ''ICW1: level sensitive mode not supported'' s1 else s1)"

definition write_icw1_master :: "Bit32u \<Rightarrow> bx_pic_c \<Rightarrow> bx_pic_c" where
  "write_icw1_master value s =
     BX_CLEAR_INTR (icw1_panics value (upd_master (icw1_fields value) s))"

definition write_icw1_slave :: "Bit32u \<Rightarrow> bx_pic_c \<Rightarrow> bx_pic_c" where
  "write_icw1_slave value s =
     icw1_panics value
       (upd_master (\<lambda>m. m\<lparr> IRQ_in := IRQ_in m AND NOT (bitm 2) \<rparr>)
         (upd_slave (icw1_fields value) s))"

text \<open>
  Operation command word 3.  The result says whether the special mask was set, after which
  the controller is serviced.
\<close>

definition ocw3_fields :: "Bit32u \<Rightarrow> bx_pic_t \<Rightarrow> bx_pic_t \<times> bool" where
  "ocw3_fields value p =
     (let sm = drop_bit 5 (value AND 0x60); poll = drop_bit 2 (value AND 0x04);
          read_op = value AND 0x03 in
      if poll \<noteq> 0 then (p\<lparr> polled := True \<rparr>, False)
      else
        (let p1 = (if read_op = 0x02 then p\<lparr> read_reg_select := 0 \<rparr>
                   else if read_op = 0x03 then p\<lparr> read_reg_select := 1 \<rparr> else p)
         in if sm = 0x02 then (p1\<lparr> special_mask := False \<rparr>, False)
            else if sm = 0x03 then (p1\<lparr> special_mask := True \<rparr>, True)
            else (p1, False)))"

definition write_ocw3_master :: "Bit32u \<Rightarrow> bx_pic_c \<Rightarrow> bx_pic_c" where
  "write_ocw3_master value s =
     (let (p, serve) = ocw3_fields value (master_pic s); s' = s\<lparr> master_pic := p \<rparr>
      in if serve then service_master_pic s' else s')"

definition write_ocw3_slave :: "Bit32u \<Rightarrow> bx_pic_c \<Rightarrow> bx_pic_c" where
  "write_ocw3_slave value s =
     (let (p, serve) = ocw3_fields value (slave_pic s); s' = s\<lparr> slave_pic := p \<rparr>
      in if serve then service_slave_pic s' else s')"

text \<open>
  Operation command word 2: the \<open>switch (value)\<close> of both command ports.  \<open>Inr\<close> is the
  controller after the case's assignments, with a flag that is set where the case ends in
  a call of the service routine; \<open>Inl\<close> is the \<open>default\<close>, which panics.
\<close>

definition ocw2_fields :: "Bit32u \<Rightarrow> bx_pic_t \<Rightarrow> string + bx_pic_t \<times> bool" where
  "ocw2_fields value p =
     (if value = 0x00 \<or> value = 0x80 then Inr (p\<lparr> rotate_on_autoeoi := (value \<noteq> 0) \<rparr>, False)
      else if value = 0xA0 \<or> value = 0x20 then
        (let p1 = clear_highest_interrupt p;
             p2 = (if value = 0xA0
                   then (let p' = p1\<lparr> lowest_priority := lowest_priority p1 + 1 \<rparr>
                         in if lowest_priority p' > 7 then p'\<lparr> lowest_priority := 0 \<rparr> else p')
                   else p1)
         in Inr (p2, True))
      else if value = 0x40 then Inr (p, False)
      else if 0x60 \<le> value \<and> value \<le> 0x67 then
        Inr (p\<lparr> isr := isr p AND NOT (bitm (unat (value - 0x60))) \<rparr>, True)
      else if 0xC0 \<le> value \<and> value \<le> 0xC7 then
        Inr (p\<lparr> lowest_priority := ucast (value - 0xC0) \<rparr>, False)
      else if 0xE0 \<le> value \<and> value \<le> 0xE7 then
        Inr (p\<lparr> isr := isr p AND NOT (bitm (unat (value - 0xE0))),
                lowest_priority := ucast (value - 0xE0) \<rparr>, True)
      else if value = 0x02 then Inr (p, False)
      else Inl ''write to command port'')"

definition write_ocw2_master :: "Bit32u \<Rightarrow> bx_pic_c \<Rightarrow> bx_pic_c" where
  "write_ocw2_master value s =
     (case ocw2_fields value (master_pic s) of
        Inl msg \<Rightarrow> BX_PANIC msg s
      | Inr (p, serve) \<Rightarrow>
          (let s' = s\<lparr> master_pic := p \<rparr> in if serve then service_master_pic s' else s'))"

definition write_ocw2_slave :: "Bit32u \<Rightarrow> bx_pic_c \<Rightarrow> bx_pic_c" where
  "write_ocw2_slave value s =
     (case ocw2_fields value (slave_pic s) of
        Inl msg \<Rightarrow> BX_PANIC msg s
      | Inr (p, serve) \<Rightarrow>
          (let s' = s\<lparr> slave_pic := p \<rparr> in if serve then service_slave_pic s' else s'))"

text \<open>
  The data ports during initialization.  \<open>Some\<close> is the controller after the byte and the
  panic it raises, if any, for the three cases that return; \<open>None\<close> is the \<open>default\<close>,
  which panics and falls through to the normal operation below it.
\<close>

definition init_byte :: "Bit32u \<Rightarrow> bx_pic_t \<Rightarrow> (bx_pic_t \<times> string option) option" where
  "init_byte value p =
     (if byte_expected p = 2 then
        Some (p\<lparr> interrupt_offset := ucast (value AND 0xf8), byte_expected := 3 \<rparr>, None)
      else if byte_expected p = 3 then
        Some (if requires_4 p then p\<lparr> byte_expected := 4 \<rparr> else p\<lparr> in_init := False \<rparr>, None)
      else if byte_expected p = 4 then
        Some (p\<lparr> auto_eoi := (if value AND 0x02 \<noteq> 0 then 1 else 0), in_init := False \<rparr>,
              if value AND 0x01 \<noteq> 0 then None else Some ''not 80x86 mode'')
      else None)"

definition panic_opt :: "string option \<Rightarrow> bx_pic_c \<Rightarrow> bx_pic_c" where
  "panic_opt m s = (case m of None \<Rightarrow> s | Some msg \<Rightarrow> BX_PANIC msg s)"

definition write_data_master :: "Bit32u \<Rightarrow> bx_pic_c \<Rightarrow> bx_pic_c" where
  "write_data_master value s =
     (case (if in_init (master_pic s) then init_byte value (master_pic s) else None) of
        Some (p, m) \<Rightarrow> panic_opt m (s\<lparr> master_pic := p \<rparr>)
      | None \<Rightarrow>
          service_master_pic
            (upd_master (\<lambda>m. m\<lparr> imr := ucast value \<rparr>)
              (if in_init (master_pic s) then BX_PANIC ''expecting bad init command'' s else s)))"

definition write_data_slave :: "Bit32u \<Rightarrow> bx_pic_c \<Rightarrow> bx_pic_c" where
  "write_data_slave value s =
     (case (if in_init (slave_pic s) then init_byte value (slave_pic s) else None) of
        Some (p, m) \<Rightarrow> panic_opt m (s\<lparr> slave_pic := p \<rparr>)
      | None \<Rightarrow>
          service_slave_pic
            (upd_slave (\<lambda>m. m\<lparr> imr := ucast value \<rparr>)
              (if in_init (slave_pic s) then BX_PANIC ''expecting bad init command'' s else s)))"

text \<open>\<open>bx_pic_c::write\<close>: the \<open>switch (address)\<close>; other addresses are not registered.\<close>

definition pic_write :: "Bit32u \<Rightarrow> Bit32u \<Rightarrow> bx_pic_c \<Rightarrow> bx_pic_c" where
  "pic_write address value s =
     (if address = 0x20 then
        (if value AND 0x10 \<noteq> 0 then write_icw1_master value s
         else if value AND 0x18 = 0x08 then write_ocw3_master value s
         else write_ocw2_master value s)
      else if address = 0x21 then write_data_master value s
      else if address = 0xA0 then
        (if value AND 0x10 \<noteq> 0 then write_icw1_slave value s
         else if value AND 0x18 = 0x08 then write_ocw3_slave value s
         else write_ocw2_slave value s)
      else if address = 0xA1 then write_data_slave value s
      else s)"

text \<open>Everything the rest of the machine can do to the controllers, and runs of it.\<close>

datatype pic_event =
    Raise nat
  | Lower nat
  | Set_mode bool Bit8u
  | Ack
  | Read Bit32u nat
  | Write Bit32u Bit32u

fun pic_step :: "bx_pic_c \<Rightarrow> pic_event \<Rightarrow> bx_pic_c" where
  "pic_step s (Raise n) = raise_irq n s"
| "pic_step s (Lower n) = lower_irq n s"
| "pic_step s (Set_mode b m) = set_mode b m s"
| "pic_step s Ack = snd (IAC s)"
| "pic_step s (Read a l) = snd (pic_read a l s)"
| "pic_step s (Write a v) = pic_write a v s"

fun pic_run :: "bx_pic_c \<Rightarrow> pic_event list \<Rightarrow> bx_pic_c" where
  "pic_run s [] = s"
| "pic_run s (e # es) = pic_run (pic_step s e) es"

end
