(* ===== verification/Pic8259_Spec.thy ===== *)
theory Pic8259_Spec
  imports Pic8259
begin

text \<open>
  What an 8259A promises, stated without loops: inputs ranked from the highest priority
  down, the set of inputs that may interrupt, and the interrupt that is signalled, the
  best ranked of that set.  The lemmas show that the scans of \<open>Pic8259\<close> compute it, that
  every operation keeps the controllers well formed and the INTR line equal to the master's
  request pin, and what acknowledging and ending an interrupt does.
\<close>

section \<open>Ranks and the scan loops\<close>

definition rank :: "nat \<Rightarrow> nat \<Rightarrow> nat" where
  "rank hp k = (k + 8 - hp) mod 8"

lemma mod8_wrap: "x < 16 \<Longrightarrow> x mod 8 = (if x < 8 then x else x - 8)" for x :: nat
  by (simp add: le_mod_geq)

lemma next_irq_mod: "i < 8 \<Longrightarrow> next_irq i = (i + 1) mod 8"
  by (simp add: next_irq_def mod8_wrap)

lemma next_irq_less: "next_irq i < 8"
  by (simp add: next_irq_def)

lemma highest_priority_less: "highest_priority p < 8"
  by (simp add: highest_priority_def Let_def)

lemma rank_less: "rank hp k < 8"
  by (simp add: rank_def)

lemma rank_add: "hp < 8 \<Longrightarrow> r < 8 \<Longrightarrow> rank hp ((hp + r) mod 8) = r"
  by (simp add: rank_def mod8_wrap)

lemma add_rank: "hp < 8 \<Longrightarrow> k < 8 \<Longrightarrow> (hp + rank hp k) mod 8 = k"
  by (simp add: rank_def mod8_wrap)

lemma rotation_inj: "hp < 8 \<Longrightarrow> 0 < a \<Longrightarrow> a < b \<Longrightarrow> b \<le> 8 \<Longrightarrow> (hp + a) mod 8 \<noteq> (hp + b) mod 8"
  for hp :: nat
  by (simp add: mod8_wrap) arith

lemma rank_inj: "hp < 8 \<Longrightarrow> j < 8 \<Longrightarrow> k < 8 \<Longrightarrow> rank hp j = rank hp k \<Longrightarrow> j = k"
  by (metis add_rank)

lemma rank_hp: "hp < 8 \<Longrightarrow> rank hp hp = 0"
  by (simp add: rank_def)

lemma clear_loop_run:
  assumes "hp < 8" "r < 8" "8 - r \<le> n"
  shows "clear_loop n hp ((hp + r) mod 8) w =
    Some (case find (bit w) (map (\<lambda>d. (hp + d) mod 8) [r..<8]) of
            None \<Rightarrow> w | Some k \<Rightarrow> w AND NOT (bitm k))"
  using assms
proof (induction n arbitrary: r)
  case (Suc n)
  have nxt: "next_irq ((hp + r) mod 8) = (hp + Suc r) mod 8"
    by (simp add: next_irq_mod mod_Suc_eq)
  have upt: "[r..<8] = r # [Suc r..<8]"
    using Suc.prems by (simp add: upt_conv_Cons)
  show ?case
  proof (cases "Suc r < 8")
    case True
    then have "(hp + Suc r) mod 8 \<noteq> hp" using rotation_inj [of hp "Suc r" 8] Suc.prems(1) by simp
    then show ?thesis using Suc.IH [of "Suc r"] Suc.prems True by (simp add: nxt upt)
  next
    case False
    then have "r = 7" using Suc.prems by simp
    then have "(hp + Suc r) mod 8 = hp" using Suc.prems(1) by simp
    then show ?thesis using False by (simp add: nxt upt)
  qed
qed simp

lemma in_service_loop_run:
  assumes "hp < 8" "r < 8" "8 - r \<le> n" "\<exists>d \<in> {r..<8}. bit w ((hp + d) mod 8)"
  shows "in_service_loop n w ((hp + r) mod 8) =
    find (bit w) (map (\<lambda>d. (hp + d) mod 8) [r..<8])"
  using assms
proof (induction n arbitrary: r)
  case (Suc n)
  have nxt: "next_irq ((hp + r) mod 8) = (hp + Suc r) mod 8"
    by (simp add: next_irq_mod mod_Suc_eq)
  have upt: "[r..<8] = r # [Suc r..<8]"
    using Suc.prems by (simp add: upt_conv_Cons)
  show ?case
  proof (cases "bit w ((hp + r) mod 8)")
    case False
    then have "\<exists>d \<in> {Suc r..<8}. bit w ((hp + d) mod 8)"
      using Suc.prems(4) by (metis atLeastLessThan_iff le_antisym not_less_eq_eq)
    moreover from this have "Suc r < 8" by auto
    ultimately show ?thesis using Suc.IH [of "Suc r"] Suc.prems False by (simp add: nxt upt)
  qed (simp add: upt)
qed simp

lemma request_loop_run:
  assumes "hp < 8" "r < m" "m \<le> 8" "m - r \<le> n"
  shows "request_loop n sm w req ((hp + m) mod 8) ((hp + r) mod 8) =
    Some (find (\<lambda>k. \<not> (sm \<and> bit w k) \<and> bit req k) (map (\<lambda>d. (hp + d) mod 8) [r..<m]))"
  using assms
proof (induction n arbitrary: r)
  case (Suc n)
  have nxt: "next_irq ((hp + r) mod 8) = (hp + Suc r) mod 8"
    by (simp add: next_irq_mod mod_Suc_eq)
  have upt: "[r..<m] = r # [Suc r..<m]"
    using Suc.prems by (simp add: upt_conv_Cons)
  show ?case
  proof (cases "Suc r < m")
    case True
    then have "(hp + Suc r) mod 8 \<noteq> (hp + m) mod 8" using rotation_inj [of hp "Suc r" m] Suc.prems(1,3) by simp
    then show ?thesis using Suc.IH [of "Suc r"] Suc.prems True by (simp add: nxt upt)
  next
    case False
    then have "Suc r = m" using Suc.prems by simp
    then show ?thesis by (simp add: nxt upt)
  qed
qed simp

text \<open>The first hit of a scan along the ranks is the best ranked one.\<close>

lemma find_rank_Some:
  assumes hp: "hp < 8" and m: "m \<le> 8"
  shows "find P (map (\<lambda>d. (hp + d) mod 8) [0..<m]) = Some k \<longleftrightarrow>
    k < 8 \<and> rank hp k < m \<and> P k \<and> (\<forall>j < 8. P j \<longrightarrow> rank hp k \<le> rank hp j)"
proof -
  have "find P (map (\<lambda>d. (hp + d) mod 8) [0..<m]) = Some k \<longleftrightarrow>
      (\<exists>i < m. P ((hp + i) mod 8) \<and> k = (hp + i) mod 8 \<and> (\<forall>e < i. \<not> P ((hp + e) mod 8)))"
    by (auto simp: find_Some_iff)
  also have "\<dots> \<longleftrightarrow> k < 8 \<and> rank hp k < m \<and> P k \<and> (\<forall>j < 8. P j \<longrightarrow> rank hp k \<le> rank hp j)"
  proof safe
    fix i j assume i: "i < m" "P ((hp + i) mod 8)" and first: "\<forall>e < i. \<not> P ((hp + e) mod 8)"
      and j: "j < 8" "P j"
    have "\<not> rank hp j < i" using first j add_rank [OF hp, of j] by fastforce
    then show "rank hp ((hp + i) mod 8) \<le> rank hp j" using i m rank_add [OF hp, of i] by simp
  next
    assume k: "k < 8" "rank hp k < m" "P k" and best: "\<forall>j < 8. P j \<longrightarrow> rank hp k \<le> rank hp j"
    have "\<not> P ((hp + e) mod 8)" if e: "e < rank hp k" for e
    proof
      assume "P ((hp + e) mod 8)"
      then have "rank hp k \<le> rank hp ((hp + e) mod 8)" using best by simp
      then show False using e rank_add [OF hp, of e] rank_less [of hp k] by simp
    qed
    then show "\<exists>i < m. P ((hp + i) mod 8) \<and> k = (hp + i) mod 8 \<and> (\<forall>e < i. \<not> P ((hp + e) mod 8))"
      using k add_rank [OF hp, of k] by metis
  qed (use hp m rank_add [OF hp] in auto)
  finally show ?thesis .
qed

lemma find_rank_None:
  assumes hp: "hp < 8"
  shows "find P (map (\<lambda>d. (hp + d) mod 8) [0..<8]) = None \<longleftrightarrow> (\<forall>j < 8. \<not> P j)"
proof -
  have "set (map (\<lambda>d. (hp + d) mod 8) [0..<8]) = {..<8}"
  proof
    show "{..<8} \<subseteq> set (map (\<lambda>d. (hp + d) mod 8) [0..<8])"
    proof
      fix k :: nat assume "k \<in> {..<8}"
      then have "k = (hp + rank hp k) mod 8" using add_rank [OF hp, of k] by simp
      then show "k \<in> set (map (\<lambda>d. (hp + d) mod 8) [0..<8])"
        using rank_less [of hp k] by (simp only: set_map set_upt) (rule image_eqI, auto)
    qed
  qed auto
  then show ?thesis by (simp only: find_None_iff) auto
qed

lemma clear_loop_enough:
  "hp < 8 \<Longrightarrow> clear_loop 8 hp hp w =
     Some (case find (bit w) (map (\<lambda>d. (hp + d) mod 8) [0..<8]) of
            None \<Rightarrow> w | Some k \<Rightarrow> w AND NOT (bitm k))"
  using clear_loop_run [of hp 0 8 w] by simp

lemma in_service_loop_enough:
  assumes "hp < 8" "w \<noteq> 0"
  shows "in_service_loop 8 w hp = find (bit w) (map (\<lambda>d. (hp + d) mod 8) [0..<8])"
proof -
  obtain k where "bit w k" "k < 8" using assms(2) bit8_less by (auto simp: word_eq_0_iff_no_bit)
  then have "\<exists>d \<in> {0..<8}. bit w ((hp + d) mod 8)"
    using add_rank [OF assms(1), of k] rank_less [of hp k] by (intro bexI [of _ "rank hp k"]) auto
  then show ?thesis using in_service_loop_run [of hp 0 8 w] assms(1) by simp
qed

lemma request_loop_enough:
  assumes "hp < 8" "mx < 8"
  shows "request_loop 8 sm w req mx hp =
    Some (find (\<lambda>k. \<not> (sm \<and> bit w k) \<and> bit req k)
           (map (\<lambda>d. (hp + d) mod 8) [0..<if mx = hp then 8 else rank hp mx]))"
proof -
  let ?m = "if mx = hp then 8 else rank hp mx"
  have "rank hp mx \<noteq> 0" if "mx \<noteq> hp"
    using that rank_inj [of hp mx hp] rank_hp assms by auto
  then have "0 < ?m" "?m \<le> 8" using rank_less [of hp mx] by (auto simp: less_imp_le)
  moreover have "(hp + ?m) mod 8 = mx" using add_rank assms by simp
  ultimately show ?thesis using request_loop_run [of hp 0 ?m 8 sm w req] assms by simp
qed

section \<open>What is signalled\<close>

text \<open>
  Input \<open>k\<close> may interrupt when it is requested and not masked and, with the special mask, is
  not itself in service, without it, outranks every input in service.
\<close>

definition may_interrupt :: "bx_pic_t \<Rightarrow> nat \<Rightarrow> bool" where
  "may_interrupt p k \<longleftrightarrow>
     k < 8 \<and> bit (irr p) k \<and> \<not> bit (imr p) k \<and>
     (if special_mask p then \<not> bit (isr p) k
      else \<forall>j < 8. bit (isr p) j \<longrightarrow> rank (highest_priority p) k < rank (highest_priority p) j)"

definition best_request :: "bx_pic_t \<Rightarrow> nat \<Rightarrow> bool" where
  "best_request p k \<longleftrightarrow>
     may_interrupt p k \<and>
     (\<forall>j. may_interrupt p j \<longrightarrow> rank (highest_priority p) k \<le> rank (highest_priority p) j)"

lemma bit_unmasked: "bit (irr p AND NOT (imr p)) k \<longleftrightarrow> bit (irr p) k \<and> \<not> bit (imr p) k"
  using bit8_less [of "irr p" k] by (auto simp: bit_simps)

lemma no_unmasked: "irr p AND NOT (imr p) = 0 \<Longrightarrow> \<not> may_interrupt p k"
  using bit_unmasked [of p k] by (auto simp: may_interrupt_def)

lemma best_request_unique: "best_request p j \<Longrightarrow> best_request p k \<Longrightarrow> j = k"
  by (metis best_request_def may_interrupt_def rank_inj highest_priority_less order_antisym)

lemma best_request_ex:
  assumes "may_interrupt p k"
  shows "\<exists>j. best_request p j"
proof -
  obtain j where "may_interrupt p j" "\<And>i. may_interrupt p i \<Longrightarrow>
      rank (highest_priority p) j \<le> rank (highest_priority p) i"
    using ex_has_least_nat [of "may_interrupt p", OF assms] by blast
  then show ?thesis by (auto simp: best_request_def)
qed

lemma scan_from_limit:
  assumes mx: "mx < 8"
    and lim: "\<And>k. may_interrupt p k \<longleftrightarrow>
      k < 8 \<and> rank (highest_priority p) k < (if mx = highest_priority p then 8 else rank (highest_priority p) mx) \<and>
      \<not> (special_mask p \<and> bit (isr p) k) \<and> bit (irr p) k \<and> \<not> bit (imr p) k"
  shows "request_loop 8 (special_mask p) (isr p) (irr p AND NOT (imr p)) mx (highest_priority p) = Some (Some k)
    \<longleftrightarrow> best_request p k"
proof -
  let ?hp = "highest_priority p"
  let ?m = "if mx = ?hp then 8 else rank ?hp mx"
  let ?P = "\<lambda>k. \<not> (special_mask p \<and> bit (isr p) k) \<and> bit (irr p AND NOT (imr p)) k"
  have m: "?m \<le> 8" using rank_less [of ?hp mx] by (auto simp: less_imp_le)
  have "request_loop 8 (special_mask p) (isr p) (irr p AND NOT (imr p)) mx ?hp = Some (Some k) \<longleftrightarrow>
      k < 8 \<and> rank ?hp k < ?m \<and> ?P k \<and> (\<forall>j < 8. ?P j \<longrightarrow> rank ?hp k \<le> rank ?hp j)"
    by (simp only: request_loop_enough [OF highest_priority_less mx] option.inject
        find_rank_Some [OF highest_priority_less m])
  also have "\<dots> \<longleftrightarrow> best_request p k"
    unfolding best_request_def lim bit_unmasked by (meson le_less_trans not_le_imp_less less_imp_le)
  finally show ?thesis .
qed

theorem service_scan_Some:
  assumes "\<not> INT_pin p"
  shows "service_scan p = Some k \<longleftrightarrow> best_request p k"
proof -
  let ?hp = "highest_priority p"
  let ?req = "irr p AND NOT (imr p)"
  let ?scan = "\<lambda>mx. (case request_loop 8 (special_mask p) (isr p) ?req mx ?hp of None \<Rightarrow> None | Some r \<Rightarrow> r)"
  have hp: "?hp < 8" by (rule highest_priority_less)
  have zero: "?req = 0 \<Longrightarrow> \<not> best_request p k"
    using no_unmasked by (simp add: best_request_def)
  have scan: "(if ?req \<noteq> 0 then ?scan mx else None) = Some k \<longleftrightarrow> best_request p k"
    if "request_loop 8 (special_mask p) (isr p) ?req mx ?hp = Some (Some k) \<longleftrightarrow> best_request p k" for mx
    using that zero by (auto split: option.splits)
  show ?thesis
  proof (cases "special_mask p \<or> isr p = 0")
    case True
    then have eq: "service_scan p = (if ?req \<noteq> 0 then ?scan ?hp else None)"
      using assms by (auto simp: service_scan_def Let_def)
    have "may_interrupt p k \<longleftrightarrow> k < 8 \<and> rank ?hp k < 8 \<and>
        \<not> (special_mask p \<and> bit (isr p) k) \<and> bit (irr p) k \<and> \<not> bit (imr p) k" for k
      using True rank_less [of ?hp k] by (auto simp: may_interrupt_def)
    then have "request_loop 8 (special_mask p) (isr p) ?req ?hp ?hp = Some (Some k) \<longleftrightarrow> best_request p k"
      by (intro scan_from_limit [OF hp]) simp
    then show ?thesis by (simp only: eq scan)
  next
    case False
    then obtain b where b: "in_service_loop 8 (isr p) ?hp = Some b"
      using in_service_loop_enough [OF hp, of "isr p"] find_rank_None [OF hp, of "bit (isr p)"] bit8_less
      by (cases "in_service_loop 8 (isr p) ?hp") (auto simp: word_eq_0_iff_no_bit)
    then have b8: "b < 8" and bb: "bit (isr p) b"
      and bmin: "\<And>j. j < 8 \<Longrightarrow> bit (isr p) j \<Longrightarrow> rank ?hp b \<le> rank ?hp j"
      using False in_service_loop_enough [OF hp, of "isr p"] find_rank_Some [OF hp, of 8 "bit (isr p)" b] by auto
    have may: "may_interrupt p k \<longleftrightarrow> k < 8 \<and> rank ?hp k < rank ?hp b \<and> bit (irr p) k \<and> \<not> bit (imr p) k" for k
      using False b8 bb bmin by (auto simp: may_interrupt_def intro: less_le_trans)
    show ?thesis
    proof (cases "b = ?hp")
      case True
      then have "\<not> best_request p k" using may rank_hp [OF hp] by (simp add: best_request_def)
      then show ?thesis using True False b assms by (simp add: service_scan_def Let_def)
    next
      case nothp: False
      then have eq: "service_scan p = (if ?req \<noteq> 0 then ?scan b else None)"
        using assms False b by (simp add: service_scan_def Let_def)
      have "request_loop 8 (special_mask p) (isr p) ?req b ?hp = Some (Some k) \<longleftrightarrow> best_request p k"
        by (rule scan_from_limit [OF b8]) (use may False nothp in simp)
      then show ?thesis by (simp only: eq scan)
    qed
  qed
qed

lemma service_scan_None:
  assumes "\<not> INT_pin p"
  shows "service_scan p = None \<longleftrightarrow> (\<forall>k. \<not> may_interrupt p k)"
proof -
  have "service_scan p = None \<longleftrightarrow> (\<forall>k. \<not> best_request p k)"
    using service_scan_Some [OF assms] by (metis not_None_eq)
  then show ?thesis using best_request_ex by (metis best_request_def)
qed

lemma service_scan_INT: "INT_pin p \<Longrightarrow> service_scan p = None"
  by (simp add: service_scan_def)

lemma service_scan_less: "service_scan p = Some k \<Longrightarrow> k < 8 \<and> \<not> INT_pin p"
  using service_scan_Some [of p k] service_scan_INT [of p]
  by (cases "INT_pin p") (auto simp: best_request_def may_interrupt_def)

section \<open>Ending an interrupt\<close>

definition top_in_service :: "bx_pic_t \<Rightarrow> nat \<Rightarrow> bool" where
  "top_in_service p k \<longleftrightarrow>
     k < 8 \<and> bit (isr p) k \<and>
     (\<forall>j < 8. bit (isr p) j \<longrightarrow> rank (highest_priority p) k \<le> rank (highest_priority p) j)"

lemma clear_highest_top:
  assumes "top_in_service p k"
  shows "clear_highest_interrupt p = p\<lparr> isr := isr p AND NOT (bitm k) \<rparr>"
  using clear_loop_enough [OF highest_priority_less [of p], of "isr p"] assms
    find_rank_Some [OF highest_priority_less [of p], of 8 "bit (isr p)" k]
    rank_less [of "highest_priority p" k]
  by (simp add: clear_highest_interrupt_def Let_def top_in_service_def)

lemma clear_highest_none:
  assumes "isr p = 0"
  shows "clear_highest_interrupt p = p"
  using clear_loop_enough [OF highest_priority_less [of p], of "isr p"] assms
    find_rank_None [OF highest_priority_less [of p], of "bit (isr p)"]
  by (simp add: clear_highest_interrupt_def Let_def)

lemma top_in_service_ex:
  assumes "isr p \<noteq> 0"
  shows "\<exists>k. top_in_service p k"
proof -
  obtain i where i: "bit (isr p) i" using assms by (auto simp: word_eq_0_iff_no_bit)
  obtain k where "bit (isr p) k \<and> (\<forall>j. bit (isr p) j \<longrightarrow>
      rank (highest_priority p) k \<le> rank (highest_priority p) j)"
    using ex_has_least_nat [of "bit (isr p)", OF i] by blast
  then show ?thesis using bit8_less by (auto simp: top_in_service_def)
qed

lemma clear_highest_cases:
  obtains (none) "isr p = 0" "clear_highest_interrupt p = p"
  | (top) k where "top_in_service p k" "clear_highest_interrupt p = p\<lparr> isr := isr p AND NOT (bitm k) \<rparr>"
  using clear_highest_none clear_highest_top top_in_service_ex by (cases "isr p = 0") blast+

lemma clear_highest_frame [frame_simps]:
  "lowest_priority (clear_highest_interrupt p) = lowest_priority p"
  "irq (clear_highest_interrupt p) = irq p"
  "in_init (clear_highest_interrupt p) = in_init p"
  "byte_expected (clear_highest_interrupt p) = byte_expected p"
  "INT_pin (clear_highest_interrupt p) = INT_pin p"
  "IRQ_in (clear_highest_interrupt p) = IRQ_in p"
  "imr (clear_highest_interrupt p) = imr p"
  "irr (clear_highest_interrupt p) = irr p"
  by (cases p rule: clear_highest_cases; simp)+

section \<open>Well-formedness and the request pins\<close>

definition pic_wf :: "bx_pic_t \<Rightarrow> bool" where
  "pic_wf p \<longleftrightarrow> lowest_priority p \<le> 7 \<and> irq p \<le> 7 \<and>
     (in_init p \<longrightarrow> byte_expected p \<in> {2, 3, 4})"

text \<open>
  The INTR line is the master's request pin; the master's input 2, which is the slave's
  request pin, is high exactly while the slave requests.
\<close>

definition pic_inv :: "bx_pic_c \<Rightarrow> bool" where
  "pic_inv s \<longleftrightarrow> pic_wf (master_pic s) \<and> pic_wf (slave_pic s) \<and>
     INTR s = INT_pin (master_pic s) \<and>
     INT_pin (slave_pic s) = bit (IRQ_in (master_pic s)) 2"

text \<open>A device never drives input 2, the cascade.\<close>

fun device_event :: "pic_event \<Rightarrow> bool" where
  "device_event (Raise n) = (n \<noteq> 2)"
| "device_event (Lower n) = (n \<noteq> 2)"
| "device_event _ = True"

lemmas pic_effects = BX_PANIC_def BX_RAISE_INTR_def BX_CLEAR_INTR_def

lemma of_nat_le_7 [simp]: "k < 8 \<Longrightarrow> (of_nat k :: Bit8u) \<le> 7"
  by (simp add: word_le_nat_alt unat_of_nat)

lemma unat_of_nat_8 [simp]: "k < 8 \<Longrightarrow> unat (of_nat k :: Bit8u) = k"
  by (simp add: unat_of_nat)

lemma pic_wf_irq [simp]: "pic_wf p \<Longrightarrow> k < 8 \<Longrightarrow> pic_wf (p\<lparr> INT_pin := b, irq := of_nat k \<rparr>)"
  by (simp add: pic_wf_def)

lemma pic_wf_fields [simp]:
  "pic_wf (p\<lparr> imr := w \<rparr>) = pic_wf p" "pic_wf (p\<lparr> isr := w \<rparr>) = pic_wf p"
  "pic_wf (p\<lparr> irr := w \<rparr>) = pic_wf p" "pic_wf (p\<lparr> IRQ_in := w \<rparr>) = pic_wf p"
  "pic_wf (p\<lparr> INT_pin := b \<rparr>) = pic_wf p" "pic_wf (p\<lparr> edge_level := w \<rparr>) = pic_wf p"
  "pic_wf (p\<lparr> polled := b \<rparr>) = pic_wf p" "pic_wf (p\<lparr> special_mask := b \<rparr>) = pic_wf p"
  "pic_wf (p\<lparr> read_reg_select := w \<rparr>) = pic_wf p"
  "pic_wf (p\<lparr> rotate_on_autoeoi := b \<rparr>) = pic_wf p"
  by (simp_all add: pic_wf_def)

lemma pic_wf_clear [simp]: "pic_wf (clear_highest_interrupt p) = pic_wf p"
  by (simp add: pic_wf_def frame_simps)

lemma service_master_cases:
  obtains (none) "service_scan (master_pic s) = None" "service_master_pic s = s"
  | (some) k where "service_scan (master_pic s) = Some k" "k < 8" "\<not> INT_pin (master_pic s)"
      "service_master_pic s =
        s\<lparr> master_pic := (master_pic s)\<lparr> INT_pin := True, irq := of_nat k \<rparr>, INTR := True \<rparr>"
proof (cases "service_scan (master_pic s)")
  case None
  then show ?thesis by (intro none) (simp_all add: service_master_pic_def)
next
  case (Some k)
  then show ?thesis
    using service_scan_less [OF Some] by (intro some) (simp_all add: service_master_pic_def pic_effects)
qed

lemma service_master_frame [frame_simps]:
  "slave_pic (service_master_pic s) = slave_pic s"
  "IRQ_in (master_pic (service_master_pic s)) = IRQ_in (master_pic s)"
  "irr (master_pic (service_master_pic s)) = irr (master_pic s)"
  "isr (master_pic (service_master_pic s)) = isr (master_pic s)"
  "imr (master_pic (service_master_pic s)) = imr (master_pic s)"
  by (cases s rule: service_master_cases; simp)+

lemma pic_inv_master:
  "pic_inv s \<Longrightarrow> pic_wf p \<Longrightarrow> INT_pin p = INT_pin (master_pic s) \<Longrightarrow>
     bit (IRQ_in p) 2 = bit (IRQ_in (master_pic s)) 2 \<Longrightarrow> pic_inv (s\<lparr> master_pic := p \<rparr>)"
  by (simp add: pic_inv_def)

lemma pic_inv_slave:
  "pic_inv s \<Longrightarrow> pic_wf p \<Longrightarrow> INT_pin p = INT_pin (slave_pic s) \<Longrightarrow>
     pic_inv (s\<lparr> slave_pic := p \<rparr>)"
  by (simp add: pic_inv_def)

lemma pic_inv_wf:
  "pic_inv s \<Longrightarrow> pic_wf (master_pic s)" "pic_inv s \<Longrightarrow> pic_wf (slave_pic s)"
  by (simp_all add: pic_inv_def)

lemma service_master_inv [inv_intros]: "pic_inv s \<Longrightarrow> pic_inv (service_master_pic s)"
  by (cases s rule: service_master_cases) (simp_all add: pic_inv_def)

lemma forward_frame [frame_simps]:
  "master_pic (forward_ioapic n b s) = master_pic s"
  "slave_pic (forward_ioapic n b s) = slave_pic s"
  "INTR (forward_ioapic n b s) = INTR s"
  "panics (forward_ioapic n b s) = panics s"
  by (simp_all add: forward_ioapic_def)

lemma forward_inv [simp]: "pic_inv (forward_ioapic n b s) = pic_inv s"
  by (simp add: pic_inv_def frame_simps)

lemma raise_irq_master_inv [inv_intros]:
  assumes "pic_inv s" "n \<noteq> 2" "n \<le> 7"
  shows "pic_inv (raise_irq_master n s)"
  unfolding raise_irq_master_def Let_def using assms
  by (auto intro!: service_master_inv pic_inv_master simp: frame_simps pic_inv_wf)

lemma raise_cascade:
  assumes "\<not> bit (IRQ_in (master_pic s)) 2"
  shows "raise_irq_master 2 s = service_master_pic
    (upd_master (\<lambda>m. m\<lparr> IRQ_in := IRQ_in m OR bitm 2, irr := irr m OR bitm 2 \<rparr>) s)"
  using assms by (simp add: raise_irq_master_def forward_ioapic_def Let_def)

lemma service_slave_cases:
  assumes "pic_inv s"
  obtains (none) "service_slave_pic s = s"
  | (some) k where "service_scan (slave_pic s) = Some k" "k < 8"
      "\<not> INT_pin (slave_pic s)" "\<not> bit (IRQ_in (master_pic s)) 2"
      "service_slave_pic s = service_master_pic (s\<lparr>
         slave_pic := (slave_pic s)\<lparr> INT_pin := True, irq := of_nat k \<rparr>,
         master_pic := (master_pic s)\<lparr> IRQ_in := IRQ_in (master_pic s) OR bitm 2,
                                      irr := irr (master_pic s) OR bitm 2 \<rparr> \<rparr>)"
proof (cases "service_scan (slave_pic s)")
  case None
  then show ?thesis by (intro none) (simp add: service_slave_pic_def)
next
  case (Some k)
  then have k: "k < 8" "\<not> INT_pin (slave_pic s)" using service_scan_less by auto
  then have "\<not> bit (IRQ_in (master_pic s)) 2" using assms by (simp add: pic_inv_def)
  then show ?thesis using Some k by (intro some) (simp_all add: service_slave_pic_def raise_cascade)
qed

lemma service_slave_inv [inv_intros]:
  assumes "pic_inv s"
  shows "pic_inv (service_slave_pic s)"
proof (cases rule: service_slave_cases [OF assms, case_names none some])
  case (some k)
  show ?thesis
    unfolding some(5) by (rule service_master_inv) (use assms some(1-4) in \<open>simp add: pic_inv_def\<close>)
qed (use assms in simp)

lemma raise_irq_inv [inv_intros]: "pic_inv s \<Longrightarrow> n \<noteq> 2 \<Longrightarrow> pic_inv (raise_irq n s)"
  unfolding raise_irq_def Let_def
  by (auto intro!: raise_irq_master_inv service_slave_inv pic_inv_slave simp: frame_simps pic_inv_wf)

lemma lower_irq_inv [inv_intros]:
  assumes "pic_inv s" "n \<noteq> 2"
  shows "pic_inv (lower_irq n s)"
proof -
  have "n mod 8 \<noteq> 2" if "n \<le> 7" using that assms(2) by simp
  then show ?thesis
    unfolding lower_irq_def Let_def using assms
    by (auto intro!: pic_inv_master pic_inv_slave simp: frame_simps pic_inv_wf)
qed

lemma set_mode_inv [inv_intros]: "pic_inv s \<Longrightarrow> pic_inv (set_mode b m s)"
  by (simp add: set_mode_def pic_inv_def)

lemma iac_ack_frame [frame_simps]:
  "irq (iac_ack p) = irq p" "INT_pin (iac_ack p) = INT_pin p" "IRQ_in (iac_ack p) = IRQ_in p"
  "interrupt_offset (iac_ack p) = interrupt_offset p" "imr (iac_ack p) = imr p"
  "in_init (iac_ack p) = in_init p" "byte_expected (iac_ack p) = byte_expected p"
  by (simp_all add: iac_ack_def Let_def)

lemma pic_wf_iac_ack: "pic_wf p \<Longrightarrow> pic_wf (iac_ack p)"
  by (simp add: iac_ack_def Let_def pic_wf_def)

text \<open>\<open>IAC\<close> ends in the service routines, entered with the INTR line low.\<close>

lemma IAC_cases:
  assumes "pic_inv s"
  obtains t where "pic_inv t" "\<not> INTR t"
    "snd (IAC s) \<in> {t, service_master_pic t, service_master_pic (service_slave_pic t)}"
proof -
  define s1 where "s1 = upd_master (\<lambda>m. m\<lparr> INT_pin := False \<rparr>) (BX_CLEAR_INTR s)"
  have s1: "pic_inv s1" "\<not> INTR s1" using assms by (simp_all add: s1_def pic_inv_def pic_effects)
  define s2 where "s2 = upd_master iac_ack s1"
  have s2: "pic_inv s2" "\<not> INTR s2"
    unfolding s2_def using s1
    by (auto intro!: pic_inv_master simp: pic_wf_iac_ack pic_inv_wf frame_simps)
  define s3 where "s3 = upd_master (\<lambda>m. m\<lparr> IRQ_in := IRQ_in m AND NOT (bitm 2) \<rparr>)
    (upd_slave (\<lambda>m. m\<lparr> INT_pin := False \<rparr>) s2)"
  have s3: "pic_inv s3" "\<not> INTR s3" using s2 by (simp_all add: s3_def pic_inv_def)
  define s4 where "s4 = upd_slave iac_ack s3"
  have s4: "pic_inv s4" "\<not> INTR s4"
    unfolding s4_def using s3
    by (auto intro!: pic_inv_slave simp: pic_wf_iac_ack pic_inv_wf frame_simps)
  have "snd (IAC s) \<in> {s1, s3, service_master_pic s2, service_master_pic (service_slave_pic s4)}"
    unfolding IAC_def Let_def s1_def [symmetric] s2_def [symmetric] s3_def [symmetric]
      s4_def [symmetric] by simp
  then show ?thesis using that [OF s1] that [OF s2] that [OF s3] that [OF s4] by blast
qed

lemma IAC_inv [inv_intros]:
  assumes "pic_inv s"
  shows "pic_inv (snd (IAC s))"
proof -
  obtain t where "pic_inv t"
    "snd (IAC s) \<in> {t, service_master_pic t, service_master_pic (service_slave_pic t)}"
    using IAC_cases [OF assms] .
  then show ?thesis by (auto intro!: service_master_inv service_slave_inv)
qed

section \<open>Port accesses keep the invariant\<close>

lemma word32_le_7: "a \<le> v \<Longrightarrow> v \<le> a + 7 \<Longrightarrow> a \<le> a + 7 \<Longrightarrow> ucast (v - a) \<le> (7 :: Bit8u)"
  for a v :: Bit32u
proof -
  assume "a \<le> v" "v \<le> a + 7" "a \<le> a + 7"
  then have "unat (v - a) \<le> 7" by unat_arith
  then show ?thesis
    using order_trans [OF take_bit_nat_less_eq_self]
    by (simp add: word_le_nat_alt unsigned_ucast_eq unsigned_take_bit_eq)
qed

lemma pic_inv_panic [simp]: "pic_inv (BX_PANIC m s) = pic_inv s"
  by (simp add: pic_inv_def pic_effects)

lemma pic_inv_panic_opt [simp]: "pic_inv (panic_opt m s) = pic_inv s"
  by (simp add: panic_opt_def split: option.splits)

lemma pic_inv_icw1_panics [simp]: "pic_inv (icw1_panics v s) = pic_inv s"
  by (simp add: icw1_panics_def Let_def)

lemma panic_frame [frame_simps]:
  "master_pic (BX_PANIC m s) = master_pic s" "slave_pic (BX_PANIC m s) = slave_pic s"
  "INTR (BX_PANIC m s) = INTR s"
  "master_pic (icw1_panics v s) = master_pic s" "slave_pic (icw1_panics v s) = slave_pic s"
  "INTR (icw1_panics v s) = INTR s"
  by (simp_all add: pic_effects icw1_panics_def Let_def)

lemma pic_wf_icw1: "pic_wf p \<Longrightarrow> pic_wf (icw1_fields v p)"
  by (simp add: pic_wf_def icw1_fields_def)

lemma icw1_INT [simp]: "INT_pin (icw1_fields v p) = False" "IRQ_in (icw1_fields v p) = IRQ_in p"
  by (simp_all add: icw1_fields_def)

lemma write_icw1_master_inv [inv_intros]: "pic_inv s \<Longrightarrow> pic_inv (write_icw1_master v s)"
  by (simp add: write_icw1_master_def pic_inv_def frame_simps pic_wf_icw1 BX_CLEAR_INTR_def)

lemma write_icw1_slave_inv [inv_intros]: "pic_inv s \<Longrightarrow> pic_inv (write_icw1_slave v s)"
  by (simp add: write_icw1_slave_def) (simp add: pic_inv_def pic_wf_icw1)

lemma ocw3_wf:
  assumes "ocw3_fields v p = (q, b)" "pic_wf p"
  shows "pic_wf q \<and> INT_pin q = INT_pin p \<and> IRQ_in q = IRQ_in p"
  using assms by (auto simp: ocw3_fields_def Let_def split: if_splits)

lemma write_ocw3_master_inv [inv_intros]: "pic_inv s \<Longrightarrow> pic_inv (write_ocw3_master v s)"
  unfolding write_ocw3_master_def Let_def
  by (auto dest!: ocw3_wf intro!: service_master_inv pic_inv_master simp: pic_inv_wf split: prod.split)

lemma write_ocw3_slave_inv [inv_intros]: "pic_inv s \<Longrightarrow> pic_inv (write_ocw3_slave v s)"
  unfolding write_ocw3_slave_def Let_def
  by (auto dest!: ocw3_wf intro!: service_slave_inv pic_inv_slave simp: pic_inv_wf split: prod.split)

lemma rotate_wf:
  "pic_wf p \<Longrightarrow> pic_wf (let p' = p\<lparr> lowest_priority := lowest_priority p + 1 \<rparr>
     in if lowest_priority p' > 7 then p'\<lparr> lowest_priority := 0 \<rparr> else p')"
  by (simp add: pic_wf_def Let_def not_less)

lemma ocw2_wf:
  assumes "ocw2_fields v p = Inr (q, b)" "pic_wf p"
  shows "pic_wf q \<and> INT_pin q = INT_pin p \<and> IRQ_in q = IRQ_in p"
proof -
  have "\<lbrakk> 0xC0 \<le> v; v \<le> 0xC7 \<rbrakk> \<Longrightarrow> ucast (v - 0xC0) \<le> (7 :: Bit8u)"
    "\<lbrakk> 0xE0 \<le> v; v \<le> 0xE7 \<rbrakk> \<Longrightarrow> ucast (v - 0xE0) \<le> (7 :: Bit8u)"
    using word32_le_7 [of "0xC0" v] word32_le_7 [of "0xE0" v] by simp_all
  moreover have "pic_wf (p\<lparr> lowest_priority := w \<rparr>)" if "w \<le> 7" for w
    using assms(2) that by (simp add: pic_wf_def)
  moreover have "pic_wf (p\<lparr> isr := x, lowest_priority := w \<rparr>)" if "w \<le> 7" for x w
    using assms(2) that by (simp add: pic_wf_def)
  moreover note rotate_wf [of "clear_highest_interrupt p"]
  ultimately show ?thesis
    using assms
    by (simp add: ocw2_fields_def Let_def frame_simps split: if_splits)
      (auto simp: frame_simps)
qed

lemma write_ocw2_master_inv [inv_intros]: "pic_inv s \<Longrightarrow> pic_inv (write_ocw2_master v s)"
  unfolding write_ocw2_master_def Let_def
  by (auto dest!: ocw2_wf intro!: service_master_inv pic_inv_master simp: pic_inv_wf
      split: sum.split)

lemma write_ocw2_slave_inv [inv_intros]: "pic_inv s \<Longrightarrow> pic_inv (write_ocw2_slave v s)"
  unfolding write_ocw2_slave_def Let_def
  by (auto dest!: ocw2_wf intro!: service_slave_inv pic_inv_slave simp: pic_inv_wf
      split: sum.split)

lemma init_byte_wf:
  assumes "init_byte v p = Some (q, m)" "pic_wf p"
  shows "pic_wf q \<and> INT_pin q = INT_pin p \<and> IRQ_in q = IRQ_in p"
  using assms by (auto simp: init_byte_def pic_wf_def split: if_splits)

lemma init_byte_total: "pic_wf p \<Longrightarrow> in_init p \<Longrightarrow> init_byte v p \<noteq> None"
  by (auto simp: init_byte_def pic_wf_def)

lemma write_data_master_inv [inv_intros]: "pic_inv s \<Longrightarrow> pic_inv (write_data_master v s)"
  unfolding write_data_master_def
  by (auto dest!: init_byte_wf intro!: service_master_inv pic_inv_master
      simp: pic_inv_wf frame_simps split: option.split if_splits)

lemma write_data_slave_inv [inv_intros]: "pic_inv s \<Longrightarrow> pic_inv (write_data_slave v s)"
  unfolding write_data_slave_def
  by (auto dest!: init_byte_wf intro!: service_slave_inv pic_inv_slave
      simp: pic_inv_wf frame_simps split: option.split if_splits)

lemma pic_write_inv [inv_intros]: "pic_inv s \<Longrightarrow> pic_inv (pic_write a v s)"
  unfolding pic_write_def by (auto intro: inv_intros)

lemma pic_read_inv [inv_intros]: "pic_inv s \<Longrightarrow> pic_inv (snd (pic_read a l s))"
  unfolding pic_read_def Let_def
  by (auto intro!: service_master_inv service_slave_inv pic_inv_master pic_inv_slave
      simp: pic_inv_wf frame_simps)

lemma pic_init_inv [inv_intros]: "pic_inv (pic_init b)"
  by (simp add: pic_inv_def pic_wf_def pic_init_def init_master_pic_def init_slave_pic_def)

lemma pic_step_inv [inv_intros]: "pic_inv s \<Longrightarrow> device_event e \<Longrightarrow> pic_inv (pic_step s e)"
  by (cases e) (auto intro: inv_intros)

lemma pic_run_inv: "pic_inv s \<Longrightarrow> list_all device_event es \<Longrightarrow> pic_inv (pic_run s es)"
  by (induction es arbitrary: s) (auto intro: pic_step_inv)

end
