(* ===== verification/Pic8259_Cycle.thy ===== *)
theory Pic8259_Cycle
  imports Pic8259_Spec
begin

text \<open>
  The life of one interrupt through the controllers, and the contract their clients (the
  timer, the kernel's interrupt entry) rely on, stated as the locale \<open>irq_controller\<close> and
  interpreted on the model of \<open>pic.cc\<close>.
\<close>

section \<open>The interface\<close>

locale irq_controller =
  fixes quiet :: "'s \<Rightarrow> bool"
    and enabled :: "'s \<Rightarrow> nat \<Rightarrow> bool"
    and vector :: "'s \<Rightarrow> nat \<Rightarrow> Bit8u"
    and request :: "nat \<Rightarrow> 's \<Rightarrow> 's"
    and pending :: "'s \<Rightarrow> bool"
    and acknowledge :: "'s \<Rightarrow> Bit8u \<times> 's"
    and finish :: "nat \<Rightarrow> 's \<Rightarrow> 's"
  assumes quiet_not_pending: "quiet s \<Longrightarrow> \<not> pending s"
    and request_pending: "quiet s \<Longrightarrow> enabled s n \<Longrightarrow> pending (request n s)"
    and ack_vector: "quiet s \<Longrightarrow> enabled s n \<Longrightarrow> fst (acknowledge (request n s)) = vector s n"
    and ack_not_pending: "quiet s \<Longrightarrow> enabled s n \<Longrightarrow> \<not> pending (snd (acknowledge (request n s)))"
    and finish_quiet: "quiet s \<Longrightarrow> enabled s n \<Longrightarrow>
      quiet (finish n (snd (acknowledge (request n s))))"
    and finish_enabled: "quiet s \<Longrightarrow> enabled s n \<Longrightarrow>
      enabled (finish n (snd (acknowledge (request n s)))) m = enabled s m"
    and finish_vector: "quiet s \<Longrightarrow> enabled s n \<Longrightarrow>
      vector (finish n (snd (acknowledge (request n s)))) m = vector s m"
begin

text \<open>A sequence of interrupts, each served before the next one is requested.\<close>

fun serve :: "'s \<Rightarrow> nat list \<Rightarrow> Bit8u list \<times> 's" where
  "serve s [] = ([], s)"
| "serve s (n # ns) =
     (let (v, s1) = acknowledge (request n s); (vs, s2) = serve (finish n s1) ns
      in (v # vs, s2))"

lemma serve_delivers:
  assumes "quiet s" "list_all (enabled s) ns"
  shows "fst (serve s ns) = map (vector s) ns \<and> quiet (snd (serve s ns)) \<and>
    (\<forall>m. enabled (snd (serve s ns)) m = enabled s m)"
  using assms
proof (induction ns arbitrary: s)
  case (Cons n ns)
  let ?s' = "finish n (snd (acknowledge (request n s)))"
  have q: "quiet s" "enabled s n" and rest: "list_all (enabled s) ns" using Cons.prems by auto
  have "enabled ?s' = enabled s" "vector ?s' = vector s"
    using finish_enabled [OF q] finish_vector [OF q] by blast+
  then have "fst (serve ?s' ns) = map (vector s) ns \<and> quiet (snd (serve ?s' ns)) \<and>
      (\<forall>m. enabled (snd (serve ?s' ns)) m = enabled s m)"
    using Cons.IH [OF finish_quiet [OF q]] rest by simp
  then show ?case using ack_vector [OF q] by (simp add: Let_def split_def)
qed simp

end

section \<open>A quiet controller\<close>

definition quiet_pic :: "bx_pic_t \<Rightarrow> bool" where
  "quiet_pic p \<longleftrightarrow> \<not> INT_pin p \<and> isr p = 0 \<and> irr p = 0 \<and> IRQ_in p = 0 \<and> auto_eoi p = 0 \<and>
     edge_level p = 0 \<and> \<not> special_mask p \<and> \<not> polled p \<and> \<not> in_init p \<and> lowest_priority p \<le> 7"

definition quiet_pics :: "bx_pic_c \<Rightarrow> bool" where
  "quiet_pics s \<longleftrightarrow> quiet_pic (master_pic s) \<and> quiet_pic (slave_pic s) \<and> \<not> INTR s"

definition irq_enabled :: "bx_pic_c \<Rightarrow> nat \<Rightarrow> bool" where
  "irq_enabled s n \<longleftrightarrow>
     (if n < 8 then n \<noteq> 2 \<and> \<not> bit (imr (master_pic s)) n
      else n < 16 \<and> \<not> bit (imr (master_pic s)) 2 \<and> \<not> bit (imr (slave_pic s)) (n - 8))"

definition irq_vector :: "bx_pic_c \<Rightarrow> nat \<Rightarrow> Bit8u" where
  "irq_vector s n =
     (if n < 8 then interrupt_offset (master_pic s) + of_nat n
      else interrupt_offset (slave_pic s) + of_nat (n - 8))"

text \<open>
  What a handler does at the end: the end-of-interrupt commands (to the slave too for its
  inputs), after which the device drops its line.
\<close>

definition end_of_irq :: "nat \<Rightarrow> bx_pic_c \<Rightarrow> bx_pic_c" where
  "end_of_irq n s =
     lower_irq n
       (if n < 8 then pic_write 0x20 0x20 s else pic_write 0xa0 0x20 (pic_write 0x20 0x20 s))"

lemma service_scan_single:
  assumes "\<not> INT_pin p" "isr p = 0" "irr p = bitm n" "n < 8" "\<not> bit (imr p) n"
  shows "service_scan p = Some n"
proof -
  have "may_interrupt p k \<longleftrightarrow> k = n" for k using assms by (auto simp: may_interrupt_def)
  then show ?thesis using service_scan_Some [OF assms(1)] by (simp add: best_request_def)
qed

lemma service_scan_no_request: "irr p = 0 \<Longrightarrow> service_scan p = None"
  using service_scan_None [of p] service_scan_INT [of p]
  by (cases "INT_pin p") (auto simp: may_interrupt_def)

lemma service_master_no_request: "irr (master_pic s) = 0 \<Longrightarrow> service_master_pic s = s"
  by (simp add: service_master_pic_def service_scan_no_request)

lemma service_slave_no_request: "irr (slave_pic s) = 0 \<Longrightarrow> service_slave_pic s = s"
  by (simp add: service_slave_pic_def service_scan_no_request)

lemma clear_highest_single:
  assumes "isr p = bitm n" "n < 8"
  shows "clear_highest_interrupt p = p\<lparr> isr := 0 \<rparr>"
proof -
  have "top_in_service p n" using assms by (simp add: top_in_service_def)
  moreover have "bitm n AND NOT (bitm n) = (0 :: Bit8u)" by (rule bit_word_eqI) (simp add: bit_simps)
  ultimately show ?thesis using clear_highest_top [of p n] assms by simp
qed

lemma bitm_neq_0 [simp]: "n < 8 \<Longrightarrow> (bitm n :: Bit8u) \<noteq> 0"
  by (auto simp: word_eq_0_iff_no_bit)

lemma bitm_clear_self [simp]: "bitm n AND NOT (bitm n) = (0 :: 'a::len word)"
  by (rule bit_word_eqI) (simp add: bit_simps)

section \<open>One interrupt of the master\<close>

text \<open>
  In each stage only the named fields change; \<open>s\<close> is the quiet state before the request.
\<close>

lemma raise_quiet_master:
  assumes q: "quiet_pics s" and n: "n < 8" "n \<noteq> 2" "\<not> bit (imr (master_pic s)) n"
  shows "raise_irq n s = (forward_ioapic n True s)\<lparr>
    master_pic := (master_pic s)\<lparr> IRQ_in := bitm n, irr := bitm n, INT_pin := True, irq := of_nat n \<rparr>,
    INTR := True \<rparr>"
proof -
  let ?m = "(master_pic s)\<lparr> IRQ_in := bitm n, irr := bitm n \<rparr>"
  have "service_scan ?m = Some n"
    using q n by (intro service_scan_single) (simp_all add: quiet_pics_def quiet_pic_def)
  then show ?thesis
    using q n by (simp add: raise_irq_def raise_irq_master_def Let_def frame_simps quiet_pics_def
        quiet_pic_def service_master_pic_def pic_effects)
qed

lemma IAC_master:
  assumes m: "master_pic s = m" "irr m = bitm n" "isr m = 0" "irq m = of_nat n" "auto_eoi m = 0"
      "edge_level m = 0" and n: "n < 8" "n \<noteq> 2"
  shows "IAC s = (interrupt_offset m + of_nat n,
    s\<lparr> master_pic := m\<lparr> INT_pin := False, irr := 0, isr := bitm n \<rparr>, INTR := False \<rparr>)"
proof -
  have two: "(of_nat n :: Bit8u) \<noteq> 2"
    using n by (auto dest: arg_cong [of _ _ unat])
  have ack: "iac_ack (m\<lparr> INT_pin := False \<rparr>) = m\<lparr> INT_pin := False, irr := 0, isr := bitm n \<rparr>"
    using m n by (simp add: iac_ack_def Let_def)
  show ?thesis
    using m n two ack
    by (simp add: IAC_def Let_def BX_CLEAR_INTR_def service_master_no_request add.commute)
qed

lemma eoi_master:
  assumes "isr (master_pic s) = bitm n" "irr (master_pic s) = 0" "n < 8"
  shows "pic_write 0x20 0x20 s = upd_master (\<lambda>m. m\<lparr> isr := 0 \<rparr>) s"
proof -
  have "ocw2_fields 0x20 (master_pic s) = Inr ((master_pic s)\<lparr> isr := 0 \<rparr>, True)"
    using clear_highest_single [OF assms(1,3)] by (simp add: ocw2_fields_def Let_def)
  then show ?thesis
    using assms by (simp add: pic_write_def write_ocw2_master_def service_master_no_request)
qed

lemma forward_calls:
  obtains c where "forward_ioapic n b s = s\<lparr> ioapic_calls := c \<rparr>"
  by (cases "ioapic_present s \<and> n \<noteq> 2") (auto simp: forward_ioapic_def intro: that [of "ioapic_calls s"])

lemma lower_irq_master:
  assumes "n < 8" "IRQ_in (master_pic s) = bitm n" "irr (master_pic s) = 0"
  shows "\<exists>c. lower_irq n s = s\<lparr> master_pic := (master_pic s)\<lparr> IRQ_in := 0 \<rparr>, ioapic_calls := c \<rparr>"
proof -
  obtain c where c: "forward_ioapic n False s = s\<lparr> ioapic_calls := c \<rparr>" by (rule forward_calls)
  show ?thesis using assms by (intro exI [of _ c]) (simp add: lower_irq_def Let_def c)
qed

lemma master_cycle:
  assumes q: "quiet_pics s" and n: "n < 8" "n \<noteq> 2" "\<not> bit (imr (master_pic s)) n"
  shows "fst (IAC (raise_irq n s)) = interrupt_offset (master_pic s) + of_nat n"
    and "\<not> INTR (snd (IAC (raise_irq n s)))"
    and "isr (master_pic (snd (IAC (raise_irq n s)))) = bitm n"
    and "\<exists>c. end_of_irq n (snd (IAC (raise_irq n s))) =
      s\<lparr> master_pic := (master_pic s)\<lparr> irq := of_nat n \<rparr>, ioapic_calls := c \<rparr>"
proof -
  let ?r = "raise_irq n s"
  have q': "\<not> INT_pin (master_pic s)" "isr (master_pic s) = 0" "irr (master_pic s) = 0"
      "IRQ_in (master_pic s) = 0" "auto_eoi (master_pic s) = 0" "edge_level (master_pic s) = 0" "\<not> INTR s"
    using q by (simp_all add: quiet_pics_def quiet_pic_def)
  obtain c where c: "forward_ioapic n True s = s\<lparr> ioapic_calls := c \<rparr>" by (rule forward_calls)
  note r = raise_quiet_master [OF q n]
  have iac: "IAC ?r = (interrupt_offset (master_pic s) + of_nat n,
      ?r\<lparr> master_pic := (master_pic ?r)\<lparr> INT_pin := False, irr := 0, isr := bitm n \<rparr>, INTR := False \<rparr>)"
    using IAC_master [OF refl, of ?r n] q' n(1,2) by (simp add: r)
  show "fst (IAC ?r) = interrupt_offset (master_pic s) + of_nat n" "\<not> INTR (snd (IAC ?r))"
    "isr (master_pic (snd (IAC ?r))) = bitm n"
    by (simp_all add: iac)
  have "pic_write 0x20 0x20 (snd (IAC ?r)) = upd_master (\<lambda>m. m\<lparr> isr := 0 \<rparr>) (snd (IAC ?r))"
    by (rule eoi_master [of _ n]) (simp_all add: iac n)
  also have "\<dots> = s\<lparr> master_pic := (master_pic s)\<lparr> IRQ_in := bitm n, irq := of_nat n \<rparr>,
      ioapic_calls := c \<rparr>"
    using q' by (simp only: iac snd_conv) (simp add: r c)
  finally have eoi: "pic_write 0x20 0x20 (snd (IAC ?r)) =
      s\<lparr> master_pic := (master_pic s)\<lparr> IRQ_in := bitm n, irq := of_nat n \<rparr>, ioapic_calls := c \<rparr>" .
  have upd: "(master_pic s)\<lparr> irq := of_nat n, IRQ_in := 0 \<rparr> = (master_pic s)\<lparr> irq := of_nat n \<rparr>"
    using q'(4) by (cases "master_pic s") simp
  show "\<exists>c. end_of_irq n (snd (IAC ?r)) =
      s\<lparr> master_pic := (master_pic s)\<lparr> irq := of_nat n \<rparr>, ioapic_calls := c \<rparr>"
    using lower_irq_master [of n "pic_write 0x20 0x20 (snd (IAC ?r))"] n q'
    by (simp add: end_of_irq_def eoi upd)
qed

section \<open>One interrupt of the slave, through the cascade\<close>

lemma raise_quiet_slave:
  assumes q: "quiet_pics s" and k: "k < 8" "\<not> bit (imr (slave_pic s)) k" "\<not> bit (imr (master_pic s)) 2"
    and c: "forward_ioapic (k + 8) True s = s\<lparr> ioapic_calls := c \<rparr>"
  shows "raise_irq (k + 8) s = s\<lparr>
    master_pic := (master_pic s)\<lparr> IRQ_in := bitm 2, irr := bitm 2, INT_pin := True, irq := 2 \<rparr>,
    slave_pic := (slave_pic s)\<lparr> IRQ_in := bitm k, irr := bitm k, INT_pin := True, irq := of_nat k \<rparr>,
    INTR := True, ioapic_calls := c \<rparr>"
proof -
  let ?p = "(slave_pic s)\<lparr> IRQ_in := bitm k, irr := bitm k \<rparr>"
  let ?m = "(master_pic s)\<lparr> IRQ_in := bitm 2, irr := bitm 2 \<rparr>"
  have scans: "service_scan ?p = Some k" "service_scan ?m = Some 2"
    using q k by (auto intro!: service_scan_single simp: quiet_pics_def quiet_pic_def)
  have "service_slave_pic (s\<lparr> ioapic_calls := c, slave_pic := ?p \<rparr>) =
      raise_irq_master 2 (s\<lparr> ioapic_calls := c, slave_pic := ?p\<lparr> INT_pin := True, irq := of_nat k \<rparr> \<rparr>)"
    by (simp add: service_slave_pic_def scans)
  also have "\<dots> = service_master_pic (s\<lparr> ioapic_calls := c,
      slave_pic := ?p\<lparr> INT_pin := True, irq := of_nat k \<rparr>, master_pic := ?m \<rparr>)"
    using q by (simp add: raise_cascade quiet_pics_def quiet_pic_def)
  finally show ?thesis
    using q k by (simp add: raise_irq_def Let_def c quiet_pics_def quiet_pic_def
        service_master_pic_def pic_effects scans)
qed

lemma IAC_slave:
  assumes m: "master_pic s = m" "irr m = bitm 2" "isr m = 0" "irq m = 2" "auto_eoi m = 0"
      "edge_level m = 0" "IRQ_in m = bitm 2"
    and p: "slave_pic s = p" "irr p = bitm k" "isr p = 0" "irq p = of_nat k" "auto_eoi p = 0"
      "edge_level p = 0" and k: "k < 8"
  shows "IAC s = (interrupt_offset p + of_nat k,
    s\<lparr> master_pic := m\<lparr> INT_pin := False, irr := 0, isr := bitm 2, IRQ_in := 0 \<rparr>,
       slave_pic := p\<lparr> INT_pin := False, irr := 0, isr := bitm k \<rparr>, INTR := False \<rparr>)"
proof -
  have acks: "iac_ack (m\<lparr> INT_pin := False \<rparr>) = m\<lparr> INT_pin := False, irr := 0, isr := bitm 2 \<rparr>"
    "iac_ack (p\<lparr> INT_pin := False \<rparr>) = p\<lparr> INT_pin := False, irr := 0, isr := bitm k \<rparr>"
    using m p k by (simp_all add: iac_ack_def Let_def)
  show ?thesis
    using m p k acks
    by (simp add: IAC_def Let_def BX_CLEAR_INTR_def service_master_no_request
        service_slave_no_request add.commute)
qed

lemma eoi_slave:
  assumes "isr (slave_pic s) = bitm k" "irr (slave_pic s) = 0" "k < 8"
  shows "pic_write 0xa0 0x20 s = upd_slave (\<lambda>m. m\<lparr> isr := 0 \<rparr>) s"
proof -
  have "ocw2_fields 0x20 (slave_pic s) = Inr ((slave_pic s)\<lparr> isr := 0 \<rparr>, True)"
    using clear_highest_single [OF assms(1,3)] by (simp add: ocw2_fields_def Let_def)
  then show ?thesis
    using assms by (simp add: pic_write_def write_ocw2_slave_def service_slave_no_request)
qed

lemma lower_irq_slave:
  assumes "k < 8" "IRQ_in (slave_pic s) = bitm k" "irr (slave_pic s) = 0"
  shows "\<exists>c. lower_irq (k + 8) s = s\<lparr> slave_pic := (slave_pic s)\<lparr> IRQ_in := 0 \<rparr>, ioapic_calls := c \<rparr>"
proof -
  obtain c where c: "forward_ioapic (k + 8) False s = s\<lparr> ioapic_calls := c \<rparr>" by (rule forward_calls)
  show ?thesis using assms by (intro exI [of _ c]) (simp add: lower_irq_def Let_def c)
qed

lemma slave_cycle:
  assumes q: "quiet_pics s" and k: "k < 8" "\<not> bit (imr (slave_pic s)) k" "\<not> bit (imr (master_pic s)) 2"
  shows "fst (IAC (raise_irq (k + 8) s)) = interrupt_offset (slave_pic s) + of_nat k"
    and "\<not> INTR (snd (IAC (raise_irq (k + 8) s)))"
    and "\<exists>c. end_of_irq (k + 8) (snd (IAC (raise_irq (k + 8) s))) =
      s\<lparr> master_pic := (master_pic s)\<lparr> irq := 2 \<rparr>, slave_pic := (slave_pic s)\<lparr> irq := of_nat k \<rparr>,
         ioapic_calls := c \<rparr>"
proof -
  let ?r = "raise_irq (k + 8) s"
  let ?a = "snd (IAC ?r)"
  obtain c where c: "forward_ioapic (k + 8) True s = s\<lparr> ioapic_calls := c \<rparr>" by (rule forward_calls)
  have q': "\<not> INT_pin (master_pic s)" "isr (master_pic s) = 0" "irr (master_pic s) = 0"
      "IRQ_in (master_pic s) = 0" "auto_eoi (master_pic s) = 0" "edge_level (master_pic s) = 0"
      "\<not> INT_pin (slave_pic s)" "isr (slave_pic s) = 0" "irr (slave_pic s) = 0"
      "IRQ_in (slave_pic s) = 0" "auto_eoi (slave_pic s) = 0" "edge_level (slave_pic s) = 0" "\<not> INTR s"
    using q by (simp_all add: quiet_pics_def quiet_pic_def)
  note r = raise_quiet_slave [OF q k c]
  have iac: "IAC ?r = (interrupt_offset (slave_pic s) + of_nat k, s\<lparr>
      master_pic := (master_pic s)\<lparr> irq := 2, isr := bitm 2 \<rparr>,
      slave_pic := (slave_pic s)\<lparr> IRQ_in := bitm k, irq := of_nat k, isr := bitm k \<rparr>,
      ioapic_calls := c \<rparr>)"
    using IAC_slave [OF refl _ _ _ _ _ _ refl, of ?r k] q' k(1) by (simp add: r)
  show "fst (IAC ?r) = interrupt_offset (slave_pic s) + of_nat k" "\<not> INTR ?a"
    using q' by (simp_all add: iac)
  have e1: "pic_write 0x20 0x20 ?a = upd_master (\<lambda>m. m\<lparr> isr := 0 \<rparr>) ?a"
    by (rule eoi_master [of _ 2]) (simp_all add: iac q')
  have e2: "pic_write 0xa0 0x20 (upd_master (\<lambda>m. m\<lparr> isr := 0 \<rparr>) ?a) =
      upd_slave (\<lambda>m. m\<lparr> isr := 0 \<rparr>) (upd_master (\<lambda>m. m\<lparr> isr := 0 \<rparr>) ?a)"
    by (rule eoi_slave [of _ k]) (simp_all add: iac q' k)
  have u1: "(master_pic s)\<lparr> irq := 2, isr := 0 \<rparr> = (master_pic s)\<lparr> irq := 2 \<rparr>"
    using q' by (cases "master_pic s") simp
  have u2: "(slave_pic s)\<lparr> irq := of_nat k, isr := 0, IRQ_in := 0 \<rparr> = (slave_pic s)\<lparr> irq := of_nat k \<rparr>"
    using q' by (cases "slave_pic s") simp
  show "\<exists>c. end_of_irq (k + 8) ?a = s\<lparr> master_pic := (master_pic s)\<lparr> irq := 2 \<rparr>,
      slave_pic := (slave_pic s)\<lparr> irq := of_nat k \<rparr>, ioapic_calls := c \<rparr>"
    using lower_irq_slave [of k "pic_write 0xa0 0x20 (pic_write 0x20 0x20 ?a)"] k q'
    by (simp add: end_of_irq_def e1 e2) (simp add: iac u1 u2)
qed

section \<open>The model implements the interface\<close>

lemma quiet_pic_irq [simp]: "quiet_pic (p\<lparr> irq := w \<rparr>) = quiet_pic p"
  by (simp add: quiet_pic_def)

lemma irq_enabled_cases:
  assumes "irq_enabled s n"
  obtains (master) "n < 8" "n \<noteq> 2" "\<not> bit (imr (master_pic s)) n"
  | (slave) k where "n = k + 8" "k < 8" "\<not> bit (imr (slave_pic s)) k" "\<not> bit (imr (master_pic s)) 2"
proof (cases "n < 8")
  case False
  then show ?thesis
    using assms by (intro slave [of "n - 8"]) (auto simp: irq_enabled_def)
qed (use assms in \<open>auto simp: irq_enabled_def intro: master\<close>)

lemma cycle_result:
  assumes "quiet_pics s" "irq_enabled s n"
  obtains i j c where "end_of_irq n (snd (IAC (raise_irq n s))) =
    s\<lparr> master_pic := (master_pic s)\<lparr> irq := i \<rparr>, slave_pic := (slave_pic s)\<lparr> irq := j \<rparr>,
       ioapic_calls := c \<rparr>"
  using assms(2)
proof (cases rule: irq_enabled_cases)
  case master
  obtain c where c: "end_of_irq n (snd (IAC (raise_irq n s))) =
      s\<lparr> master_pic := (master_pic s)\<lparr> irq := of_nat n \<rparr>, ioapic_calls := c \<rparr>"
    using master_cycle(4) [OF assms(1) master] by blast
  have "(slave_pic s)\<lparr> irq := irq (slave_pic s) \<rparr> = slave_pic s" by simp
  then show ?thesis using c by (intro that [where i = "of_nat n" and j = "irq (slave_pic s)" and c = c]) simp
next
  case (slave k)
  then show ?thesis using slave_cycle(3) [OF assms(1) slave(2-4)] that by blast
qed

interpretation pic: irq_controller quiet_pics irq_enabled irq_vector raise_irq INTR IAC end_of_irq
proof
  fix s n m
  assume q: "quiet_pics s"
  then show "\<not> INTR s" by (simp add: quiet_pics_def)
  assume e: "irq_enabled s n"
  show "INTR (raise_irq n s)"
    using e
  proof (cases rule: irq_enabled_cases)
    case master
    then show ?thesis using raise_quiet_master [OF q] by simp
  next
    case (slave k)
    obtain c where "forward_ioapic (k + 8) True s = s\<lparr> ioapic_calls := c \<rparr>" by (rule forward_calls)
    then show ?thesis using raise_quiet_slave [OF q slave(2-4)] slave(1) by simp
  qed
  show "fst (IAC (raise_irq n s)) = irq_vector s n" and "\<not> INTR (snd (IAC (raise_irq n s)))"
    using e master_cycle(1,2) [OF q] slave_cycle(1,2) [OF q]
    by (cases rule: irq_enabled_cases; simp add: irq_vector_def)+
  obtain i j c where "end_of_irq n (snd (IAC (raise_irq n s))) =
      s\<lparr> master_pic := (master_pic s)\<lparr> irq := i \<rparr>, slave_pic := (slave_pic s)\<lparr> irq := j \<rparr>,
         ioapic_calls := c \<rparr>"
    using cycle_result [OF q e] .
  then show "quiet_pics (end_of_irq n (snd (IAC (raise_irq n s))))"
    and "irq_enabled (end_of_irq n (snd (IAC (raise_irq n s)))) m = irq_enabled s m"
    and "irq_vector (end_of_irq n (snd (IAC (raise_irq n s)))) m = irq_vector s m"
    using q by (simp_all add: quiet_pics_def irq_enabled_def irq_vector_def)
qed

section \<open>What an asserted INTR stands for\<close>

text \<open>
  \<open>rises_ok\<close> holds after an operation that found INTR low: if INTR is now high, the input the
  master would hand out is its best request.  It is the same argument for every operation,
  because each ends in the master's service routine or leaves INTR low.
\<close>

definition rises_ok :: "bx_pic_c \<Rightarrow> bool" where
  "rises_ok s = (INTR s \<longrightarrow> best_request (master_pic s) (unat (irq (master_pic s))))"

lemma may_interrupt_irq [simp]:
  "may_interrupt (p\<lparr> INT_pin := b, irq := w \<rparr>) k = may_interrupt p k"
  by (simp add: may_interrupt_def highest_priority_def)

lemma best_request_irq [simp]:
  "best_request (p\<lparr> INT_pin := b, irq := w \<rparr>) k = best_request p k"
  by (simp add: best_request_def) (simp add: highest_priority_def)

lemma rises_low: "\<not> INTR s \<Longrightarrow> rises_ok s"
  by (simp add: rises_ok_def)

lemma rises_service_master: "\<not> INTR s \<Longrightarrow> rises_ok (service_master_pic s)"
  using service_scan_Some [of "master_pic s"]
  by (cases s rule: service_master_cases) (auto simp: rises_ok_def)

lemma raise_irq_master_rises: "\<not> INTR s \<Longrightarrow> rises_ok (raise_irq_master n s)"
  by (simp add: raise_irq_master_def Let_def frame_simps rises_service_master rises_low)

lemma service_slave_rises: "\<not> INTR s \<Longrightarrow> rises_ok (service_slave_pic s)"
  by (simp add: service_slave_pic_def raise_irq_master_rises rises_low split: option.split)

lemmas rises_intros = rises_service_master raise_irq_master_rises service_slave_rises rises_low

lemma raise_irq_rises: "\<not> INTR s \<Longrightarrow> rises_ok (raise_irq n s)"
  by (simp add: raise_irq_def Let_def frame_simps rises_intros)

lemma panic_opt_INTR [simp]: "INTR (panic_opt m s) = INTR s"
  by (simp add: panic_opt_def pic_effects split: option.split)

lemma write_icw1_rises:
  "\<not> INTR s \<Longrightarrow> rises_ok (write_icw1_master v s)" "\<not> INTR s \<Longrightarrow> rises_ok (write_icw1_slave v s)"
  by (simp_all add: write_icw1_master_def write_icw1_slave_def BX_CLEAR_INTR_def frame_simps rises_low)

lemma write_ocw3_rises:
  "\<not> INTR s \<Longrightarrow> rises_ok (write_ocw3_master v s)" "\<not> INTR s \<Longrightarrow> rises_ok (write_ocw3_slave v s)"
  by (cases "ocw3_fields v (master_pic s)"; simp add: write_ocw3_master_def Let_def rises_intros)
    (cases "ocw3_fields v (slave_pic s)"; simp add: write_ocw3_slave_def Let_def rises_intros)

lemma write_ocw2_rises:
  assumes "\<not> INTR s"
  shows "rises_ok (write_ocw2_master v s)" "rises_ok (write_ocw2_slave v s)"
  using assms
  by (simp_all add: write_ocw2_master_def write_ocw2_slave_def Let_def frame_simps rises_intros
      split: sum.split)

lemma write_data_rises:
  "\<not> INTR s \<Longrightarrow> rises_ok (write_data_master v s)" "\<not> INTR s \<Longrightarrow> rises_ok (write_data_slave v s)"
  by (cases "if in_init (master_pic s) then init_byte v (master_pic s) else None";
      simp add: write_data_master_def frame_simps rises_intros split: prod.split)
    (cases "if in_init (slave_pic s) then init_byte v (slave_pic s) else None";
      simp add: write_data_slave_def frame_simps rises_intros split: prod.split)

lemma pic_write_rises: "\<not> INTR s \<Longrightarrow> rises_ok (pic_write a v s)"
  by (simp add: pic_write_def write_icw1_rises write_ocw3_rises write_ocw2_rises write_data_rises
      rises_low)

lemma IAC_rises:
  assumes "pic_inv s"
  shows "rises_ok (snd (IAC s))"
proof -
  obtain t where t: "pic_inv t" "\<not> INTR t"
    "snd (IAC s) \<in> {t, service_master_pic t, service_master_pic (service_slave_pic t)}"
    using IAC_cases [OF assms] .
  have "rises_ok (service_master_pic (service_slave_pic t))"
  proof (cases "INTR (service_slave_pic t)")
    case True
    then have "INT_pin (master_pic (service_slave_pic t))"
      using service_slave_inv [OF t(1)] by (simp add: pic_inv_def)
    then show ?thesis
      using service_slave_rises [OF t(2)] by (simp add: service_master_pic_def service_scan_INT)
  qed (rule rises_service_master)
  then show ?thesis using t rises_low rises_service_master by auto
qed

lemma pic_step_rises:
  assumes "pic_inv s" "\<not> INTR s \<or> e = Ack"
  shows "rises_ok (pic_step s e)"
proof (cases e)
  case (Lower n)
  then show ?thesis using assms by (simp add: lower_irq_def Let_def frame_simps rises_low)
next
  case (Read a l)
  then show ?thesis using assms by (simp add: pic_read_def Let_def pic_effects rises_intros)
qed (use assms in \<open>simp_all add: set_mode_def pic_write_rises raise_irq_rises IAC_rises rises_low\<close>)

section \<open>Properties\<close>

text \<open>
  C21. \<open>service_master_pic\<close> signals an interrupt exactly when none is signalled that has not been
  acknowledged (\<open>INT_pin\<close> is low) and some request is unmasked and outranks everything in service (or, under
  the special mask, is not in service itself); it signals the best ranked one, asserting INTR.  Otherwise it
  changes nothing: while an interrupt is signalled, a better request is not looked at.
\<close>

theorem master_signals_best_request:
  "if \<not> INT_pin (master_pic s) \<and> (\<exists>k. may_interrupt (master_pic s) k)
   then \<exists>k. best_request (master_pic s) k \<and>
     service_master_pic s =
       s\<lparr> master_pic := (master_pic s)\<lparr> INT_pin := True, irq := of_nat k \<rparr>, INTR := True \<rparr>
   else service_master_pic s = s"
proof (cases s rule: service_master_cases)
  case none
  then show ?thesis using service_scan_None [of "master_pic s"] by auto
next
  case (some k)
  then have "best_request (master_pic s) k" using service_scan_Some by simp
  then show ?thesis using some by (auto simp: best_request_def)
qed

text \<open>
  The slave's best request reaches the CPU through the master's input 2: unless the slave
  already requests, \<open>service_slave_pic\<close> records the request, raises input 2 and lets the
  master decide.
\<close>

theorem slave_signals_through_cascade:
  assumes "pic_inv s" "\<not> INT_pin (slave_pic s)" "best_request (slave_pic s) k"
  shows "service_slave_pic s = service_master_pic (s\<lparr>
      slave_pic := (slave_pic s)\<lparr> INT_pin := True, irq := of_nat k \<rparr>,
      master_pic := (master_pic s)\<lparr> IRQ_in := IRQ_in (master_pic s) OR bitm 2,
                                   irr := irr (master_pic s) OR bitm 2 \<rparr> \<rparr>)"
  using service_scan_Some [OF assms(2), of k] assms(1,3)
  by (cases rule: service_slave_cases [OF assms(1), case_names none some])
    (simp_all add: service_slave_pic_def raise_cascade pic_inv_def assms(2))

definition slave_requests_4 :: bx_pic_c where
  "slave_requests_4 = (pic_init False)\<lparr> slave_pic := init_slave_pic\<lparr> imr := 0, irr := bitm 4 \<rparr> \<rparr>"

lemma slave_signals_through_cascade_witness:
  "service_slave_pic slave_requests_4 = service_master_pic (slave_requests_4\<lparr>
      slave_pic := (slave_pic slave_requests_4)\<lparr> INT_pin := True, irq := 4 \<rparr>,
      master_pic := (master_pic slave_requests_4)\<lparr>
        IRQ_in := IRQ_in (master_pic slave_requests_4) OR bitm 2,
        irr := irr (master_pic slave_requests_4) OR bitm 2 \<rparr> \<rparr>)"
proof -
  have "pic_inv slave_requests_4" "\<not> INT_pin (slave_pic slave_requests_4)"
    by (simp_all add: slave_requests_4_def pic_inv_def pic_wf_def pic_init_def init_slave_pic_def
        init_master_pic_def)
  moreover have "best_request (slave_pic slave_requests_4) 4"
    by (auto simp: slave_requests_4_def best_request_def may_interrupt_def init_slave_pic_def)
  ultimately show ?thesis using slave_signals_through_cascade [of slave_requests_4 4] by simp
qed

text \<open>
  A non-specific end of interrupt on either command port ends the best ranked interrupt in
  service there and no other, and then lets the controller signal the next one.
\<close>

theorem eoi_ends_top_in_service:
  "(\<nexists>k. top_in_service (master_pic s) k) \<and> pic_write 0x20 0x20 s = service_master_pic s \<or>
   (\<exists>k. top_in_service (master_pic s) k \<and> pic_write 0x20 0x20 s =
      service_master_pic (upd_master (\<lambda>m. m\<lparr> isr := isr m AND NOT (bitm k) \<rparr>) s))"
proof (cases "master_pic s" rule: clear_highest_cases)
  case none
  then have "\<nexists>k. top_in_service (master_pic s) k" by (simp add: top_in_service_def)
  then show ?thesis
    using none by (simp add: pic_write_def write_ocw2_master_def ocw2_fields_def Let_def)
next
  case (top k)
  then show ?thesis
    by (intro disjI2 exI [of _ k]) (simp add: pic_write_def write_ocw2_master_def ocw2_fields_def Let_def)
qed

text \<open>
  C11. Whatever devices, CPU and software do after power-on, in any order, the INTR line equals
  the master's request pin, the master's input 2 equals the slave's, the priority and request
  registers stay in range and the initialization sequencer never expects a bad byte.
\<close>

theorem pic_invariant_always:
  assumes "list_all device_event es"
  shows "pic_inv (pic_run (pic_init apic) es)"
  using assms pic_init_inv by (rule pic_run_inv [rotated])

lemma pic_invariant_always_witness:
  "pic_inv (pic_run (pic_init False) [Write 0x21 0, Raise 3, Raise 12, Ack, Write 0x20 0x20])"
  by (rule pic_invariant_always) simp

text \<open>
  C12. Whenever an event makes INTR rise, and after every acknowledge, an asserted INTR stands
  for the master's best request at that moment: requested, not masked, outranking all in service.
\<close>

theorem INTR_rises_for_best_request:
  assumes "list_all device_event es" "\<not> INTR (pic_run (pic_init apic) es) \<or> e = Ack"
    "INTR (pic_step (pic_run (pic_init apic) es) e)"
  shows "best_request (master_pic (pic_step (pic_run (pic_init apic) es) e))
    (unat (irq (master_pic (pic_step (pic_run (pic_init apic) es) e))))"
  using pic_step_rises [OF pic_run_inv [OF pic_init_inv assms(1)] assms(2)] assms(3)
  by (simp add: rises_ok_def)

lemma INTR_rises_for_best_request_witness:
  "best_request (master_pic (pic_step (pic_run (pic_init False) [Write 0x21 0]) (Raise 3))) 3"
proof -
  have "INTR (pic_step (pic_run (pic_init False) [Write 0x21 0]) (Raise 3))"
    "\<not> INTR (pic_run (pic_init False) [Write 0x21 0])"
    "unat (irq (master_pic (pic_step (pic_run (pic_init False) [Write 0x21 0]) (Raise 3)))) = 3"
    by code_simp+
  then show ?thesis
    using INTR_rises_for_best_request [of "[Write 0x21 0]" False "Raise 3"] by simp
qed

text \<open>
  C6. On quiet controllers, a sequence of requests on enabled inputs of either controller, each
  acknowledged, ended with the end-of-interrupt commands and dropped before the next, delivers
  exactly their vectors in order and leaves the controllers quiet.
\<close>

fun serve_irqs :: "bx_pic_c \<Rightarrow> nat list \<Rightarrow> Bit8u list \<times> bx_pic_c" where
  "serve_irqs s [] = ([], s)"
| "serve_irqs s (n # ns) =
     (let (v, s1) = IAC (raise_irq n s); (vs, s2) = serve_irqs (end_of_irq n s1) ns
      in (v # vs, s2))"

lemma serve_irqs_eq: "serve_irqs s ns = pic.serve s ns"
  by (induction ns arbitrary: s) (simp_all add: Let_def split_def)

theorem irqs_delivered_in_order:
  assumes "quiet_pics s" "list_all (irq_enabled s) ns"
  shows "fst (serve_irqs s ns) = map (irq_vector s) ns \<and> quiet_pics (snd (serve_irqs s ns))"
  using pic.serve_delivers [OF assms] by (simp add: serve_irqs_eq)

lemma irqs_delivered_in_order_witness:
  "fst (serve_irqs (pic_run (pic_init False) [Write 0x21 0, Write 0xA1 0]) [0, 12, 1]) = [0x08, 0x74, 0x09]"
proof -
  let ?s = "pic_run (pic_init False) [Write 0x21 0, Write 0xA1 0]"
  have "quiet_pics ?s" "list_all (irq_enabled ?s) [0, 12, 1]"
    "map (irq_vector ?s) [0, 12, 1] = [0x08, 0x74, 0x09]"
    by code_simp+
  then show ?thesis using irqs_delivered_in_order [of ?s "[0, 12, 1]"] by simp
qed

end
