(* ===== verification/Pit82c54.thy ===== *)
theory Pit82c54
  imports Prelude
begin

text \<open>
  The 82C54 interval timer of the emulated machine, \<open>bochs-2.6.8/iodev/pit82c54.cc\<close> and
  \<open>pit82c54.h\<close>.  A counter is the record \<open>counter_type\<close>; the chip holds three.  The class
  calls a counter's \<open>out_handler\<close> whenever OUT changes: the record says whether one is
  installed and lists the values it was called with, oldest first.  Error messages
  (\<open>BX_ERROR\<close>) only print and are left out.
\<close>

section \<open>State\<close>

datatype rw_status = LSByte | MSByte | LSByte_multiple | MSByte_multiple

record counter_type =
  GATE :: bool
  OUTpin :: bool
  count :: Bit32u
  outlatch :: Bit16u
  inlatch :: Bit16u
  status_latch :: Bit8u
  rw_mode :: Bit8u
  mode :: Bit8u
  bcd_mode :: bool
  null_count :: bool
  count_LSB_latched :: bool
  count_MSB_latched :: bool
  status_latched :: bool
  count_binary :: Bit32u
  triggerGATE :: bool
  write_state :: rw_status
  read_state :: rw_status
  count_written :: bool
  first_pass :: bool
  state_bit_1 :: bool
  state_bit_2 :: bool
  next_change_time :: Bit32u
  out_handler :: bool
  out_calls :: "bool list"

record pit_82C54 =
  counter :: "nat \<Rightarrow> counter_type"
  controlword :: Bit8u
  seen_problems :: nat

abbreviation MAX_COUNTER :: nat where "MAX_COUNTER \<equiv> 2"
abbreviation MAX_ADDRESS :: nat where "MAX_ADDRESS \<equiv> 3"
abbreviation CONTROL_ADDRESS :: nat where "CONTROL_ADDRESS \<equiv> 3"

definition upd_counter :: "nat \<Rightarrow> (counter_type \<Rightarrow> counter_type) \<Rightarrow> pit_82C54 \<Rightarrow> pit_82C54" where
  "upd_counter i f s = s\<lparr> counter := (counter s)(i := f (counter s i)) \<rparr>"

section \<open>One counter\<close>

definition latch_counter :: "counter_type \<Rightarrow> counter_type" where
  "latch_counter c =
     (if count_LSB_latched c \<or> count_MSB_latched c then c
      else case read_state c of
             MSByte \<Rightarrow> c\<lparr> outlatch := ucast (count c AND 0xFFFF), count_MSB_latched := True \<rparr>
           | LSByte \<Rightarrow> c\<lparr> outlatch := ucast (count c AND 0xFFFF), count_LSB_latched := True \<rparr>
           | LSByte_multiple \<Rightarrow>
               c\<lparr> outlatch := ucast (count c AND 0xFFFF), count_LSB_latched := True,
                  count_MSB_latched := True \<rparr>
           | MSByte_multiple \<Rightarrow>
               c\<lparr> read_state := LSByte_multiple, outlatch := ucast (count c AND 0xFFFF),
                  count_LSB_latched := True, count_MSB_latched := True \<rparr>)"

definition set_OUT :: "bool \<Rightarrow> counter_type \<Rightarrow> counter_type" where
  "set_OUT data c =
     (if OUTpin c \<noteq> data
      then (if out_handler c then c\<lparr> OUTpin := data, out_calls := out_calls c @ [data] \<rparr>
            else c\<lparr> OUTpin := data \<rparr>)
      else c)"

definition set_count_to_binary :: "counter_type \<Rightarrow> counter_type" where
  "set_count_to_binary c =
     (if bcd_mode c
      then c\<lparr> count :=
        push_bit 0 ((count_binary c div 1) mod 10) OR
        push_bit 4 ((count_binary c div 10) mod 10) OR
        push_bit 8 ((count_binary c div 100) mod 10) OR
        push_bit 12 ((count_binary c div 1000) mod 10) \<rparr>
      else c\<lparr> count := count_binary c \<rparr>)"

definition set_binary_to_count :: "counter_type \<Rightarrow> counter_type" where
  "set_binary_to_count c =
     (if bcd_mode c
      then c\<lparr> count_binary :=
        1 * (drop_bit 0 (count c) AND 0xF) +
        10 * (drop_bit 4 (count c) AND 0xF) +
        100 * (drop_bit 8 (count c) AND 0xF) +
        1000 * (drop_bit 12 (count c) AND 0xF) \<rparr>
      else c\<lparr> count_binary := count c \<rparr>)"

definition set_count :: "Bit32u \<Rightarrow> counter_type \<Rightarrow> counter_type" where
  "set_count data c = set_binary_to_count (c\<lparr> count := data AND 0xFFFF \<rparr>)"

definition decrement :: "counter_type \<Rightarrow> counter_type" where
  "decrement c =
     (if count c = 0
      then (if bcd_mode c then c\<lparr> count := 0x9999, count_binary := 9999 \<rparr>
            else c\<lparr> count := 0xFFFF, count_binary := 0xFFFF \<rparr>)
      else set_count_to_binary (c\<lparr> count_binary := count_binary c - 1 \<rparr>))"

text \<open>\<open>pit_82C54::init\<close> leaves the latches and the control word as they were.\<close>

definition init_counter :: "counter_type \<Rightarrow> counter_type" where
  "init_counter c =
     c\<lparr> read_state := LSByte, write_state := LSByte, GATE := True, OUTpin := True,
        triggerGATE := False, mode := 4, first_pass := False, bcd_mode := False, count := 0,
        count_binary := 0, state_bit_1 := False, state_bit_2 := False, null_count := False,
        rw_mode := 1, count_written := True, count_LSB_latched := False,
        count_MSB_latched := False, status_latched := False, next_change_time := 0,
        out_handler := False \<rparr>"

definition pit_init :: "pit_82C54 \<Rightarrow> pit_82C54" where
  "pit_init s =
     s\<lparr> counter := (\<lambda>i. if i < 3 then init_counter (counter s i) else counter s i),
        seen_problems := 0 \<rparr>"

text \<open>The chip as the constructor finds it, all fields zero, and after the constructor.\<close>

definition blank_counter :: counter_type where
  "blank_counter =
     \<lparr> GATE = False, OUTpin = False, count = 0, outlatch = 0, inlatch = 0, status_latch = 0,
       rw_mode = 0, mode = 0, bcd_mode = False, null_count = False, count_LSB_latched = False,
       count_MSB_latched = False, status_latched = False, count_binary = 0, triggerGATE = False,
       write_state = LSByte, read_state = LSByte, count_written = False, first_pass = False,
       state_bit_1 = False, state_bit_2 = False, next_change_time = 0, out_handler = False,
       out_calls = [] \<rparr>"

definition new_pit :: pit_82C54 where
  "new_pit = pit_init \<lparr> counter = (\<lambda>_. blank_counter), controlword = 0, seen_problems = 0 \<rparr>"

text \<open>
  The loop of \<open>decrement_multiple\<close>: a run of cycles within the count, or down through 0.  Each
  turn uses up at least one cycle.
\<close>

function decrement_multiple :: "Bit32u \<Rightarrow> counter_type \<Rightarrow> counter_type" where
  "decrement_multiple cycles c =
     (if cycles > 0
      then (if cycles \<le> count_binary c
            then decrement_multiple (cycles - cycles)
                   (set_count_to_binary (c\<lparr> count_binary := count_binary c - cycles \<rparr>))
            else decrement_multiple (cycles - (count_binary c + 1))
                   (decrement
                     (set_count_to_binary (c\<lparr> count_binary := count_binary c - count_binary c \<rparr>))))
      else c)"
  by pat_completeness auto
termination
proof (relation "measure (\<lambda>(cycles, c). unat cycles)", goal_cases)
  case (3 cycles c)
  then have "unat (count_binary c + 1) \<le> unat cycles" and "unat (count_binary c + 1) \<noteq> 0"
    by unat_arith+
  then show ?case
    using 3 by (simp add: unat_sub word_le_nat_alt)
qed (simp_all add: unat_gt_0 word_gt_0)

declare decrement_multiple.simps [simp del]

section \<open>One clock cycle\<close>

text \<open>
  The recurring \<open>next_change_time\<close> choice of the clock: 1 for a count of 0, else the count in
  16 bits.
\<close>

definition change_after :: "Bit32u \<Rightarrow> Bit32u" where
  "change_after n = (if n = 0 then 1 else n AND 0xFFFF)"

definition clock_mode0 :: "counter_type \<Rightarrow> counter_type" where
  "clock_mode0 c =
     (if count_written c then
        (if null_count c then
           (let c1 = set_count (ucast (inlatch c)) c in
            c1\<lparr> next_change_time := (if GATE c1 then change_after (count_binary c1) else 0),
                null_count := False \<rparr>)
         else if GATE c \<and> write_state c \<noteq> MSByte_multiple then
           (let c1 = decrement c in
            if \<not> OUTpin c1 then
              (let c2 = c1\<lparr> next_change_time := count_binary c1 AND 0xFFFF \<rparr>
               in if count c2 = 0 then set_OUT True c2 else c2)
            else c1\<lparr> next_change_time := 0 \<rparr>)
         else c\<lparr> next_change_time := 0 \<rparr>)
      else c\<lparr> next_change_time := 0 \<rparr>)\<lparr> triggerGATE := False \<rparr>"

definition clock_mode1 :: "counter_type \<Rightarrow> counter_type" where
  "clock_mode1 c =
     (if count_written c then
        (if triggerGATE c then
           (let c1 = set_count (ucast (inlatch c)) c in
            set_OUT False
              (c1\<lparr> next_change_time := change_after (count_binary c1), null_count := False \<rparr>))
         else
           (let c1 = decrement c in
            if \<not> OUTpin c1 then
              (let c2 = c1\<lparr> next_change_time := change_after (count_binary c1) \<rparr>
               in if count c2 = 0 then set_OUT True c2 else c2)
            else c1\<lparr> next_change_time := 0 \<rparr>))
      else c\<lparr> next_change_time := 0 \<rparr>)\<lparr> triggerGATE := False \<rparr>"

definition clock_mode2 :: "counter_type \<Rightarrow> counter_type" where
  "clock_mode2 c =
     (if count_written c then
        (if triggerGATE c \<or> first_pass c then
           (let c1 = set_count (ucast (inlatch c)) c;
                c2 = c1\<lparr> next_change_time := (count_binary c1 - 1) AND 0xFFFF, null_count := False \<rparr>;
                c3 = (if \<not> OUTpin c2 then set_OUT True c2 else c2)
            in c3\<lparr> first_pass := False \<rparr>)
         else if GATE c then
           (let c1 = decrement c;
                c2 = c1\<lparr> next_change_time := (count_binary c1 - 1) AND 0xFFFF \<rparr>
            in if count c2 = 1
               then (set_OUT False (c2\<lparr> next_change_time := 1 \<rparr>))\<lparr> first_pass := True \<rparr>
               else c2)
         else c\<lparr> next_change_time := 0 \<rparr>)
      else c\<lparr> next_change_time := 0 \<rparr>)\<lparr> triggerGATE := False \<rparr>"

definition mode3_toggle :: "counter_type \<Rightarrow> counter_type" where
  "mode3_toggle c =
     (if \<not> OUTpin c then set_OUT True c
      else if OUTpin c \<and> \<not> first_pass c then set_OUT False c else c)"

definition mode3_load :: "counter_type \<Rightarrow> counter_type" where
  "mode3_load c =
     (let c1 = (set_count (ucast (inlatch c) AND 0xFFFE) c)\<lparr> state_bit_1 := (inlatch c AND 0x1 \<noteq> 0) \<rparr>;
          n = count_binary c1 div 2;
          c2 = c1\<lparr> next_change_time :=
                    (if \<not> OUTpin c1 \<or> \<not> state_bit_1 c1
                     then (if n - 1 = 0 then 1 else (n - 1) AND 0xFFFF)
                     else (if n = 0 then 1 else n AND 0xFFFF)),
                  null_count := False \<rparr>
      in (mode3_toggle c2)\<lparr> state_bit_2 := False, first_pass := False \<rparr>)"

definition mode3_end :: "counter_type \<Rightarrow> counter_type" where
  "mode3_end c =
     (let c1 = (if count c = 0 then c\<lparr> state_bit_2 := True, next_change_time := 1 \<rparr> else c)
      in if count c1 = 2 \<and> (\<not> OUTpin c1 \<or> \<not> state_bit_1 c1)
         then c1\<lparr> state_bit_2 := True, next_change_time := 1 \<rparr> else c1)"

definition mode3_count :: "counter_type \<Rightarrow> counter_type" where
  "mode3_count c =
     (let c1 = decrement (decrement c);
          n = count_binary c1 div 2
      in mode3_end (c1\<lparr> next_change_time :=
           (if \<not> OUTpin c1 \<or> \<not> state_bit_1 c1 then (n - 1) AND 0xFFFF else n AND 0xFFFF) \<rparr>))"

definition clock_mode3 :: "counter_type \<Rightarrow> counter_type" where
  "clock_mode3 c =
     (if count_written c then
        (if (triggerGATE c \<or> first_pass c \<or> state_bit_2 c) \<and> GATE c then mode3_load c
         else if GATE c then mode3_count c
         else c\<lparr> next_change_time := 0 \<rparr>)
      else c\<lparr> next_change_time := 0 \<rparr>)\<lparr> triggerGATE := False \<rparr>"

definition clock_mode4 :: "counter_type \<Rightarrow> counter_type" where
  "clock_mode4 c =
     (if count_written c then
        (let c0 = (if \<not> OUTpin c then set_OUT True c else c) in
         if null_count c0 then
           (let c1 = set_count (ucast (inlatch c0)) c0 in
            c1\<lparr> next_change_time := (if GATE c1 then change_after (count_binary c1) else 0),
                null_count := False, first_pass := True \<rparr>)
         else if GATE c0 then
           (let c1 = decrement c0 in
            if first_pass c1 then
              (let c2 = c1\<lparr> next_change_time := count_binary c1 AND 0xFFFF \<rparr>
               in if count c2 = 0
                  then (set_OUT False c2)\<lparr> next_change_time := 1, first_pass := False \<rparr>
                  else c2)
            else c1\<lparr> next_change_time := 0 \<rparr>)
         else c0\<lparr> next_change_time := 0 \<rparr>)
      else c\<lparr> next_change_time := 0 \<rparr>)\<lparr> triggerGATE := False \<rparr>"

definition clock_mode5 :: "counter_type \<Rightarrow> counter_type" where
  "clock_mode5 c =
     (if count_written c then
        (let c0 = (if \<not> OUTpin c then set_OUT True c else c) in
         if triggerGATE c0 then
           (let c1 = set_count (ucast (inlatch c0)) c0 in
            c1\<lparr> next_change_time := change_after (count_binary c1),
                null_count := False, first_pass := True \<rparr>)
         else
           (let c1 = decrement c0 in
            if first_pass c1 then
              (let c2 = c1\<lparr> next_change_time := count_binary c1 AND 0xFFFF \<rparr>
               in if count c2 = 0
                  then (set_OUT False c2)\<lparr> next_change_time := 1, first_pass := False \<rparr>
                  else c2)
            else c1\<lparr> next_change_time := 0 \<rparr>))
      else c\<lparr> next_change_time := 0 \<rparr>)\<lparr> triggerGATE := False \<rparr>"

text \<open>\<open>pit_82C54::clock\<close>; its \<open>default\<close> is \<open>Mode not implemented\<close>.\<close>

definition clock_counter :: "counter_type \<Rightarrow> counter_type" where
  "clock_counter c =
     (if mode c = 0 then clock_mode0 c
      else if mode c = 1 then clock_mode1 c
      else if mode c = 2 then clock_mode2 c
      else if mode c = 3 then clock_mode3 c
      else if mode c = 4 then clock_mode4 c
      else if mode c = 5 then clock_mode5 c
      else c\<lparr> next_change_time := 0, triggerGATE := False \<rparr>)"

definition clock :: "nat \<Rightarrow> pit_82C54 \<Rightarrow> pit_82C54" where
  "clock cnum s = (if cnum > MAX_COUNTER then s else upd_counter cnum clock_counter s)"


section \<open>Many cycles\<close>

text \<open>
  \<open>clock_multiple\<close> jumps from one change to the next: up to \<open>next_change_time - 1\<close> cycles are
  only counted down, the last is clocked.  A \<open>next_change_time\<close> of 0 means that nothing but
  the count changes any more.
\<close>

definition clock_no_change :: "Bit32u \<Rightarrow> counter_type \<Rightarrow> counter_type" where
  "clock_no_change cycles c =
     (if count_written c then
        (if mode c = 0 then
           (if GATE c \<and> write_state c \<noteq> MSByte_multiple then decrement_multiple cycles c else c)
         else if mode c = 1 then decrement_multiple cycles c
         else if mode c = 2 then
           (if \<not> first_pass c \<and> GATE c then decrement_multiple cycles c else c)
         else if mode c = 3 then
           (if \<not> first_pass c \<and> GATE c then decrement_multiple (2 * cycles) c else c)
         else if mode c = 4 then (if GATE c then decrement_multiple cycles c else c)
         else if mode c = 5 then decrement_multiple cycles c
         else c)
      else c)"

function clock_counter_multiple :: "Bit32u \<Rightarrow> counter_type \<Rightarrow> counter_type" where
  "clock_counter_multiple cycles c =
     (if cycles > 0 then
        (if next_change_time c = 0 then
           clock_counter_multiple (cycles - cycles) (clock_no_change cycles c)
         else if mode c \<in> {0, 1, 2, 4, 5} then
           (if next_change_time c > cycles then
              (let c1 = decrement_multiple cycles c in
               clock_counter_multiple (cycles - cycles)
                 (c1\<lparr> next_change_time := next_change_time c1 - cycles \<rparr>))
            else
              (let c1 = decrement_multiple (next_change_time c - 1) c in
               clock_counter_multiple (cycles - next_change_time c) (clock_counter c1)))
         else if mode c = 3 then
           (if next_change_time c > cycles then
              (let c1 = decrement_multiple (cycles * 2) c in
               clock_counter_multiple (cycles - cycles)
                 (c1\<lparr> next_change_time := next_change_time c1 - cycles \<rparr>))
            else
              (let c1 = decrement_multiple ((next_change_time c - 1) * 2) c in
               clock_counter_multiple (cycles - next_change_time c) (clock_counter c1)))
         else clock_counter_multiple (cycles - cycles) c)
      else c)"
  by pat_completeness auto
termination
proof (relation "measure (\<lambda>(cycles, c). unat cycles)", goal_cases)
  case (4 cycles c x)
  then show ?case
    by (simp add: unat_sub word_le_nat_alt word_less_nat_alt unat_gt_0)
next
  case (6 cycles c x)
  then show ?case
    by (simp add: unat_sub word_le_nat_alt word_less_nat_alt unat_gt_0)
qed (simp_all add: unat_gt_0 word_gt_0)

declare clock_counter_multiple.simps [simp del]

definition clock_multiple :: "nat \<Rightarrow> Bit32u \<Rightarrow> pit_82C54 \<Rightarrow> pit_82C54" where
  "clock_multiple cnum cycles s =
     (if cnum > MAX_COUNTER then s else upd_counter cnum (clock_counter_multiple cycles) s)"

definition clock_all :: "Bit32u \<Rightarrow> pit_82C54 \<Rightarrow> pit_82C54" where
  "clock_all cycles s = clock_multiple 2 cycles (clock_multiple 1 cycles (clock_multiple 0 cycles s))"

section \<open>Ports\<close>

text \<open>\<open>pit_82C54::read\<close>: the byte, and the counter after the read.\<close>

definition read_counter :: "counter_type \<Rightarrow> Bit8u \<times> counter_type" where
  "read_counter c =
     (if status_latched c then
        (if count_MSB_latched c \<and> read_state c = MSByte_multiple then (0, c)
         else (status_latch c, c\<lparr> status_latched := False \<rparr>))
      else if count_LSB_latched c then
        (let c1 = (if read_state c = LSByte_multiple then c\<lparr> read_state := MSByte_multiple \<rparr> else c)
         in (ucast (outlatch c1 AND 0xFF), c1\<lparr> count_LSB_latched := False \<rparr>))
      else if count_MSB_latched c then
        (let c1 = (if read_state c = MSByte_multiple then c\<lparr> read_state := LSByte_multiple \<rparr> else c)
         in (ucast (drop_bit 8 (outlatch c1) AND 0xFF), c1\<lparr> count_MSB_latched := False \<rparr>))
      else if read_state c = LSByte \<or> read_state c = LSByte_multiple then
        (let c1 = (if read_state c = LSByte_multiple then c\<lparr> read_state := MSByte_multiple \<rparr> else c)
         in (ucast (count c1 AND 0xFF), c1))
      else
        (let c1 = (if read_state c = MSByte_multiple then c\<lparr> read_state := LSByte_multiple \<rparr> else c)
         in (ucast (drop_bit 8 (count c1) AND 0xFF), c1)))"

definition pit_read :: "nat \<Rightarrow> pit_82C54 \<Rightarrow> Bit8u \<times> pit_82C54" where
  "pit_read address s =
     (if address > MAX_ADDRESS then (0, s)
      else if address = CONTROL_ADDRESS then (0, s)
      else (let (v, c) = read_counter (counter s address) in (v, upd_counter address (\<lambda>_. c) s)))"

text \<open>The status byte of the read-back command.\<close>

definition status_byte :: "counter_type \<Rightarrow> Bit8u" where
  "status_byte c =
     push_bit 7 (of_bool (OUTpin c)) OR push_bit 6 (of_bool (null_count c)) OR
     push_bit 4 (rw_mode c AND 0x3) OR push_bit 1 (mode c AND 0x7) OR of_bool (bcd_mode c)"

definition latch_status :: "counter_type \<Rightarrow> counter_type" where
  "latch_status c =
     (if status_latched c then c else c\<lparr> status_latch := status_byte c, status_latched := True \<rparr>)"

text \<open>
  One turn of the read-back loop: bit \<open>i\<close> of the field \<open>M\<close> selects the counter; the two latch
  bits are active low.
\<close>

definition read_back_counter :: "Bit8u \<Rightarrow> nat \<Rightarrow> counter_type \<Rightarrow> counter_type" where
  "read_back_counter cw i c =
     (if drop_bit i (drop_bit 1 cw AND 0x7) AND 0x1 \<noteq> 0
      then (let c1 = (if drop_bit 5 cw AND 1 = 0 then latch_counter c else c)
            in (if drop_bit 4 cw AND 1 = 0 then latch_status c1 else c1))
      else c)"

definition program_counter :: "Bit8u \<Rightarrow> Bit8u \<Rightarrow> Bit8u \<Rightarrow> counter_type \<Rightarrow> counter_type" where
  "program_counter RW M BCD c =
     (let c1 = c\<lparr> null_count := True, count_LSB_latched := False, count_MSB_latched := False,
                  status_latched := False, inlatch := 0, count_written := False,
                  first_pass := True, rw_mode := RW, bcd_mode := (BCD > 0), mode := M \<rparr>;
          c2 = (if RW = 1 then c1\<lparr> read_state := LSByte, write_state := LSByte \<rparr>
                else if RW = 2 then c1\<lparr> read_state := MSByte, write_state := MSByte \<rparr>
                else if RW = 3
                then c1\<lparr> read_state := LSByte_multiple, write_state := LSByte_multiple \<rparr>
                else c1);
          c3 = (if M \<noteq> 0 then set_OUT True c2 else set_OUT False c2)
      in c3\<lparr> next_change_time := 0 \<rparr>)"

definition write_control :: "Bit8u \<Rightarrow> pit_82C54 \<Rightarrow> pit_82C54" where
  "write_control data s =
     (let s = s\<lparr> controlword := data \<rparr>;
          SC = drop_bit 6 data AND 0x3;
          RW = drop_bit 4 data AND 0x3;
          M = drop_bit 1 data AND 0x7;
          BCD = data AND 0x1
      in if SC = 3 then
           upd_counter 2 (read_back_counter data 2)
             (upd_counter 1 (read_back_counter data 1)
               (upd_counter 0 (read_back_counter data 0) s))
         else if RW = 0 then upd_counter (unat SC) latch_counter s
         else upd_counter (unat SC) (program_counter RW M BCD) s)"

text \<open>A byte of the initial count; the second \<open>switch\<close> schedules the load on the next clock.\<close>

definition write_inlatch :: "Bit8u \<Rightarrow> counter_type \<Rightarrow> counter_type" where
  "write_inlatch data c =
     (case write_state c of
        LSByte_multiple \<Rightarrow> c\<lparr> inlatch := ucast data, write_state := MSByte_multiple \<rparr>
      | LSByte \<Rightarrow> c\<lparr> inlatch := ucast data, count_written := True \<rparr>
      | MSByte_multiple \<Rightarrow>
          c\<lparr> write_state := LSByte_multiple, inlatch := inlatch c OR push_bit 8 (ucast data),
             count_written := True \<rparr>
      | MSByte \<Rightarrow> c\<lparr> inlatch := push_bit 8 (ucast data), count_written := True \<rparr>)"

definition write_schedule :: "counter_type \<Rightarrow> counter_type" where
  "write_schedule c =
     (if mode c = 0 then
        (if write_state c = MSByte_multiple then set_OUT False c else c)\<lparr> next_change_time := 1 \<rparr>
      else if mode c = 1 then (if triggerGATE c then c\<lparr> next_change_time := 1 \<rparr> else c)
      else if mode c \<in> {2, 6} then c\<lparr> next_change_time := 1 \<rparr>
      else if mode c \<in> {3, 7} then c\<lparr> next_change_time := 1 \<rparr>
      else if mode c = 4 then c\<lparr> next_change_time := 1 \<rparr>
      else if mode c = 5 then (if triggerGATE c then c\<lparr> next_change_time := 1 \<rparr> else c)
      else c)"

definition write_counter :: "Bit8u \<Rightarrow> counter_type \<Rightarrow> counter_type" where
  "write_counter data c =
     (let c1 = write_inlatch data c;
          c2 = (if count_written c1 \<and> write_state c1 \<noteq> MSByte_multiple
                then set_count (ucast (inlatch c1)) (c1\<lparr> null_count := True \<rparr>) else c1)
      in write_schedule c2)"

definition pit_write :: "nat \<Rightarrow> Bit8u \<Rightarrow> pit_82C54 \<Rightarrow> pit_82C54" where
  "pit_write address data s =
     (if address > MAX_ADDRESS then s
      else if address = CONTROL_ADDRESS then write_control data s
      else upd_counter address (write_counter data) s)"

section \<open>The GATE input\<close>

definition gate_schedule :: "bool \<Rightarrow> counter_type \<Rightarrow> counter_type" where
  "gate_schedule data c =
     (if mode c = 0 then
        (if data \<and> count_written c then
           (if null_count c then c\<lparr> next_change_time := 1 \<rparr>
            else if \<not> OUTpin c \<and> write_state c \<noteq> MSByte_multiple
            then c\<lparr> next_change_time := change_after (count_binary c) \<rparr>
            else c\<lparr> next_change_time := 0 \<rparr>)
         else if null_count c then c\<lparr> next_change_time := 1 \<rparr>
         else c\<lparr> next_change_time := 0 \<rparr>)
      else if mode c = 1 then (if data \<and> count_written c then c\<lparr> next_change_time := 1 \<rparr> else c)
      else if mode c = 2 then
        (if \<not> data then (set_OUT True c)\<lparr> next_change_time := 0 \<rparr>
         else if count_written c then c\<lparr> next_change_time := 1 \<rparr>
         else c\<lparr> next_change_time := 0 \<rparr>)
      else if mode c = 3 then
        (if \<not> data then (set_OUT True c)\<lparr> first_pass := True, next_change_time := 0 \<rparr>
         else if count_written c then c\<lparr> next_change_time := 1 \<rparr>
         else c\<lparr> next_change_time := 0 \<rparr>)
      else if mode c = 4 then
        (if \<not> OUTpin c \<or> null_count c then c\<lparr> next_change_time := 1 \<rparr>
         else if data \<and> count_written c then
           (if first_pass c then c\<lparr> next_change_time := change_after (count_binary c) \<rparr>
            else c\<lparr> next_change_time := 0 \<rparr>)
         else c\<lparr> next_change_time := 0 \<rparr>)
      else if mode c = 5 then (if data \<and> count_written c then c\<lparr> next_change_time := 1 \<rparr> else c)
      else c)"

definition set_GATE_counter :: "bool \<Rightarrow> counter_type \<Rightarrow> counter_type" where
  "set_GATE_counter data c =
     (if \<not> (GATE c \<and> data \<or> \<not> (GATE c \<or> data))
      then (let c1 = c\<lparr> GATE := data \<rparr>;
                c2 = (if GATE c1 then c1\<lparr> triggerGATE := True \<rparr> else c1)
            in gate_schedule data c2)
      else c)"

definition set_GATE :: "nat \<Rightarrow> bool \<Rightarrow> pit_82C54 \<Rightarrow> pit_82C54" where
  "set_GATE cnum data s =
     (if cnum > MAX_COUNTER then s else upd_counter cnum (set_GATE_counter data) s)"

section \<open>Queries\<close>

definition read_OUT :: "nat \<Rightarrow> pit_82C54 \<Rightarrow> bool" where
  "read_OUT cnum s = (if cnum > MAX_COUNTER then False else OUTpin (counter s cnum))"

definition read_GATE :: "nat \<Rightarrow> pit_82C54 \<Rightarrow> bool" where
  "read_GATE cnum s = (if cnum > MAX_COUNTER then False else GATE (counter s cnum))"

definition get_clock_event_time :: "nat \<Rightarrow> pit_82C54 \<Rightarrow> Bit32u" where
  "get_clock_event_time cnum s =
     (if cnum > MAX_COUNTER then 0 else next_change_time (counter s cnum))"

definition get_next_event_time :: "pit_82C54 \<Rightarrow> Bit32u" where
  "get_next_event_time s =
     (let time0 = get_clock_event_time 0 s;
          time1 = get_clock_event_time 1 s;
          time2 = get_clock_event_time 2 s;
          out = time0;
          out = (if time1 \<noteq> 0 \<and> time1 < out then time1 else out)
      in if time2 \<noteq> 0 \<and> time2 < out then time2 else out)"

definition get_inlatch :: "nat \<Rightarrow> pit_82C54 \<Rightarrow> Bit16u" where
  "get_inlatch n s = inlatch (counter s n)"

definition new_count_ready :: "nat \<Rightarrow> pit_82C54 \<Rightarrow> bool" where
  "new_count_ready n s = (write_state (counter s n) \<noteq> MSByte_multiple)"

definition set_OUT_handler :: "nat \<Rightarrow> pit_82C54 \<Rightarrow> pit_82C54" where
  "set_OUT_handler n s = upd_counter n (\<lambda>c. c\<lparr> out_handler := True \<rparr>) s"

end
