(* ===== verification/Pit82c54_Spec.thy ===== *)
theory Pit82c54_Spec
  imports Pit82c54
begin

text \<open>
  What one counter of the 82C54 promises.  The count is kept twice, as the register value
  (packed decimal in BCD mode) and in binary; \<open>ctr_wf\<close> says that they agree.  On such a counter
  \<open>decrement\<close> and \<open>decrement_multiple\<close> are subtraction modulo 10000 or 65536.
\<close>

section \<open>Packed decimal\<close>

definition bcd_encode :: "Bit32u \<Rightarrow> Bit32u" where
  "bcd_encode b =
     push_bit 0 ((b div 1) mod 10) OR push_bit 4 ((b div 10) mod 10) OR
     push_bit 8 ((b div 100) mod 10) OR push_bit 12 ((b div 1000) mod 10)"

definition bcd_decode :: "Bit32u \<Rightarrow> Bit32u" where
  "bcd_decode n =
     1 * (drop_bit 0 n AND 0xF) + 10 * (drop_bit 4 n AND 0xF) +
     100 * (drop_bit 8 n AND 0xF) + 1000 * (drop_bit 12 n AND 0xF)"

lemma digit_bits: "bit (x mod 10) k \<Longrightarrow> k < 4" for x :: Bit32u
proof -
  assume b: "bit (x mod 10) k"
  have "x mod 10 < 10" by (rule word_mod_less_divisor) simp
  then have "unat (x mod 10) < 2 ^ 4" by (simp add: word_less_nat_alt unat_mod)
  then have "take_bit 4 (x mod 10) = x mod 10"
    by (simp add: take_bit_eq_mod word_arith_nat_defs(7) flip: unat_mod)
  with b show ?thesis by (metis bit_take_bit_iff)
qed

lemma nibble_mask: "(0xF :: Bit32u) = mask 4"
  by (simp add: mask_eq_exp_minus_1)

lemma pack_digits:
  fixes a b c d :: Bit32u
  assumes "\<And>k. bit a k \<Longrightarrow> k < 4" "\<And>k. bit b k \<Longrightarrow> k < 4" "\<And>k. bit c k \<Longrightarrow> k < 4" "\<And>k. bit d k \<Longrightarrow> k < 4"
  defines "n \<equiv> push_bit 0 a OR push_bit 4 b OR push_bit 8 c OR push_bit 12 d"
  shows "drop_bit 0 n AND 0xF = a" "drop_bit 4 n AND 0xF = b"
    "drop_bit 8 n AND 0xF = c" "drop_bit 12 n AND 0xF = d"
  by (rule bit_word_eqI; force simp: n_def bit_simps nibble_mask dest: assms(1-4))+

lemma decimal_digits_int:
  fixes n :: int assumes "0 \<le> n" "n < 10000"
  shows "n mod 10 + 10 * (n div 10 mod 10) + 100 * (n div 100 mod 10) + 1000 * (n div 1000 mod 10) = n"
proof -
  define q where "q = n div 10"
  define r where "r = q div 10"
  have q: "n div 10 = q" "n div 100 = r" "n div 1000 = r div 10"
    by (simp_all add: q_def r_def zdiv_zmult2_eq [symmetric])
  have "0 \<le> r div 10" "r div 10 < 10" using assms by (simp_all add: q_def r_def)
  then have "r div 10 mod 10 = r div 10" by (rule mod_pos_pos_trivial)
  moreover have "10 * q + n mod 10 = n" "10 * r + q mod 10 = q" "10 * (r div 10) + r mod 10 = r"
    by (simp_all add: q_def r_def)
  ultimately show ?thesis unfolding q by linarith
qed

lemma decimal_digits:
  assumes "uint b < 10000"
  shows "1 * ((b div 1) mod 10) + 10 * ((b div 10) mod 10) + 100 * ((b div 100) mod 10) +
    1000 * ((b div 1000) mod 10) = (b :: Bit32u)" (is "?l = b")
proof -
  have d: "b div 10 mod 10 = word_of_int (uint b div 10 mod 10)" "b mod 10 = word_of_int (uint b mod 10)"
    "b div 100 mod 10 = word_of_int (uint b div 100 mod 10)"
    "b div 1000 mod 10 = word_of_int (uint b div 1000 mod 10)"
    by (simp_all add: word_mod_def uint_div)
  have "?l = word_of_int (uint b mod 10 + 10 * (uint b div 10 mod 10) + 100 * (uint b div 100 mod 10)
     + 1000 * (uint b div 1000 mod 10))"
    by (simp add: d)
  then show ?thesis using decimal_digits_int [of "uint b"] assms by simp
qed

lemma bcd_round_trip: "uint b < 10000 \<Longrightarrow> bcd_decode (bcd_encode b) = b"
  unfolding bcd_decode_def bcd_encode_def
  by (simp only: pack_digits [OF digit_bits digit_bits digit_bits digit_bits] decimal_digits)

lemma bcd_encode_inj: "uint a < 10000 \<Longrightarrow> uint b < 10000 \<Longrightarrow> bcd_encode a = bcd_encode b \<longleftrightarrow> a = b"
  by (metis bcd_round_trip)

lemma bcd_encode_small: "uint b < 10 \<Longrightarrow> bcd_encode b = b"
proof -
  assume "uint b < 10"
  then have "b div 10 = 0" "b div 100 = 0" "b div 1000 = 0" "b mod 10 = b"
    by (simp_all add: word_uint_eq_iff uint_div uint_mod)
  then show ?thesis by (simp add: bcd_encode_def)
qed

section \<open>Well-formed counters\<close>

definition cmod :: "counter_type \<Rightarrow> int" where
  "cmod c = (if bcd_mode c then 10000 else 65536)"

definition encode :: "bool \<Rightarrow> Bit32u \<Rightarrow> Bit32u" where
  "encode bcd b = (if bcd then bcd_encode b else b)"

definition ctr_wf :: "counter_type \<Rightarrow> bool" where
  "ctr_wf c \<longleftrightarrow> uint (count_binary c) < cmod c \<and> count c = encode (bcd_mode c) (count_binary c)"

text \<open>The counter holding \<open>b\<close>.\<close>

definition with_count :: "Bit32u \<Rightarrow> counter_type \<Rightarrow> counter_type" where
  "with_count b c = c\<lparr> count_binary := b, count := encode (bcd_mode c) b \<rparr>"

lemma set_count_to_binary_eq: "set_count_to_binary (c\<lparr> count_binary := b \<rparr>) = with_count b c"
  by (simp add: set_count_to_binary_def with_count_def encode_def bcd_encode_def)

lemma with_count_id: "ctr_wf c \<Longrightarrow> with_count (count_binary c) c = c"
  by (simp add: with_count_def ctr_wf_def)

lemma with_count_with_count [simp]: "with_count b (with_count a c) = with_count b c"
  by (simp add: with_count_def)

lemma with_count_sel [simp]:
  "count_binary (with_count b c) = b" "count (with_count b c) = encode (bcd_mode c) b"
  "bcd_mode (with_count b c) = bcd_mode c" "mode (with_count b c) = mode c"
  "GATE (with_count b c) = GATE c" "OUTpin (with_count b c) = OUTpin c"
  "triggerGATE (with_count b c) = triggerGATE c" "first_pass (with_count b c) = first_pass c"
  "count_written (with_count b c) = count_written c" "null_count (with_count b c) = null_count c"
  "inlatch (with_count b c) = inlatch c" "next_change_time (with_count b c) = next_change_time c"
  "state_bit_1 (with_count b c) = state_bit_1 c" "state_bit_2 (with_count b c) = state_bit_2 c"
  "write_state (with_count b c) = write_state c" "out_handler (with_count b c) = out_handler c"
  "out_calls (with_count b c) = out_calls c" "cmod (with_count b c) = cmod c"
  "outlatch (with_count b c) = outlatch c" "status_latch (with_count b c) = status_latch c" "rw_mode (with_count b c) = rw_mode c"
  "count_LSB_latched (with_count b c) = count_LSB_latched c" "count_MSB_latched (with_count b c) = count_MSB_latched c"
  "status_latched (with_count b c) = status_latched c" "read_state (with_count b c) = read_state c"
  by (simp_all add: with_count_def cmod_def)

lemma ctr_wf_with_count [simp]: "ctr_wf (with_count b c) \<longleftrightarrow> uint b < cmod c"
  by (simp add: ctr_wf_def)

lemma cmod_cases: "cmod c = 10000 \<and> bcd_mode c \<or> cmod c = 65536 \<and> \<not> bcd_mode c"
  by (simp add: cmod_def)

lemma cmod_bounds [simp]: "0 < cmod c" "cmod c \<le> 65536" "10000 \<le> cmod c"
  by (simp_all add: cmod_def)

lemma encode_small: "uint b < 10 \<Longrightarrow> encode d b = b"
  by (simp add: encode_def bcd_encode_small)

lemma encode_inj:
  assumes "uint a < (if d then 10000 else 65536)" "uint b < (if d then 10000 else 65536)"
  shows "encode d a = encode d b \<longleftrightarrow> a = b"
  using assms by (simp add: encode_def bcd_encode_inj split: if_splits)

lemma encode_eq_small:
  "uint b < 10 \<Longrightarrow> ctr_wf c \<Longrightarrow> count c = b \<longleftrightarrow> count_binary c = b"
  using encode_inj [of "count_binary c" "bcd_mode c" b]
  by (auto simp: ctr_wf_def cmod_def encode_small)

section \<open>Counting down is subtraction modulo the period\<close>

definition sub_count :: "Bit32u \<Rightarrow> int \<Rightarrow> counter_type \<Rightarrow> Bit32u" where
  "sub_count b n c = word_of_int ((uint b - n) mod cmod c)"

lemma uint_sub_count: "uint (sub_count b n c) = (uint b - n) mod cmod c"
proof -
  have "(uint b - n) mod cmod c < cmod c" and "cmod c \<le> 65536"
    by simp_all
  then have "(uint b - n) mod cmod c < 65536"
    by (rule order.strict_trans2)
  then have "(uint b - n) mod cmod c < 2 ^ 32"
    by simp
  then have "take_bit 32 ((uint b - n) mod cmod c) = (uint b - n) mod cmod c"
    by (intro take_bit_int_eq_self) simp_all
  then show ?thesis
    by (simp add: sub_count_def unsigned_of_int)
qed

lemma sub_count_less [simp]: "uint (sub_count b n c) < cmod c"
  by (simp add: uint_sub_count)

lemma sub_count_with [simp]: "sub_count b n (with_count a c) = sub_count b n c"
  by (simp add: sub_count_def)

lemma sub_count_sub_count: "sub_count (sub_count b m c) n c = sub_count b (m + n) c"
  by (rule word_uint_eq_iff [THEN iffD2]) (simp add: uint_sub_count mod_diff_left_eq algebra_simps)

lemma sub_count_0: "ctr_wf c \<Longrightarrow> sub_count (count_binary c) 0 c = count_binary c"
  by (rule word_uint_eq_iff [THEN iffD2]) (simp add: uint_sub_count ctr_wf_def mod_pos_pos_trivial)

lemma sub_count_le:
  assumes "n \<le> b" "uint b < cmod c"
  shows "sub_count b (uint n) c = b - n"
proof (rule word_uint_eq_iff [THEN iffD2])
  have "(uint b - uint n) mod cmod c = uint b - uint n"
    using assms uint_ge_0 [of n] unfolding word_le_def by (intro mod_pos_pos_trivial) linarith+
  then show "uint (sub_count b (uint n) c) = uint (b - n)"
    using assms by (simp add: uint_sub_count uint_sub_if' word_le_def)
qed

lemma sub_count_1_0: "sub_count 0 1 c = (if bcd_mode c then 9999 else 0xFFFF)"
  by (simp add: sub_count_def cmod_def)

lemma encode_top: "encode True 9999 = 0x9999" "encode False b = b"
  by (simp_all add: encode_def bcd_encode_def)

lemma decrement_eq:
  assumes "ctr_wf c"
  shows "decrement c = with_count (sub_count (count_binary c) 1 c) c"
proof (cases "count_binary c = 0")
  case True
  then have "count c = 0"
    using assms encode_eq_small [of 0 c] by simp
  with True show ?thesis
    by (simp add: decrement_def with_count_def sub_count_1_0 encode_top)
next
  case False
  then have "count c \<noteq> 0" and "1 \<le> count_binary c"
    using assms encode_eq_small [of 0 c] by (simp_all add: word_le_def word_uint_eq_iff)
      (smt (verit) uint_ge_0)
  with False show ?thesis
    using assms sub_count_le [of 1 "count_binary c" c]
    by (simp add: decrement_def set_count_to_binary_eq ctr_wf_def)
qed

lemma ctr_wf_decrement: "ctr_wf c \<Longrightarrow> ctr_wf (decrement c)"
  by (simp add: decrement_eq)

lemma decrement_multiple_eq:
  "ctr_wf c \<Longrightarrow> decrement_multiple n c = with_count (sub_count (count_binary c) (uint n) c) c"
proof (induction n c rule: decrement_multiple.induct)
  case (1 n c)
  let ?b = "count_binary c"
  consider "n = 0" | "n \<noteq> 0" "n \<le> ?b" | "n \<noteq> 0" "?b < n" by fastforce
  then show ?case
  proof cases
    case 1
    then show ?thesis
      using \<open>ctr_wf c\<close> by (simp add: decrement_multiple.simps sub_count_0 with_count_id)
  next
    case 2
    then show ?thesis
      using \<open>ctr_wf c\<close> sub_count_le [of n ?b c]
      by (simp add: decrement_multiple.simps [of n] decrement_multiple.simps [of 0] word_gt_0
          set_count_to_binary_eq ctr_wf_def)
  next
    case 3
    let ?c0 = "with_count 0 c"
    have lt: "uint ?b < uint n"
      using 3 by (simp add: word_less_def)
    have up: "uint (?b + 1) = uint ?b + 1"
      using lt uint_lt2p [of n] by (simp add: uint_plus_if')
    have n: "uint (n - (?b + 1)) = uint n - (uint ?b + 1)"
      using up lt by (simp add: uint_sub_if')
    have "decrement_multiple n c = decrement_multiple (n - (?b + 1)) (decrement ?c0)"
      using 3 by (simp add: decrement_multiple.simps [of n] word_gt_0 set_count_to_binary_eq)
    also have "\<dots> = with_count (sub_count (sub_count 0 1 c) (uint (n - (?b + 1))) c) c"
      using 3 "1.IH"(2) by (simp add: word_gt_0 set_count_to_binary_eq ctr_wf_decrement decrement_eq)
    also have "sub_count (sub_count 0 1 c) (uint (n - (?b + 1))) c = sub_count ?b (uint n) c"
      unfolding sub_count_sub_count n
      by (rule word_uint_eq_iff [THEN iffD2]) (simp add: uint_sub_count algebra_simps)
    finally show ?thesis .
  qed
qed

text \<open>\<open>k\<close> cycles of plain counting.\<close>

definition count_down :: "int \<Rightarrow> counter_type \<Rightarrow> counter_type" where
  "count_down k c = with_count (sub_count (count_binary c) k c) c"

lemma count_down_sel [simp]:
  "bcd_mode (count_down k c) = bcd_mode c" "mode (count_down k c) = mode c"
  "GATE (count_down k c) = GATE c" "OUTpin (count_down k c) = OUTpin c"
  "triggerGATE (count_down k c) = triggerGATE c" "first_pass (count_down k c) = first_pass c"
  "count_written (count_down k c) = count_written c" "null_count (count_down k c) = null_count c"
  "inlatch (count_down k c) = inlatch c" "next_change_time (count_down k c) = next_change_time c"
  "state_bit_1 (count_down k c) = state_bit_1 c" "state_bit_2 (count_down k c) = state_bit_2 c"
  "write_state (count_down k c) = write_state c" "out_handler (count_down k c) = out_handler c"
  "out_calls (count_down k c) = out_calls c" "cmod (count_down k c) = cmod c"
  "outlatch (count_down k c) = outlatch c" "status_latch (count_down k c) = status_latch c" "rw_mode (count_down k c) = rw_mode c"
  "count_LSB_latched (count_down k c) = count_LSB_latched c" "count_MSB_latched (count_down k c) = count_MSB_latched c"
  "status_latched (count_down k c) = status_latched c" "read_state (count_down k c) = read_state c"
  "ctr_wf (count_down k c)"
  "count_binary (count_down k c) = sub_count (count_binary c) k c"
  by (simp_all add: count_down_def)

lemma count_down_count_down [simp]: "count_down n (count_down m c) = count_down (m + n) c"
  by (simp add: count_down_def sub_count_sub_count)

lemma count_down_0 [simp]: "ctr_wf c \<Longrightarrow> count_down 0 c = c"
  by (simp add: count_down_def sub_count_0 with_count_id)

lemmas decrement_count_down = decrement_eq [folded count_down_def]
lemmas decrement_multiple_count_down = decrement_multiple_eq [folded count_down_def]

lemma decrement_iterate: "ctr_wf c \<Longrightarrow> (decrement ^^ k) c = count_down (int k) c"
  by (induction k) (simp_all add: decrement_count_down algebra_simps)

text \<open>
  In BCD mode the register value and the binary count convert into each other without loss:
  packing any count below 10000 and reading the register value back gives the same counter.
\<close>
theorem bcd_count_round_trip:
  assumes "bcd_mode c" "uint b < 10000"
  shows "set_binary_to_count (set_count_to_binary (c\<lparr> count_binary := b \<rparr>)) =
    set_count_to_binary (c\<lparr> count_binary := b \<rparr>)"
  using assms bcd_round_trip [of b]
  by (simp add: set_count_to_binary_eq set_binary_to_count_def with_count_def encode_def bcd_decode_def)

lemma bcd_count_round_trip_witness:
  "count_binary (set_binary_to_count (set_count_to_binary
      (blank_counter\<lparr> bcd_mode := True, count_binary := 1234 \<rparr>))) = 1234"
  using bcd_count_round_trip [of "blank_counter\<lparr> bcd_mode := True \<rparr>" 1234]
  by (simp add: blank_counter_def set_count_to_binary_def)

text \<open>
  On a counter whose two counts agree, \<open>decrement_multiple\<close> with its wrap-around loop is
  single decrements, once per cycle, binary and BCD, through zero as often as the cycles ask.
\<close>
theorem decrement_multiple_iterates:
  assumes "ctr_wf c"
  shows "decrement_multiple n c = (decrement ^^ unat n) c"
  using decrement_multiple_count_down [OF assms, of n] decrement_iterate [OF assms, of "unat n"] by simp

lemma decrement_multiple_iterates_witness:
  "decrement_multiple 40000 (blank_counter\<lparr> bcd_mode := True \<rparr>) =
    (decrement ^^ 40000) (blank_counter\<lparr> bcd_mode := True \<rparr>)"
  using decrement_multiple_iterates [of "blank_counter\<lparr> bcd_mode := True \<rparr>" 40000]
  by (simp add: ctr_wf_def cmod_def blank_counter_def encode_def bcd_encode_def)

lemma count_down_nct: "count_down k (c\<lparr> next_change_time := x \<rparr>) = (count_down k c)\<lparr> next_change_time := x \<rparr>"
  by (simp add: count_down_def with_count_def sub_count_def cmod_def)

lemma ctr_wf_nct [simp]: "ctr_wf (c\<lparr> next_change_time := x \<rparr>) = ctr_wf c"
  by (simp add: ctr_wf_def cmod_def)

text \<open>The clock recomputes \<open>next_change_time\<close> in every branch.\<close>

lemma decrement_nct: "decrement (c\<lparr> next_change_time := x \<rparr>) = (decrement c)\<lparr> next_change_time := x \<rparr>"
  by (simp add: decrement_def set_count_to_binary_def)

lemma set_count_nct: "set_count d (c\<lparr> next_change_time := x \<rparr>) = (set_count d c)\<lparr> next_change_time := x \<rparr>"
  by (simp add: set_count_def set_binary_to_count_def)

lemma set_OUT_nct: "set_OUT d (c\<lparr> next_change_time := x \<rparr>) = (set_OUT d c)\<lparr> next_change_time := x \<rparr>"
  by (simp add: set_OUT_def)

lemma clock_mode0_nct: "clock_mode0 (c\<lparr> next_change_time := x \<rparr>) = clock_mode0 c"
  by (simp add: clock_mode0_def Let_def decrement_nct set_count_nct set_OUT_nct)

lemma clock_mode1_nct: "clock_mode1 (c\<lparr> next_change_time := x \<rparr>) = clock_mode1 c"
  by (simp add: clock_mode1_def Let_def decrement_nct set_count_nct set_OUT_nct)

lemma clock_mode2_nct: "clock_mode2 (c\<lparr> next_change_time := x \<rparr>) = clock_mode2 c"
  by (simp add: clock_mode2_def Let_def decrement_nct set_count_nct set_OUT_nct)

lemma mode3_load_nct: "mode3_load (c\<lparr> next_change_time := x \<rparr>) = mode3_load c"
  by (simp add: mode3_load_def Let_def set_count_nct)

lemma mode3_count_nct: "mode3_count (c\<lparr> next_change_time := x \<rparr>) = mode3_count c"
  by (simp add: mode3_count_def Let_def decrement_nct)

lemma clock_mode3_nct: "clock_mode3 (c\<lparr> next_change_time := x \<rparr>) = clock_mode3 c"
  by (simp add: clock_mode3_def mode3_load_nct mode3_count_nct)

lemma clock_mode4_nct: "clock_mode4 (c\<lparr> next_change_time := x \<rparr>) = clock_mode4 c"
  by (simp add: clock_mode4_def Let_def decrement_nct set_count_nct set_OUT_nct)

lemma clock_mode5_nct: "clock_mode5 (c\<lparr> next_change_time := x \<rparr>) = clock_mode5 c"
  by (simp add: clock_mode5_def Let_def decrement_nct set_count_nct set_OUT_nct)

lemma clock_nct: "clock_counter (c\<lparr> next_change_time := x \<rparr>) = clock_counter c"
  by (simp add: clock_counter_def clock_mode0_nct clock_mode1_nct clock_mode2_nct clock_mode3_nct
      clock_mode4_nct clock_mode5_nct)

end
