(* ===== verification/Pit82c54_Modes.thy ===== *)
theory Pit82c54_Modes
  imports Pit82c54_Spec
begin

text \<open>
  Counting in jumps: \<open>clock_multiple\<close> advances a counter from one change of its output to the
  next, instead of clocking every cycle.  \<open>counter_mode\<close> is the contract that makes the jumps
  sound: on its states, while \<open>next_change_time\<close> is above 1 a clock only counts down (by 1, or by
  2 in mode 3) and takes 1 from \<open>next_change_time\<close>.  The locale is interpreted on the modes
  the chip implements.
\<close>

section \<open>The contract of a mode\<close>

locale counter_mode =
  fixes ok :: "counter_type \<Rightarrow> bool" and w :: nat
  assumes width: "ok c \<Longrightarrow> mode c \<in> {0, 1, 2, 4, 5} \<and> w = 1 \<or> mode c = 3 \<and> w = 2"
    and wf: "ok c \<Longrightarrow> ctr_wf c"
    and small: "ok c \<Longrightarrow> uint (next_change_time c) \<le> 0xFFFF"
    and clock_ok: "ok c \<Longrightarrow> ok (clock_counter c)"
    and idle: "ok c \<Longrightarrow> next_change_time c = 0 \<Longrightarrow>
      w = 1 \<and> clock_counter c = count_down 1 c \<and> clock_no_change n c = count_down (uint n) c"
    and step: "ok c \<Longrightarrow> 1 < next_change_time c \<Longrightarrow>
      clock_counter c = (count_down (int w) c)\<lparr> next_change_time := next_change_time c - 1 \<rparr>"
begin

lemma clocks_ok: "ok c \<Longrightarrow> ok ((clock_counter ^^ k) c)"
  by (induction k) (simp_all add: clock_ok)

lemma quiet_clocks:
  assumes "ok c" "j < unat (next_change_time c)"
  shows "(clock_counter ^^ j) c =
    (count_down (int w * int j) c)\<lparr> next_change_time := next_change_time c - of_nat j \<rparr>"
  using assms(2)
proof (induction j)
  case 0
  then show ?case using wf [OF assms(1)] by simp
next
  case (Suc j)
  let ?d = "(count_down (int w * int j) c)\<lparr> next_change_time := next_change_time c - of_nat j \<rparr>"
  have "(clock_counter ^^ j) c = ?d"
    using Suc by simp
  moreover have "unat (next_change_time c - of_nat j) = unat (next_change_time c) - j"
    using Suc.prems by (simp add: unat_sub_of_nat)
  then have "1 < next_change_time ?d"
    using Suc.prems by (simp add: word_less_nat_alt)
  ultimately have "clock_counter ?d = (count_down (int w) ?d)\<lparr> next_change_time := next_change_time ?d - 1 \<rparr>"
    using clocks_ok [OF assms(1), of j] step by metis
  then show ?case
    using \<open>(clock_counter ^^ j) c = ?d\<close> by (simp add: count_down_nct algebra_simps)
qed

lemma idle_clocks:
  assumes "ok c" "next_change_time c = 0"
  shows "(clock_counter ^^ k) c = count_down (int k) c"
proof (induction k)
  case 0
  then show ?case using wf [OF assms(1)] by simp
next
  case (Suc k)
  have "ok (count_down (int k) c)" "next_change_time (count_down (int k) c) = 0"
    using clocks_ok [OF assms(1), of k] assms(2) Suc by simp_all
  then show ?case
    using idle [of "count_down (int k) c"] Suc by (simp add: algebra_simps)
qed

lemma clock_multiple_eq:
  "ok c \<Longrightarrow> clock_counter_multiple n c = (clock_counter ^^ unat n) c"
proof (induction n c rule: clock_counter_multiple.induct)
  case (1 n c)
  let ?t = "next_change_time c"
  have w: "count_down (int w * uint k) c = decrement_multiple (of_nat w * k) c" if "uint k \<le> 0xFFFF" for k
  proof -
    have "uint (of_nat w * k) = int w * uint k"
      using width [OF \<open>ok c\<close>] that
      by (auto simp: uint_word_ariths mod_pos_pos_trivial)
    then show ?thesis
      using wf [OF \<open>ok c\<close>] by (simp add: decrement_multiple_count_down)
  qed
  consider "n = 0" | "n \<noteq> 0" "?t = 0" | "n \<noteq> 0" "?t \<noteq> 0" "n < ?t" | "n \<noteq> 0" "?t \<noteq> 0" "?t \<le> n"
    by fastforce
  then show ?case
  proof cases
    case 1
    then show ?thesis by (simp add: clock_counter_multiple.simps)
  next
    case 2
    then show ?thesis
      using idle [OF \<open>ok c\<close>] idle_clocks [OF \<open>ok c\<close>]
      by (simp add: clock_counter_multiple.simps [of n] clock_counter_multiple.simps [of 0]
          word_gt_0)
  next
    case 3
    then have "(clock_counter ^^ unat n) c =
        (count_down (int w * uint n) c)\<lparr> next_change_time := ?t - n \<rparr>"
      using quiet_clocks [OF \<open>ok c\<close>, of "unat n"] by (simp add: word_less_nat_alt)
    moreover have "uint n \<le> 0xFFFF"
      using 3 small [OF \<open>ok c\<close>] by (simp add: word_less_def)
    moreover have "clock_counter_multiple n c =
        (count_down (int w * uint n) c)\<lparr> next_change_time := ?t - n \<rparr>"
      using 3 width [OF \<open>ok c\<close>] w [OF \<open>uint n \<le> 0xFFFF\<close>, symmetric]
      by (elim disjE conjE)
        (simp_all add: clock_counter_multiple.simps [of n] clock_counter_multiple.simps [of 0]
          word_gt_0 Let_def mult.commute)
    ultimately show ?thesis by simp
  next
    case 4
    let ?d = "count_down (int w * uint (?t - 1)) c"
    have t: "uint (?t - 1) \<le> 0xFFFF" "unat (?t - 1) < unat ?t" "unat n = unat (n - ?t) + Suc (unat (?t - 1))"
    proof -
      have p: "unat ?t \<noteq> 0" "unat ?t \<le> unat n"
        using 4 by (simp_all add: unat_eq_zero word_le_nat_alt)
      have s: "unat (?t - 1) = unat ?t - 1"
        using p unat_sub_of_nat [of 1 ?t] by simp
      show "unat (?t - 1) < unat ?t" "unat n = unat (n - ?t) + Suc (unat (?t - 1))"
        using p s by (simp_all add: unat_sub word_le_nat_alt)
      show "uint (?t - 1) \<le> 0xFFFF"
        using p s small [OF \<open>ok c\<close>] unfolding uint_nat by linarith
    qed
    have "(clock_counter ^^ unat (?t - 1)) c = ?d\<lparr> next_change_time := ?t - (?t - 1) \<rparr>"
      using quiet_clocks [OF \<open>ok c\<close> t(2)] by simp
    then have ok: "ok (clock_counter ?d)"
      and "(clock_counter ^^ unat n) c = (clock_counter ^^ unat (n - ?t)) (clock_counter ?d)"
      using clocks_ok [OF \<open>ok c\<close>, of "Suc (unat (?t - 1))"] clock_nct
      by (simp_all only: t(3) funpow_add o_apply funpow.simps)
    moreover have "clock_counter_multiple n c = clock_counter_multiple (n - ?t) (clock_counter ?d)"
      using 4 width [OF \<open>ok c\<close>] w [OF t(1)]
      by (auto simp: clock_counter_multiple.simps [of n] word_gt_0 Let_def mult.commute)
    moreover have "clock_counter_multiple (n - ?t) (clock_counter ?d) =
        (clock_counter ^^ unat (n - ?t)) (clock_counter ?d)"
      using 4 width [OF \<open>ok c\<close>] w [OF t(1)] ok "1.IH"(3,5)
      by (auto simp: word_gt_0 mult.commute)
    ultimately show ?thesis by simp
  qed
qed

lemma clock_multiple_chunks:
  "ok c \<Longrightarrow> fold clock_counter_multiple ns c = (clock_counter ^^ sum_list (map unat ns)) c"
proof (induction ns arbitrary: c)
  case (Cons n ns)
  then show ?case
    using clock_multiple_eq [of c n] clocks_ok [of c "unat n"]
    by (simp add: add.commute [of "unat n"] funpow_add)
qed simp

end

section \<open>Loading the count\<close>

definition loaded :: "counter_type \<Rightarrow> Bit32u" where
  "loaded c = count_binary (set_count (ucast (inlatch c)) c)"

definition reload_wf :: "counter_type \<Rightarrow> bool" where
  "reload_wf c \<longleftrightarrow> ctr_wf (set_count (ucast (inlatch c)) c)"

lemma set_count_frame:
  "set_count d c = c\<lparr> count := count (set_count d c), count_binary := count_binary (set_count d c) \<rparr>"
  by (simp add: set_count_def set_binary_to_count_def)

lemma set_count_wf:
  "ctr_wf (set_count d c) \<Longrightarrow> set_count d c = with_count (count_binary (set_count d c)) c"
  by (subst set_count_frame) (simp add: ctr_wf_def with_count_def set_count_def set_binary_to_count_def)

lemma set_count_loaded: "reload_wf c \<Longrightarrow> set_count (ucast (inlatch c)) c = with_count (loaded c) c"
  unfolding reload_wf_def loaded_def by (rule set_count_wf)

lemma loaded_less: "reload_wf c \<Longrightarrow> uint (loaded c) < cmod c"
  using set_count_loaded [of c] by (metis ctr_wf_with_count reload_wf_def)

lemma reload_cong:
  "inlatch d = inlatch c \<Longrightarrow> bcd_mode d = bcd_mode c \<Longrightarrow> loaded d = loaded c \<and> reload_wf d = reload_wf c"
  by (simp add: loaded_def reload_wf_def ctr_wf_def cmod_def set_count_def set_binary_to_count_def)

lemma reload_wf_binary: "\<not> bcd_mode c \<Longrightarrow> reload_wf c \<and> loaded c = ucast (inlatch c)"
proof -
  assume b: "\<not> bcd_mode c"
  have "uint (ucast (inlatch c) :: Bit32u) < 65536"
    using unsigned_less [of "inlatch c", where 'a = int] by (simp add: unsigned_ucast_eq take_bit_int_eq_self)
  moreover have "(ucast (inlatch c) AND 0xFFFF :: Bit32u) = ucast (inlatch c)"
    unfolding and_FFFF by (rule bit_word_eqI) (auto simp: bit_simps dest: bit_imp_le_length)
  ultimately show ?thesis
    using b by (simp add: reload_wf_def loaded_def ctr_wf_def cmod_def set_count_def
        set_binary_to_count_def encode_def)
qed

lemma set_OUT_sel [simp]:
  "count_binary (set_OUT d c) = count_binary c" "count (set_OUT d c) = count c"
  "bcd_mode (set_OUT d c) = bcd_mode c" "mode (set_OUT d c) = mode c"
  "GATE (set_OUT d c) = GATE c" "OUTpin (set_OUT d c) = d"
  "triggerGATE (set_OUT d c) = triggerGATE c" "first_pass (set_OUT d c) = first_pass c"
  "count_written (set_OUT d c) = count_written c" "null_count (set_OUT d c) = null_count c"
  "inlatch (set_OUT d c) = inlatch c" "next_change_time (set_OUT d c) = next_change_time c"
  "state_bit_1 (set_OUT d c) = state_bit_1 c" "state_bit_2 (set_OUT d c) = state_bit_2 c"
  "write_state (set_OUT d c) = write_state c" "out_handler (set_OUT d c) = out_handler c"
  "ctr_wf (set_OUT d c) = ctr_wf c" "cmod (set_OUT d c) = cmod c"
  "outlatch (set_OUT d c) = outlatch c" "status_latch (set_OUT d c) = status_latch c" "rw_mode (set_OUT d c) = rw_mode c"
  "count_LSB_latched (set_OUT d c) = count_LSB_latched c" "count_MSB_latched (set_OUT d c) = count_MSB_latched c"
  "status_latched (set_OUT d c) = status_latched c" "read_state (set_OUT d c) = read_state c"
  "out_calls (set_OUT d c) = (if OUTpin c \<noteq> d \<and> out_handler c then out_calls c @ [d] else out_calls c)"
  by (simp_all add: set_OUT_def ctr_wf_def cmod_def)

lemma reload_set_OUT [simp]: "loaded (set_OUT d c) = loaded c" "reload_wf (set_OUT d c) = reload_wf c"
  using reload_cong [of "set_OUT d c" c] by simp_all

lemma sub_count_1:
  assumes "uint b < cmod c"
  shows "uint (sub_count b 1 c) = (if b = 0 then cmod c - 1 else uint b - 1)"
proof (cases "b = 0")
  case True
  then show ?thesis by (simp add: uint_sub_count cmod_def)
next
  case False
  then have "0 < uint b"
    using uint_ge_0 [of b] by (metis order_le_less uint_0_iff)
  then show ?thesis
    using False assms by (simp add: uint_sub_count mod_pos_pos_trivial)
qed

lemma uint_pred_and_FFFF:
  fixes b :: Bit32u
  assumes "uint b < 65536"
  shows "uint ((b - 1) AND 0xFFFF) = (if b = 0 then 65535 else uint b - 1)"
proof (cases "b = 0")
  case False
  then have "1 \<le> uint b"
    using uint_ge_0 [of b] by (metis order_le_less uint_0_iff int_one_le_iff_zero_less)
  then have "uint (b - 1) = uint b - 1"
    by (simp add: uint_sub_if')
  then show ?thesis
    using False assms \<open>1 \<le> uint b\<close> by (subst uint_and_FFFF) simp
qed (simp add: uint_and_FFFF)

lemma next_pred:
  assumes "b \<noteq> 2" "uint b < cmod c" "b \<noteq> 1" "bcd_mode c \<Longrightarrow> b \<noteq> 0"
  shows "(sub_count b 1 c - 1) AND 0xFFFF = ((b - 1) AND 0xFFFF) - 1"
proof (rule word_uint_eq_iff [THEN iffD2])
  let ?n = "sub_count b 1 c"
  have l: "uint b < 65536" "uint ?n < 65536"
    using assms(2) sub_count_less [of b 1 c] cmod_bounds(2) [of c] by linarith+
  show "uint ((?n - 1) AND 0xFFFF) = uint (((b - 1) AND 0xFFFF) - 1)"
  proof (cases "b = 0")
    case True
    then have "cmod c = 65536" "?n = 0xFFFF"
      using assms(4) by (auto simp: cmod_def sub_count_1_0)
    then show ?thesis using True by simp
  next
    case False
    then have "uint b \<noteq> 0" "uint b \<noteq> 1" "uint b \<noteq> 2"
      using assms by (simp_all add: word_uint_eq_iff)
    then have "3 \<le> uint b" using uint_ge_0 [of b] by linarith
    moreover have "uint ((b - 1) AND 0xFFFF) = uint b - 1" "uint ((?n - 1) AND 0xFFFF) = uint ?n - 1"
      using False calculation sub_count_1 [OF assms(2)] uint_pred_and_FFFF [OF l(1)]
        uint_pred_and_FFFF [OF l(2)] by auto
    ultimately show ?thesis
      using False sub_count_1 [OF assms(2)] by (simp add: uint_sub_if')
  qed
qed

section \<open>Mode 2, rate generator\<close>

definition mode2_ok :: "counter_type \<Rightarrow> bool" where
  "mode2_ok c \<longleftrightarrow> mode c = 2 \<and> GATE c \<and> count_written c \<and> ctr_wf c \<and> reload_wf c \<and>
     loaded c \<noteq> 1 \<and> (bcd_mode c \<longrightarrow> loaded c \<noteq> 0) \<and>
     (if triggerGATE c \<or> first_pass c then next_change_time c = 1
      else count_binary c \<noteq> 1 \<and> (bcd_mode c \<longrightarrow> count_binary c \<noteq> 0) \<and>
        next_change_time c = (count_binary c - 1) AND 0xFFFF)"

lemma mode2_load:
  assumes "mode2_ok c" "triggerGATE c \<or> first_pass c"
  shows "clock_counter c =
    (set_OUT True (with_count (loaded c) c))\<lparr> next_change_time := (loaded c - 1) AND 0xFFFF,
      null_count := False, first_pass := False, triggerGATE := False \<rparr>"
  using assms set_count_loaded [of c]
  by (auto simp: mode2_ok_def clock_counter_def clock_mode2_def Let_def set_OUT_def with_count_def)

lemma mode2_count:
  assumes "mode2_ok c" "\<not> triggerGATE c" "\<not> first_pass c"
  shows "clock_counter c =
    (if count_binary c = 2
     then (set_OUT False (count_down 1 c))\<lparr> next_change_time := 1, first_pass := True \<rparr>
     else (count_down 1 c)\<lparr> next_change_time := next_change_time c - 1 \<rparr>)"
proof -
  let ?b = "count_binary c" and ?n = "sub_count (count_binary c) 1 c"
  have wf: "ctr_wf c" and b: "uint ?b < cmod c" "?b \<noteq> 1" and bcd: "bcd_mode c \<Longrightarrow> ?b \<noteq> 0"
    using assms by (auto simp: mode2_ok_def ctr_wf_def)
  have n: "uint ?n = (if ?b = 0 then cmod c - 1 else uint ?b - 1)"
    using b by (rule_tac sub_count_1)
  have one: "count (count_down 1 c) = 1 \<longleftrightarrow> ?b = 2"
    using encode_eq_small [of 1 "count_down 1 c"] n cmod_cases [of c]
    by (auto simp: word_uint_eq_iff)
  have "?b \<noteq> 2 \<Longrightarrow> (?n - 1) AND 0xFFFF = ((?b - 1) AND 0xFFFF) - 1"
    by (rule next_pred [OF _ b bcd])
  then show ?thesis
    using assms wf one
    by (simp add: mode2_ok_def clock_counter_def clock_mode2_def Let_def decrement_count_down)
qed

lemma reload_frame [simp]:
  "loaded (with_count b c) = loaded c" "reload_wf (with_count b c) = reload_wf c"
  "loaded (count_down k c) = loaded c" "reload_wf (count_down k c) = reload_wf c"
  "loaded (c\<lparr> next_change_time := t \<rparr>) = loaded c" "reload_wf (c\<lparr> next_change_time := t \<rparr>) = reload_wf c"
  "loaded (c\<lparr> first_pass := f \<rparr>) = loaded c" "reload_wf (c\<lparr> first_pass := f \<rparr>) = reload_wf c"
  "loaded (c\<lparr> triggerGATE := f \<rparr>) = loaded c" "reload_wf (c\<lparr> triggerGATE := f \<rparr>) = reload_wf c"
  "loaded (c\<lparr> null_count := f \<rparr>) = loaded c" "reload_wf (c\<lparr> null_count := f \<rparr>) = reload_wf c"
  using reload_cong [of "with_count b c" c] reload_cong [of "count_down k c" c]
    reload_cong [of "c\<lparr> next_change_time := t \<rparr>" c] reload_cong [of "c\<lparr> first_pass := f \<rparr>" c]
    reload_cong [of "c\<lparr> triggerGATE := f \<rparr>" c] reload_cong [of "c\<lparr> null_count := f \<rparr>" c]
  by simp_all

lemma ctr_wf_frame [simp]:
  "ctr_wf (c\<lparr> first_pass := f \<rparr>) = ctr_wf c" "ctr_wf (c\<lparr> triggerGATE := f \<rparr>) = ctr_wf c"
  "ctr_wf (c\<lparr> null_count := f \<rparr>) = ctr_wf c" "ctr_wf (c\<lparr> state_bit_1 := f \<rparr>) = ctr_wf c"
  "ctr_wf (c\<lparr> state_bit_2 := f \<rparr>) = ctr_wf c"
  by (simp_all add: ctr_wf_def cmod_def)

lemma mode2_ok_clock: "mode2_ok c \<Longrightarrow> mode2_ok (clock_counter c)"
proof (cases "triggerGATE c \<or> first_pass c")
  case True
  assume "mode2_ok c"
  with True show ?thesis
    by (simp add: mode2_load) (simp add: mode2_ok_def loaded_less)
next
  case False
  assume ok: "mode2_ok c"
  let ?b = "count_binary c" and ?n = "sub_count (count_binary c) 1 c"
  have b: "uint ?b < cmod c" "?b \<noteq> 1" and bcd: "bcd_mode c \<Longrightarrow> ?b \<noteq> 0"
    using ok False by (auto simp: mode2_ok_def ctr_wf_def)
  have n: "uint ?n = (if ?b = 0 then cmod c - 1 else uint ?b - 1)"
    using b by (rule_tac sub_count_1)
  show ?thesis
  proof (cases "?b = 2")
    case True
    with ok False show ?thesis
      by (simp add: mode2_count) (simp add: mode2_ok_def)
  next
    case ne: False
    have "?n \<noteq> 1" "bcd_mode c \<Longrightarrow> ?n \<noteq> 0"
      using n b ne bcd cmod_cases [of c] by (auto simp: word_uint_eq_iff)
    with ok False ne show ?thesis
      using next_pred [OF ne b bcd] by (simp add: mode2_count) (simp add: mode2_ok_def)
  qed
qed

lemma mode2_nct: "mode2_ok c \<Longrightarrow> next_change_time c \<noteq> 0 \<and> uint (next_change_time c) \<le> 0xFFFF"
proof (cases "triggerGATE c \<or> first_pass c")
  case True
  then show "mode2_ok c \<Longrightarrow> ?thesis" by (auto simp: mode2_ok_def)
next
  case False
  assume ok: "mode2_ok c"
  have "uint (count_binary c) < 65536"
    using ok cmod_bounds(2) [of c] unfolding mode2_ok_def ctr_wf_def by linarith
  then show ?thesis
    using ok False uint_pred_and_FFFF [of "count_binary c"] by (auto simp: mode2_ok_def word_uint_eq_iff)
qed

interpretation m2: counter_mode mode2_ok 1
proof unfold_locales
  fix c n assume ok: "mode2_ok c"
  show "mode c \<in> {0, 1, 2, 4, 5} \<and> (1 :: nat) = 1 \<or> mode c = 3 \<and> (1 :: nat) = 2" "ctr_wf c"
    using ok by (simp_all add: mode2_ok_def)
  show "uint (next_change_time c) \<le> 0xFFFF" "mode2_ok (clock_counter c)"
    using ok mode2_nct mode2_ok_clock by auto
  show "(1 :: nat) = 1 \<and> clock_counter c = count_down 1 c \<and> clock_no_change n c = count_down (uint n) c"
    if "next_change_time c = 0"
    using that ok mode2_nct by blast
  show "clock_counter c = (count_down (int 1) c)\<lparr> next_change_time := next_change_time c - 1 \<rparr>"
    if t: "1 < next_change_time c"
  proof -
    have n: "\<not> triggerGATE c" "\<not> first_pass c" "count_binary c \<noteq> 2"
      using ok t by (auto simp: mode2_ok_def split: if_splits)
    then show ?thesis using mode2_count [OF ok] by simp
  qed
qed

subsection \<open>One period\<close>

text \<open>The period of a reload value: 0 stands for the modulus.\<close>

definition period :: "counter_type \<Rightarrow> nat" where
  "period c = nat (if loaded c = 0 then cmod c else uint (loaded c))"

definition mode2_start :: "counter_type \<Rightarrow> bool" where
  "mode2_start c \<longleftrightarrow> mode2_ok c \<and> \<not> triggerGATE c \<and> \<not> first_pass c \<and> \<not> null_count c \<and>
     OUTpin c \<and> count_binary c = loaded c"

definition pulses :: "counter_type \<Rightarrow> bool list \<Rightarrow> bool list" where
  "pulses c xs = out_calls c @ (if out_handler c then xs else [])"

lemma mode2_period:
  assumes "mode2_start c"
  shows "\<And>j. j < period c - 1 \<Longrightarrow> OUTpin ((clock_counter ^^ j) c)"
    and "\<not> OUTpin ((clock_counter ^^ (period c - 1)) c)"
    and "(clock_counter ^^ period c) c = c\<lparr> out_calls := pulses c [False, True] \<rparr>"
    and "\<And>j. j < period c - 1 \<Longrightarrow> out_calls ((clock_counter ^^ j) c) = out_calls c"
    and "out_calls ((clock_counter ^^ (period c - 1)) c) = pulses c [False]"
    and "2 \<le> period c"
proof -
  let ?N = "period c" and ?b = "loaded c"
  have ok: "mode2_ok c" and wf: "reload_wf c" and b1: "?b \<noteq> 1" and cb: "count_binary c = ?b"
    and bcd: "bcd_mode c \<Longrightarrow> ?b \<noteq> 0"
    and t: "next_change_time c = (?b - 1) AND 0xFFFF" "\<not> triggerGATE c" "\<not> first_pass c"
    using assms by (auto simp: mode2_start_def mode2_ok_def)
  have "uint ?b < 65536"
    using loaded_less [OF wf] cmod_bounds(2) [of c] by linarith
  then have t': "uint (next_change_time c) = (if ?b = 0 then 65535 else uint ?b - 1)"
    unfolding t(1) by (rule uint_pred_and_FFFF)
  have N': "int ?N = (if ?b = 0 then cmod c else uint ?b)"
    by (simp add: period_def order_less_imp_le)
  then have n: "uint (next_change_time c) = int ?N - 1"
    using t' bcd cmod_cases [of c] by auto
  have i: "int ?N \<noteq> 0" "int ?N \<noteq> 1"
    using N' b1 cmod_cases [of c] by (auto simp: word_uint_eq_iff)
  show N: "2 \<le> ?N"
    using i by linarith
  have nct: "unat (next_change_time c) = ?N - 1"
    using n N unfolding uint_nat by linarith
  have quiet: "(clock_counter ^^ j) c = (count_down (int j) c)\<lparr> next_change_time := next_change_time c - of_nat j \<rparr>"
    if "j < ?N - 1" for j
    using m2.quiet_clocks [OF ok, of j] that nct by simp
  then show "j < ?N - 1 \<Longrightarrow> OUTpin ((clock_counter ^^ j) c)" for j
    using assms by (simp add: mode2_start_def)
  show "j < ?N - 1 \<Longrightarrow> out_calls ((clock_counter ^^ j) c) = out_calls c" for j
    using quiet by simp
  let ?d = "(clock_counter ^^ (?N - 2)) c"
  have d: "?d = (count_down (int (?N - 2)) c)\<lparr> next_change_time := 1 \<rparr>"
  proof -
    have "unat (next_change_time c - of_nat (?N - 2)) = 1"
      using nct N by (subst unat_sub_of_nat) simp_all
    then have "next_change_time c - of_nat (?N - 2) = 1"
      by (simp add: word_unat_eq_iff)
    then show ?thesis using quiet [of "?N - 2"] N by simp
  qed
  have two: "sub_count ?b (int (?N - 2)) c = 2"
  proof (rule word_uint_eq_iff [THEN iffD2])
    have "(uint ?b - int (?N - 2)) mod cmod c = 2"
      using N N' cmod_cases [of c] by (auto simp: of_nat_diff)
    then show "uint (sub_count ?b (int (?N - 2)) c) = uint (2 :: Bit32u)"
      by (simp add: uint_sub_count)
  qed
  have "mode2_ok ?d" by (rule m2.clocks_ok [OF ok])
  then have "clock_counter ?d = (set_OUT False (count_down 1 ?d))\<lparr> next_change_time := 1, first_pass := True \<rparr>"
    by (subst mode2_count) (simp_all add: d t two cb)
  moreover have "(clock_counter ^^ (?N - 1)) c = clock_counter ?d"
    using N by (metis Suc_1 Suc_diff_Suc Suc_le_lessD comp_apply funpow.simps(2) numeral_2_eq_2)
  ultimately have e: "(clock_counter ^^ (?N - 1)) c =
      (set_OUT False (count_down (int (?N - 1)) c))\<lparr> next_change_time := 1, first_pass := True \<rparr>"
    using N by (simp add: d count_down_nct set_OUT_nct of_nat_diff)
  then show "\<not> OUTpin ((clock_counter ^^ (?N - 1)) c)" by simp
  show "out_calls ((clock_counter ^^ (?N - 1)) c) = pulses c [False]"
    unfolding e using assms by (simp add: mode2_start_def pulses_def)
  have "mode2_ok ((clock_counter ^^ (?N - 1)) c)" by (rule m2.clocks_ok [OF ok])
  then have "clock_counter ((clock_counter ^^ (?N - 1)) c) = c\<lparr> out_calls := pulses c [False, True] \<rparr>"
    unfolding e by (rule mode2_load [THEN trans])
      (insert assms, simp_all add: mode2_start_def counter_type.equality pulses_def mode2_ok_def ctr_wf_def
        cb encode_def)
  then show "(clock_counter ^^ ?N) c = c\<lparr> out_calls := pulses c [False, True] \<rparr>"
    using N Suc_diff_1 [of "period c"] by (metis comp_apply funpow.simps(2) less_le_trans zero_less_numeral)
qed

text \<open>The handler calls after any number of cycles.\<close>

definition rate_calls :: "nat \<Rightarrow> nat \<Rightarrow> bool list" where
  "rate_calls N j = concat (replicate (j div N) [False, True]) @ (if j mod N = N - 1 then [False] else [])"

lemma mode2_start_calls:
  "mode2_start c \<Longrightarrow> mode2_start (c\<lparr> out_calls := xs \<rparr>)" "period (c\<lparr> out_calls := xs \<rparr>) = period c"
proof -
  let ?d = "c\<lparr> out_calls := xs \<rparr>"
  have l: "loaded ?d = loaded c" "reload_wf ?d = reload_wf c" using reload_cong [of ?d c] by simp_all
  moreover have "ctr_wf ?d = ctr_wf c" by (simp add: ctr_wf_def cmod_def)
  ultimately show "mode2_start c \<Longrightarrow> mode2_start ?d" "period ?d = period c"
    by (simp_all add: mode2_start_def mode2_ok_def period_def cmod_def)
qed

lemma mode2_rounds:
  "mode2_start c \<Longrightarrow> (clock_counter ^^ (period c * m)) c =
     c\<lparr> out_calls := pulses c (concat (replicate m [False, True])) \<rparr>"
proof (induction m)
  case 0
  then show ?case by (simp add: pulses_def)
next
  case (Suc m)
  let ?d = "c\<lparr> out_calls := pulses c (concat (replicate m [False, True])) \<rparr>"
  have "mode2_start ?d" "period ?d = period c"
    using mode2_start_calls(1) [OF Suc.prems] mode2_start_calls(2) [of _ c] by blast+
  then have "(clock_counter ^^ period c) ?d = c\<lparr> out_calls := pulses ?d [False, True] \<rparr>"
    using mode2_period(3) [of ?d] by simp
  also have "pulses ?d [False, True] = pulses c (concat (replicate (Suc m) [False, True]))"
    unfolding concat_replicate_Suc by (simp add: pulses_def)
  finally show ?case
    using Suc by (simp only: mult_Suc_right funpow_add o_apply)
qed

lemma mode2_calls:
  assumes "mode2_start c"
  shows "out_calls ((clock_counter ^^ j) c) = pulses c (rate_calls (period c) j)"
proof -
  let ?N = "period c" and ?d = "c\<lparr> out_calls := pulses c (concat (replicate (j div period c) [False, True])) \<rparr>"
  note d = mode2_start_calls(1) [OF assms] mode2_start_calls(2) [of _ c]
  have "2 \<le> ?N" by (rule mode2_period(6) [OF assms])
  then have "j mod ?N \<le> ?N - 1" using mod_less_divisor [of ?N j] by linarith
  have "j = j mod ?N + ?N * (j div ?N)" by simp
  then have "(clock_counter ^^ j) c = (clock_counter ^^ (j mod ?N)) ?d"
    using mode2_rounds [OF assms, of "j div ?N"] by (metis comp_apply funpow_add)
  also have "out_calls \<dots> = pulses c (rate_calls ?N j)"
  proof (cases "j mod ?N = ?N - 1")
    case True
    then have "out_calls ((clock_counter ^^ (j mod ?N)) ?d) = pulses ?d [False]"
      using mode2_period(5) [OF d(1)] d(2) by simp
    then show ?thesis using True by (simp add: pulses_def rate_calls_def)
  next
    case False
    then have "j mod ?N < period ?d - 1" using \<open>j mod ?N \<le> ?N - 1\<close> d(2) by simp
    from mode2_period(4) [OF d(1) this] show ?thesis using False by (simp add: rate_calls_def pulses_def)
  qed
  finally show ?thesis .
qed

subsection \<open>Programming a rate\<close>

text \<open>The three writes of a driver: control word (both bytes, mode 2, binary), low byte, high byte.\<close>

definition program_rate :: "Bit8u \<Rightarrow> Bit8u \<Rightarrow> counter_type \<Rightarrow> counter_type" where
  "program_rate lo hi c = write_counter hi (write_counter lo (program_counter 3 2 0 c))"

definition latch_value :: "Bit8u \<Rightarrow> Bit8u \<Rightarrow> Bit16u" where
  "latch_value lo hi = ucast lo OR push_bit 8 (ucast hi)"

lemma program_counter_3:
  "program_counter 3 2 0 c =
     (set_OUT True (c\<lparr> null_count := True, count_LSB_latched := False, count_MSB_latched := False,
        status_latched := False, inlatch := 0, count_written := False, first_pass := True,
        rw_mode := 3, bcd_mode := False, mode := 2, read_state := LSByte_multiple,
        write_state := LSByte_multiple \<rparr>))\<lparr> next_change_time := 0 \<rparr>"
  by (simp add: program_counter_def)

lemma write_low_byte:
  "write_state c = LSByte_multiple \<Longrightarrow> mode c = 2 \<Longrightarrow> write_counter lo c =
     c\<lparr> inlatch := ucast lo, write_state := MSByte_multiple, next_change_time := 1 \<rparr>"
  by (simp add: write_counter_def write_inlatch_def write_schedule_def)

lemma write_high_byte:
  "write_state c = MSByte_multiple \<Longrightarrow> mode c = 2 \<Longrightarrow> write_counter hi c =
     (set_count (ucast (inlatch c OR push_bit 8 (ucast hi)))
       (c\<lparr> write_state := LSByte_multiple, inlatch := inlatch c OR push_bit 8 (ucast hi),
           count_written := True, null_count := True \<rparr>))\<lparr> next_change_time := 1 \<rparr>"
  by (simp add: write_counter_def write_inlatch_def write_schedule_def set_count_def
      set_binary_to_count_def)

lemma set_count_sel [simp]:
  "bcd_mode (set_count d c) = bcd_mode c" "mode (set_count d c) = mode c"
  "GATE (set_count d c) = GATE c" "OUTpin (set_count d c) = OUTpin c"
  "triggerGATE (set_count d c) = triggerGATE c" "first_pass (set_count d c) = first_pass c"
  "count_written (set_count d c) = count_written c" "null_count (set_count d c) = null_count c"
  "inlatch (set_count d c) = inlatch c" "next_change_time (set_count d c) = next_change_time c"
  "write_state (set_count d c) = write_state c" "out_handler (set_count d c) = out_handler c"
  "out_calls (set_count d c) = out_calls c"
  by (simp_all add: set_count_def set_binary_to_count_def)

lemma program_rate_ok:
  assumes "GATE c" "latch_value lo hi \<noteq> 1"
  shows "mode2_ok (program_rate lo hi c)"
    and "mode2_start (clock_counter (program_rate lo hi c))"
    and "pulses (clock_counter (program_rate lo hi c)) xs = pulses c ((if OUTpin c then [] else [True]) @ xs)"
    and "period (clock_counter (program_rate lo hi c)) =
      (if latch_value lo hi = 0 then 65536 else unat (latch_value lo hi))"
proof -
  let ?c = "program_rate lo hi c" and ?v = "latch_value lo hi"
  have f: "\<not> bcd_mode ?c" "mode ?c = 2" "GATE ?c" "first_pass ?c" "count_written ?c"
    "next_change_time ?c = 1" "inlatch ?c = ?v" "OUTpin ?c" "out_handler ?c = out_handler c"
    "out_calls ?c = pulses c (if OUTpin c then [] else [True])"
    using assms(1)
    by (simp_all add: program_rate_def program_counter_3 write_low_byte write_high_byte pulses_def
        latch_value_def)
  have r: "reload_wf ?c" "loaded ?c = ucast ?v"
    using reload_wf_binary [OF f(1)] f(7) by simp_all
  have "count ?c = ucast ?v AND 0xFFFF" "count_binary ?c = ucast ?v AND 0xFFFF"
    by (simp_all add: program_rate_def program_counter_3 write_low_byte write_high_byte
        latch_value_def set_count_def set_binary_to_count_def)
  then have wf: "ctr_wf ?c"
    using f(1) by (simp add: ctr_wf_def cmod_def encode_def uint_and_FFFF)
  have v1: "(ucast ?v :: Bit32u) \<noteq> 1"
    using assms(2) by (simp add: word_uint_eq_iff)
  then show ok: "mode2_ok ?c"
    using f r wf by (simp add: mode2_ok_def)
  have cl: "clock_counter ?c = (with_count (ucast ?v) ?c)\<lparr> next_change_time := (ucast ?v - 1) AND 0xFFFF,
      null_count := False, first_pass := False, triggerGATE := False \<rparr>"
    using mode2_load [OF ok] f by (simp add: r set_OUT_def)
  show "mode2_start (clock_counter ?c)"
    using m2.clock_ok [OF ok] f r by (simp add: mode2_start_def cl)
  show "pulses (clock_counter ?c) xs = pulses c ((if OUTpin c then [] else [True]) @ xs)"
    unfolding cl by (simp add: pulses_def f)
  show "period (clock_counter ?c) = (if ?v = 0 then 65536 else unat ?v)"
    unfolding cl using f r by (simp add: period_def cmod_def word_uint_eq_iff)
qed

subsection \<open>The chip\<close>

lemma counter_clock_multiple:
  "counter (clock_multiple i n s) j =
     (if j = i \<and> i \<le> 2 then clock_counter_multiple n (counter s j) else counter s j)"
  by (simp add: clock_multiple_def upd_counter_def)

lemma counter_fold_clock:
  "i \<le> 2 \<Longrightarrow> counter (fold (clock_multiple i) ns s) i = fold clock_counter_multiple ns (counter s i)"
  by (induction ns arbitrary: s) (simp_all add: counter_clock_multiple)

text \<open>Control word for counter \<open>i\<close>, both bytes, mode \<open>m\<close>, binary.\<close>

definition control_word :: "nat \<Rightarrow> Bit8u \<Rightarrow> Bit8u" where
  "control_word i m = push_bit 6 (of_nat i) OR 0x30 OR push_bit 1 m"

lemma write_control_word:
  assumes "i \<le> 2" "m \<in> {0, 1, 2, 3, 4, 5}"
  shows "pit_write 3 (control_word i m) s =
    upd_counter i (program_counter 3 m 0) (s\<lparr> controlword := control_word i m \<rparr>)"
proof -
  have "i \<in> {0, 1, 2}" using assms(1) by auto
  with assms(2) show ?thesis
    by (elim insertE emptyE; simp add: control_word_def pit_write_def write_control_def)
qed

lemma counter_program_rate:
  "i \<le> 2 \<Longrightarrow> counter (pit_write i hi (pit_write i lo (pit_write 3 (control_word i 2) s))) i =
     program_rate lo hi (counter s i)"
  by (simp add: write_control_word) (simp add: pit_write_def upd_counter_def program_rate_def)

text \<open>
  C15. A counter with its GATE high and a handler on its output, programmed in mode 2, divides its clock: after the three port writes of the control
  word and a count \<open>N\<close> other than 1 (0 standing for 65536), and for any way the chip's clock is
  delivered in blocks, the OUT line has made one low pulse per \<open>N\<close> cycles after the load, and
  nothing else.
\<close>
theorem rate_generator_divides:
  assumes "i \<le> 2" "GATE (counter s i)" "latch_value lo hi \<noteq> 1" "out_handler (counter s i)"
    and "N = (if latch_value lo hi = 0 then 65536 else unat (latch_value lo hi))"
    and "sum_list (map unat ns) = 1 + N * m"
  shows "out_calls (counter (fold (clock_multiple i) ns
      (pit_write i hi (pit_write i lo (pit_write 3 (control_word i 2) s)))) i) =
    out_calls (counter s i) @ (if OUTpin (counter s i) then [] else [True]) @
      concat (replicate m [False, True])"
proof -
  let ?c = "program_rate lo hi (counter s i)"
  note ok = program_rate_ok [OF assms(2,3)]
  have "fold clock_counter_multiple ns ?c = (clock_counter ^^ (N * m)) (clock_counter ?c)"
    using m2.clock_multiple_chunks [OF ok(1)] assms(6) by (simp add: funpow_swap1)
  also have "\<dots> = (clock_counter ?c)\<lparr> out_calls :=
      pulses (clock_counter ?c) (concat (replicate m [False, True])) \<rparr>"
    using mode2_rounds [OF ok(2)] ok(4) assms(5) by simp
  finally have "out_calls (fold clock_counter_multiple ns ?c) =
      pulses (counter s i) ((if OUTpin (counter s i) then [] else [True]) @ concat (replicate m [False, True]))"
    by (simp add: ok(3))
  then show ?thesis
    using assms(1,4) by (simp add: counter_fold_clock counter_program_rate pulses_def)
qed

lemma rate_generator_divides_witness:
  "out_calls (counter (fold (clock_multiple 0) [1, 10, 11]
      (pit_write 0 0 (pit_write 0 7 (pit_write 3 (control_word 0 2) (set_OUT_handler 0 new_pit))))) 0) =
    [False, True, False, True, False, True]"
  using rate_generator_divides [of 0 "set_OUT_handler 0 new_pit" 7 0 7 "[1, 10, 11]" 3] by code_simp

text \<open>
  Within each period of a running mode 2 counter the OUT line is high for \<open>N - 1\<close> cycles and
  low for the last one, and after \<open>N\<close> cycles the counter is back in the same state, having called
  its handler twice.
\<close>
theorem rate_generator_duty_cycle:
  assumes "mode2_start c"
  shows "map (\<lambda>j. OUTpin ((clock_counter ^^ j) c)) [0..<period c] = replicate (period c - 1) True @ [False] \<and>
    (clock_counter ^^ period c) c = c\<lparr> out_calls := pulses c [False, True] \<rparr>"
proof (intro conjI mode2_period(3) [OF assms])
  have "period c \<noteq> 0"
    using mode2_period(2) [OF assms] assms by (auto simp: mode2_start_def intro: ccontr)
  then show "map (\<lambda>j. OUTpin ((clock_counter ^^ j) c)) [0..<period c] = replicate (period c - 1) True @ [False]"
    using mode2_period(1,2) [OF assms]
    by (cases "period c") (auto intro!: nth_equalityI simp: nth_append less_Suc_eq)
qed

lemma rate_generator_duty_cycle_witness:
  "map (\<lambda>j. OUTpin ((clock_counter ^^ j) (clock_counter (program_rate 4 0 (init_counter blank_counter)))))
     [0, 1, 2, 3] = [True, True, True, False]"
  using rate_generator_duty_cycle [of "clock_counter (program_rate 4 0 (init_counter blank_counter))"]
  by code_simp

end
