(* ===== verification/Pit82c54_OneShot.thy ===== *)
theory Pit82c54_OneShot
  imports Pit82c54_Modes
begin

text \<open>
  Mode 0, interrupt on terminal count: the contract of \<open>counter_mode\<close> for it, and what a driver
  sees of it.
\<close>

definition mode0_ok :: "counter_type \<Rightarrow> bool" where
  "mode0_ok c \<longleftrightarrow> mode c = 0 \<and> GATE c \<and> count_written c \<and> write_state c \<noteq> MSByte_multiple \<and>
     ctr_wf c \<and> reload_wf c \<and>
     (if null_count c then next_change_time c = 1 \<and> \<not> OUTpin c
      else \<not> triggerGATE c \<and>
        next_change_time c = (if OUTpin c then 0 else change_after (count_binary c)))"

lemma mode0_load:
  assumes "mode0_ok c" "null_count c"
  shows "clock_counter c = (with_count (loaded c) c)
    \<lparr> next_change_time := change_after (loaded c), null_count := False, triggerGATE := False \<rparr>"
  using assms set_count_loaded [of c]
  by (simp add: mode0_ok_def clock_counter_def clock_mode0_def Let_def)

lemma mode0_high:
  assumes "mode0_ok c" "\<not> null_count c" "OUTpin c"
  shows "clock_counter c = count_down 1 c"
  using assms
  by (simp add: mode0_ok_def clock_counter_def clock_mode0_def Let_def decrement_count_down
      counter_type.equality)

lemma count_down_1_zero:
  assumes "ctr_wf c"
  shows "count (count_down 1 c) = 0 \<longleftrightarrow> count_binary c = 1"
proof -
  have b: "uint (count_binary c) < cmod c" using assms by (simp add: ctr_wf_def)
  have "count (count_down 1 c) = 0 \<longleftrightarrow> sub_count (count_binary c) 1 c = 0"
    using encode_eq_small [of 0 "count_down 1 c"] by simp
  also have "\<dots> \<longleftrightarrow> count_binary c = 1"
    using sub_count_1 [OF b] cmod_cases [of c] by (auto simp: word_uint_eq_iff)
  finally show ?thesis .
qed

lemma mode0_low:
  assumes "mode0_ok c" "\<not> null_count c" "\<not> OUTpin c"
  shows "clock_counter c =
    (if count_binary c = 1 then (set_OUT True (count_down 1 c))\<lparr> next_change_time := 0 \<rparr>
     else (count_down 1 c)\<lparr> next_change_time := count_binary (count_down 1 c) AND 0xFFFF \<rparr>)"
proof -
  have "sub_count 1 1 c = 0" by (simp add: sub_count_def)
  then show ?thesis
    using assms count_down_1_zero [of c]
    by (simp add: mode0_ok_def clock_counter_def clock_mode0_def Let_def decrement_count_down
        set_OUT_nct counter_type.equality)
qed

lemma change_after_count: "ctr_wf c \<Longrightarrow> change_after (count_binary c) = (if count_binary c = 0 then 1 else count_binary c)"
  using and_FFFF_id [of "count_binary c"] order.strict_trans2 [OF _ cmod_bounds(2)]
  by (auto simp: change_after_def ctr_wf_def)

lemma mode0_ok_clock: "mode0_ok c \<Longrightarrow> mode0_ok (clock_counter c)"
proof -
  assume ok: "mode0_ok c"
  consider "null_count c" | "\<not> null_count c" "OUTpin c" | "\<not> null_count c" "\<not> OUTpin c" by blast
  then show ?thesis
  proof cases
    case 1
    then show ?thesis
      using ok by (simp add: mode0_load) (simp add: mode0_ok_def loaded_less)
  next
    case 2
    then show ?thesis
      using ok by (simp add: mode0_high) (simp add: mode0_ok_def)
  next
    case 3
    have "sub_count (count_binary c) 1 c = 0 \<longleftrightarrow> count_binary c = 1"
      using ok count_down_1_zero [of c] encode_eq_small [of 0 "count_down 1 c"]
      by (simp add: mode0_ok_def)
    then show ?thesis
      using 3 ok by (simp add: mode0_low) (simp add: mode0_ok_def change_after_def)
  qed
qed

interpretation m0: counter_mode mode0_ok 1
proof unfold_locales
  fix c n assume ok: "mode0_ok c"
  have wf: "ctr_wf c" using ok by (simp add: mode0_ok_def)
  then have b: "uint (count_binary c) < 65536"
    using cmod_bounds(2) [of c] unfolding ctr_wf_def by linarith
  show "mode c \<in> {0, 1, 2, 4, 5} \<and> (1 :: nat) = 1 \<or> mode c = 3 \<and> (1 :: nat) = 2" "ctr_wf c"
    using ok by (simp_all add: mode0_ok_def)
  show "uint (next_change_time c) \<le> 0xFFFF" "mode0_ok (clock_counter c)"
    using ok b mode0_ok_clock by (auto simp: mode0_ok_def change_after_count split: if_splits)
  show "(1 :: nat) = 1 \<and> clock_counter c = count_down 1 c \<and> clock_no_change n c = count_down (uint n) c"
    if t: "next_change_time c = 0"
  proof -
    have "\<not> null_count c" "OUTpin c"
      using ok t by (auto simp: mode0_ok_def change_after_count split: if_splits)
    then show ?thesis
      using ok wf mode0_high [OF ok]
      by (simp add: clock_no_change_def decrement_multiple_count_down mode0_ok_def)
  qed
  show "clock_counter c = (count_down (int 1) c)\<lparr> next_change_time := next_change_time c - 1 \<rparr>"
    if t: "1 < next_change_time c"
  proof -
    have n: "\<not> null_count c" "\<not> OUTpin c" "count_binary c \<noteq> 0" "count_binary c \<noteq> 1"
      "next_change_time c = count_binary c"
      using ok t by (auto simp: mode0_ok_def change_after_count split: if_splits)
    have "uint (sub_count (count_binary c) 1 c) = uint (count_binary c - 1)"
      using n wf sub_count_1 [of "count_binary c" c] one_le_uint [OF n(3)]
      by (auto simp: ctr_wf_def uint_sub_if' word_uint_eq_iff)
    then have "sub_count (count_binary c) 1 c AND 0xFFFF = count_binary c - 1"
      using sub_count_less [of "count_binary c" 1 c] cmod_bounds(2) [of c]
      by (subst and_FFFF_id) (linarith, simp add: word_uint_eq_iff)
    then show ?thesis using mode0_low [OF ok n(1,2)] n by simp
  qed
qed

section \<open>Terminal count\<close>

definition mode0_run :: "counter_type \<Rightarrow> bool" where
  "mode0_run c \<longleftrightarrow> mode0_ok c \<and> \<not> null_count c \<and> \<not> OUTpin c"

definition cycles_left :: "counter_type \<Rightarrow> nat" where
  "cycles_left c = nat (if count_binary c = 0 then cmod c else uint (count_binary c))"

lemma cycles_left_pos: "0 < cycles_left c"
  using one_le_uint [of "count_binary c"] by (auto simp: cycles_left_def)

lemma mode0_step:
  assumes "mode0_run c"
  shows "cycles_left c = 1 \<Longrightarrow> clock_counter c = (set_OUT True (count_down 1 c))\<lparr> next_change_time := 0 \<rparr>"
    and "cycles_left c \<noteq> 1 \<Longrightarrow> mode0_run (clock_counter c) \<and>
      cycles_left (clock_counter c) = cycles_left c - 1 \<and> pulses (clock_counter c) xs = pulses c xs"
proof -
  have ok: "mode0_ok c" "\<not> null_count c" "\<not> OUTpin c" and b: "uint (count_binary c) < cmod c"
    using assms by (auto simp: mode0_run_def mode0_ok_def ctr_wf_def)
  have one: "cycles_left c = 1 \<longleftrightarrow> count_binary c = 1"
    using cmod_cases [of c] one_le_uint [of "count_binary c"]
    by (auto simp: cycles_left_def word_uint_eq_iff nat_eq_iff)
  show "cycles_left c = 1 \<Longrightarrow> clock_counter c = (set_OUT True (count_down 1 c))\<lparr> next_change_time := 0 \<rparr>"
    using mode0_low [OF ok] one by simp
  assume ne: "cycles_left c \<noteq> 1"
  then have ne1: "count_binary c \<noteq> 1" using one by simp
  have z: "sub_count (count_binary c) 1 c \<noteq> 0"
    using sub_count_1 [OF b] cmod_cases [of c] ne1 by (auto simp: word_uint_eq_iff)
  have "cycles_left (clock_counter c) = cycles_left c - 1"
    using mode0_low [OF ok] ne1 z sub_count_1 [OF b] cmod_bounds(3) [of c]
    by (auto simp: cycles_left_def simp del: nat_uint_eq)
  then show "mode0_run (clock_counter c) \<and>
      cycles_left (clock_counter c) = cycles_left c - 1 \<and> pulses (clock_counter c) xs = pulses c xs"
    using mode0_ok_clock [OF ok(1)] mode0_low [OF ok] ne1 ok by (simp add: mode0_run_def pulses_def)
qed

lemma mode0_high_clocks:
  "mode0_ok c \<Longrightarrow> \<not> null_count c \<Longrightarrow> OUTpin c \<Longrightarrow>
    OUTpin ((clock_counter ^^ k) c) \<and> pulses ((clock_counter ^^ k) c) xs = pulses c xs"
  using m0.idle_clocks [of c k] by (simp add: mode0_ok_def pulses_def)

lemma mode0_fires:
  "mode0_run c \<Longrightarrow> (OUTpin ((clock_counter ^^ k) c) \<longleftrightarrow> cycles_left c \<le> k) \<and>
     pulses ((clock_counter ^^ k) c) xs = pulses c ((if cycles_left c \<le> k then [True] else []) @ xs)"
proof (induction k arbitrary: c)
  case 0
  then show ?case using cycles_left_pos [of c] by (simp add: mode0_run_def)
next
  case (Suc k)
  show ?case
  proof (cases "cycles_left c = 1")
    case True
    let ?d = "clock_counter c"
    have d: "?d = (set_OUT True (count_down 1 c))\<lparr> next_change_time := 0 \<rparr>"
      using mode0_step(1) [OF Suc.prems True] .
    have "mode0_ok ?d" "\<not> null_count ?d" "OUTpin ?d"
      using Suc.prems mode0_ok_clock [of c] by (simp_all add: d mode0_run_def)
    then show ?thesis
      using mode0_high_clocks [of ?d k xs] Suc.prems True
      by (simp add: funpow_Suc_right d mode0_run_def pulses_def del: funpow.simps)
  next
    case False
    then have "1 < cycles_left c" using cycles_left_pos [of c] by linarith
    then show ?thesis
      using mode0_step(2) [OF Suc.prems False] Suc.IH [of "clock_counter c"]
      by (simp add: funpow_Suc_right pulses_def del: funpow.simps) (auto simp: pulses_def)
  qed
qed

section \<open>Programming a delay\<close>

definition program_delay :: "Bit8u \<Rightarrow> Bit8u \<Rightarrow> counter_type \<Rightarrow> counter_type" where
  "program_delay lo hi c = write_counter hi (write_counter lo (program_counter 3 0 0 c))"

lemma program_counter_30:
  "program_counter 3 0 0 c =
     (set_OUT False (c\<lparr> null_count := True, count_LSB_latched := False, count_MSB_latched := False,
        status_latched := False, inlatch := 0, count_written := False, first_pass := True,
        rw_mode := 3, bcd_mode := False, mode := 0, read_state := LSByte_multiple,
        write_state := LSByte_multiple \<rparr>))\<lparr> next_change_time := 0 \<rparr>"
  by (simp add: program_counter_def)

lemma write_low_byte_0:
  "write_state c = LSByte_multiple \<Longrightarrow> mode c = 0 \<Longrightarrow> \<not> OUTpin c \<Longrightarrow> write_counter lo c =
     c\<lparr> inlatch := ucast lo, write_state := MSByte_multiple, next_change_time := 1 \<rparr>"
  by (simp add: write_counter_def write_inlatch_def write_schedule_def set_OUT_def)

lemma write_high_byte_0:
  "write_state c = MSByte_multiple \<Longrightarrow> mode c = 0 \<Longrightarrow> write_counter hi c =
     (set_count (ucast (inlatch c OR push_bit 8 (ucast hi)))
       (c\<lparr> write_state := LSByte_multiple, inlatch := inlatch c OR push_bit 8 (ucast hi),
           count_written := True, null_count := True \<rparr>))\<lparr> next_change_time := 1 \<rparr>"
  by (simp add: write_counter_def write_inlatch_def write_schedule_def set_count_def
      set_binary_to_count_def)

lemma program_delay_ok:
  assumes "GATE c"
  shows "mode0_ok (program_delay lo hi c)"
    and "\<not> OUTpin (program_delay lo hi c)"
    and "mode0_run (clock_counter (program_delay lo hi c))"
    and "pulses (clock_counter (program_delay lo hi c)) xs = pulses c ((if OUTpin c then [False] else []) @ xs)"
    and "pulses (program_delay lo hi c) xs = pulses c ((if OUTpin c then [False] else []) @ xs)"
    and "cycles_left (clock_counter (program_delay lo hi c)) =
      (if latch_value lo hi = 0 then 65536 else unat (latch_value lo hi))"
proof -
  let ?c = "program_delay lo hi c" and ?v = "latch_value lo hi"
  have f: "\<not> bcd_mode ?c" "mode ?c = 0" "GATE ?c" "null_count ?c" "count_written ?c"
    "next_change_time ?c = 1" "inlatch ?c = ?v" "\<not> OUTpin ?c" "out_handler ?c = out_handler c"
    "write_state ?c = LSByte_multiple"
    "out_calls ?c = pulses c (if OUTpin c then [False] else [])"
    using assms
    by (simp_all add: program_delay_def program_counter_30 write_low_byte_0 write_high_byte_0 pulses_def
        latch_value_def)
  have r: "reload_wf ?c" "loaded ?c = ucast ?v"
    using reload_wf_binary [OF f(1)] f(7) by simp_all
  have "count ?c = ucast ?v AND 0xFFFF" "count_binary ?c = ucast ?v AND 0xFFFF"
    by (simp_all add: program_delay_def program_counter_30 write_low_byte_0 write_high_byte_0
        latch_value_def set_count_def set_binary_to_count_def)
  then have wf: "ctr_wf ?c"
    using f(1) by (simp add: ctr_wf_def cmod_def encode_def uint_and_FFFF)
  then show ok: "mode0_ok ?c"
    using f r by (simp add: mode0_ok_def)
  show "\<not> OUTpin ?c" by (rule f)
  note cl = mode0_load [OF ok f(4)]
  show "mode0_run (clock_counter ?c)"
    using mode0_ok_clock [OF ok] f by (simp add: mode0_run_def) (simp add: cl f)
  show "pulses (clock_counter ?c) xs = pulses c ((if OUTpin c then [False] else []) @ xs)"
    unfolding cl by (simp add: pulses_def f)
  show "pulses ?c xs = pulses c ((if OUTpin c then [False] else []) @ xs)"
    by (simp add: pulses_def f)
  show "cycles_left (clock_counter ?c) = (if ?v = 0 then 65536 else unat ?v)"
    unfolding cl using f r by (simp add: cycles_left_def cmod_def word_uint_eq_iff)
qed

lemma counter_program_delay:
  "i \<le> 2 \<Longrightarrow> counter (pit_write i hi (pit_write i lo (pit_write 3 (control_word i 0) s))) i =
     program_delay lo hi (counter s i)"
  by (simp add: write_control_word) (simp add: pit_write_def upd_counter_def program_delay_def)

text \<open>
  C22. A counter with its GATE high and a handler on its output, programmed in mode 0 with a count \<open>N\<close> (0 standing for 65536) keeps OUT low for
  the load and \<open>N\<close> cycles and then raises it once and for all: after any blocks of \<open>k\<close> cycles in
  total, OUT is high exactly if \<open>k > N\<close>, and the handler has been called with the fall at the
  control word, if OUT was high, and with that rise.
\<close>
theorem terminal_count_fires_once:
  assumes "i \<le> 2" "GATE (counter s i)" "out_handler (counter s i)"
    and "N = (if latch_value lo hi = 0 then 65536 else unat (latch_value lo hi))"
    and "s' = fold (clock_multiple i) ns
      (pit_write i hi (pit_write i lo (pit_write 3 (control_word i 0) s)))"
    and "k = sum_list (map unat ns)"
  shows "OUTpin (counter s' i) = (N < k) \<and>
    out_calls (counter s' i) = out_calls (counter s i) @
      (if OUTpin (counter s i) then [False] else []) @ (if N < k then [True] else [])"
proof -
  let ?c = "program_delay lo hi (counter s i)"
  note ok = program_delay_ok [OF assms(2), of lo hi]
  have s': "counter s' i = (clock_counter ^^ k) ?c"
    using assms(1) m0.clock_multiple_chunks [OF ok(1)]
    by (simp add: assms(5,6) counter_fold_clock counter_program_delay)
  show ?thesis
  proof (cases k)
    case 0
    then show ?thesis
      using ok(2) ok(5) [of "[]"] assms(3) by (simp add: s' pulses_def split: if_splits)
  next
    case (Suc j)
    then have "counter s' i = (clock_counter ^^ j) (clock_counter ?c)"
      by (simp add: s' funpow_Suc_right del: funpow.simps)
    then show ?thesis
      using mode0_fires [OF ok(3), of j "[]"] ok(4,6) Suc assms(3,4)
      by (simp add: less_Suc_eq_le) (simp add: pulses_def)
  qed
qed

lemma terminal_count_fires_once_witness:
  "out_calls (counter (fold (clock_multiple 1) [2, 3]
      (pit_write 1 0 (pit_write 1 4 (pit_write 3 (control_word 1 0) (set_OUT_handler 1 new_pit))))) 1) =
    [False, True]"
  using terminal_count_fires_once [where i = 1 and s = "set_OUT_handler 1 new_pit" and lo = 4 and hi = 0
      and ns = "[2, 3]", OF _ _ _ refl refl refl]
  by code_simp

end
