(* ===== verification/Pit82c54_Square.thy ===== *)
theory Pit82c54_Square
  imports Pit82c54_Modes
begin

text \<open>
  Mode 3, square wave generator: the contract of \<open>counter_mode\<close> for even counts in binary, the
  wave a driver gets, and the counts for which the code departs from it.
\<close>

definition mode3_ok :: "counter_type \<Rightarrow> bool" where
  "mode3_ok c \<longleftrightarrow> mode c = 3 \<and> GATE c \<and> count_written c \<and> \<not> bcd_mode c \<and> ctr_wf c \<and>
     \<not> bit (inlatch c) 0 \<and> loaded c \<noteq> 0 \<and>
     (if triggerGATE c \<or> first_pass c \<or> state_bit_2 c then next_change_time c = 1
      else \<not> state_bit_1 c \<and> even (uint (count_binary c)) \<and> count_binary c \<noteq> 0 \<and>
        next_change_time c = (if count_binary c = 2 then 1 else count_binary c div 2 - 1))"

lemma mode3_toggle_eq: "mode3_toggle c = set_OUT (\<not> OUTpin c \<or> first_pass c) c"
  by (simp add: mode3_toggle_def set_OUT_def)

lemma clear_bit_0: "\<not> bit v 0 \<Longrightarrow> ucast v AND (0xFFFE :: Bit32u) = ucast v" for v :: Bit16u
proof -
  assume "\<not> bit v 0"
  have m: "(0xFFFE :: Bit32u) = mask 16 AND NOT (bitm 0)"
    by (simp add: mask_eq_exp_minus_1 bitm_def)
  show ?thesis
    unfolding m using \<open>\<not> bit v 0\<close>
    by (intro bit_word_eqI) (simp only: bit_and_iff bit_ucast_iff bit_mask_iff bit_not_iff bit_bitm;
      auto dest: bit_imp_le_length intro!: gr0I)
qed

lemma mode3_binary:
  assumes "mode3_ok c"
  shows "reload_wf c" "loaded c = ucast (inlatch c)" "even (uint (loaded c))" "2 \<le> uint (loaded c)"
    "uint (loaded c) < 65536" "cmod c = 65536"
proof -
  have b: "\<not> bcd_mode c" "\<not> bit (inlatch c) 0" "loaded c \<noteq> 0"
    using assms by (auto simp: mode3_ok_def)
  show r: "reload_wf c" and l: "loaded c = ucast (inlatch c)"
    using reload_wf_binary [OF b(1)] by simp_all
  show m: "cmod c = 65536" using b(1) by (simp add: cmod_def)
  show "uint (loaded c) < 65536" using loaded_less [OF r] m by simp
  show e: "even (uint (loaded c))"
    using b(2) unfolding l uint_ucast_16_32 by (metis bit_0 bit_uint_iff)
  show "2 \<le> uint (loaded c)"
    using e one_le_uint [OF b(3)] by presburger
qed

lemma mode3_load_eq:
  assumes "mode3_ok c" "triggerGATE c \<or> first_pass c \<or> state_bit_2 c"
  shows "clock_counter c =
    (set_OUT (\<not> OUTpin c \<or> first_pass c) (with_count (loaded c) c))\<lparr> state_bit_1 := False,
      next_change_time := (if loaded c = 2 then 1 else loaded c div 2 - 1), null_count := False,
      state_bit_2 := False, first_pass := False, triggerGATE := False \<rparr>"
proof -
  note b = mode3_binary [OF assms(1)]
  have "\<not> bit (inlatch c) 0" using assms(1) by (simp add: mode3_ok_def)
  then have sc: "set_count (ucast (inlatch c) AND 0xFFFE) c = with_count (loaded c) c"
    by (simp add: clear_bit_0 set_count_loaded [OF b(1)])
  obtain k where k: "uint (loaded c) = 2 * k" using b(3) by (auto elim: evenE)
  then have k': "1 \<le> k" "k < 32768" using b(4,5) by auto
  have "uint (loaded c div 2) = k" by (simp add: uint_div k)
  then have d: "uint (loaded c div 2 - 1) = k - 1" using k' by (simp add: uint_sub_if')
  then have "loaded c div 2 - 1 = 0 \<longleftrightarrow> loaded c = 2"
    using k k' by (simp add: word_uint_eq_iff)
  moreover have "(loaded c div 2 - 1) AND 0xFFFF = loaded c div 2 - 1"
    using d k' by (intro and_FFFF_id) simp
  ultimately have n: "(if loaded c div 2 - 1 = 0 then 1 else (loaded c div 2 - 1) AND 0xFFFF) =
      (if loaded c = 2 then 1 else loaded c div 2 - 1)"
    by (simp only:)
  have z: "inlatch c AND 1 = 0"
    using drop_bit_and_1_eq_0 [of 0 "inlatch c"] \<open>\<not> bit (inlatch c) 0\<close> by simp
  have "mode3_load c = (set_OUT (\<not> OUTpin c \<or> first_pass c) (with_count (loaded c) c))
      \<lparr> state_bit_1 := False, next_change_time := (if loaded c = 2 then 1 else loaded c div 2 - 1),
        null_count := False, state_bit_2 := False, first_pass := False \<rparr>"
    unfolding n [symmetric] mode3_load_def sc Let_def by (simp add: z mode3_toggle_eq set_OUT_def)
  then show ?thesis
    using assms by (simp add: clock_counter_def clock_mode3_def mode3_ok_def)
qed

lemma mode3_count_eq:
  assumes "mode3_ok c" "\<not> triggerGATE c" "\<not> first_pass c" "\<not> state_bit_2 c"
  shows "clock_counter c =
    (if count_binary c = 2 \<or> count_binary c = 4
     then (count_down 2 c)\<lparr> state_bit_2 := True, next_change_time := 1 \<rparr>
     else (count_down 2 c)\<lparr> next_change_time := next_change_time c - 1 \<rparr>)"
    and "count_binary (count_down 2 c) = count_binary c - 2"
proof -
  let ?b = "count_binary c"
  have wf: "ctr_wf c" and e: "even (uint ?b)" and nz: "?b \<noteq> 0" and m: "cmod c = 65536"
    and bcd: "\<not> bcd_mode c" and s1: "\<not> state_bit_1 c"
    and t: "next_change_time c = (if ?b = 2 then 1 else ?b div 2 - 1)"
    using assms mode3_binary [OF assms(1)] by (auto simp: mode3_ok_def)
  have b: "2 \<le> uint ?b" "uint ?b < 65536"
    using e one_le_uint [OF nz] wf m by (auto simp: ctr_wf_def elim!: evenE)
  then show sub: "count_binary (count_down 2 c) = ?b - 2"
    using wf sub_count_le [of 2 ?b c] by (simp add: ctr_wf_def word_le_def)
  have ct: "count (count_down 2 c) = ?b - 2"
    using bcd sub by (simp add: count_down_def encode_def)
  obtain k where k: "uint ?b = 2 * k" using e by (auto elim: evenE)
  then have k': "1 \<le> k" "k < 32768" using b by auto
  have ub: "uint (?b - 2) = 2 * (k - 1)" using k k' by (simp add: uint_sub_if')
  then have ud: "uint ((?b - 2) div 2) = k - 1" by (simp add: uint_div)
  have ne: "((?b - 2) div 2 - 1) AND 0xFFFF = ?b div 2 - 1 - 1" if "?b \<noteq> 2" "?b \<noteq> 4"
  proof (rule word_uint_eq_iff [THEN iffD2])
    have "k \<noteq> 1" "k \<noteq> 2" using that k by (auto simp: word_uint_eq_iff)
    then have "3 \<le> k" using k' by simp
    then have "uint ((?b - 2) div 2 - 1) = k - 2" "uint (?b div 2 - 1 - 1) = k - 2"
      using ud k k' by (simp_all add: uint_sub_if' uint_div)
    then show "uint (((?b - 2) div 2 - 1) AND 0xFFFF) = uint (?b div 2 - 1 - 1)"
      using k' \<open>3 \<le> k\<close> by (simp add: uint_and_FFFF)
  qed
  have z: "?b - 2 = 0 \<longleftrightarrow> ?b = 2" "?b - 2 = 2 \<longleftrightarrow> ?b = 4"
    by (simp_all add: diff_eq_eq)
  have "clock_counter c = (mode3_count c)\<lparr> triggerGATE := False \<rparr>"
    using assms by (simp add: mode3_ok_def clock_counter_def clock_mode3_def)
  also have "mode3_count c = mode3_end ((count_down 2 c)\<lparr> next_change_time := ((?b - 2) div 2 - 1) AND 0xFFFF \<rparr>)"
    unfolding mode3_count_def Let_def using wf s1 sub
    by (simp add: decrement_count_down)
  finally show "clock_counter c =
    (if ?b = 2 \<or> ?b = 4
     then (count_down 2 c)\<lparr> state_bit_2 := True, next_change_time := 1 \<rparr>
     else (count_down 2 c)\<lparr> next_change_time := next_change_time c - 1 \<rparr>)"
    using assms(2) s1 ne t z by (auto simp: mode3_end_def ct Let_def counter_type.equality)
qed

lemma mode3_nct:
  assumes "mode3_ok c"
  shows "uint (next_change_time c) \<le> 0xFFFF" "next_change_time c \<noteq> 0"
proof -
  have "uint (next_change_time c) \<le> 0xFFFF \<and> next_change_time c \<noteq> 0"
  proof (cases "next_change_time c = 1")
    case False
    then have t: "next_change_time c = count_binary c div 2 - 1" "even (uint (count_binary c))"
      "count_binary c \<noteq> 0" "count_binary c \<noteq> 2"
      using assms by (auto simp: mode3_ok_def split: if_splits)
    obtain k where k: "uint (count_binary c) = 2 * k" using t(2) by (auto elim: evenE)
    have "2 * k < 65536"
      using k assms mode3_binary(6) [OF assms] by (simp add: mode3_ok_def ctr_wf_def)
    moreover have "k \<noteq> 0" "k \<noteq> 1" "0 \<le> k"
      using t(3,4) k uint_ge_0 [of "count_binary c"] by (auto simp: word_uint_eq_iff)
    moreover have "uint (next_change_time c) = k - 1"
      using calculation by (simp add: t(1) uint_sub_if' uint_div k)
    ultimately show ?thesis by (auto simp: word_uint_eq_iff)
  qed simp
  then show "uint (next_change_time c) \<le> 0xFFFF" "next_change_time c \<noteq> 0" by auto
qed

lemma reload_frame3 [simp]:
  "loaded (c\<lparr> state_bit_1 := f \<rparr>) = loaded c" "loaded (c\<lparr> state_bit_2 := f \<rparr>) = loaded c"
  using reload_cong [of "c\<lparr> state_bit_1 := f \<rparr>" c] reload_cong [of "c\<lparr> state_bit_2 := f \<rparr>" c] by simp_all

lemma mode3_ok_clock:
  assumes ok: "mode3_ok c"
  shows "mode3_ok (clock_counter c)"
proof (cases "triggerGATE c \<or> first_pass c \<or> state_bit_2 c")
  case True
  then show ?thesis
    using ok mode3_binary [OF ok] by (simp add: mode3_load_eq) (simp add: mode3_ok_def)
next
  case False
  let ?b = "count_binary c"
  have e: "even (uint ?b)" and nz: "?b \<noteq> 0"
    and t: "next_change_time c = (if ?b = 2 then 1 else ?b div 2 - 1)"
    using ok False by (auto simp: mode3_ok_def)
  obtain k where k: "uint ?b = 2 * k" using e by (auto elim: evenE)
  have k': "1 \<le> k" using one_le_uint [OF nz] k by simp
  have ub: "uint (?b - 2) = 2 * (k - 1)" using k k' by (simp add: uint_sub_if')
  have sub: "sub_count ?b 2 c = ?b - 2"
    using mode3_count_eq(2) [OF ok] False by simp
  show ?thesis
  proof (cases "?b = 2 \<or> ?b = 4")
    case True
    then show ?thesis
      using ok False mode3_count_eq(1) [OF ok] by simp (simp add: mode3_ok_def)
  next
    case ne: False
    then have "k \<noteq> 1" "k \<noteq> 2" using k by (auto simp: word_uint_eq_iff)
    then have "uint ((?b - 2) div 2 - 1) = uint (next_change_time c - 1)" "?b - 2 \<noteq> 2" "?b - 2 \<noteq> 0"
      "even (uint (?b - 2))"
      using k k' ub ne by (simp_all add: t uint_sub_if' uint_div diff_eq_eq)
    moreover from this(1) have "(?b - 2) div 2 - 1 = next_change_time c - 1"
      by (simp only: word_uint_eq_iff)
    ultimately show ?thesis
      using ok False ne mode3_count_eq(1) [OF ok] by simp (simp add: mode3_ok_def sub)
  qed
qed

interpretation m3: counter_mode mode3_ok 2
proof unfold_locales
  fix c n assume ok: "mode3_ok c"
  show "mode c \<in> {0, 1, 2, 4, 5} \<and> (2 :: nat) = 1 \<or> mode c = 3 \<and> (2 :: nat) = 2" "ctr_wf c"
    using ok by (simp_all add: mode3_ok_def)
  show "uint (next_change_time c) \<le> 0xFFFF" "mode3_ok (clock_counter c)"
    using ok mode3_nct mode3_ok_clock by auto
  show "(2 :: nat) = 1 \<and> clock_counter c = count_down 1 c \<and> clock_no_change n c = count_down (uint n) c"
    if "next_change_time c = 0"
    using that mode3_nct [OF ok] by simp
  show "clock_counter c = (count_down (int 2) c)\<lparr> next_change_time := next_change_time c - 1 \<rparr>"
    if t: "1 < next_change_time c"
  proof -
    have n: "\<not> triggerGATE c" "\<not> first_pass c" "\<not> state_bit_2 c" "count_binary c \<noteq> 2"
      using ok t by (auto simp: mode3_ok_def split: if_splits)
    moreover have "count_binary c \<noteq> 4"
    proof
      assume "count_binary c = 4"
      then show False using ok t n by (simp add: mode3_ok_def)
    qed
    ultimately show ?thesis using mode3_count_eq(1) [OF ok] by simp
  qed
qed

section \<open>The wave\<close>

definition mode3_start :: "counter_type \<Rightarrow> bool" where
  "mode3_start c \<longleftrightarrow> mode3_ok c \<and> \<not> triggerGATE c \<and> \<not> first_pass c \<and> \<not> state_bit_2 c \<and>
     \<not> null_count c \<and> count_binary c = loaded c \<and> loaded c \<noteq> 2"

definition half_period :: "counter_type \<Rightarrow> nat" where
  "half_period c = unat (loaded c) div 2"

lemma mode3_half_period:
  assumes "mode3_start c"
  shows "(clock_counter ^^ half_period c) c = set_OUT (\<not> OUTpin c) c"
proof -
  let ?b = "loaded c" and ?h = "half_period c"
  have ok: "mode3_ok c" and cb: "count_binary c = ?b" and s: "\<not> triggerGATE c" "\<not> first_pass c" "\<not> state_bit_2 c"
    "\<not> null_count c" "\<not> state_bit_1 c"
    and t: "next_change_time c = ?b div 2 - 1"
    using assms by (auto simp: mode3_start_def mode3_ok_def)
  note bin = mode3_binary [OF ok]
  have u: "unat ?b = 2 * ?h" and h: "2 \<le> ?h"
  proof -
    have ub: "uint ?b = int (unat ?b)" by (rule uint_nat)
    have "even (unat ?b)" using bin(3) by (simp only: ub even_of_nat)
    then show "unat ?b = 2 * ?h" by (simp add: half_period_def)
    have "unat ?b \<noteq> 2" using assms by (simp add: mode3_start_def word_unat_eq_iff)
    moreover have "2 \<le> unat ?b" using bin(4) unfolding ub by linarith
    ultimately show "2 \<le> ?h" using \<open>unat ?b = 2 * ?h\<close> by linarith
  qed
  have nct: "unat (next_change_time c) = ?h - 1"
    using u h unat_sub_of_nat [of 1 "?b div 2"] by (simp add: t unat_div)
  have two: "sub_count ?b (int (2 * (?h - 2))) c = 4"
  proof (rule word_uint_eq_iff [THEN iffD2])
    have "uint ?b = 2 * int ?h" using u by (metis of_nat_mult of_nat_numeral uint_nat)
    then show "uint (sub_count ?b (int (2 * (?h - 2))) c) = uint (4 :: Bit32u)"
      using h bin(6) by (simp add: uint_sub_count of_nat_diff)
  qed
  let ?d = "(clock_counter ^^ (?h - 2)) c"
  have d: "?d = (count_down (int (2 * (?h - 2))) c)\<lparr> next_change_time := 1 \<rparr>"
  proof -
    have "unat (next_change_time c - of_nat (?h - 2)) = 1"
      using nct h by (subst unat_sub_of_nat) simp_all
    then have "next_change_time c - of_nat (?h - 2) = 1"
      by (simp add: word_unat_eq_iff)
    then show ?thesis using m3.quiet_clocks [OF ok, of "?h - 2"] nct h by simp
  qed
  define n where "n = int (2 * (?h - 2))"
  have d': "?d = (count_down n c)\<lparr> next_change_time := 1 \<rparr>" and two': "sub_count ?b n c = 4"
    using d two by (simp_all add: n_def)
  have okd: "mode3_ok ?d" by (rule m3.clocks_ok [OF ok])
  have e: "clock_counter ?d = (count_down (n + 2) c)\<lparr> next_change_time := 1, state_bit_2 := True \<rparr>"
    using mode3_count_eq(1) [OF okd] by (simp add: d' s cb two' count_down_nct)
  have oke: "mode3_ok (clock_counter ?d)" using okd by (rule mode3_ok_clock)
  have id: "count c = encode (bcd_mode c) ?b"
    using ok cb by (simp add: mode3_ok_def ctr_wf_def)
  have "loaded c \<noteq> 2" using assms by (simp add: mode3_start_def)
  then have "clock_counter (clock_counter ?d) = set_OUT (\<not> OUTpin c) c"
    using mode3_load_eq [OF oke] t s id cb unfolding e by simp
  moreover have "?h = Suc (Suc (?h - 2))" using h by simp
  ultimately show ?thesis by (metis comp_apply funpow.simps(2))
qed

text \<open>\<open>m\<close> levels, starting with \<open>b\<close>.\<close>

primrec toggles :: "bool \<Rightarrow> nat \<Rightarrow> bool list" where
  "toggles b 0 = []"
| "toggles b (Suc m) = b # toggles (\<not> b) m"

lemma mode3_start_set_OUT: "mode3_start (set_OUT d c) = mode3_start c"
  by (simp add: mode3_start_def mode3_ok_def)

lemma mode3_rounds:
  "mode3_start c \<Longrightarrow> out_handler c \<Longrightarrow>
    OUTpin ((clock_counter ^^ (half_period c * m)) c) = (OUTpin c = even m) \<and>
    out_calls ((clock_counter ^^ (half_period c * m)) c) = out_calls c @ toggles (\<not> OUTpin c) m"
proof (induction m arbitrary: c)
  case (Suc m)
  let ?d = "set_OUT (\<not> OUTpin c) c"
  have "half_period ?d = half_period c" by (simp add: half_period_def)
  then have "(clock_counter ^^ (half_period c * Suc m)) c = (clock_counter ^^ (half_period ?d * m)) ?d"
    using mode3_half_period [OF Suc.prems(1)]
    by (simp add: funpow_add add.commute [of "half_period c" "half_period c * m"])
  then show ?case
    using Suc.IH [of ?d] Suc.prems by (auto simp: mode3_start_set_OUT)
qed simp

section \<open>Programming a square wave\<close>

definition program_square :: "Bit8u \<Rightarrow> Bit8u \<Rightarrow> counter_type \<Rightarrow> counter_type" where
  "program_square lo hi c = write_counter hi (write_counter lo (program_counter 3 3 0 c))"

lemma program_counter_33:
  "program_counter 3 3 0 c =
     (set_OUT True (c\<lparr> null_count := True, count_LSB_latched := False, count_MSB_latched := False,
        status_latched := False, inlatch := 0, count_written := False, first_pass := True,
        rw_mode := 3, bcd_mode := False, mode := 3, read_state := LSByte_multiple,
        write_state := LSByte_multiple \<rparr>))\<lparr> next_change_time := 0 \<rparr>"
  by (simp add: program_counter_def)

lemma write_low_byte_3:
  "write_state c = LSByte_multiple \<Longrightarrow> mode c = 3 \<Longrightarrow> write_counter lo c =
     c\<lparr> inlatch := ucast lo, write_state := MSByte_multiple, next_change_time := 1 \<rparr>"
  by (simp add: write_counter_def write_inlatch_def write_schedule_def)

lemma write_high_byte_3:
  "write_state c = MSByte_multiple \<Longrightarrow> mode c = 3 \<Longrightarrow> write_counter hi c =
     (set_count (ucast (inlatch c OR push_bit 8 (ucast hi)))
       (c\<lparr> write_state := LSByte_multiple, inlatch := inlatch c OR push_bit 8 (ucast hi),
           count_written := True, null_count := True \<rparr>))\<lparr> next_change_time := 1 \<rparr>"
  by (simp add: write_counter_def write_inlatch_def write_schedule_def set_count_def
      set_binary_to_count_def)

lemma program_square_ok:
  assumes "GATE c" "\<not> bit (latch_value lo hi) 0" "4 \<le> uint (latch_value lo hi)"
  defines "d \<equiv> clock_counter (program_square lo hi c)"
  shows "mode3_ok (program_square lo hi c)" and "mode3_start d" and "OUTpin d"
    and "out_handler d = out_handler c" and "out_calls d = pulses c (if OUTpin c then [] else [True])"
    and "half_period d = unat (latch_value lo hi) div 2"
proof -
  let ?c = "program_square lo hi c" and ?v = "latch_value lo hi"
  have f: "\<not> bcd_mode ?c" "mode ?c = 3" "GATE ?c" "first_pass ?c" "count_written ?c"
    "next_change_time ?c = 1" "inlatch ?c = ?v" "OUTpin ?c" "out_handler ?c = out_handler c"
    "out_calls ?c = pulses c (if OUTpin c then [] else [True])"
    using assms(1)
    by (simp_all add: program_square_def program_counter_33 write_low_byte_3 write_high_byte_3 pulses_def
        latch_value_def)
  have r: "reload_wf ?c" "loaded ?c = ucast ?v"
    using reload_wf_binary [OF f(1)] f(7) by simp_all
  have "count ?c = ucast ?v AND 0xFFFF" "count_binary ?c = ucast ?v AND 0xFFFF"
    by (simp_all add: program_square_def program_counter_33 write_low_byte_3 write_high_byte_3
        latch_value_def set_count_def set_binary_to_count_def)
  then have wf: "ctr_wf ?c"
    using f(1) by (simp add: ctr_wf_def cmod_def encode_def uint_and_FFFF)
  have nz: "(ucast ?v :: Bit32u) \<noteq> 0" "(ucast ?v :: Bit32u) \<noteq> 2"
    using assms(3) by (auto simp: word_uint_eq_iff)
  then show ok: "mode3_ok ?c"
    using f r wf assms(2) by (simp add: mode3_ok_def)
  note cl = mode3_load_eq [OF ok]
  have d: "d = (with_count (ucast ?v) ?c)\<lparr> state_bit_1 := False, next_change_time := ucast ?v div 2 - 1,
      null_count := False, state_bit_2 := False, first_pass := False, triggerGATE := False \<rparr>"
    unfolding d_def using cl f r nz by (simp add: set_OUT_def)
  have ld: "loaded d = ucast ?v"
    unfolding d by (simp add: r)
  show "mode3_start d"
    using mode3_ok_clock [OF ok] nz ld unfolding mode3_start_def d_def [symmetric] by (simp add: d)
  show "OUTpin d" "out_handler d = out_handler c" "out_calls d = pulses c (if OUTpin c then [] else [True])"
    by (simp_all add: d f)
  have "unat (ucast ?v :: Bit32u) = unat ?v"
    by (simp only: unat_eq_nat_uint uint_ucast_16_32)
  then show "half_period d = unat ?v div 2"
    by (simp add: half_period_def ld)
qed

lemma counter_program_square:
  "i \<le> 2 \<Longrightarrow> counter (pit_write i hi (pit_write i lo (pit_write 3 (control_word i 3) s))) i =
     program_square lo hi (counter s i)"
  by (simp add: write_control_word) (simp add: pit_write_def upd_counter_def program_square_def)

text \<open>
  C23. A counter with its GATE high and a handler on its output, programmed in mode 3 with an even count \<open>N\<close> of at least 4 gives a square wave: OUT
  is raised by the control word, and after the load cycle and \<open>m\<close> half periods of \<open>N div 2\<close>
  cycles, delivered in any blocks, it has toggled exactly \<open>m\<close> times.
\<close>
theorem square_wave_even:
  assumes "i \<le> 2" "GATE (counter s i)" "out_handler (counter s i)"
    and "\<not> bit (latch_value lo hi) 0" "4 \<le> uint (latch_value lo hi)"
    and "s' = fold (clock_multiple i) ns
      (pit_write i hi (pit_write i lo (pit_write 3 (control_word i 3) s)))"
    and "sum_list (map unat ns) = 1 + unat (latch_value lo hi) div 2 * m"
  shows "OUTpin (counter s' i) = even m \<and>
    out_calls (counter s' i) = out_calls (counter s i) @
      (if OUTpin (counter s i) then [] else [True]) @ toggles False m"
proof -
  note ok = program_square_ok [OF assms(2,4,5)]
  have "counter s' i = (clock_counter ^^ (unat (latch_value lo hi) div 2 * m))
      (clock_counter (program_square lo hi (counter s i)))"
    using assms(1,7) m3.clock_multiple_chunks [OF ok(1)]
    by (simp add: assms(6) counter_fold_clock counter_program_square funpow_swap1)
  then show ?thesis
    using mode3_rounds [OF ok(2), of m] ok(3-6) assms(3) by (simp add: pulses_def)
qed

lemma square_wave_even_witness:
  "out_calls (counter (fold (clock_multiple 2) [3, 8]
      (pit_write 2 0 (pit_write 2 4 (pit_write 3 (control_word 2 3) (set_OUT_handler 2 new_pit))))) 2) =
    [False, True, False, True, False]"
  using square_wave_even [where i = 2 and s = "set_OUT_handler 2 new_pit" and lo = 4 and hi = 0
      and ns = "[3, 8]" and m = 5, OF _ _ _ _ _ refl]
  by code_simp

text \<open>
  The counts outside \<open>square_wave_even\<close>: with an odd count the jumps of \<open>clock_multiple\<close>
  lose the short half period that clocking every cycle gives (count 5 takes 3 cycles to rise again
  instead of 2); a count of 2 toggles every 2 cycles, at half the frequency; a count of 0 (65536)
  does not toggle once in 65536 cycles, but does after one more.
\<close>
theorem square_wave_exceptions:
  "let c = (init_counter blank_counter)\<lparr> out_handler := True \<rparr> in
    out_calls (fold (\<lambda>_. clock_counter) [0..<6] (program_square 5 0 c)) = [False, True] \<and>
    out_calls (clock_counter_multiple 6 (program_square 5 0 c)) = [False] \<and>
    out_calls (clock_counter_multiple 7 (program_square 5 0 c)) = [False, True] \<and>
    out_calls (clock_counter_multiple 9 (program_square 2 0 c)) = [False, True, False, True] \<and>
    out_calls (clock_counter_multiple 65536 (program_square 0 0 c)) = [] \<and>
    out_calls (clock_counter_multiple 65537 (program_square 0 0 c)) = [False]"
  by code_simp

end
