(* ===== verification/Pit82c54_Chip.thy ===== *)
theory Pit82c54_Chip
  imports Pit82c54_OneShot Pit82c54_Square
begin

text \<open>
  The 82C54 as its ports show it: an invariant of every sequence of port accesses, GATE changes
  and clock blocks, latching and reading back, and the equivalence of jumping and clocking.
\<close>

section \<open>Fields that counting leaves alone\<close>

lemma decrement_sel [simp]:
  "bcd_mode (decrement c) = bcd_mode c" "mode (decrement c) = mode c"
  "OUTpin (decrement c) = OUTpin c" "out_calls (decrement c) = out_calls c"
  "out_handler (decrement c) = out_handler c" "count_written (decrement c) = count_written c"
  "rw_mode (decrement c) = rw_mode c" "next_change_time (decrement c) = next_change_time c"
  "outlatch (decrement c) = outlatch c" "count_LSB_latched (decrement c) = count_LSB_latched c"
  "count_MSB_latched (decrement c) = count_MSB_latched c" "read_state (decrement c) = read_state c"
  "status_latched (decrement c) = status_latched c" "status_latch (decrement c) = status_latch c"
  by (simp_all add: decrement_def set_count_to_binary_def)

lemma set_count_to_binary_frame:
  "bcd_mode (set_count_to_binary c) = bcd_mode c" "mode (set_count_to_binary c) = mode c"
  "OUTpin (set_count_to_binary c) = OUTpin c" "out_calls (set_count_to_binary c) = out_calls c"
  "out_handler (set_count_to_binary c) = out_handler c"
  "count_written (set_count_to_binary c) = count_written c"
  "rw_mode (set_count_to_binary c) = rw_mode c"
  "next_change_time (set_count_to_binary c) = next_change_time c"
  "outlatch (set_count_to_binary c) = outlatch c"
  "count_LSB_latched (set_count_to_binary c) = count_LSB_latched c"
  "count_MSB_latched (set_count_to_binary c) = count_MSB_latched c"
  "read_state (set_count_to_binary c) = read_state c"
  "status_latched (set_count_to_binary c) = status_latched c"
  "status_latch (set_count_to_binary c) = status_latch c"
  by (simp_all add: set_count_to_binary_def)

lemma decrement_multiple_frame:
  "bcd_mode (decrement_multiple n c) = bcd_mode c \<and> mode (decrement_multiple n c) = mode c \<and>
   OUTpin (decrement_multiple n c) = OUTpin c \<and> out_calls (decrement_multiple n c) = out_calls c \<and>
   out_handler (decrement_multiple n c) = out_handler c \<and>
   count_written (decrement_multiple n c) = count_written c \<and>
   rw_mode (decrement_multiple n c) = rw_mode c \<and>
   next_change_time (decrement_multiple n c) = next_change_time c \<and>
   outlatch (decrement_multiple n c) = outlatch c \<and>
   count_LSB_latched (decrement_multiple n c) = count_LSB_latched c \<and>
   count_MSB_latched (decrement_multiple n c) = count_MSB_latched c \<and>
   read_state (decrement_multiple n c) = read_state c \<and>
   status_latched (decrement_multiple n c) = status_latched c \<and>
   status_latch (decrement_multiple n c) = status_latch c"
proof (induction n c rule: decrement_multiple.induct)
  case (1 n c)
  then show ?case
    by (subst (1 2 3 4 5 6 7 8 9 10 11 12 13 14) decrement_multiple.simps)
      (simp add: set_count_to_binary_frame)
qed

lemma decrement_multiple_sel [simp]:
  "bcd_mode (decrement_multiple n c) = bcd_mode c" "mode (decrement_multiple n c) = mode c"
  "OUTpin (decrement_multiple n c) = OUTpin c" "out_calls (decrement_multiple n c) = out_calls c"
  "out_handler (decrement_multiple n c) = out_handler c"
  "count_written (decrement_multiple n c) = count_written c"
  "rw_mode (decrement_multiple n c) = rw_mode c"
  "next_change_time (decrement_multiple n c) = next_change_time c"
  "outlatch (decrement_multiple n c) = outlatch c"
  "count_LSB_latched (decrement_multiple n c) = count_LSB_latched c"
  "count_MSB_latched (decrement_multiple n c) = count_MSB_latched c"
  "read_state (decrement_multiple n c) = read_state c"
  "status_latched (decrement_multiple n c) = status_latched c"
  "status_latch (decrement_multiple n c) = status_latch c"
  by (simp_all add: decrement_multiple_frame)

lemma set_count_sel2 [simp]:
  "rw_mode (set_count d c) = rw_mode c" "outlatch (set_count d c) = outlatch c"
  "count_LSB_latched (set_count d c) = count_LSB_latched c"
  "count_MSB_latched (set_count d c) = count_MSB_latched c"
  "read_state (set_count d c) = read_state c" "status_latched (set_count d c) = status_latched c"
  "status_latch (set_count d c) = status_latch c"
  by (simp_all add: set_count_def set_binary_to_count_def)

section \<open>The invariant\<close>

text \<open>
  The handler is called on changes of OUT only, and OUT is what it was last told; the mode and
  access fields keep their width; a written binary count is the same in both forms.
\<close>

definition handler_sync :: "counter_type \<Rightarrow> bool" where
  "handler_sync c \<longleftrightarrow> distinct_adj (out_calls c) \<and>
     (if out_handler c then out_calls c \<noteq> [] \<longrightarrow> last (out_calls c) = OUTpin c else out_calls c = [])"

definition ctr_inv :: "counter_type \<Rightarrow> bool" where
  "ctr_inv c \<longleftrightarrow> handler_sync c \<and> mode c \<le> 7 \<and> rw_mode c \<in> {1, 2, 3} \<and>
     next_change_time c \<le> 0xFFFF \<and> (count_written c \<and> \<not> bcd_mode c \<longrightarrow> ctr_wf c)"

lemma handler_sync_set_OUT [simp]: "handler_sync c \<Longrightarrow> handler_sync (set_OUT d c)"
  by (auto simp: handler_sync_def set_OUT_def distinct_adj_append_iff)

lemma handler_sync_frame [simp]:
  "handler_sync (c\<lparr> next_change_time := x0 \<rparr>) = handler_sync c"
  "handler_sync (c\<lparr> null_count := x1 \<rparr>) = handler_sync c"
  "handler_sync (c\<lparr> triggerGATE := x2 \<rparr>) = handler_sync c"
  "handler_sync (c\<lparr> first_pass := x3 \<rparr>) = handler_sync c"
  "handler_sync (c\<lparr> state_bit_1 := x4 \<rparr>) = handler_sync c"
  "handler_sync (c\<lparr> state_bit_2 := x5 \<rparr>) = handler_sync c"
  "handler_sync (c\<lparr> GATE := x6 \<rparr>) = handler_sync c"
  "handler_sync (c\<lparr> inlatch := x7 \<rparr>) = handler_sync c"
  "handler_sync (c\<lparr> write_state := x8 \<rparr>) = handler_sync c"
  "handler_sync (c\<lparr> read_state := x9 \<rparr>) = handler_sync c"
  "handler_sync (c\<lparr> count_written := x10 \<rparr>) = handler_sync c"
  "handler_sync (c\<lparr> mode := x11 \<rparr>) = handler_sync c"
  "handler_sync (c\<lparr> rw_mode := x12 \<rparr>) = handler_sync c"
  "handler_sync (c\<lparr> bcd_mode := x13 \<rparr>) = handler_sync c"
  "handler_sync (c\<lparr> count := x14 \<rparr>) = handler_sync c"
  "handler_sync (c\<lparr> count_binary := x15 \<rparr>) = handler_sync c"
  "handler_sync (c\<lparr> outlatch := x16 \<rparr>) = handler_sync c"
  "handler_sync (c\<lparr> count_LSB_latched := x17 \<rparr>) = handler_sync c"
  "handler_sync (c\<lparr> count_MSB_latched := x18 \<rparr>) = handler_sync c"
  "handler_sync (c\<lparr> status_latched := x19 \<rparr>) = handler_sync c"
  "handler_sync (c\<lparr> status_latch := x20 \<rparr>) = handler_sync c"
  by (simp_all add: handler_sync_def)

lemma handler_sync_count [simp]:
  "handler_sync (set_count d c) = handler_sync c" "handler_sync (decrement c) = handler_sync c"
  "handler_sync (decrement_multiple n c) = handler_sync c"
  by (simp_all add: handler_sync_def)

lemma ctr_wf_frame2 [simp]:
  "ctr_wf (c\<lparr> GATE := x0 \<rparr>) = ctr_wf c"
  "ctr_wf (c\<lparr> inlatch := x1 \<rparr>) = ctr_wf c"
  "ctr_wf (c\<lparr> write_state := x2 \<rparr>) = ctr_wf c"
  "ctr_wf (c\<lparr> read_state := x3 \<rparr>) = ctr_wf c"
  "ctr_wf (c\<lparr> count_written := x4 \<rparr>) = ctr_wf c"
  "ctr_wf (c\<lparr> mode := x5 \<rparr>) = ctr_wf c"
  "ctr_wf (c\<lparr> rw_mode := x6 \<rparr>) = ctr_wf c"
  "ctr_wf (c\<lparr> outlatch := x7 \<rparr>) = ctr_wf c"
  "ctr_wf (c\<lparr> count_LSB_latched := x8 \<rparr>) = ctr_wf c"
  "ctr_wf (c\<lparr> count_MSB_latched := x9 \<rparr>) = ctr_wf c"
  "ctr_wf (c\<lparr> status_latched := x10 \<rparr>) = ctr_wf c"
  "ctr_wf (c\<lparr> status_latch := x11 \<rparr>) = ctr_wf c"
  by (simp_all add: ctr_wf_def cmod_def)

lemma ctr_wf_set_count [simp]: "\<not> bcd_mode c \<Longrightarrow> ctr_wf (set_count d c)"
  by (simp add: set_count_def set_binary_to_count_def ctr_wf_def cmod_def encode_def uint_and_FFFF)

lemma ctr_wf_decrement_multiple [simp]: "ctr_wf c \<Longrightarrow> ctr_wf (decrement_multiple n c)"
  by (simp add: decrement_multiple_count_down)

lemma and_FFFF_le [simp]: "x AND 0xFFFF \<le> 0xFFFF" for x :: Bit32u
  by (simp add: word_le_def uint_and_FFFF)

lemma change_after_le [simp]: "change_after n \<le> 0xFFFF"
  by (simp add: change_after_def)

declare ctr_wf_decrement [simp]

named_theorems ctr_inv_intros \<open>operations of one counter keep its invariant\<close>

lemma inv_clock_mode0 [ctr_inv_intros]: "ctr_inv c \<Longrightarrow> ctr_inv (clock_mode0 c)"
  by (auto simp: ctr_inv_def clock_mode0_def Let_def)

lemma inv_clock_mode1 [ctr_inv_intros]: "ctr_inv c \<Longrightarrow> ctr_inv (clock_mode1 c)"
  by (auto simp: ctr_inv_def clock_mode1_def Let_def)

lemma inv_clock_mode2 [ctr_inv_intros]: "ctr_inv c \<Longrightarrow> ctr_inv (clock_mode2 c)"
  by (auto simp: ctr_inv_def clock_mode2_def Let_def)

lemma inv_clock_mode3 [ctr_inv_intros]: "ctr_inv c \<Longrightarrow> ctr_inv (clock_mode3 c)"
proof -
  assume c: "ctr_inv c"
  then have "ctr_inv (mode3_load c)"
    by (auto simp: ctr_inv_def mode3_load_def mode3_toggle_eq Let_def)
  moreover have "ctr_inv (mode3_count c)"
    using c by (auto simp: ctr_inv_def mode3_count_def mode3_end_def Let_def)
  ultimately show ?thesis
    using c by (auto simp: ctr_inv_def clock_mode3_def)
qed

lemma inv_clock_mode4 [ctr_inv_intros]: "ctr_inv c \<Longrightarrow> ctr_inv (clock_mode4 c)"
  by (auto simp: ctr_inv_def clock_mode4_def Let_def)

lemma inv_clock_mode5 [ctr_inv_intros]: "ctr_inv c \<Longrightarrow> ctr_inv (clock_mode5 c)"
  by (auto simp: ctr_inv_def clock_mode5_def Let_def)

lemma inv_clock_counter [ctr_inv_intros]: "ctr_inv c \<Longrightarrow> ctr_inv (clock_counter c)"
proof -
  assume c: "ctr_inv c"
  then have "ctr_inv (c\<lparr> next_change_time := 0, triggerGATE := False \<rparr>)"
    by (simp add: ctr_inv_def)
  with c show ?thesis by (simp add: clock_counter_def ctr_inv_intros)
qed

lemma inv_decrement_multiple [ctr_inv_intros]: "ctr_inv c \<Longrightarrow> ctr_inv (decrement_multiple n c)"
  by (simp add: ctr_inv_def)

lemma inv_clock_no_change [ctr_inv_intros]: "ctr_inv c \<Longrightarrow> ctr_inv (clock_no_change n c)"
  by (simp add: clock_no_change_def ctr_inv_intros)

lemma inv_nct [ctr_inv_intros]: "ctr_inv c \<Longrightarrow> t \<le> 0xFFFF \<Longrightarrow> ctr_inv (c\<lparr> next_change_time := t \<rparr>)"
  by (simp add: ctr_inv_def)

lemma inv_clock_multiple [ctr_inv_intros]: "ctr_inv c \<Longrightarrow> ctr_inv (clock_counter_multiple n c)"
proof (induction n c rule: clock_counter_multiple.induct)
  case (1 n c)
  have t: "next_change_time c - n \<le> 0xFFFF" if "n < next_change_time c"
    using word_sub_le [OF order.strict_implies_order [OF that]] \<open>ctr_inv c\<close>
    unfolding ctr_inv_def by (blast intro: order.trans)
  show ?case
    using 1 t by (subst clock_counter_multiple.simps)
      (auto simp: Let_def not_less intro!: ctr_inv_intros)
qed

lemma inv_latch_counter [ctr_inv_intros]: "ctr_inv c \<Longrightarrow> ctr_inv (latch_counter c)"
  by (simp add: latch_counter_def ctr_inv_def split: rw_status.split)

lemma inv_read_counter [ctr_inv_intros]: "ctr_inv c \<Longrightarrow> ctr_inv (snd (read_counter c))"
  by (simp add: read_counter_def ctr_inv_def Let_def)

lemma inv_latch_status [ctr_inv_intros]: "ctr_inv c \<Longrightarrow> ctr_inv (latch_status c)"
  by (simp add: latch_status_def ctr_inv_def)

lemma inv_read_back [ctr_inv_intros]: "ctr_inv c \<Longrightarrow> ctr_inv (read_back_counter w i c)"
  by (simp add: read_back_counter_def Let_def ctr_inv_intros)

lemma inv_program [ctr_inv_intros]:
  "ctr_inv c \<Longrightarrow> RW \<in> {1, 2, 3} \<Longrightarrow> M \<le> 7 \<Longrightarrow> ctr_inv (program_counter RW M BCD c)"
  by (auto simp: program_counter_def Let_def ctr_inv_def)

lemma inv_write_inlatch: "ctr_inv c \<Longrightarrow> handler_sync (write_inlatch d c) \<and> mode (write_inlatch d c) \<le> 7 \<and>
    rw_mode (write_inlatch d c) \<in> {1, 2, 3} \<and> next_change_time (write_inlatch d c) \<le> 0xFFFF \<and>
    (\<not> (count_written (write_inlatch d c) \<and> write_state (write_inlatch d c) \<noteq> MSByte_multiple) \<longrightarrow>
      ctr_inv (write_inlatch d c))"
  by (auto simp: write_inlatch_def ctr_inv_def split: rw_status.split)

lemma inv_write_schedule [ctr_inv_intros]: "ctr_inv c \<Longrightarrow> ctr_inv (write_schedule c)"
  by (simp add: write_schedule_def ctr_inv_def)

lemma inv_write_counter [ctr_inv_intros]:
  assumes "ctr_inv c"
  shows "ctr_inv (write_counter d c)"
proof -
  let ?c1 = "write_inlatch d c"
  note i = inv_write_inlatch [OF assms, of d]
  have "ctr_inv (if count_written ?c1 \<and> write_state ?c1 \<noteq> MSByte_multiple
      then set_count (ucast (inlatch ?c1)) (?c1\<lparr> null_count := True \<rparr>) else ?c1)"
    using i by (cases "count_written ?c1 \<and> write_state ?c1 \<noteq> MSByte_multiple") (simp_all add: ctr_inv_def)
  then show ?thesis
    unfolding write_counter_def Let_def by (rule inv_write_schedule)
qed

lemma inv_set_GATE [ctr_inv_intros]: "ctr_inv c \<Longrightarrow> ctr_inv (set_GATE_counter b c)"
  by (auto simp: set_GATE_counter_def gate_schedule_def Let_def ctr_inv_def)

section \<open>Every sequence of accesses\<close>

datatype pit_op =
    Write_port nat Bit8u
  | Read_port nat
  | Gate nat bool
  | Clock_block nat Bit32u
  | Clock_all Bit32u

fun pit_step :: "pit_op \<Rightarrow> pit_82C54 \<Rightarrow> pit_82C54" where
  "pit_step (Write_port a d) s = pit_write a d s"
| "pit_step (Read_port a) s = snd (pit_read a s)"
| "pit_step (Gate i b) s = set_GATE i b s"
| "pit_step (Clock_block i n) s = clock_multiple i n s"
| "pit_step (Clock_all n) s = clock_all n s"

definition pit_inv :: "pit_82C54 \<Rightarrow> bool" where
  "pit_inv s \<longleftrightarrow> ctr_inv (counter s 0) \<and> ctr_inv (counter s 1) \<and> ctr_inv (counter s 2)"

lemma pit_inv_upd:
  assumes "pit_inv s" "\<And>c. ctr_inv c \<Longrightarrow> ctr_inv (f c)"
  shows "pit_inv (upd_counter i f s)"
  using assms by (auto simp: pit_inv_def upd_counter_def)

lemma pit_inv_control: "pit_inv s \<Longrightarrow> pit_inv (write_control d s)"
proof -
  assume "pit_inv s"
  then have s: "pit_inv (s\<lparr> controlword := d \<rparr>)" by (simp add: pit_inv_def)
  have m: "drop_bit 1 d AND 0x7 \<le> 7" for d :: Bit8u
    by (rule word_and_le1)
  have r: "RW AND 3 \<in> {1, 2, 3}" if "RW AND 3 \<noteq> 0" for RW :: Bit8u
  proof -
    have "RW AND 3 \<le> 3" by (rule word_and_le1)
    then have "unat (RW AND 3) \<in> {0, 1, 2, 3}" by (auto simp: word_le_nat_alt)
    with that show ?thesis by (auto simp: word_unat_eq_iff)
  qed
  show ?thesis
    using s r m by (auto simp: write_control_def Let_def intro!: pit_inv_upd ctr_inv_intros)
qed

lemma pit_inv_step: "pit_inv s \<Longrightarrow> pit_inv (pit_step p s)"
proof (cases p)
  case (Read_port a)
  assume s: "pit_inv s"
  have "counter s a \<in> {counter s 0, counter s 1, counter s 2}" if "a \<le> 2"
    using that by (auto simp: le_Suc_eq numeral_2_eq_2)
  then have "ctr_inv (snd (read_counter (counter s a)))" if "a \<le> 2"
    using s that by (auto simp: pit_inv_def intro!: ctr_inv_intros)
  with s Read_port show ?thesis
    by (auto simp: pit_read_def pit_inv_def upd_counter_def split: prod.split)
qed (auto simp: pit_write_def set_GATE_def clock_multiple_def clock_all_def
    intro!: pit_inv_upd pit_inv_control ctr_inv_intros)

text \<open>
  C24. From power-on, with the handler the board installs on counter 0, every sequence of port
  reads and writes, GATE changes and clock blocks keeps the invariant on all three counters: the
  handler of counter 0 has been called alternately with the two levels, the last one being OUT.
\<close>
theorem pit_invariant_always:
  "pit_inv (fold pit_step ps (set_OUT_handler 0 new_pit))"
proof -
  have "pit_inv (set_OUT_handler 0 new_pit)"
    by (simp add: pit_inv_def set_OUT_handler_def upd_counter_def new_pit_def pit_init_def
        init_counter_def blank_counter_def ctr_inv_def handler_sync_def ctr_wf_def cmod_def encode_def)
  then show ?thesis
    by (induction ps rule: rev_induct) (simp_all add: pit_inv_step)
qed

section \<open>Latched reads\<close>

text \<open>What a latch command froze; clocking leaves it alone.\<close>

definition latches :: "counter_type \<Rightarrow> Bit16u \<times> bool \<times> bool \<times> rw_status \<times> bool \<times> Bit8u" where
  "latches c = (outlatch c, count_LSB_latched c, count_MSB_latched c, read_state c, status_latched c,
     status_latch c)"

lemma latches_frame [simp]:
  "latches (c\<lparr> next_change_time := t \<rparr>) = latches c" "latches (c\<lparr> null_count := b \<rparr>) = latches c"
  "latches (c\<lparr> triggerGATE := b \<rparr>) = latches c" "latches (c\<lparr> first_pass := b \<rparr>) = latches c"
  "latches (c\<lparr> state_bit_1 := b \<rparr>) = latches c" "latches (c\<lparr> state_bit_2 := b \<rparr>) = latches c"
  "latches (set_OUT b c) = latches c" "latches (set_count d c) = latches c"
  "latches (decrement c) = latches c" "latches (decrement_multiple n c) = latches c"
  by (simp_all add: latches_def)

lemma latches_clock [simp]: "latches (clock_counter c) = latches c"
  by (simp add: clock_counter_def clock_mode0_def clock_mode1_def clock_mode2_def clock_mode3_def
      mode3_load_def mode3_count_def mode3_end_def mode3_toggle_def
      clock_mode4_def clock_mode5_def Let_def)

lemma latches_clock_multiple [simp]: "latches (clock_counter_multiple n c) = latches c"
proof (induction n c rule: clock_counter_multiple.induct)
  case (1 n c)
  have "latches (clock_no_change n c) = latches c"
    by (simp add: clock_no_change_def)
  with 1 show ?case
    by (subst clock_counter_multiple.simps) (auto simp: Let_def not_less)
qed

fun is_time :: "pit_op \<Rightarrow> bool" where
  "is_time (Gate _ _) = True"
| "is_time (Clock_block _ _) = True"
| "is_time (Clock_all _) = True"
| "is_time _ = False"

lemma latches_GATE [simp]: "latches (set_GATE_counter b c) = latches c"
proof -
  have "latches (c\<lparr> GATE := g \<rparr>) = latches c" for g c by (simp add: latches_def)
  then show ?thesis by (simp add: set_GATE_counter_def gate_schedule_def Let_def)
qed

lemma latches_time: "is_time p \<Longrightarrow> latches (counter (pit_step p s) i) = latches (counter s i)"
  by (cases p) (simp_all add: set_GATE_def clock_multiple_def clock_all_def upd_counter_def)

lemma latches_times:
  "list_all is_time ps \<Longrightarrow> latches (counter (fold pit_step ps s) i) = latches (counter s i)"
  by (induction ps arbitrary: s) (simp_all add: latches_time)

definition latch_command :: "nat \<Rightarrow> Bit8u" where
  "latch_command i = push_bit 6 (of_nat i)"

lemma write_latch_command:
  "i \<le> 2 \<Longrightarrow> pit_write 3 (latch_command i) s =
    upd_counter i latch_counter (s\<lparr> controlword := latch_command i \<rparr>)"
proof -
  assume "i \<le> 2"
  then have "i \<in> {0, 1, 2}" by auto
  then show ?thesis
    by (elim insertE emptyE; simp add: latch_command_def pit_write_def write_control_def)
qed

lemma low_byte: "(ucast (ucast (x AND 0xFFFF) AND (0xFF :: Bit16u)) :: Bit8u) = ucast x" for x :: Bit32u
proof -
  have "(0xFF :: Bit16u) = mask 8" "(0xFFFF :: Bit32u) = mask 16" by (simp_all add: mask_eq_exp_minus_1)
  then show ?thesis
    by (intro bit_word_eqI) (simp only: bit_ucast_iff bit_and_iff bit_mask_iff, auto)
qed

lemma high_byte:
  "(ucast (drop_bit 8 (ucast (x AND 0xFFFF)) AND (0xFF :: Bit16u)) :: Bit8u) = ucast (drop_bit 8 x)" for x :: Bit32u
proof -
  have "(0xFF :: Bit16u) = mask 8" "(0xFFFF :: Bit32u) = mask 16" by (simp_all add: mask_eq_exp_minus_1)
  then show ?thesis
    by (intro bit_word_eqI) (simp only: bit_ucast_iff bit_and_iff bit_mask_iff bit_drop_bit_eq o_apply, auto)
qed

text \<open>
  A latched count is read back whole: after a latch command on a counter read in two bytes,
  whatever time passes and however the gates move, the next two reads of its port give the low and
  the high byte of the count at the time of the command, and the counter is then unlatched again.
\<close>
theorem latched_count_reads_back:
  assumes "i \<le> 2" "read_state (counter s i) = LSByte_multiple" "\<not> count_LSB_latched (counter s i)"
    "\<not> count_MSB_latched (counter s i)" "\<not> status_latched (counter s i)"
    and "list_all is_time ps"
    and "s1 = fold pit_step ps (pit_write 3 (latch_command i) s)"
    and "pit_read i s1 = (lo, s2)" "pit_read i s2 = (hi, s3)"
  shows "lo = ucast (count (counter s i)) \<and> hi = ucast (drop_bit 8 (count (counter s i))) \<and>
    read_state (counter s3 i) = LSByte_multiple \<and> \<not> count_LSB_latched (counter s3 i) \<and>
    \<not> count_MSB_latched (counter s3 i)"
proof -
  let ?n = "count (counter s i)"
  have "latches (counter s1 i) = latches (latch_counter (counter s i))"
    using assms(1,6) by (simp add: assms(7) latches_times write_latch_command) (simp add: upd_counter_def)
  then have l: "outlatch (counter s1 i) = ucast (?n AND 0xFFFF)" "count_LSB_latched (counter s1 i)"
    "count_MSB_latched (counter s1 i)" "read_state (counter s1 i) = LSByte_multiple"
    "\<not> status_latched (counter s1 i)"
    using assms(2-5) by (simp_all add: latches_def latch_counter_def)
  have s2: "lo = ucast (outlatch (counter s1 i) AND 0xFF)"
    "counter s2 i = (counter s1 i)\<lparr> read_state := MSByte_multiple, count_LSB_latched := False \<rparr>"
    using assms(1,8) l by (auto simp: pit_read_def read_counter_def upd_counter_def Let_def)
  have s3: "hi = ucast (drop_bit 8 (outlatch (counter s1 i)) AND 0xFF)"
    "counter s3 i = (counter s2 i)\<lparr> read_state := LSByte_multiple, count_MSB_latched := False \<rparr>"
    using assms(1,9) l by (auto simp: s2(2) pit_read_def read_counter_def upd_counter_def Let_def)
  show ?thesis
    unfolding s2(1) s3(1) l(1) low_byte high_byte by (simp add: s2(2) s3(2))
qed

lemma latched_count_reads_back_witness:
  "let s = pit_step (Clock_all 5) (pit_write 0 1 (pit_write 0 0x2C (pit_write 3 (control_word 0 2) new_pit)));
       (lo, s2) = pit_read 0 (pit_step (Clock_all 200) (pit_write 3 (latch_command 0) s));
       (hi, s3) = pit_read 0 s2
   in lo = 0x28 \<and> hi = 1"
proof -
  let ?s = "pit_step (Clock_all 5) (pit_write 0 1 (pit_write 0 0x2C (pit_write 3 (control_word 0 2) new_pit)))"
  have n: "count (counter ?s 0) = 0x128" "read_state (counter ?s 0) = LSByte_multiple"
    "\<not> count_LSB_latched (counter ?s 0)" "\<not> count_MSB_latched (counter ?s 0)" "\<not> status_latched (counter ?s 0)"
    by code_simp+
  let ?s1 = "fold pit_step [Clock_all 200] (pit_write 3 (latch_command 0) ?s)"
  obtain lo s2 where r1: "pit_read 0 ?s1 = (lo, s2)" by fastforce
  obtain hi s3 where r2: "pit_read 0 s2 = (hi, s3)" by fastforce
  have "lo = 0x28 \<and> hi = 1"
    using latched_count_reads_back [OF _ n(2-5) _ refl r1 r2] unfolding n(1) by simp
  then show ?thesis
    using r1 r2 by (simp add: Let_def)
qed

section \<open>Reading the status back\<close>

lemma status_byte_bits:
  "bit (status_byte c) 7 = OUTpin c" "bit (status_byte c) 6 = null_count c"
  "drop_bit 4 (status_byte c) AND 3 = rw_mode c AND 3"
  "drop_bit 1 (status_byte c) AND 7 = mode c AND 7"
  "bit (status_byte c) 0 = bcd_mode c"
proof -
  have m: "(3 :: Bit8u) = mask 2" "(7 :: Bit8u) = mask 3" by (simp_all add: mask_eq_exp_minus_1)
  have b: "bit (of_bool x :: Bit8u) n \<longleftrightarrow> x \<and> n = 0" for x n by (auto simp: bit_simps)
  note s = status_byte_def m bit_or_iff bit_push_bit_iff bit_and_iff bit_mask_iff b bit_drop_bit_eq o_apply
  show "bit (status_byte c) 7 = OUTpin c" "bit (status_byte c) 6 = null_count c"
    "bit (status_byte c) 0 = bcd_mode c"
    unfolding s by simp_all
  show "drop_bit 4 (status_byte c) AND 3 = rw_mode c AND 3"
  proof (rule bit_word_eqI)
    fix n :: nat
    have "\<not> n < 2 \<or> n = 0 \<or> n = 1" by auto
    then show "bit (drop_bit 4 (status_byte c) AND 3) n = bit (rw_mode c AND 3) n"
      unfolding s by (elim disjE) simp_all
  qed
  show "drop_bit 1 (status_byte c) AND 7 = mode c AND 7"
  proof (rule bit_word_eqI)
    fix n :: nat
    have "\<not> n < 3 \<or> n = 0 \<or> n = 1 \<or> n = 2" by auto
    then show "bit (drop_bit 1 (status_byte c) AND 7) n = bit (mode c AND 7) n"
      unfolding s by (elim disjE) (simp_all add: numeral_2_eq_2)
  qed
qed

text \<open>The read-back command for the status of counter \<open>i\<close> alone.\<close>

definition status_command :: "nat \<Rightarrow> Bit8u" where
  "status_command i = 0xE0 OR push_bit (i + 1) 1"

lemma write_status_command:
  "i \<le> 2 \<Longrightarrow> pit_write 3 (status_command i) s =
    upd_counter i latch_status (s\<lparr> controlword := status_command i \<rparr>)"
proof -
  assume "i \<le> 2"
  then have "i \<in> {0, 1, 2}" by auto
  then show ?thesis
    by (elim insertE emptyE; simp add: status_command_def pit_write_def write_control_def
        read_back_counter_def upd_counter_def fun_eq_iff)
qed

text \<open>
  The read-back command for one counter's status, followed by a read of its port, returns the
  level of OUT, the null-count flag and the access, mode and BCD fields in their bits, and releases
  the status latch; the counter is otherwise unchanged.
\<close>
theorem status_reads_back:
  assumes "i \<le> 2" "\<not> status_latched (counter s i)"
    and "read_state (counter s i) \<noteq> MSByte_multiple"
    and "pit_read i (pit_write 3 (status_command i) s) = (v, s')"
  shows "bit v 7 = OUTpin (counter s i) \<and> bit v 6 = null_count (counter s i) \<and>
    drop_bit 4 v AND 3 = rw_mode (counter s i) AND 3 \<and> drop_bit 1 v AND 7 = mode (counter s i) AND 7 \<and>
    bit v 0 = bcd_mode (counter s i) \<and>
    counter s' i = (counter s i)\<lparr> status_latch := v \<rparr>"
proof -
  have "v = status_byte (counter s i)"
    and "counter s' i = (counter s i)\<lparr> status_latch := status_byte (counter s i), status_latched := False \<rparr>"
    using assms by (auto simp: write_status_command pit_read_def read_counter_def upd_counter_def latch_status_def)
  then show ?thesis
    using assms(2) by (simp add: status_byte_bits status_byte_bits(4) [simplified])
qed

lemma status_reads_back_witness:
  "let (v, _) = pit_read 2 (pit_write 3 (status_command 2) (pit_write 3 (control_word 2 3) new_pit))
   in bit v 7 \<and> bit v 6 \<and> drop_bit 1 v AND 7 = 3"
proof -
  let ?s = "pit_write 3 (control_word 2 3) new_pit"
  have n: "\<not> status_latched (counter ?s 2)" "read_state (counter ?s 2) \<noteq> MSByte_multiple"
    and m: "OUTpin (counter ?s 2)" "null_count (counter ?s 2)" "mode (counter ?s 2) AND 7 = 3"
    by code_simp+
  obtain v s' where r: "pit_read 2 (pit_write 3 (status_command 2) ?s) = (v, s')" by fastforce
  show ?thesis
    using status_reads_back [OF _ n r] m unfolding r by simp
qed

section \<open>Jumping and clocking\<close>

text \<open>
  C5. On the states the contract covers (mode 0, mode 2, and mode 3 with an even binary count,
  gated on), delivering time in blocks is the same as clocking every cycle: \<open>clock_multiple\<close>
  loses no change of the counter, its output or its calls, however the cycles are grouped.
\<close>
theorem jumps_equal_clocks:
  assumes "mode0_ok c \<or> mode2_ok c \<or> mode3_ok c"
  shows "fold clock_counter_multiple ns c = (clock_counter ^^ sum_list (map unat ns)) c"
  using assms by (elim disjE)
    (simp_all only: m0.clock_multiple_chunks m2.clock_multiple_chunks m3.clock_multiple_chunks)

lemma jumps_equal_clocks_witness:
  "fold clock_counter_multiple [4, 9] (program_rate 6 0 (init_counter blank_counter)) =
    (clock_counter ^^ 13) (program_rate 6 0 (init_counter blank_counter))"
proof -
  have "GATE (init_counter blank_counter)" "latch_value 6 0 \<noteq> 1"
    by (simp_all add: init_counter_def latch_value_def)
  then have "mode2_ok (program_rate 6 0 (init_counter blank_counter))"
    by (rule program_rate_ok(1))
  then show ?thesis
    using jumps_equal_clocks [of "program_rate 6 0 (init_counter blank_counter)" "[4, 9]"] by simp
qed

text \<open>
  Modes 6 and 7, the aliases of 2 and 3 that the control word accepts and a count write
  schedules, are dead: no number of cycles changes anything of such a counter.
\<close>
theorem alias_modes_are_dead:
  assumes "mode c \<in> {6, 7}"
  shows "clock_counter_multiple n c = c"
proof -
  have z: "clock_counter_multiple 0 d = d" for d by (simp add: clock_counter_multiple.simps)
  have "clock_no_change n c = c" using assms by (auto simp: clock_no_change_def)
  moreover have "mode c \<notin> {0, 1, 2, 4, 5}" "mode c \<noteq> 3" using assms by auto
  ultimately show ?thesis
    by (simp add: clock_counter_multiple.simps [of n c] z)
qed

lemma alias_modes_are_dead_witness:
  "let c = write_counter 0 (write_counter 100 (program_counter 3 6 0 (init_counter blank_counter)))
   in next_change_time c = 1 \<and> clock_counter_multiple 1000 c = c"
proof -
  let ?c = "write_counter 0 (write_counter 100 (program_counter 3 6 0 (init_counter blank_counter)))"
  have "mode ?c \<in> {6, 7}" "next_change_time ?c = 1" by code_simp+
  then show ?thesis
    using alias_modes_are_dead [of ?c 1000] by (simp only: Let_def simp_thms)
qed

end
