(* ===== verification/PitBoard.thy ===== *)
theory PitBoard
  imports Pit82c54_Chip
begin

text \<open>
  The board around the 82C54, \<open>bochs-2.6.8/iodev/pit.cc\<close> and \<open>pit.h\<close>: ports 0x40 to 0x43 and 0x61,
  the accounting of emulated microseconds as PIT ticks, and the virtual timer that wakes the
  device.  \<open>now\<close> is the value \<open>bx_virt_timer.time_usec\<close> returns to the call (\<open>now'\<close> to the second
  call of a read of port 0x61); \<open>virt_timer\<close> is the period the device's timer is armed with,
  if it is; \<open>speaker\<close> logs the calls of the speaker device, \<open>Some v\<close> for a beep at 1193180/\<open>v\<close> Hz
  and \<open>None\<close> for silence.  The handler of counter 0 is \<open>irq_handler\<close>; its calls are the list
  \<open>out_calls\<close> of that counter.
\<close>

record bx_pit_c =
  timer :: pit_82C54
  speaker_data_on :: bool
  speaker_active :: bool
  last_usec :: Bit64u
  last_next_event_time :: Bit32u
  total_ticks :: Bit64u
  total_usec :: Bit64u
  virt_timer :: "Bit32u option"
  speaker :: "Bit32u option list"
  port_panics :: "Bit32u list"

section \<open>Ticks and microseconds\<close>

abbreviation USEC_PER_SECOND :: "'a::len word" where "USEC_PER_SECOND \<equiv> 1000000"
abbreviation TICKS_PER_SECOND :: "'a::len word" where "TICKS_PER_SECOND \<equiv> 1193181"

text \<open>The macros take the width of their argument: 32 bits for an event time, 64 for \<open>total_usec\<close>.\<close>

definition TICKS_TO_USEC :: "Bit32u \<Rightarrow> Bit32u" where
  "TICKS_TO_USEC a = (a * USEC_PER_SECOND) div TICKS_PER_SECOND"

definition USEC_TO_TICKS :: "Bit64u \<Rightarrow> Bit64u" where
  "USEC_TO_TICKS a = (a * TICKS_PER_SECOND) div USEC_PER_SECOND"

text \<open>Whole seconds are taken off both totals.\<close>

function drop_seconds :: "Bit64u \<Rightarrow> Bit64u \<Rightarrow> Bit64u \<times> Bit64u" where
  "drop_seconds ticks usec =
     (if ticks \<ge> TICKS_PER_SECOND \<and> usec \<ge> USEC_PER_SECOND
      then drop_seconds (ticks - TICKS_PER_SECOND) (usec - USEC_PER_SECOND) else (ticks, usec))"
  by pat_completeness auto
termination
proof (relation "measure (\<lambda>(ticks, usec). unat usec)", goal_cases)
  case (2 ticks usec)
  then show ?case by (simp add: unat_sub word_le_nat_alt)
qed simp

declare drop_seconds.simps [simp del]

text \<open>The clock of the chip, delivered up to the next event at a time.\<close>

function clock_ticks :: "Bit32u \<Rightarrow> pit_82C54 \<Rightarrow> pit_82C54" where
  "clock_ticks ticks_delta t =
     (if ticks_delta > 0 then
        (let maxchange = get_next_event_time t;
             timedelta = (if maxchange = 0 \<or> maxchange > ticks_delta then ticks_delta else maxchange)
         in clock_ticks (ticks_delta - timedelta) (clock_all timedelta t))
      else t)"
  by pat_completeness auto
termination
proof (relation "measure (\<lambda>(ticks_delta, t). unat ticks_delta)", goal_cases)
  case (2 ticks_delta t x xa)
  then have "xa \<noteq> 0" "xa \<le> ticks_delta" by (auto simp: word_gt_0 not_less)
  moreover from this have "0 < unat xa" by (simp add: unat_gt_0)
  ultimately have "unat (ticks_delta - xa) < unat ticks_delta"
    by (simp add: unat_sub word_le_nat_alt)
  then show ?case by simp
qed simp

declare clock_ticks.simps [simp del]

definition periodic :: "Bit32u \<Rightarrow> bx_pit_c \<Rightarrow> bx_pit_c" where
  "periodic usec_delta s =
     (let usec = total_usec s + ucast usec_delta;
          ticks_delta = (ucast (USEC_TO_TICKS usec - total_ticks s) :: Bit32u);
          (ticks, usec') = drop_seconds (total_ticks s + ucast ticks_delta) usec
      in s\<lparr> total_usec := usec', total_ticks := ticks, timer := clock_ticks ticks_delta (timer s) \<rparr>)"

section \<open>The device\<close>

text \<open>The virtual timer is armed again for the next event, if there is one.\<close>

definition rearm :: "bx_pit_c \<Rightarrow> bx_pit_c" where
  "rearm s =
     (let t = get_next_event_time (timer s)
      in s\<lparr> virt_timer := (if t \<noteq> 0 then Some (max 1 (TICKS_TO_USEC t)) else None),
            last_next_event_time := t \<rparr>)"

text \<open>\<open>bx_pit_c::init\<close>; the timer it registers is the one \<open>virt_timer\<close> arms.\<close>

definition board_init :: "Bit64u \<Rightarrow> bx_pit_c \<Rightarrow> bx_pit_c" where
  "board_init now s =
     (rearm (s\<lparr> speaker_data_on := False, speaker_active := False,
                timer := set_OUT_handler 0 (pit_init (timer s)) \<rparr>))
       \<lparr> last_usec := now, total_ticks := 0, total_usec := 0 \<rparr>"

definition pass_time :: "Bit64u \<Rightarrow> bx_pit_c \<Rightarrow> bx_pit_c" where
  "pass_time now s =
     (let time_passed = now - last_usec s;
          time_passed32 = (ucast time_passed :: Bit32u);
          s1 = (if time_passed32 \<noteq> 0 then periodic time_passed32 s else s)
      in s1\<lparr> last_usec := last_usec s1 + time_passed \<rparr>)"

definition rearm_if :: "bool \<Rightarrow> bx_pit_c \<Rightarrow> bx_pit_c" where
  "rearm_if passed s =
     (if passed \<or> last_next_event_time s \<noteq> get_next_event_time (timer s) then rearm s else s)"

definition handle_timer :: "Bit64u \<Rightarrow> bx_pit_c \<Rightarrow> bx_pit_c" where
  "handle_timer now s = rearm_if (now - last_usec s \<noteq> 0) (pass_time now s)"

definition get_timer :: "nat \<Rightarrow> bx_pit_c \<Rightarrow> Bit16u" where
  "get_timer n s = get_inlatch n (timer s)"

definition new_timer_count :: "nat \<Rightarrow> bx_pit_c \<Rightarrow> bool" where
  "new_timer_count n s = new_count_ready n (timer s)"

definition board_read :: "Bit32u \<Rightarrow> Bit64u \<Rightarrow> Bit64u \<Rightarrow> bx_pit_c \<Rightarrow> Bit8u \<times> bx_pit_c" where
  "board_read address now now' s0 =
     (let s = handle_timer now s0 in
      if address \<in> {0x40, 0x41, 0x42, 0x43} then
        (let (v, t) = pit_read (unat (address - 0x40)) (timer s) in (v, s\<lparr> timer := t \<rparr>))
      else if address = 0x61 then
        (let refresh_clock_div2 = bit (now' div 15) 0
         in (push_bit 5 (of_bool (read_OUT 2 (timer s))) OR push_bit 4 (of_bool refresh_clock_div2) OR
             push_bit 1 (of_bool (speaker_data_on s)) OR of_bool (read_GATE 2 (timer s)), s))
      else (0, s\<lparr> port_panics := port_panics s @ [address] \<rparr>))"

definition beep_on :: "bx_pit_c \<Rightarrow> bx_pit_c" where
  "beep_on s =
     (let value32 = (ucast (get_timer 2 s) :: Bit32u);
          value32 = (if value32 = 0 then 0x10000 else value32)
      in s\<lparr> speaker := speaker s @ [Some value32] \<rparr>)"

definition beep_off :: "bx_pit_c \<Rightarrow> bx_pit_c" where
  "beep_off s = s\<lparr> speaker := speaker s @ [None] \<rparr>"

definition write_port61 :: "Bit8u \<Rightarrow> bx_pit_c \<Rightarrow> bx_pit_c" where
  "write_port61 val s =
     (let s1 = s\<lparr> timer := set_GATE 2 (bit val 0) (timer s), speaker_data_on := bit val 1 \<rparr>;
          new_speaker_active = (val AND 3 = 3)
      in if speaker_active s1 \<noteq> new_speaker_active
         then (if new_speaker_active then beep_on s1 else beep_off s1)
                \<lparr> speaker_active := new_speaker_active \<rparr>
         else s1)"

definition write_port :: "Bit32u \<Rightarrow> Bit8u \<Rightarrow> bx_pit_c \<Rightarrow> bx_pit_c" where
  "write_port address val s =
     (if address = 0x40 then s\<lparr> timer := pit_write 0 val (timer s) \<rparr>
      else if address = 0x41 then s\<lparr> timer := pit_write 1 val (timer s) \<rparr>
      else if address = 0x42 then
        (let s1 = s\<lparr> timer := pit_write 2 val (timer s) \<rparr>
         in if speaker_active s1 \<and> new_timer_count 2 s1 then beep_on s1 else s1)
      else if address = 0x43 then s\<lparr> timer := pit_write 3 val (timer s) \<rparr>
      else if address = 0x61 then write_port61 val s
      else s\<lparr> port_panics := port_panics s @ [address] \<rparr>)"

definition board_write :: "Bit32u \<Rightarrow> Bit32u \<Rightarrow> Bit64u \<Rightarrow> bx_pit_c \<Rightarrow> bx_pit_c" where
  "board_write address dvalue now s =
     rearm_if (now - last_usec s \<noteq> 0) (write_port address (ucast dvalue) (pass_time now s))"

section \<open>No tick is lost\<close>

text \<open>
  The totals stay within a second and agree: the ticks are the whole ticks of the microseconds.
\<close>

definition totals_ok :: "bx_pit_c \<Rightarrow> bool" where
  "totals_ok s \<longleftrightarrow> uint (total_usec s) < 1000000 \<and>
     uint (total_ticks s) = uint (total_usec s) * 1193181 div 1000000"

lemma uint_USEC_TO_TICKS:
  "uint u \<le> 10000000000 \<Longrightarrow> uint (USEC_TO_TICKS u) = uint u * 1193181 div 1000000"
  by (simp add: USEC_TO_TICKS_def uint_div_distrib uint_word_ariths)

lemma drop_seconds_totals:
  "uint ticks = uint usec * 1193181 div 1000000 \<Longrightarrow>
     (let (ticks', usec') = drop_seconds ticks usec
      in uint usec' = uint usec mod 1000000 \<and> uint ticks' = uint usec' * 1193181 div 1000000)"
proof (induction ticks usec rule: drop_seconds.induct)
  case (1 ticks usec)
  let ?more = "ticks \<ge> 1193181 \<and> usec \<ge> 1000000"
  have more: "?more \<longleftrightarrow> uint usec \<ge> 1000000"
    using 1(2) by (auto simp: word_le_def)
  show ?case
  proof (cases ?more)
    case True
    then have u: "uint (usec - 1000000) = uint usec - 1000000"
      and t: "uint (ticks - 1193181) = uint ticks - 1193181"
      using uint_minus_simple_alt [of 1000000 usec] uint_minus_simple_alt [of 1193181 ticks] by simp_all
    have "uint usec * 1193181 = (uint usec - 1000000) * 1193181 + 1193181 * 1000000" by simp
    then have "uint usec * 1193181 div 1000000 = (uint usec - 1000000) * 1193181 div 1000000 + 1193181"
      by (simp only: div_mult_self2)
    then have "uint (ticks - 1193181) = uint (usec - 1000000) * 1193181 div 1000000"
      using 1(2) by (simp only: u t)
    from 1(1) [OF True this] show ?thesis
      using True by (subst drop_seconds.simps) (simp add: u mod_diff_right_eq [symmetric] split_def Let_def)
  next
    case False
    then show ?thesis
      using 1(2) more unfolding drop_seconds.simps [of ticks usec] if_not_P [OF False] by simp
  qed
qed

text \<open>One delivery: the chip is clocked by the difference of the totals.\<close>

lemma periodic_delivers:
  assumes "totals_ok s" "uint d \<le> 3590000000"
  shows "\<exists>k. timer (periodic d s) = clock_ticks k (timer s) \<and> totals_ok (periodic d s) \<and>
    uint (total_usec (periodic d s)) = (uint (total_usec s) + uint d) mod 1000000 \<and>
    uint k = (uint (total_usec s) + uint d) * 1193181 div 1000000 - uint (total_usec s) * 1193181 div 1000000"
proof -
  let ?u = "total_usec s + ucast d"
  let ?k = "ucast (USEC_TO_TICKS ?u - total_ticks s) :: Bit32u"
  note d = uint_ucast_32_64 [of d]
  have u: "uint ?u = uint (total_usec s) + uint d"
    using assms by (simp add: totals_ok_def uint_word_ariths d)
  have t: "uint (USEC_TO_TICKS ?u) = uint ?u * 1193181 div 1000000"
    using assms by (intro uint_USEC_TO_TICKS) (simp add: u totals_ok_def)
  have le: "uint (total_ticks s) \<le> uint (USEC_TO_TICKS ?u)"
    using assms by (simp add: t u totals_ok_def zdiv_mono1)
  have diff: "uint (USEC_TO_TICKS ?u - total_ticks s) = uint (USEC_TO_TICKS ?u) - uint (total_ticks s)"
    using le by (simp add: uint_minus_simple_alt [THEN iffD1] word_le_def)
  have "(uint (total_usec s) + uint d) * 1193181 div 1000000 \<le> 3591000000 * 1193181 div 1000000"
    using assms by (intro zdiv_mono1) (auto simp: totals_ok_def)
  then have small: "uint (USEC_TO_TICKS ?u) - uint (total_ticks s) < 4294967296"
    using uint_ge_0 [of "total_ticks s"] unfolding t u by linarith
  have k: "uint ?k = uint (USEC_TO_TICKS ?u) - uint (total_ticks s)"
    using small le by (simp add: unsigned_ucast_eq diff take_bit_int_eq_self)
  have "uint (ucast ?k :: Bit64u) = uint ?k" by (rule uint_ucast_32_64)
  then have "(ucast ?k :: Bit64u) = USEC_TO_TICKS ?u - total_ticks s"
    by (intro word_uint_eq_iff [THEN iffD2]) (simp only: diff k)
  then have total: "total_ticks s + ucast ?k = USEC_TO_TICKS ?u" by simp
  show ?thesis
    using drop_seconds_totals [of "USEC_TO_TICKS ?u" ?u] k t u assms
    by (intro exI [of _ ?k])
      (simp add: periodic_def Let_def split_def total totals_ok_def)
qed

lemma clock_ticks_chunks:
  "\<exists>ns. sum_list (map unat ns) = unat k \<and>
     (\<forall>i\<le>2. counter (clock_ticks k t) i = fold clock_counter_multiple ns (counter t i))"
proof (induction k t rule: clock_ticks.induct)
  case (1 k t)
  show ?case
  proof (cases "k > 0")
    case True
    define n where "n = (if get_next_event_time t = 0 \<or> get_next_event_time t > k then k
      else get_next_event_time t)"
    have n: "n \<le> k" by (auto simp: n_def)
    from 1 [OF True refl n_def] obtain ns where ns: "sum_list (map unat ns) = unat (k - n)"
      "\<And>i. i \<le> 2 \<Longrightarrow> counter (clock_ticks (k - n) (clock_all n t)) i =
        fold clock_counter_multiple ns (counter (clock_all n t) i)" by blast
    have "counter (clock_all n t) i = clock_counter_multiple n (counter t i)" if "i \<le> 2" for i
      using that by (auto simp: clock_all_def clock_multiple_def upd_counter_def le_Suc_eq numeral_2_eq_2)
    moreover have "clock_ticks k t = clock_ticks (k - n) (clock_all n t)"
      using True by (subst clock_ticks.simps) (simp add: n_def Let_def)
    moreover have "unat n + unat (k - n) = unat k"
      using n by (simp add: unat_sub word_le_nat_alt)
    ultimately show ?thesis
      using ns by (intro exI [of _ "n # ns"]) simp
  next
    case False
    then have "k = 0" by (simp add: word_gt_0)
    then show ?thesis by (intro exI [of _ "[]"]) (simp add: clock_ticks.simps)
  qed
qed

text \<open>The counters whose clock may be jumped: the instances of the contract of modes 0, 2 and 3.\<close>

definition counter_ok :: "counter_type \<Rightarrow> bool" where
  "counter_ok c \<longleftrightarrow> mode0_ok c \<or> mode2_ok c \<or> mode3_ok c"

lemma counter_ok_chunks:
  assumes "counter_ok c"
  shows "fold clock_counter_multiple ns c = (clock_counter ^^ sum_list (map unat ns)) c"
  using assms unfolding counter_ok_def
  by (elim disjE) (simp_all only: m0.clock_multiple_chunks m2.clock_multiple_chunks m3.clock_multiple_chunks)

lemma counter_ok_clocks: "counter_ok c \<Longrightarrow> counter_ok ((clock_counter ^^ n) c)"
  unfolding counter_ok_def using m0.clocks_ok m2.clocks_ok m3.clocks_ok by blast

lemma funpow_add_apply: "(f ^^ m) ((f ^^ n) x) = (f ^^ (m + n)) x"
  by (simp add: funpow_add)

lemma clock_ticks_counter:
  assumes "i \<le> 2" "counter_ok (counter t i)"
  shows "counter (clock_ticks k t) i = (clock_counter ^^ unat k) (counter t i)"
  using clock_ticks_chunks [of k t] assms counter_ok_chunks by metis

lemma div_add_whole: "(x mod 1000000 + d) * 1193181 div 1000000 - x mod 1000000 * 1193181 div 1000000 =
    (x + d) * 1193181 div 1000000 - x * 1193181 div (1000000 :: int)"
proof -
  define q r where "q = x div 1000000" and "r = x mod 1000000"
  have x: "x = q * 1000000 + r" by (simp add: q_def r_def)
  have "x * 1193181 = r * 1193181 + (q * 1193181) * 1000000"
    "(x + d) * 1193181 = (r + d) * 1193181 + (q * 1193181) * 1000000"
    by (simp_all add: x algebra_simps)
  then show ?thesis unfolding r_def [symmetric] by (simp only: div_mult_self1)
qed

text \<open>
  C8. The device delivers exactly the ticks of the elapsed time to a counter that runs in one of the modes
  0, 2 and 3, the last with an even count, with its GATE high and in a state of that mode
  (\<open>counter_ok\<close>): however the microseconds are cut into calls of \<open>periodic\<close>, none longer than 3590 s, such
  a counter has been clocked \<open>\<lfloor>usec * 1193181 / 1000000\<rfloor>\<close> times, one cycle at a time, with no tick lost or
  doubled by the rounding, by the once-a-second reduction of the totals or by the jumps to the next event.
  For an odd count in mode 3 the jumps do lose cycles (\<open>square_wave_exceptions\<close>).
\<close>
theorem no_tick_lost:
  assumes "totals_ok s" "\<forall>d \<in> set ds. uint d \<le> 3590000000" "i \<le> 2" "counter_ok (counter (timer s) i)"
  shows "counter (timer (fold periodic ds s)) i =
    (clock_counter ^^ nat ((uint (total_usec s) + sum_list (map uint ds)) * 1193181 div 1000000 -
      uint (total_usec s) * 1193181 div 1000000)) (counter (timer s) i)"
  using assms
proof (induction ds arbitrary: s)
  case (Cons d ds)
  from Cons.prems obtain k where k: "timer (periodic d s) = clock_ticks k (timer s)"
    "totals_ok (periodic d s)" "uint (total_usec (periodic d s)) = (uint (total_usec s) + uint d) mod 1000000"
    "uint k = (uint (total_usec s) + uint d) * 1193181 div 1000000 -
      uint (total_usec s) * 1193181 div 1000000"
    using periodic_delivers [of s d] by auto
  have c: "counter (timer (periodic d s)) i = (clock_counter ^^ unat k) (counter (timer s) i)"
    using Cons.prems by (simp add: k clock_ticks_counter)
  then have ok: "counter_ok (counter (timer (periodic d s)) i)"
    using Cons.prems by (simp add: counter_ok_clocks)
  let ?u = "uint (total_usec s)" and ?r = "sum_list (map uint ds)"
  have r: "0 \<le> ?r" by (rule sum_list_nonneg) auto
  have mono: "(?u + uint d) * 1193181 div 1000000 \<le> (?u + uint d + ?r) * 1193181 div 1000000"
    using r by (intro zdiv_mono1) simp_all
  have "nat ((?u + uint d + ?r) * 1193181 div 1000000 - (?u + uint d) * 1193181 div 1000000) + unat k =
      nat ((?u + uint d + ?r) * 1193181 div 1000000 - ?u * 1193181 div 1000000)"
    using mono uint_ge_0 [of k] unfolding unat_eq_nat_uint k(4) by linarith
  then have n: "nat (((?u + uint d) mod 1000000 + ?r) * 1193181 div 1000000 -
      (?u + uint d) mod 1000000 * 1193181 div 1000000) + unat k =
      nat ((?u + sum_list (map uint (d # ds))) * 1193181 div 1000000 - ?u * 1193181 div 1000000)"
    by (simp only: div_add_whole list.map sum_list.Cons add.assoc)
  have ds: "\<forall>d \<in> set ds. uint d \<le> 3590000000" using Cons.prems(2) by simp
  show ?case
    unfolding n [symmetric] fold_simps o_apply
    by (simp only: Cons.IH [OF k(2) ds Cons.prems(3) ok] k(3) c funpow_add_apply)
qed simp

section \<open>The virtual timer\<close>

text \<open>
  The next event of the chip is the earliest pending event of its counters, but only while
  counter 0 has one: with counter 0 idle the events of counters 1 and 2 are not seen.
\<close>
theorem next_event_time_earliest:
  "get_next_event_time t =
     (if next_change_time (counter t 0) = 0 then 0
      else Min ((\<lambda>i. next_change_time (counter t i)) ` {i \<in> {0, 1, 2}. next_change_time (counter t i) \<noteq> 0}))"
proof -
  have "{i \<in> {0, 1, 2 :: nat}. P i} =
      (if P 0 then {0} else {}) \<union> (if P 1 then {1} else {}) \<union> (if P 2 then {2} else {})" for P
    by (auto intro: ccontr)
  then show ?thesis
    by (cases "next_change_time (counter t 0) = 0"; cases "next_change_time (counter t 1) = 0";
        cases "next_change_time (counter t 2) = 0")
      (auto simp: get_next_event_time_def get_clock_event_time_def Let_def min_def not_less
        intro: antisym order.strict_implies_order)
qed

text \<open>
  C25. The period of the virtual timer is computed in 32 bits: it is the time of the event, rounded
  down, up to 4294 ticks, and falls short for some later event. It never exceeds that time, so the
  device wakes too often but never late.
\<close>
theorem event_period_never_late:
  "uint (TICKS_TO_USEC a) \<le> uint a * 1000000 div 1193181 \<and>
   (uint a \<le> 4294 \<longrightarrow> uint (TICKS_TO_USEC a) = uint a * 1000000 div 1193181) \<and>
   uint (TICKS_TO_USEC 4295) = 0"
proof -
  have "uint a * 1000000 mod 4294967296 \<le> uint a * 1000000"
    by (rule zmod_le_nonneg_dividend) simp
  then show ?thesis
    by (simp add: TICKS_TO_USEC_def uint_div_distrib uint_word_ariths zdiv_mono1)
qed

lemma event_period_never_late_witness:
  "uint (TICKS_TO_USEC 1197) = 1003"
  using event_period_never_late [of 1197] by simp

text \<open>The events of the device: its timer (which disarms when it fires) and the two port handlers.\<close>

datatype board_op =
    Fire Bit64u
  | Port_read Bit32u Bit64u Bit64u
  | Port_write Bit32u Bit32u Bit64u

fun board_step :: "board_op \<Rightarrow> bx_pit_c \<Rightarrow> bx_pit_c" where
  "board_step (Fire now) s = handle_timer now (s\<lparr> virt_timer := None \<rparr>)"
| "board_step (Port_read a now now') s = snd (board_read a now now' s)"
| "board_step (Port_write a v now) s = board_write a v now s"

fun op_time :: "board_op \<Rightarrow> Bit64u" where
  "op_time (Fire now) = now"
| "op_time (Port_read a now now') = now"
| "op_time (Port_write a v now) = now"

text \<open>
  The calls of the emulator's timer service: time does not stand still when the timer fires, and no
  event is more than 3590 s after the one before.
\<close>

fun op_ok :: "board_op \<Rightarrow> bx_pit_c \<Rightarrow> bool" where
  "op_ok p s \<longleftrightarrow> uint (op_time p - last_usec s) \<le> 3590000000 \<and>
     (case p of Fire now \<Rightarrow> now \<noteq> last_usec s | _ \<Rightarrow> True)"

fun ops_ok :: "board_op list \<Rightarrow> bx_pit_c \<Rightarrow> bool" where
  "ops_ok [] s = True"
| "ops_ok (p # ps) s = (op_ok p s \<and> ops_ok ps (board_step p s))"

text \<open>The virtual timer is armed for the event that \<open>get_next_event_time\<close> has returned, and off for 0.\<close>

definition timer_set :: "bx_pit_c \<Rightarrow> bool" where
  "timer_set s \<longleftrightarrow> virt_timer s =
     (let t = last_next_event_time s in if t \<noteq> 0 then Some (max 1 (TICKS_TO_USEC t)) else None)"

definition board_inv :: "bx_pit_c \<Rightarrow> bool" where
  "board_inv s \<longleftrightarrow> pit_inv (timer s) \<and> totals_ok s \<and> timer_set s \<and>
     last_next_event_time s = get_next_event_time (timer s) \<and>
     (speaker_active s \<longrightarrow> speaker_data_on s)"

text \<open>What a delivery of time and a port access keep, whatever the state of the virtual timer.\<close>

definition chip_inv :: "bx_pit_c \<Rightarrow> bool" where
  "chip_inv s \<longleftrightarrow> pit_inv (timer s) \<and> totals_ok s \<and> (speaker_active s \<longrightarrow> speaker_data_on s)"

lemma board_inv_rearm_if:
  assumes "chip_inv s" "p \<or> timer_set s"
  shows "board_inv (rearm_if p s)"
  using assms
  by (auto simp: board_inv_def chip_inv_def rearm_if_def rearm_def timer_set_def totals_ok_def Let_def)

lemma pit_inv_clock_ticks: "pit_inv t \<Longrightarrow> pit_inv (clock_ticks k t)"
proof (induction k t rule: clock_ticks.induct)
  case (1 k t)
  have "pit_inv (clock_all n t)" for n using pit_inv_step [OF 1(2), of "Clock_all n"] by simp
  then show ?case
    using 1 by (subst clock_ticks.simps) (simp add: Let_def)
qed

lemma periodic_frame [simp]:
  "virt_timer (periodic d s) = virt_timer s" "last_next_event_time (periodic d s) = last_next_event_time s"
  "speaker_active (periodic d s) = speaker_active s" "speaker_data_on (periodic d s) = speaker_data_on s"
  "last_usec (periodic d s) = last_usec s"
  by (simp_all add: periodic_def Let_def split_def)

lemma chip_inv_pass_time:
  assumes "chip_inv s" "uint (now - last_usec s) \<le> 3590000000"
  shows "chip_inv (pass_time now s)" "timer_set (pass_time now s) = timer_set s"
    "last_next_event_time (pass_time now s) = last_next_event_time s"
proof -
  let ?d = "ucast (now - last_usec s) :: Bit32u"
  have "uint ?d \<le> 3590000000"
    using assms(2) by (simp add: unsigned_ucast_eq take_bit_int_eq_self)
  then obtain k where "timer (periodic ?d s) = clock_ticks k (timer s)" "totals_ok (periodic ?d s)"
    using periodic_delivers [of s ?d] assms(1) by (auto simp: chip_inv_def)
  then show "chip_inv (pass_time now s)"
    using assms(1) pit_inv_clock_ticks by (auto simp: pass_time_def chip_inv_def totals_ok_def Let_def)
qed (simp_all add: pass_time_def timer_set_def Let_def)

lemma chip_inv_op: "chip_inv s \<Longrightarrow> chip_inv (s\<lparr> timer := pit_step p (timer s) \<rparr>)"
  by (simp add: chip_inv_def totals_ok_def pit_inv_step)

lemma chip_inv_frame [simp]:
  "chip_inv (s\<lparr> speaker := l \<rparr>) = chip_inv s" "chip_inv (s\<lparr> port_panics := q \<rparr>) = chip_inv s"
  by (simp_all add: chip_inv_def totals_ok_def)

lemma chip_inv_port61: "chip_inv s \<Longrightarrow> chip_inv (write_port61 v s)"
proof -
  have v: "v AND 3 = 3 \<longleftrightarrow> bit v 0 \<and> bit v 1"
  proof -
    have "(3 :: Bit8u) = bitm 0 OR bitm 1" by (simp add: bitm_def)
    then have "v AND 3 = 3 \<longleftrightarrow> (\<forall>n < 8. n \<in> {0, 1} \<longrightarrow> bit v n)"
      by (auto simp: bit_eq_iff bit_simps)
    then show ?thesis by (auto simp: numeral_eq_Suc All_less_Suc)
  qed
  assume "chip_inv s"
  then show ?thesis
    using pit_inv_step [of "timer s" "Gate 2 (bit v 0)"]
    by (auto simp: write_port61_def chip_inv_def totals_ok_def beep_on_def beep_off_def Let_def v)
qed

lemma chip_inv_write_port: "chip_inv s \<Longrightarrow> chip_inv (write_port a v s)"
  using chip_inv_op [of s "Write_port 0 v"] chip_inv_op [of s "Write_port 1 v"]
    chip_inv_op [of s "Write_port 2 v"] chip_inv_op [of s "Write_port 3 v"]
  by (simp add: write_port_def chip_inv_port61 beep_on_def Let_def)

lemma write_port_timer_set [simp]: "timer_set (write_port a v s) = timer_set s"
  by (simp add: write_port_def write_port61_def beep_on_def beep_off_def timer_set_def Let_def)

lemma board_inv_chip: "board_inv s \<Longrightarrow> chip_inv s \<and> timer_set s"
  by (simp add: board_inv_def chip_inv_def)

lemma board_inv_handle_timer:
  assumes "chip_inv s" "uint (now - last_usec s) \<le> 3590000000" "now \<noteq> last_usec s \<or> timer_set s"
  shows "board_inv (handle_timer now s)"
  unfolding handle_timer_def using assms chip_inv_pass_time [OF assms(1,2)]
  by (intro board_inv_rearm_if) auto

lemma pit_read_next [simp]: "get_next_event_time (snd (pit_read i t)) = get_next_event_time t"
proof -
  have "next_change_time (snd (read_counter c)) = next_change_time c" for c
    by (simp add: read_counter_def Let_def)
  then have "next_change_time (counter (snd (pit_read i t)) j) = next_change_time (counter t j)" for j
    by (simp add: pit_read_def upd_counter_def split_def Let_def)
  then show ?thesis by (simp add: get_next_event_time_def get_clock_event_time_def)
qed

lemma board_inv_read:
  assumes "board_inv s" "uint (now - last_usec s) \<le> 3590000000"
  shows "board_inv (snd (board_read a now now' s))"
proof -
  let ?s = "handle_timer now s"
  have s: "board_inv ?s" using assms board_inv_chip by (blast intro: board_inv_handle_timer)
  have "board_inv (?s\<lparr> timer := snd (pit_read i (timer ?s)) \<rparr>)" for i
    using s pit_inv_step [of "timer ?s" "Read_port i"]
    by (simp add: board_inv_def totals_ok_def timer_set_def)
  moreover have "board_inv (?s\<lparr> port_panics := q \<rparr>)" for q
    using s by (simp add: board_inv_def totals_ok_def timer_set_def)
  ultimately show ?thesis
    using s unfolding board_read_def Let_def split_def by simp
qed

lemma board_inv_step:
  assumes "board_inv s" "op_ok p s"
  shows "board_inv (board_step p s)"
proof (cases p)
  case (Fire now)
  have "chip_inv (s\<lparr> virt_timer := None \<rparr>)"
    using assms by (simp add: board_inv_def chip_inv_def totals_ok_def)
  then show ?thesis using assms Fire by (simp add: board_inv_handle_timer)
next
  case (Port_read a now now')
  then show ?thesis using assms board_inv_read by simp
next
  case (Port_write a v now)
  then have "chip_inv (pass_time now s)" "timer_set (pass_time now s)"
    using assms chip_inv_pass_time [of s now] board_inv_chip [of s] by auto
  then show ?thesis
    using Port_write by (simp add: board_write_def board_inv_rearm_if chip_inv_write_port)
qed

text \<open>
  From \<open>bx_pit_c::init\<close> on, whatever the guest reads and writes and whenever the timer fires (no
  two events more than 3590 s apart), the totals agree, the chip's invariant holds, and the virtual
  timer is armed for what \<open>get_next_event_time\<close> returns, with that period.  The result is 0, and the timer
  off, whenever counter 0 is idle: programming counter 2 alone leaves its next change without a timer.
\<close>
theorem board_always_in_order:
  assumes "board_inv s" "ops_ok ps s"
  shows "board_inv (fold board_step ps s)"
  using assms by (induction ps arbitrary: s) (simp_all add: board_inv_step del: op_ok.simps)

definition fresh_board :: bx_pit_c where
  "fresh_board = \<lparr> timer = new_pit, speaker_data_on = False, speaker_active = False, last_usec = 0,
     last_next_event_time = 0, total_ticks = 0, total_usec = 0, virt_timer = None, speaker = [],
     port_panics = [] \<rparr>"

lemma pit_inv_new: "pit_inv (set_OUT_handler 0 (pit_init new_pit))"
  by (simp add: pit_inv_def set_OUT_handler_def upd_counter_def new_pit_def pit_init_def
      init_counter_def blank_counter_def ctr_inv_def handler_sync_def ctr_wf_def cmod_def encode_def)

lemma board_init_inv: "board_inv (board_init now fresh_board)"
  using pit_inv_new
  by (simp add: board_init_def fresh_board_def rearm_def board_inv_def timer_set_def totals_ok_def Let_def)

theorem idle_counter_0_stops_timer:
  "let s = fold board_step [Port_write 0x43 0xB0 0, Port_write 0x42 4 0, Port_write 0x42 0 0] (board_init 0 fresh_board)
   in next_change_time (counter (timer s) 2) = 1 \<and> virt_timer s = None"
  by code_simp

lemma no_tick_lost_witness:
  "counter (timer (fold periodic [400, 600] (fresh_board\<lparr> timer := pit_write 0 4 (pit_write 0 0xAD
      (pit_write 3 (control_word 0 2) new_pit)) \<rparr>))) 0 =
    (clock_counter ^^ 1193) (program_rate 0xAD 4 (init_counter blank_counter))"
proof -
  let ?s = "fresh_board\<lparr> timer := pit_write 0 4 (pit_write 0 0xAD (pit_write 3 (control_word 0 2) new_pit)) \<rparr>"
  have c: "counter (timer ?s) 0 = program_rate 0xAD 4 (init_counter blank_counter)"
    by (simp add: counter_program_rate) (simp add: new_pit_def pit_init_def)
  have "GATE (init_counter blank_counter)" "latch_value 0xAD 4 \<noteq> 1"
    by (simp_all add: init_counter_def latch_value_def)
  then have ok: "counter_ok (counter (timer ?s) 0)"
    unfolding c counter_ok_def by (blast intro: program_rate_ok(1))
  have "totals_ok ?s" "total_usec ?s = 0" by (simp_all add: totals_ok_def fresh_board_def)
  then show ?thesis
    using no_tick_lost [OF \<open>totals_ok ?s\<close> _ _ ok, of "[400, 600]"] by (simp flip: c)
qed

end
