(* ===== verification/DList.thy ===== *)
theory DList
  imports Prelude
begin

text \<open>
  The kernel's doubly linked lists, \<open>SSUOS_P6/src/kernel/list.c\<close>.  The links of all list elements
  are the heap \<open>links\<close>: an address maps to its \<open>prev\<close> and \<open>next\<close> pointers, NULL is 0 (a store through
  NULL goes to the cell 0, as it does on the bare machine).  A \<open>struct list\<close> is the pair of the
  addresses of its two header elements.  The comparison passed to the ordering functions is a
  parameter \<open>lt\<close>, with \<open>aux\<close> fixed.  The ASSERT macro is empty in this file's configuration.  A loop
  that follows links may not end on damaged links: it is a partial function, whose value is None
  when it runs forever.
\<close>

record links =
  prev_ptr :: "nat \<Rightarrow> nat"
  next_ptr :: "nat \<Rightarrow> nat"

record struct_list =
  head :: nat
  tail :: nat

definition set_prev :: "nat \<Rightarrow> nat \<Rightarrow> links \<Rightarrow> links" where
  "set_prev a v h = h\<lparr> prev_ptr := (prev_ptr h)(a := v) \<rparr>"

definition set_next :: "nat \<Rightarrow> nat \<Rightarrow> links \<Rightarrow> links" where
  "set_next a v h = h\<lparr> next_ptr := (next_ptr h)(a := v) \<rparr>"

definition is_head :: "nat \<Rightarrow> links \<Rightarrow> bool" where
  "is_head elem h \<longleftrightarrow> elem \<noteq> 0 \<and> prev_ptr h elem = 0 \<and> next_ptr h elem \<noteq> 0"

definition is_interior :: "nat \<Rightarrow> links \<Rightarrow> bool" where
  "is_interior elem h \<longleftrightarrow> elem \<noteq> 0 \<and> prev_ptr h elem \<noteq> 0 \<and> next_ptr h elem \<noteq> 0"

definition is_tail :: "nat \<Rightarrow> links \<Rightarrow> bool" where
  "is_tail elem h \<longleftrightarrow> elem \<noteq> 0 \<and> prev_ptr h elem \<noteq> 0 \<and> next_ptr h elem = 0"

definition list_init :: "struct_list \<Rightarrow> links \<Rightarrow> links" where
  "list_init l h =
     set_next (tail l) 0 (set_prev (tail l) (head l) (set_next (head l) (tail l) (set_prev (head l) 0 h)))"

section \<open>Traversal\<close>

definition list_begin :: "struct_list \<Rightarrow> links \<Rightarrow> nat" where "list_begin l h = next_ptr h (head l)"
definition list_next :: "nat \<Rightarrow> links \<Rightarrow> nat" where "list_next elem h = next_ptr h elem"
definition list_end :: "struct_list \<Rightarrow> nat" where "list_end l = tail l"
definition list_rbegin :: "struct_list \<Rightarrow> links \<Rightarrow> nat" where "list_rbegin l h = prev_ptr h (tail l)"
definition list_prev :: "nat \<Rightarrow> links \<Rightarrow> nat" where "list_prev elem h = prev_ptr h elem"
definition list_rend :: "struct_list \<Rightarrow> nat" where "list_rend l = head l"
definition list_front :: "struct_list \<Rightarrow> links \<Rightarrow> nat" where "list_front l h = next_ptr h (head l)"
definition list_back :: "struct_list \<Rightarrow> links \<Rightarrow> nat" where "list_back l h = prev_ptr h (tail l)"

definition list_empty :: "struct_list \<Rightarrow> links \<Rightarrow> bool" where
  "list_empty l h \<longleftrightarrow> list_begin l h = list_end l"

partial_function (option) size_loop :: "struct_list \<Rightarrow> links \<Rightarrow> nat \<Rightarrow> Bit32u \<Rightarrow> Bit32u option" where
  "size_loop l h e cnt =
     (if e \<noteq> list_end l then size_loop l h (list_next e h) (cnt + 1) else Some cnt)"

definition list_size :: "struct_list \<Rightarrow> links \<Rightarrow> Bit32u option" where
  "list_size l h = size_loop l h (list_begin l h) 0"

section \<open>Insertion and removal\<close>

text \<open>An element with old links is first unlinked from where they lead.\<close>

definition list_insert :: "nat \<Rightarrow> nat \<Rightarrow> links \<Rightarrow> links" where
  "list_insert before elem h =
     (let h = (if prev_ptr h elem \<noteq> 0 then set_next (prev_ptr h elem) (next_ptr h elem) h else h);
          h = (if next_ptr h elem \<noteq> 0 then set_prev (next_ptr h elem) (prev_ptr h elem) h else h);
          h = set_prev elem (prev_ptr h before) h;
          h = set_next elem before h;
          h = set_next (prev_ptr h before) elem h
      in set_prev before elem h)"

definition list_splice :: "nat \<Rightarrow> nat \<Rightarrow> nat \<Rightarrow> links \<Rightarrow> links" where
  "list_splice before first lst h =
     (if first = lst then h
      else
        (let lst = list_prev lst h;
             h = set_next (prev_ptr h first) (next_ptr h lst) h;
             h = set_prev (next_ptr h lst) (prev_ptr h first) h;
             h = set_prev first (prev_ptr h before) h;
             h = set_next lst before h;
             h = set_next (prev_ptr h before) first h
         in set_prev before lst h))"

definition list_push_front :: "struct_list \<Rightarrow> nat \<Rightarrow> links \<Rightarrow> links" where
  "list_push_front l elem h = list_insert (list_begin l h) elem h"

definition list_push_back :: "struct_list \<Rightarrow> nat \<Rightarrow> links \<Rightarrow> links" where
  "list_push_back l elem h = list_insert (list_end l) elem h"

definition list_remove :: "nat \<Rightarrow> links \<Rightarrow> nat \<times> links" where
  "list_remove elem h =
     (let h = set_next (prev_ptr h elem) (next_ptr h elem) h;
          h = set_prev (next_ptr h elem) (prev_ptr h elem) h
      in (next_ptr h elem, h))"

definition list_pop_front :: "struct_list \<Rightarrow> links \<Rightarrow> nat \<times> links" where
  "list_pop_front l h = (let front = list_front l h in (front, snd (list_remove front h)))"

definition list_pop_back :: "struct_list \<Rightarrow> links \<Rightarrow> nat \<times> links" where
  "list_pop_back l h = (let back = list_back l h in (back, snd (list_remove back h)))"

section \<open>Reversal\<close>

text \<open>\<open>swap (&e->prev, &e->next)\<close>, and the two swaps of the headers' links.\<close>

definition swap_links :: "nat \<Rightarrow> links \<Rightarrow> links" where
  "swap_links e h = (let t = prev_ptr h e in set_next e t (set_prev e (next_ptr h e) h))"

partial_function (option) reverse_loop :: "struct_list \<Rightarrow> nat \<Rightarrow> links \<Rightarrow> links option" where
  "reverse_loop l e h =
     (if e \<noteq> list_end l then (let h = swap_links e h in reverse_loop l (prev_ptr h e) h) else Some h)"

definition swap_ends :: "struct_list \<Rightarrow> links \<Rightarrow> links" where
  "swap_ends l h =
     (let t = next_ptr h (head l);
          h = set_prev (tail l) t (set_next (head l) (prev_ptr h (tail l)) h);
          a = next_ptr h (head l);
          b = prev_ptr h (tail l);
          t = prev_ptr h a
      in set_next b t (set_prev a (next_ptr h b) h))"

definition list_reverse :: "struct_list \<Rightarrow> links \<Rightarrow> links option" where
  "list_reverse l h =
     (if \<not> list_empty l h
      then Option.bind (reverse_loop l (list_begin l h) h) (\<lambda>h. Some (swap_ends l h))
      else Some h)"

section \<open>Ordering\<close>

partial_function (option) find_end_of_run ::
  "(nat \<Rightarrow> nat \<Rightarrow> bool) \<Rightarrow> nat \<Rightarrow> nat \<Rightarrow> links \<Rightarrow> nat option" where
  "find_end_of_run lt a b h =
     (let a = list_next a h
      in if a \<noteq> b \<and> \<not> lt a (list_prev a h) then find_end_of_run lt a b h else Some a)"

partial_function (option) inplace_merge ::
  "(nat \<Rightarrow> nat \<Rightarrow> bool) \<Rightarrow> nat \<Rightarrow> nat \<Rightarrow> nat \<Rightarrow> links \<Rightarrow> links option" where
  "inplace_merge lt a0 a1b0 b1 h =
     (if a0 \<noteq> a1b0 \<and> a1b0 \<noteq> b1
      then (if \<not> lt a1b0 a0 then inplace_merge lt (list_next a0 h) a1b0 b1 h
            else
              (let a1b0 = list_next a1b0 h
               in inplace_merge lt a0 a1b0 b1 (list_splice a0 (list_prev a1b0 h) a1b0 h)))
      else Some h)"

text \<open>One pass over the list, and the passes until a single run is left.\<close>

partial_function (option) sort_pass ::
  "(nat \<Rightarrow> nat \<Rightarrow> bool) \<Rightarrow> struct_list \<Rightarrow> nat \<Rightarrow> Bit32u \<Rightarrow> links \<Rightarrow> (Bit32u \<times> links) option" where
  "sort_pass lt l a0 output_run_cnt h =
     (if a0 \<noteq> list_end l then
        (let output_run_cnt = output_run_cnt + 1 in
         Option.bind (find_end_of_run lt a0 (list_end l) h) (\<lambda>a1b0.
           if a1b0 = list_end l then Some (output_run_cnt, h)
           else Option.bind (find_end_of_run lt a1b0 (list_end l) h) (\<lambda>b1.
             Option.bind (inplace_merge lt a0 a1b0 b1 h) (\<lambda>h.
               sort_pass lt l b1 output_run_cnt h))))
      else Some (output_run_cnt, h))"

partial_function (option) list_sort ::
  "(nat \<Rightarrow> nat \<Rightarrow> bool) \<Rightarrow> struct_list \<Rightarrow> links \<Rightarrow> links option" where
  "list_sort lt l h =
     Option.bind (sort_pass lt l (list_begin l h) 0 h) (\<lambda>(output_run_cnt, h).
       if output_run_cnt > 1 then list_sort lt l h else Some h)"

partial_function (option) ordered_loop ::
  "(nat \<Rightarrow> nat \<Rightarrow> bool) \<Rightarrow> struct_list \<Rightarrow> nat \<Rightarrow> nat \<Rightarrow> links \<Rightarrow> nat option" where
  "ordered_loop lt l elem e h =
     (if e \<noteq> list_end l \<and> \<not> lt elem e then ordered_loop lt l elem (list_next e h) h else Some e)"

definition list_insert_ordered ::
  "(nat \<Rightarrow> nat \<Rightarrow> bool) \<Rightarrow> struct_list \<Rightarrow> nat \<Rightarrow> links \<Rightarrow> links option" where
  "list_insert_ordered lt l elem h =
     Option.bind (ordered_loop lt l elem (list_begin l h) h) (\<lambda>e. Some (list_insert e elem h))"

partial_function (option) unique_loop ::
  "(nat \<Rightarrow> nat \<Rightarrow> bool) \<Rightarrow> struct_list \<Rightarrow> struct_list option \<Rightarrow> nat \<Rightarrow> links \<Rightarrow> links option" where
  "unique_loop lt l duplicates elem h =
     (let nxt = list_next elem h in
      if nxt \<noteq> list_end l then
        (if \<not> lt elem nxt \<and> \<not> lt nxt elem
         then (let h = snd (list_remove nxt h);
                   h = (case duplicates of Some d \<Rightarrow> list_push_back d nxt h | None \<Rightarrow> h)
               in unique_loop lt l duplicates elem h)
         else unique_loop lt l duplicates nxt h)
      else Some h)"

definition list_unique ::
  "(nat \<Rightarrow> nat \<Rightarrow> bool) \<Rightarrow> struct_list \<Rightarrow> struct_list option \<Rightarrow> links \<Rightarrow> links option" where
  "list_unique lt l duplicates h =
     (if list_empty l h then Some h else unique_loop lt l duplicates (list_begin l h) h)"

text \<open>The loops of \<open>list_max\<close> and \<open>list_min\<close> differ in the order of the comparison.\<close>

partial_function (option) max_loop ::
  "(nat \<Rightarrow> nat \<Rightarrow> bool) \<Rightarrow> struct_list \<Rightarrow> nat \<Rightarrow> nat \<Rightarrow> links \<Rightarrow> nat option" where
  "max_loop lt l m e h =
     (if e \<noteq> list_end l then max_loop lt l (if lt m e then e else m) (list_next e h) h else Some m)"

definition list_max :: "(nat \<Rightarrow> nat \<Rightarrow> bool) \<Rightarrow> struct_list \<Rightarrow> links \<Rightarrow> nat option" where
  "list_max lt l h =
     (let m = list_begin l h
      in if m \<noteq> list_end l then max_loop lt l m (list_next m h) h else Some m)"

partial_function (option) min_loop ::
  "(nat \<Rightarrow> nat \<Rightarrow> bool) \<Rightarrow> struct_list \<Rightarrow> nat \<Rightarrow> nat \<Rightarrow> links \<Rightarrow> nat option" where
  "min_loop lt l m e h =
     (if e \<noteq> list_end l then min_loop lt l (if lt e m then e else m) (list_next e h) h else Some m)"

definition list_min :: "(nat \<Rightarrow> nat \<Rightarrow> bool) \<Rightarrow> struct_list \<Rightarrow> links \<Rightarrow> nat option" where
  "list_min lt l h =
     (let m = list_begin l h
      in if m \<noteq> list_end l then min_loop lt l m (list_next m h) h else Some m)"

end
