(* ===== verification/DList_Spec.thy ===== *)
theory DList_Spec
  imports DList
begin

text \<open>
  The contract of the linked lists: the heap of links represents sequences of elements, one per
  \<open>struct list\<close>, and the operations of \<open>DList\<close> are the sequence operations.
\<close>

section \<open>Chains of links\<close>

fun linked :: "links \<Rightarrow> nat list \<Rightarrow> bool" where
  "linked h [] = True"
| "linked h [a] = True"
| "linked h (a # b # ns) = (next_ptr h a = b \<and> prev_ptr h b = a \<and> linked h (b # ns))"

lemma linked_append:
  "linked h (xs @ a # ys) \<longleftrightarrow> linked h (xs @ [a]) \<and> linked h (a # ys)"
proof (induction xs)
  case (Cons x xs)
  then show ?case by (cases xs) auto
qed simp

lemmas linked_join = linked_append [THEN iffD2, OF conjI]

lemma linked_frame:
  assumes "linked h ns" "\<And>n. n \<in> set (butlast ns) \<Longrightarrow> next_ptr h' n = next_ptr h n"
    and "\<And>n. n \<in> set (tl ns) \<Longrightarrow> prev_ptr h' n = prev_ptr h n"
  shows "linked h' ns"
  using assms by (induction h ns rule: linked.induct) auto

lemma linked_frame_snoc:
  assumes "linked h (A @ [p])" "\<And>n. n \<in> set A \<Longrightarrow> next_ptr h' n = next_ptr h n"
    and "\<And>n. n \<in> set A \<union> {p} \<Longrightarrow> prev_ptr h' n = prev_ptr h n"
  shows "linked h' (A @ [p])"
proof (rule linked_frame [OF assms(1)])
  show "next_ptr h' n = next_ptr h n" if "n \<in> set (butlast (A @ [p]))" for n
    using that assms(2) by simp
  have "set (tl (A @ [p])) \<subseteq> set A \<union> {p}" by (cases A) auto
  then show "prev_ptr h' n = prev_ptr h n" if "n \<in> set (tl (A @ [p]))" for n
    using that assms(3) by blast
qed

lemma linked_frame_cons:
  assumes "linked h (b # B)" "\<And>n. n \<in> set (b # B) \<Longrightarrow> next_ptr h' n = next_ptr h n"
    and "\<And>n. n \<in> set B \<Longrightarrow> prev_ptr h' n = prev_ptr h n"
  shows "linked h' (b # B)"
proof (rule linked_frame [OF assms(1)])
  show "next_ptr h' n = next_ptr h n" if "n \<in> set (butlast (b # B))" for n
    using in_set_butlastD [OF that] by (rule assms(2))
  show "prev_ptr h' n = prev_ptr h n" if "n \<in> set (tl (b # B))" for n
    using that by (intro assms(3)) simp
qed

lemma set_ptr_simps [simp]:
  "next_ptr (set_next a v h) b = (if b = a then v else next_ptr h b)"
  "prev_ptr (set_next a v h) = prev_ptr h" "next_ptr (set_prev a v h) = next_ptr h"
  "prev_ptr (set_prev a v h) b = (if b = a then v else prev_ptr h b)"
  by (auto simp: set_next_def set_prev_def)

lemma set_same_ptr [simp]: "set_next a (next_ptr h a) h = h" "set_prev a (prev_ptr h a) h = h"
  by (simp_all add: set_next_def set_prev_def)

text \<open>All the addresses of a list, and the list a heap holds.\<close>

definition nodes :: "struct_list \<Rightarrow> nat list \<Rightarrow> nat list" where
  "nodes l xs = head l # xs @ [tail l]"

definition is_list :: "links \<Rightarrow> struct_list \<Rightarrow> nat list \<Rightarrow> bool" where
  "is_list h l xs \<longleftrightarrow> linked h (nodes l xs) \<and> distinct (nodes l xs) \<and> 0 \<notin> set (nodes l xs) \<and>
     prev_ptr h (head l) = 0 \<and> next_ptr h (tail l) = 0"

text \<open>The node before a position and the one after it.\<close>

abbreviation before_node :: "struct_list \<Rightarrow> nat list \<Rightarrow> nat" where
  "before_node l xs \<equiv> last (head l # xs)"

abbreviation after_node :: "struct_list \<Rightarrow> nat list \<Rightarrow> nat" where
  "after_node l ys \<equiv> hd (ys @ [tail l])"

lemma nodes_split:
  obtains A B where "nodes l (xs @ ys) = A @ before_node l xs # after_node l ys # B"
    "nodes l (xs @ zs @ ys) = A @ before_node l xs # zs @ after_node l ys # B"
proof
  have "nodes l (xs @ zs @ ys) = (head l # xs) @ zs @ (ys @ [tail l])" for zs by (simp add: nodes_def)
  then show n: "nodes l (xs @ zs @ ys) = butlast (head l # xs) @ before_node l xs # zs @ after_node l ys # tl (ys @ [tail l])"
    for zs
    by (metis append.assoc append_Cons append_Nil append_butlast_last_id append_is_Nil_conv list.collapse list.distinct(1))
  show "nodes l (xs @ ys) = butlast (head l # xs) @ before_node l xs # after_node l ys # tl (ys @ [tail l])"
    using n [of "[]"] by simp
qed

lemma is_list_links:
  assumes "is_list h l (xs @ ys)"
  shows "next_ptr h (before_node l xs) = after_node l ys" "prev_ptr h (after_node l ys) = before_node l xs"
proof -
  obtain A B where "nodes l (xs @ ys) = A @ before_node l xs # after_node l ys # B"
    by (rule nodes_split)
  then have "linked h (before_node l xs # after_node l ys # B)"
    using assms unfolding is_list_def by (metis linked_append)
  then show "next_ptr h (before_node l xs) = after_node l ys" "prev_ptr h (after_node l ys) = before_node l xs"
    by (simp_all only: linked.simps)
qed

lemma is_list_frame:
  assumes "is_list h l xs" "\<And>n. n \<in> set (nodes l xs) \<Longrightarrow> next_ptr h' n = next_ptr h n \<and> prev_ptr h' n = prev_ptr h n"
  shows "is_list h' l xs"
proof -
  have l: "linked h (head l # xs @ [tail l])" using assms(1) by (simp add: is_list_def nodes_def)
  have "linked h' (head l # xs @ [tail l])"
    by (rule linked_frame_cons [OF l]; subst assms(2); simp add: nodes_def)
  moreover have "prev_ptr h' (head l) = prev_ptr h (head l)" "next_ptr h' (tail l) = next_ptr h (tail l)"
    by (subst assms(2); simp add: nodes_def)+
  ultimately show ?thesis using assms(1) by (simp add: is_list_def nodes_def)
qed

section \<open>Linking a segment in and out\<close>

lemma linked_insert:
  assumes "linked h (A @ p # b # B)" "distinct (A @ p # e # b # B)"
    "next_ptr h' p = e" "prev_ptr h' e = p" "next_ptr h' e = b" "prev_ptr h' b = e"
    and "\<And>n. n \<noteq> p \<Longrightarrow> n \<noteq> e \<Longrightarrow> next_ptr h' n = next_ptr h n"
    and "\<And>n. n \<noteq> b \<Longrightarrow> n \<noteq> e \<Longrightarrow> prev_ptr h' n = prev_ptr h n"
  shows "linked h' (A @ p # e # b # B)"
proof -
  have l: "linked h (A @ [p])" "linked h (b # B)"
    using assms(1) by (metis linked_append linked.simps(3))+
  have "linked h' (A @ [p])"
    by (rule linked_frame_snoc [OF l(1)]; (rule assms(7) | rule assms(8))) (use assms(2) in auto)
  moreover have "linked h' (b # B)"
    by (rule linked_frame_cons [OF l(2)]; (rule assms(7) | rule assms(8))) (use assms(2) in auto)
  ultimately show ?thesis
    using assms(3-6) by - (rule linked_join [of h' A p], simp_all)
qed

lemma linked_delete:
  assumes "linked h (A @ p # e # b # B)" "distinct (A @ p # e # b # B)"
    "next_ptr h' p = b" "prev_ptr h' b = p"
    and "\<And>n. n \<noteq> p \<Longrightarrow> next_ptr h' n = next_ptr h n"
    and "\<And>n. n \<noteq> b \<Longrightarrow> prev_ptr h' n = prev_ptr h n"
  shows "linked h' (A @ p # b # B)"
proof -
  have l: "linked h (A @ [p])" "linked h (b # B)"
    using assms(1) by (metis linked_append linked.simps(3))+
  have "linked h' (A @ [p])"
    by (rule linked_frame_snoc [OF l(1)]; (rule assms(5) | rule assms(6))) (use assms(2) in auto)
  moreover have "linked h' (b # B)"
    by (rule linked_frame_cons [OF l(2)]; (rule assms(5) | rule assms(6))) (use assms(2) in auto)
  ultimately show ?thesis
    using assms(3,4) by - (rule linked_join [of h' A p], simp_all)
qed

section \<open>Insertion\<close>

text \<open>
  An element is detached when following its links and coming back does not change anything: it is
  fresh, or it was just removed.
\<close>

definition detached :: "links \<Rightarrow> nat \<Rightarrow> bool" where
  "detached h e \<longleftrightarrow> (prev_ptr h e \<noteq> 0 \<longrightarrow> next_ptr h (prev_ptr h e) = next_ptr h e) \<and>
     (next_ptr h e \<noteq> 0 \<longrightarrow> prev_ptr h (next_ptr h e) = prev_ptr h e)"

lemma list_insert_detached:
  assumes "detached h e"
  shows "list_insert b e h =
    (let h = set_next e b (set_prev e (prev_ptr h b) h) in set_prev b e (set_next (prev_ptr h b) e h))"
proof -
  have a: "(if prev_ptr h e \<noteq> 0 then set_next (prev_ptr h e) (next_ptr h e) h else h) = h"
    using assms unfolding detached_def by (metis set_same_ptr(1))
  have b: "(if next_ptr h e \<noteq> 0 then set_prev (next_ptr h e) (prev_ptr h e) h else h) = h"
    using assms unfolding detached_def by (metis set_same_ptr(2))
  show ?thesis unfolding list_insert_def Let_def a b ..
qed

lemma list_insert_links:
  assumes "detached h e" "b \<noteq> e" "p = prev_ptr h b" "p \<noteq> e"
  shows "next_ptr (list_insert b e h) n = (if n = p then e else if n = e then b else next_ptr h n)"
    "prev_ptr (list_insert b e h) n = (if n = b then e else if n = e then p else prev_ptr h n)"
  using assms by (auto simp: list_insert_detached Let_def)

lemma is_list_insert:
  assumes "is_list h l (xs @ ys)" "detached h e" "e \<notin> set (nodes l (xs @ ys))" "e \<noteq> 0"
  shows "is_list (list_insert (after_node l ys) e h) l (xs @ e # ys)"
proof -
  let ?p = "before_node l xs" and ?b = "after_node l ys"
  obtain A B where n: "nodes l (xs @ ys) = A @ ?p # ?b # B" "nodes l (xs @ [e] @ ys) = A @ ?p # [e] @ ?b # B"
    by (rule nodes_split)
  have p: "prev_ptr h ?b = ?p" by (rule is_list_links(2) [OF assms(1)])
  have "head l \<noteq> e" "tail l \<noteq> e" using assms(3) by (auto simp: nodes_def)
  moreover have "?b \<noteq> e" "?p \<noteq> e" "e \<notin> set A" "e \<notin> set B" using assms(3) unfolding n(1) by auto
  ultimately have e: "?b \<noteq> e" "?p \<noteq> e" "e \<notin> set A" "e \<notin> set B" "head l \<noteq> e" "tail l \<noteq> e" by auto
  note links = list_insert_links [OF assms(2) e(1) p [symmetric] e(2)]
  have old: "linked h (A @ ?p # ?b # B)" "distinct (A @ ?p # ?b # B)" "0 \<notin> set (A @ ?p # ?b # B)"
    "prev_ptr h (head l) = 0" "next_ptr h (tail l) = 0"
    using assms(1) n(1) unfolding is_list_def by simp_all
  have d: "distinct (A @ ?p # e # ?b # B)" using old(2) e by auto
  have "linked (list_insert ?b e h) (A @ ?p # e # ?b # B)"
    by (rule linked_insert [OF old(1) d]) (use d in \<open>auto simp: links\<close>)
  moreover have "?b \<noteq> head l" "?p \<noteq> tail l"
  proof -
    have "distinct ((head l # xs) @ (ys @ [tail l]))" using assms(1) by (simp add: is_list_def nodes_def)
    then show "?b \<noteq> head l" "?p \<noteq> tail l"
      by (auto simp: hd_append split: if_splits dest: last_in_set hd_in_set)
  qed
  ultimately show ?thesis
    using d old assms(4) e n(2) by (auto simp: is_list_def links)
qed

text \<open>An insertion touches only the element and its two new neighbours.\<close>

lemma is_list_insert_other:
  assumes "is_list h l' zs" "detached h e" "b \<noteq> e" "prev_ptr h b \<noteq> e"
    "set (nodes l' zs) \<inter> {e, b, prev_ptr h b} = {}"
  shows "is_list (list_insert b e h) l' zs"
  by (rule is_list_frame [OF assms(1)]) (use assms(5) in \<open>auto simp: list_insert_links [OF assms(2,3) refl assms(4)]\<close>)

section \<open>Removal\<close>

lemma list_remove_links:
  assumes "next_ptr h p = e" "prev_ptr h e = p" "next_ptr h e = b" "p \<noteq> e" "b \<noteq> e"
  shows "fst (list_remove e h) = b"
    "next_ptr (snd (list_remove e h)) n = (if n = p then b else next_ptr h n)"
    "prev_ptr (snd (list_remove e h)) n = (if n = b then p else prev_ptr h n)"
  using assms by (auto simp: list_remove_def Let_def)

lemma is_list_remove:
  assumes "is_list h l (xs @ e # ys)"
  shows "is_list (snd (list_remove e h)) l (xs @ ys)" "fst (list_remove e h) = after_node l ys"
    "detached (snd (list_remove e h)) e"
    "n \<notin> {before_node l xs, after_node l ys} \<Longrightarrow> next_ptr (snd (list_remove e h)) n = next_ptr h n \<and>
       prev_ptr (snd (list_remove e h)) n = prev_ptr h n"
proof -
  let ?p = "before_node l xs" and ?b = "after_node l ys" and ?h = "snd (list_remove e h)"
  obtain A B where n: "nodes l (xs @ ys) = A @ ?p # ?b # B" "nodes l (xs @ [e] @ ys) = A @ ?p # [e] @ ?b # B"
    by (rule nodes_split)
  have old: "linked h (A @ ?p # e # ?b # B)" "distinct (A @ ?p # e # ?b # B)" "0 \<notin> set (A @ ?p # e # ?b # B)"
    "prev_ptr h (head l) = 0" "next_ptr h (tail l) = 0"
    using assms n(2) unfolding is_list_def by simp_all
  then have e: "next_ptr h ?p = e" "prev_ptr h e = ?p" "next_ptr h e = ?b" "?p \<noteq> e" "?b \<noteq> e" "?p \<noteq> ?b"
    using linked_append [of h A ?p "e # ?b # B"] by auto
  note links = list_remove_links [OF e(1-5)]
  have "linked ?h (A @ ?p # ?b # B)"
    by (rule linked_delete [OF old(1,2)]) (simp_all add: links)
  moreover have "?b \<noteq> head l" "?p \<noteq> tail l"
  proof -
    have "distinct ((head l # xs) @ e # (ys @ [tail l]))" using assms by (simp add: is_list_def nodes_def)
    then show "?b \<noteq> head l" "?p \<noteq> tail l"
      by (auto simp: hd_append split: if_splits dest: last_in_set hd_in_set)
  qed
  ultimately show "is_list ?h l (xs @ ys)"
    using old n(1) by (auto simp: is_list_def links)
  show "fst (list_remove e h) = ?b" by (rule links(1))
  show "detached ?h e" using e by (simp add: detached_def links)
  show "n \<notin> {?p, ?b} \<Longrightarrow> next_ptr ?h n = next_ptr h n \<and> prev_ptr ?h n = prev_ptr h n"
    by (simp add: links)
qed

section \<open>All lists of a heap\<close>

text \<open>
  A map from lists to their sequences that the heap realises, no two lists sharing a node; and the
  elements that are in none of them.
\<close>

definition lists :: "links \<Rightarrow> (struct_list \<Rightarrow> nat list option) \<Rightarrow> bool" where
  "lists h m \<longleftrightarrow> (\<forall>l xs. m l = Some xs \<longrightarrow> is_list h l xs) \<and>
     (\<forall>l l' xs ys. m l = Some xs \<longrightarrow> m l' = Some ys \<longrightarrow> l \<noteq> l' \<longrightarrow>
        set (nodes l xs) \<inter> set (nodes l' ys) = {})"

definition free :: "links \<Rightarrow> (struct_list \<Rightarrow> nat list option) \<Rightarrow> nat \<Rightarrow> bool" where
  "free h m e \<longleftrightarrow> e \<noteq> 0 \<and> detached h e \<and> (\<forall>l xs. m l = Some xs \<longrightarrow> e \<notin> set (nodes l xs))"

lemma set_nodes_insert [simp]: "set (nodes l (xs @ e # ys)) = insert e (set (nodes l (xs @ ys)))"
  by (auto simp: nodes_def)

lemma neighbours_in_nodes:
  "before_node l xs \<in> set (nodes l (xs @ ys))" "after_node l ys \<in> set (nodes l (xs @ ys))"
  by (auto simp: nodes_def hd_append dest: hd_in_set split: if_splits)

lemma lists_upd:
  assumes "lists h m" "m l = Some zs" "is_list h' l xs"
    and "set (nodes l xs) \<subseteq> insert e (set (nodes l zs))" "\<And>l' ys. m l' = Some ys \<Longrightarrow> l' \<noteq> l \<Longrightarrow> e \<notin> set (nodes l' ys)"
    and "\<And>l' ys. m l' = Some ys \<Longrightarrow> l' \<noteq> l \<Longrightarrow> is_list h' l' ys"
  shows "lists h' (m(l \<mapsto> xs))"
proof -
  have "set (nodes l xs) \<inter> set (nodes l' ys) = {}" if "m l' = Some ys" "l' \<noteq> l" for l' ys
  proof -
    have "set (nodes l zs) \<inter> set (nodes l' ys) = {}"
      using assms(1,2) that unfolding lists_def by metis
    then show ?thesis using assms(4) assms(5) [OF that] by blast
  qed
  then show ?thesis
    using assms(1,3,6) unfolding lists_def by (auto split: if_splits)
qed

lemma lists_insert:
  assumes "lists h m" "m l = Some (xs @ ys)" "free h m e"
  shows "lists (list_insert (after_node l ys) e h) (m(l \<mapsto> xs @ e # ys))"
proof -
  let ?b = "after_node l ys"
  have l: "is_list h l (xs @ ys)" using assms(1,2) by (auto simp: lists_def)
  have e: "e \<noteq> 0" "detached h e" "e \<notin> set (nodes l (xs @ ys))"
    using assms(2,3) by (auto simp: free_def)
  have p: "prev_ptr h ?b = before_node l xs" by (rule is_list_links(2) [OF l])
  have nb: "?b \<noteq> e" "before_node l xs \<noteq> e" "{?b, before_node l xs} \<subseteq> set (nodes l (xs @ ys))"
    using e(3) neighbours_in_nodes [where l = l and xs = xs and ys = ys] by (metis, metis, simp)
  show ?thesis
  proof (rule lists_upd [OF assms(1,2), where e = e])
    show "is_list (list_insert ?b e h) l (xs @ e # ys)" by (rule is_list_insert [OF l e(2,3,1)])
    show e': "e \<notin> set (nodes l' zs)" if "m l' = Some zs" "l' \<noteq> l" for l' zs
      using that assms(3) by (auto simp: free_def)
    show "is_list (list_insert ?b e h) l' zs" if "m l' = Some zs" "l' \<noteq> l" for l' zs
    proof -
      have "set (nodes l (xs @ ys)) \<inter> set (nodes l' zs) = {}"
        using assms(1,2) that unfolding lists_def by metis
      then show ?thesis
        using that assms(1) nb e' [OF that] unfolding lists_def p [symmetric]
        by (intro is_list_insert_other [OF _ e(2)]) auto
    qed
  qed auto
qed

lemma lists_remove:
  assumes "lists h m" "m l = Some (xs @ e # ys)"
  shows "lists (snd (list_remove e h)) (m(l \<mapsto> xs @ ys))"
    and "free (snd (list_remove e h)) (m(l \<mapsto> xs @ ys)) e"
    and "fst (list_remove e h) = after_node l ys"
proof -
  let ?h = "snd (list_remove e h)"
  have l: "is_list h l (xs @ e # ys)" using assms(1,2) by (auto simp: lists_def)
  have disj: "set (nodes l (xs @ e # ys)) \<inter> set (nodes l' zs) = {}" if "m l' = Some zs" "l' \<noteq> l" for l' zs
    using assms(1,2) that unfolding lists_def by metis
  show "lists ?h (m(l \<mapsto> xs @ ys))"
  proof (rule lists_upd [OF assms(1,2), where e = e])
    show "is_list ?h l (xs @ ys)" by (rule is_list_remove(1) [OF l])
    show "e \<notin> set (nodes l' zs)" if "m l' = Some zs" "l' \<noteq> l" for l' zs
      using disj [OF that] by simp
    show "is_list ?h l' zs" if z: "m l' = Some zs" "l' \<noteq> l" for l' zs
    proof (rule is_list_frame)
      show "is_list h l' zs" using assms(1) z by (simp add: lists_def)
      show "next_ptr ?h n = next_ptr h n \<and> prev_ptr ?h n = prev_ptr h n" if "n \<in> set (nodes l' zs)" for n
        using disj [OF z] that neighbours_in_nodes [where l = l and xs = xs and ys = ys]
        by (intro is_list_remove(4) [OF l]) auto
    qed
  qed auto
  have "e \<notin> set (nodes l (xs @ ys))" "e \<noteq> 0"
    using l by (auto simp: is_list_def nodes_def)
  then show "free ?h (m(l \<mapsto> xs @ ys)) e"
    using is_list_remove(3) [OF l] disj by (auto simp: free_def)
  show "fst (list_remove e h) = after_node l ys" by (rule is_list_remove(2) [OF l])
qed

text \<open>An element that is in a list is moved by an insertion: it is unlinked first.\<close>

lemma list_insert_moves:
  assumes "is_list h l (xs @ e # ys)"
  shows "list_insert b e h = list_insert b e (snd (list_remove e h))"
proof -
  have n: "next_ptr h e = after_node l ys" "prev_ptr h e = before_node l xs"
    using is_list_links [of h l "xs @ [e]" ys] is_list_links [of h l xs "e # ys"] assms by simp_all
  have "{before_node l xs, after_node l ys} \<subseteq> set (nodes l (xs @ ys))" using neighbours_in_nodes by auto
  then have nz: "next_ptr h e \<noteq> 0" "prev_ptr h e \<noteq> 0" "next_ptr h e \<noteq> e" "prev_ptr h e \<noteq> e"
    using assms unfolding n is_list_def by (auto simp: nodes_def)
  have d: "detached (snd (list_remove e h)) e" by (rule is_list_remove(3) [OF assms])
  have "snd (list_remove e h) = set_prev (next_ptr h e) (prev_ptr h e) (set_next (prev_ptr h e) (next_ptr h e) h)"
    using nz by (simp add: list_remove_def Let_def)
  then show ?thesis
    unfolding list_insert_detached [OF d] using nz by (simp add: list_insert_def Let_def)
qed

section \<open>Queues\<close>

lemma list_ends:
  assumes "is_list h l xs"
  shows "list_begin l h = after_node l xs" "list_front l h = after_node l xs" "list_back l h = before_node l xs"
  using is_list_links(1) [of h l "[]" xs] is_list_links(2) [of h l xs "[]"] assms
  by (simp_all add: list_begin_def list_front_def list_back_def)

lemma list_empty_iff: "is_list h l xs \<Longrightarrow> list_empty l h \<longleftrightarrow> xs = []"
  by (cases xs) (auto simp: list_empty_def list_begin_def list_end_def is_list_def nodes_def)

lemma lists_push_back:
  "lists h m \<Longrightarrow> m l = Some xs \<Longrightarrow> free h m e \<Longrightarrow> lists (list_push_back l e h) (m(l \<mapsto> xs @ [e]))"
  using lists_insert [of h m l xs "[]" e] by (simp add: list_push_back_def list_end_def)

lemma lists_push_front:
  assumes "lists h m" "m l = Some xs" "free h m e"
  shows "lists (list_push_front l e h) (m(l \<mapsto> e # xs))"
proof -
  have "is_list h l xs" using assms(1,2) by (simp add: lists_def)
  then show ?thesis
    using lists_insert [of h m l "[]" xs e] assms by (simp add: list_push_front_def list_ends)
qed

lemma lists_pop_front:
  assumes "lists h m" "m l = Some (e # xs)"
  shows "fst (list_pop_front l h) = e" "lists (snd (list_pop_front l h)) (m(l \<mapsto> xs))"
    "free (snd (list_pop_front l h)) (m(l \<mapsto> xs)) e"
proof -
  have "is_list h l (e # xs)" using assms by (simp add: lists_def)
  then have f: "list_front l h = e" by (simp add: list_ends)
  then show "fst (list_pop_front l h) = e" by (simp add: list_pop_front_def)
  show "lists (snd (list_pop_front l h)) (m(l \<mapsto> xs))" "free (snd (list_pop_front l h)) (m(l \<mapsto> xs)) e"
    using lists_remove [of h m l "[]" e xs] assms by (simp_all add: list_pop_front_def f)
qed

lemma lists_pop_back:
  assumes "lists h m" "m l = Some (xs @ [e])"
  shows "fst (list_pop_back l h) = e" "lists (snd (list_pop_back l h)) (m(l \<mapsto> xs))"
    "free (snd (list_pop_back l h)) (m(l \<mapsto> xs)) e"
proof -
  have "is_list h l (xs @ [e])" using assms by (simp add: lists_def)
  then have f: "list_back l h = e" by (simp add: list_ends)
  then show "fst (list_pop_back l h) = e" by (simp add: list_pop_back_def)
  show "lists (snd (list_pop_back l h)) (m(l \<mapsto> xs))" "free (snd (list_pop_back l h)) (m(l \<mapsto> xs)) e"
    using lists_remove [of h m l xs e "[]"] assms by (simp_all add: list_pop_back_def f)
qed

text \<open>
  What a client of queues relies on: several queues in one state, elements that are in no queue,
  insertion at the back and removal at the front.
\<close>

locale queues =
  fixes holds :: "'s \<Rightarrow> ('q \<Rightarrow> 'e list option) \<Rightarrow> bool"
    and loose :: "'s \<Rightarrow> ('q \<Rightarrow> 'e list option) \<Rightarrow> 'e \<Rightarrow> bool"
    and push :: "'q \<Rightarrow> 'e \<Rightarrow> 's \<Rightarrow> 's"
    and pop :: "'q \<Rightarrow> 's \<Rightarrow> 'e \<times> 's"
  assumes push: "holds s m \<Longrightarrow> m q = Some xs \<Longrightarrow> loose s m e \<Longrightarrow> holds (push q e s) (m(q \<mapsto> xs @ [e]))"
    and pop: "holds s m \<Longrightarrow> m q = Some (e # xs) \<Longrightarrow>
      fst (pop q s) = e \<and> holds (snd (pop q s)) (m(q \<mapsto> xs)) \<and> loose (snd (pop q s)) (m(q \<mapsto> xs)) e"
begin

text \<open>Serving the front element and queueing it again, \<open>n\<close> times.\<close>

fun turns :: "'q \<Rightarrow> nat \<Rightarrow> 's \<Rightarrow> 'e list \<times> 's" where
  "turns q 0 s = ([], s)"
| "turns q (Suc n) s = (let (e, s1) = pop q s; (es, s2) = turns q n (push q e s1) in (e # es, s2))"

lemma one_turn:
  assumes "holds s m" "m q = Some (e # xs)"
  shows "fst (pop q s) = e \<and> holds (push q e (snd (pop q s))) (m(q \<mapsto> xs @ [e]))"
  using pop [OF assms] push [of "snd (pop q s)" "m(q \<mapsto> xs)" q xs e] by simp

text \<open>One round serves every element once, in order, and restores the queue.\<close>

lemma turns_serve:
  "holds s m \<Longrightarrow> m q = Some (xs @ ys) \<Longrightarrow>
    fst (turns q (length xs) s) = xs \<and> holds (snd (turns q (length xs) s)) (m(q \<mapsto> ys @ xs))"
proof (induction xs arbitrary: s m ys)
  case (Cons x xs)
  have t: "fst (pop q s) = x" "holds (push q x (snd (pop q s))) (m(q \<mapsto> xs @ ys @ [x]))"
    using one_turn [OF Cons.prems(1), of q x "xs @ ys"] Cons.prems(2) by auto
  from Cons.IH [OF t(2), of "ys @ [x]", OF fun_upd_same] show ?case
    using t(1) by (simp add: split_def Let_def fun_upd_upd del: fun_upd_apply)
next
  case Nil
  then show ?case by (simp add: fun_upd_idem)
qed

lemma one_round:
  "holds s m \<Longrightarrow> m q = Some xs \<Longrightarrow>
    fst (turns q (length xs) s) = xs \<and> holds (snd (turns q (length xs) s)) m"
  using turns_serve [of s m q xs "[]"] by (simp add: fun_upd_idem)

end

interpretation dq: queues lists free list_push_back list_pop_front
  by unfold_locales (simp_all add: lists_push_back lists_pop_front)

section \<open>Size\<close>

lemma is_list_step:
  assumes "is_list h l (xs @ e # ys)"
  shows "next_ptr h e = after_node l ys" "e \<noteq> tail l" "e \<noteq> head l"
  using assms is_list_links(1) [of h l "xs @ [e]" ys]
  by (auto simp: is_list_def nodes_def)

lemma size_loop_eq:
  "is_list h l (xs @ ys) \<Longrightarrow> size_loop l h (after_node l ys) cnt = Some (cnt + of_nat (length ys))"
proof (induction ys arbitrary: xs cnt)
  case Nil
  then show ?case by (simp add: size_loop.simps list_end_def)
next
  case (Cons e ys)
  then show ?case
    using is_list_step [OF Cons.prems] Cons.IH [of "xs @ [e]" "cnt + 1"]
    by (subst size_loop.simps) (simp add: list_end_def list_next_def algebra_simps)
qed

lemma list_size_eq: "is_list h l xs \<Longrightarrow> list_size l h = Some (of_nat (length xs))"
  using size_loop_eq [of h l "[]" xs 0] by (simp add: list_size_def list_ends)

end
