(* ===== verification/DList_Order.thy ===== *)
theory DList_Order
  imports DList_Spec "HOL-Library.Multiset"
begin

text \<open>
  The ordering functions of the linked lists, for a comparison that is a strict weak order: ordered
  insertion, extrema, removal of duplicates, and the in-place natural merge sort.  Each loop over
  links is shown to end and to compute a function on sequences; the sequence functions are then
  shown to be correct.
\<close>

text \<open>\<open>lt\<close> is the strict part of a total preorder; \<open>sorted_by\<close> is nondecreasing order.\<close>

definition weak_order :: "('a \<Rightarrow> 'a \<Rightarrow> bool) \<Rightarrow> bool" where
  "weak_order lt \<longleftrightarrow> (\<forall>a b. lt a b \<longrightarrow> \<not> lt b a) \<and> (\<forall>a b c. \<not> lt b a \<longrightarrow> \<not> lt c b \<longrightarrow> \<not> lt c a)"

definition sorted_by :: "('a \<Rightarrow> 'a \<Rightarrow> bool) \<Rightarrow> 'a list \<Rightarrow> bool" where
  "sorted_by lt = sorted_wrt (\<lambda>a b. \<not> lt b a)"

lemma weak_orderD:
  assumes "weak_order lt"
  shows "lt a b \<Longrightarrow> \<not> lt b a" "\<not> lt b a \<Longrightarrow> \<not> lt c b \<Longrightarrow> \<not> lt c a" "\<not> lt a a"
    "lt a b \<Longrightarrow> \<not> lt c b \<Longrightarrow> lt a c" "\<not> lt b a \<Longrightarrow> lt b c \<Longrightarrow> lt a c"
  using assms unfolding weak_order_def by blast+

lemma sorted_by_Cons: "sorted_by lt (x # xs) \<longleftrightarrow> (\<forall>y \<in> set xs. \<not> lt y x) \<and> sorted_by lt xs"
  by (simp add: sorted_by_def)

lemma sorted_by_append:
  "sorted_by lt (xs @ ys) \<longleftrightarrow> sorted_by lt xs \<and> sorted_by lt ys \<and> (\<forall>x \<in> set xs. \<forall>y \<in> set ys. \<not> lt y x)"
  by (simp add: sorted_by_def sorted_wrt_append)

lemma sorted_by_Nil [simp]: "sorted_by lt []"
  by (simp add: sorted_by_def)

section \<open>Ordered insertion\<close>

lemma ordered_loop_eq:
  "is_list h l (xs @ ys) \<Longrightarrow>
     ordered_loop lt l e (after_node l ys) h = Some (after_node l (dropWhile (\<lambda>y. \<not> lt e y) ys))"
proof (induction ys arbitrary: xs)
  case Nil
  then show ?case by (simp add: ordered_loop.simps list_end_def)
next
  case (Cons y ys)
  then show ?case
    using is_list_step [OF Cons.prems] Cons.IH [of "xs @ [y]"]
    by (subst ordered_loop.simps) (simp add: list_end_def list_next_def)
qed

definition insort_by :: "('a \<Rightarrow> 'a \<Rightarrow> bool) \<Rightarrow> 'a \<Rightarrow> 'a list \<Rightarrow> 'a list" where
  "insort_by lt e xs = takeWhile (\<lambda>y. \<not> lt e y) xs @ e # dropWhile (\<lambda>y. \<not> lt e y) xs"

lemma sorted_insort_by:
  assumes "weak_order lt" "sorted_by lt xs"
  shows "sorted_by lt (insort_by lt e xs)"
proof -
  let ?P = "\<lambda>y. \<not> lt e y"
  have s: "sorted_by lt (takeWhile ?P xs)" "sorted_by lt (dropWhile ?P xs)"
    "\<forall>x \<in> set (takeWhile ?P xs). \<forall>y \<in> set (dropWhile ?P xs). \<not> lt y x"
    using assms(2) sorted_by_append [of lt "takeWhile ?P xs" "dropWhile ?P xs"] by simp_all
  have "\<not> lt y e" if "y \<in> set (dropWhile ?P xs)" for y
  proof (cases "dropWhile ?P xs")
    case (Cons d ds)
    then have "lt e d" using hd_dropWhile [of ?P xs] by simp
    moreover have "y = d \<or> \<not> lt y d" using s(2) that unfolding Cons sorted_by_Cons by auto
    ultimately show ?thesis using weak_orderD [OF assms(1)] by blast
  next
    case Nil
    then show ?thesis using that by (metis list.set(1) empty_iff)
  qed
  then show ?thesis
    using s by (auto simp: insort_by_def sorted_by_append sorted_by_Cons dest: set_takeWhileD)
qed

lemma lists_insert_ordered:
  assumes "lists h m" "m l = Some xs" "free h m e"
  shows "\<exists>h'. list_insert_ordered lt l e h = Some h' \<and> lists h' (m(l \<mapsto> insort_by lt e xs))"
proof -
  have l: "is_list h l xs" using assms by (simp add: lists_def)
  have "ordered_loop lt l e (list_begin l h) h = Some (after_node l (dropWhile (\<lambda>y. \<not> lt e y) xs))"
    using ordered_loop_eq [of h l "[]" xs] l by (simp add: list_ends)
  then show ?thesis
    using lists_insert [of h m l "takeWhile (\<lambda>y. \<not> lt e y) xs" "dropWhile (\<lambda>y. \<not> lt e y) xs" e] assms
    by (simp add: list_insert_ordered_def insort_by_def)
qed

section \<open>Extrema\<close>

lemma max_loop_eq:
  "is_list h l (xs @ ys) \<Longrightarrow>
     max_loop lt l x (after_node l ys) h = Some (foldl (\<lambda>m e. if lt m e then e else m) x ys)"
proof (induction ys arbitrary: xs x)
  case Nil
  then show ?case by (simp add: max_loop.simps list_end_def)
next
  case (Cons y ys)
  then show ?case
    using is_list_step [OF Cons.prems] Cons.IH [of "xs @ [y]"]
    by (subst max_loop.simps) (simp add: list_end_def list_next_def)
qed

lemma min_loop_eq:
  "is_list h l (xs @ ys) \<Longrightarrow>
     min_loop lt l x (after_node l ys) h = Some (foldl (\<lambda>m e. if lt e m then e else m) x ys)"
proof (induction ys arbitrary: xs x)
  case Nil
  then show ?case by (simp add: min_loop.simps list_end_def)
next
  case (Cons y ys)
  then show ?case
    using is_list_step [OF Cons.prems] Cons.IH [of "xs @ [y]"]
    by (subst min_loop.simps) (simp add: list_end_def list_next_def)
qed

text \<open>The fold keeps the earliest of the greatest elements seen.\<close>

lemma foldl_max:
  assumes "weak_order lt" "\<forall>y \<in> set us. \<not> lt x y" "\<forall>y \<in> set vs. lt y x" "zs = vs @ x # us"
  shows "\<exists>vs' us'. zs @ ys = vs' @ foldl (\<lambda>m e. if lt m e then e else m) x ys # us' \<and>
    (\<forall>y \<in> set vs'. lt y (foldl (\<lambda>m e. if lt m e then e else m) x ys)) \<and>
    (\<forall>y \<in> set us'. \<not> lt (foldl (\<lambda>m e. if lt m e then e else m) x ys) y)"
  using assms(2-)
proof (induction ys arbitrary: x us vs zs)
  case (Cons y ys)
  note w = weak_orderD [OF assms(1)]
  show ?case
  proof (cases "lt x y")
    case True
    have "\<forall>z \<in> set (vs @ x # us). lt z y" 
    proof
      fix z assume "z \<in> set (vs @ x # us)"
      then have "z = x \<or> \<not> lt x z" using Cons.prems(1,2) w(1) by auto
      then show "lt z y" using True w(5) by blast
    qed
    then show ?thesis using Cons.IH [of "[]" y "vs @ x # us" "(vs @ x # us) @ [y]"] Cons.prems(3) True by simp
  next
    case False
    then show ?thesis using Cons.IH [of "us @ [y]" x vs "zs @ [y]"] Cons.prems by simp
  qed
qed auto

lemma weak_order_flip: "weak_order lt \<Longrightarrow> weak_order (\<lambda>a b. lt b a)"
  unfolding weak_order_def by blast

section \<open>Runs and merging\<close>

text \<open>The rest of a sequence after the run that starts with \<open>e\<close>, and that run.\<close>

fun run_rest :: "('a \<Rightarrow> 'a \<Rightarrow> bool) \<Rightarrow> 'a \<Rightarrow> 'a list \<Rightarrow> 'a list" where
  "run_rest lt e [] = []"
| "run_rest lt e (y # ys) = (if lt y e then y # ys else run_rest lt y ys)"

fun run :: "('a \<Rightarrow> 'a \<Rightarrow> bool) \<Rightarrow> 'a \<Rightarrow> 'a list \<Rightarrow> 'a list" where
  "run lt e [] = [e]"
| "run lt e (y # ys) = (if lt y e then [e] else e # run lt y ys)"

lemma run_append: "run lt e ys @ run_rest lt e ys = e # ys"
  by (induction lt e ys rule: run.induct) auto

lemma run_rest_length: "length (run_rest lt e ys) \<le> length ys"
  by (induction lt e ys rule: run_rest.induct) auto

lemma run_Cons: "\<exists>zs. run lt e ys = e # zs"
  by (cases ys) auto

lemma run_sorted: "weak_order lt \<Longrightarrow> sorted_by lt (run lt e ys)"
proof (induction lt e ys rule: run.induct)
  case (2 lt e y ys)
  obtain zs where z: "run lt y ys = y # zs" using run_Cons [of lt y ys] by blast
  show ?case
    using 2 weak_orderD(2) [OF "2.prems"] unfolding run.simps z
    by (auto simp: sorted_by_Cons z)
qed (simp add: sorted_by_Cons)

lemma find_end_of_run_eq:
  "is_list h l (xs @ e # ys) \<Longrightarrow> find_end_of_run lt e (tail l) h = Some (after_node l (run_rest lt e ys))"
proof (induction ys arbitrary: xs e)
  case Nil
  then show ?case
    using is_list_step [OF Nil] by (subst find_end_of_run.simps) (simp add: list_next_def)
next
  case (Cons y ys)
  have "is_list h l ((xs @ [e]) @ y # ys)" using Cons.prems by simp
  then show ?case
    using is_list_step [OF Cons.prems] is_list_step(2) [of h l "xs @ [e]" y ys] Cons.IH [of "xs @ [e]" y]
      is_list_links(2) [of h l "xs @ [e]" "y # ys"]
    by (subst find_end_of_run.simps) (simp add: list_next_def list_prev_def)
qed

text \<open>The merge takes from the second run only what is smaller: it is stable.\<close>

fun merge :: "('a \<Rightarrow> 'a \<Rightarrow> bool) \<Rightarrow> 'a list \<Rightarrow> 'a list \<Rightarrow> 'a list" where
  "merge lt [] ys = ys"
| "merge lt xs [] = xs"
| "merge lt (x # xs) (y # ys) = (if lt y x then y # merge lt (x # xs) ys else x # merge lt xs (y # ys))"

lemma list_splice_one:
  assumes "is_list h l (xs @ y # ys)" "b \<noteq> y" "prev_ptr h b \<noteq> y"
  shows "list_splice b y (after_node l ys) h = list_insert b y (snd (list_remove y h))"
proof -
  have n: "next_ptr h y = after_node l ys" "prev_ptr h (after_node l ys) = y" "y \<noteq> after_node l ys"
    using is_list_links [of h l "xs @ [y]" ys] assms(1) by (auto simp: is_list_def nodes_def hd_append)
  have d: "detached (snd (list_remove y h)) y" by (rule is_list_remove(3) [OF assms(1)])
  have p: "prev_ptr h y \<noteq> y"
    using is_list_links(2) [of h l xs "y # ys"] assms(1) by (auto simp: is_list_def nodes_def split: if_splits)
  show ?thesis
    unfolding list_insert_detached [OF d] using n p
    by (simp add: list_splice_def list_remove_def list_prev_def Let_def)
qed

lemma is_list_move:
  assumes "is_list h l (us @ xs @ y # ys)" "xs \<noteq> []"
  shows "is_list (list_splice (hd xs) y (after_node l ys) h) l (us @ y # xs @ ys)"
proof -
  have l: "is_list h l ((us @ xs) @ y # ys)" using assms(1) by simp
  have r: "is_list (snd (list_remove y h)) l (us @ (xs @ ys))" "detached (snd (list_remove y h)) y"
    using is_list_remove(1,3) [OF l] by simp_all
  have d: "y \<notin> set (nodes l (us @ (xs @ ys)))" "y \<noteq> 0" "hd xs \<noteq> y"
    using assms by (auto simp: is_list_def nodes_def dest: hd_in_set)
  have p: "prev_ptr h (hd xs) = before_node l us"
    using is_list_links(2) [of h l us "xs @ y # ys"] assms by simp
  have "before_node l us \<noteq> y"
    using d(1) neighbours_in_nodes(1) [where l = l and xs = us and ys = "xs @ ys"] by metis
  then have "list_splice (hd xs) y (after_node l ys) h = list_insert (hd xs) y (snd (list_remove y h))"
    using p d(3) by (intro list_splice_one [OF l]) simp_all
  then show ?thesis
    using is_list_insert [OF r d(1,2)] assms(2) by simp
qed

lemma inplace_merge_eq:
  assumes "is_list h l (us @ xs @ ys @ zs)"
  shows "\<exists>h'. inplace_merge lt (after_node l (xs @ ys @ zs)) (after_node l (ys @ zs)) (after_node l zs) h = Some h' \<and>
    is_list h' l (us @ merge lt xs ys @ zs)"
  using assms
proof (induction lt xs ys arbitrary: us h rule: merge.induct)
  case (1 lt ys)
  then show ?case by (subst inplace_merge.simps) simp
next
  case (2 lt x xs)
  then show ?case by (subst inplace_merge.simps) simp
next
  case (3 lt x xs y ys)
  let ?a = "after_node l ((x # xs) @ (y # ys) @ zs)" and ?b = "after_node l ((y # ys) @ zs)" and ?c = "after_node l zs"
  have dist: "?a \<noteq> ?b" "?b \<noteq> ?c"
    using "3.prems" by (cases zs; auto simp: is_list_def nodes_def)+
  show ?case
  proof (cases "lt y x")
    case True
    let ?h = "list_splice x y (after_node l (ys @ zs)) h"
    have l: "is_list h l ((us @ x # xs) @ y # ys @ zs)" using "3.prems" by simp
    have m: "is_list ?h l ((us @ [y]) @ (x # xs) @ ys @ zs)"
      using is_list_move [of h l us "x # xs" y "ys @ zs"] "3.prems" by simp
    have n: "next_ptr h y = after_node l (ys @ zs)" "prev_ptr h (after_node l (ys @ zs)) = y"
      using is_list_step(1) [OF l] is_list_links(2) [of h l "(us @ x # xs) @ [y]" "ys @ zs"] l by simp_all
    have "inplace_merge lt ?a ?b ?c h = inplace_merge lt x (after_node l (ys @ zs)) ?c ?h"
      using dist True n by (subst inplace_merge.simps) (simp add: list_next_def list_prev_def Let_def)
    then show ?thesis
      using "3.IH"(1) [OF True m] True by simp
  next
    case False
    have l: "is_list h l (us @ x # (xs @ (y # ys) @ zs))" using "3.prems" by simp
    have m: "is_list h l ((us @ [x]) @ xs @ (y # ys) @ zs)" using "3.prems" by simp
    have "inplace_merge lt ?a ?b ?c h = inplace_merge lt (after_node l (xs @ (y # ys) @ zs)) y ?c h"
      using dist False is_list_step(1) [OF l] by (subst inplace_merge.simps) (simp add: list_next_def)
    then show ?thesis
      using "3.IH"(2) [OF False m] False by simp
  qed
qed

lemma mset_merge [simp]: "mset (merge lt xs ys) = mset xs + mset ys"
  by (induction lt xs ys rule: merge.induct) auto

lemma set_merge [simp]: "set (merge lt xs ys) = set xs \<union> set ys"
  by (metis mset_merge set_mset_mset set_mset_union)

lemma sorted_merge:
  "weak_order lt \<Longrightarrow> sorted_by lt xs \<Longrightarrow> sorted_by lt ys \<Longrightarrow> sorted_by lt (merge lt xs ys)"
proof (induction lt xs ys rule: merge.induct)
  case (3 lt x xs y ys)
  note w = weak_orderD [OF "3.prems"(1)]
  show ?case
  proof (cases "lt y x")
    case True
    have "\<not> lt z y" if "z \<in> set (x # xs) \<union> set ys" for z
    proof -
      have "z = x \<or> z \<in> set xs \<and> \<not> lt z x \<or> \<not> lt z y"
        using that "3.prems"(2,3) unfolding sorted_by_Cons by auto
      then show ?thesis using True w(1,2) by blast
    qed
    then show ?thesis using 3 True by (auto simp: sorted_by_Cons)
  next
    case False
    have "\<not> lt z x" if "z \<in> set xs \<union> set (y # ys)" for z
    proof -
      have "\<not> lt z x \<or> z = y \<or> \<not> lt z y"
        using that "3.prems"(2,3) unfolding sorted_by_Cons by auto
      then show ?thesis using False w(2) by blast
    qed
    then show ?thesis using 3 False by (auto simp: sorted_by_Cons)
  qed
qed auto

end
