(* ===== verification/DList_Sort.thy ===== *)
theory DList_Sort
  imports DList_Order
begin

text \<open>
  \<open>list_sort\<close>: each pass over the links merges neighbouring runs, which halves their number, and the
  passes stop when one run is left.  The sort always ends and is a stable sort.
\<close>

section \<open>Runs\<close>

function runs :: "('a \<Rightarrow> 'a \<Rightarrow> bool) \<Rightarrow> 'a list \<Rightarrow> 'a list list" where
  "runs lt [] = []"
| "runs lt (x # xs) = run lt x xs # runs lt (run_rest lt x xs)"
  by pat_completeness auto
termination
  by (relation "measure (\<lambda>(lt, xs). length xs)") (auto simp: run_rest_length less_Suc_eq_le)

fun pairs_merged :: "('a \<Rightarrow> 'a \<Rightarrow> bool) \<Rightarrow> 'a list list \<Rightarrow> 'a list list" where
  "pairs_merged lt (r # s # rs) = merge lt r s # pairs_merged lt rs"
| "pairs_merged lt rs = rs"

definition one_pass :: "('a \<Rightarrow> 'a \<Rightarrow> bool) \<Rightarrow> 'a list \<Rightarrow> 'a list" where
  "one_pass lt xs = concat (pairs_merged lt (runs lt xs))"

lemma concat_runs: "concat (runs lt xs) = xs"
  by (induction lt xs rule: runs.induct) (simp_all add: run_append)

lemma runs_sorted: "weak_order lt \<Longrightarrow> r \<in> set (runs lt xs) \<Longrightarrow> sorted_by lt r"
  by (induction lt xs rule: runs.induct) (auto simp: run_sorted)

lemma length_pairs_merged: "length (pairs_merged lt rs) = (length rs + 1) div 2"
  by (induction lt rs rule: pairs_merged.induct) auto

lemma pairs_merged_sorted:
  "weak_order lt \<Longrightarrow> \<forall>r \<in> set rs. sorted_by lt r \<Longrightarrow> s \<in> set (pairs_merged lt rs) \<Longrightarrow> sorted_by lt s"
  by (induction lt rs rule: pairs_merged.induct) (auto simp: sorted_merge)

text \<open>The number of runs is one more than the number of descents.\<close>

fun descents :: "('a \<Rightarrow> 'a \<Rightarrow> bool) \<Rightarrow> 'a list \<Rightarrow> nat" where
  "descents lt (x # y # ys) = (if lt y x then 1 else 0) + descents lt (y # ys)"
| "descents lt xs = 0"

lemma descents_run:
  "descents lt (x # xs) = (case run_rest lt x xs of [] \<Rightarrow> 0 | y # ys \<Rightarrow> Suc (descents lt (y # ys)))"
  by (induction lt x xs rule: run_rest.induct) auto

lemma length_runs: "length (runs lt (x # xs)) = Suc (descents lt (x # xs))"
proof (induction "length xs" arbitrary: x xs rule: less_induct)
  case less
  show ?case
  proof (cases "run_rest lt x xs")
    case (Cons y ys)
    then have "length ys < length xs" using run_rest_length [of lt x xs] by simp
    then show ?thesis using less [of ys y] Cons by (simp add: descents_run [of lt x xs])
  qed (simp add: descents_run)
qed

lemma length_runs_le: "length (runs lt xs) \<le> Suc (descents lt xs)" "length (runs lt xs) \<le> length xs"
proof -
  show "length (runs lt xs) \<le> Suc (descents lt xs)"
    by (cases xs) (simp_all add: length_runs del: runs.simps(2))
  show "length (runs lt xs) \<le> length xs"
  proof (induction lt xs rule: runs.induct)
    case (2 lt x xs)
    then show ?case using run_rest_length [of lt x xs] by simp
  qed simp
qed

lemma descents_append: "descents lt (xs @ ys) \<le> Suc (descents lt xs + descents lt ys)"
proof (induction xs rule: induct_list012)
  case (2 x)
  then show ?case by (cases ys) auto
qed auto

lemma descents_sorted: "sorted_by lt xs \<Longrightarrow> descents lt xs = 0"
  by (induction lt xs rule: descents.induct) (auto simp: sorted_by_Cons)

lemma descents_concat:
  "\<forall>s \<in> set ss. sorted_by lt s \<Longrightarrow> descents lt (concat ss) \<le> length ss - 1"
proof (induction ss)
  case (Cons s ss)
  show ?case
  proof (cases ss)
    case Nil
    then show ?thesis using Cons.prems by (simp add: descents_sorted)
  next
    case (Cons t ts)
    then show ?thesis
      using Cons.IH Cons.prems descents_append [of lt s "concat ss"] by (simp add: descents_sorted)
  qed
qed simp

text \<open>A pass halves the number of runs.\<close>

lemma runs_one_pass:
  assumes "weak_order lt"
  shows "length (runs lt (one_pass lt xs)) \<le> (length (runs lt xs) + 1) div 2"
proof (cases xs)
  case (Cons x ys)
  let ?ss = "pairs_merged lt (runs lt xs)"
  have "\<forall>s \<in> set ?ss. sorted_by lt s"
    using pairs_merged_sorted [OF assms] runs_sorted [OF assms] by blast
  then have "descents lt (concat ?ss) \<le> length ?ss - 1" by (rule descents_concat)
  moreover have "0 < length ?ss" using Cons by (simp add: length_pairs_merged)
  ultimately show ?thesis
    using length_runs_le(1) [of lt "concat ?ss"] by (simp add: one_pass_def length_pairs_merged)
qed (simp add: one_pass_def)

section \<open>Stability\<close>

text \<open>Elements that the comparison does not distinguish from \<open>e\<close>.\<close>

definition same_as :: "('a \<Rightarrow> 'a \<Rightarrow> bool) \<Rightarrow> 'a \<Rightarrow> 'a \<Rightarrow> bool" where
  "same_as lt e y \<longleftrightarrow> \<not> lt e y \<and> \<not> lt y e"

lemma merge_stable:
  "weak_order lt \<Longrightarrow> sorted_by lt xs \<Longrightarrow> filter (same_as lt e) (merge lt xs ys) = filter (same_as lt e) (xs @ ys)"
proof (induction lt xs ys rule: merge.induct)
  case (3 lt x xs y ys)
  note w = weak_orderD [OF "3.prems"(1)]
  show ?case
  proof (cases "lt y x")
    case True
    have "\<not> same_as lt e z" if z: "same_as lt e y" "z \<in> set (x # xs)" for z
    proof -
      have "z = x \<or> \<not> lt z x" using z(2) "3.prems"(2) by (auto simp: sorted_by_Cons)
      then have "lt y z" using True w(4) by blast
      then show ?thesis using z(1) w(4,5) unfolding same_as_def by blast
    qed
    then have "same_as lt e y \<longrightarrow> filter (same_as lt e) (x # xs) = []"
      by (metis (no_types, lifting) filter_False)
    then show ?thesis using 3 True by (auto simp: sorted_by_Cons)
  next
    case False
    then show ?thesis using 3 by (auto simp: sorted_by_Cons)
  qed
qed auto

lemma pairs_merged_stable:
  "weak_order lt \<Longrightarrow> \<forall>r \<in> set rs. sorted_by lt r \<Longrightarrow>
    filter (same_as lt e) (concat (pairs_merged lt rs)) = filter (same_as lt e) (concat rs)"
  by (induction lt rs rule: pairs_merged.induct) (auto simp: merge_stable)

lemma one_pass_stable: "weak_order lt \<Longrightarrow> filter (same_as lt e) (one_pass lt xs) = filter (same_as lt e) xs"
  using pairs_merged_stable [of lt "runs lt xs" e] runs_sorted [of lt _ xs] concat_runs [of lt xs]
  by (simp add: one_pass_def)

lemma mset_one_pass: "mset (one_pass lt xs) = mset xs"
proof -
  have "mset (concat (pairs_merged lt rs)) = mset (concat rs)" for rs
    by (induction lt rs rule: pairs_merged.induct) auto
  then show ?thesis by (simp add: one_pass_def concat_runs)
qed

section \<open>The passes over the links\<close>

lemma sort_pass_eq:
  "is_list h l (us @ xs) \<Longrightarrow> \<exists>h'. sort_pass lt l (after_node l xs) cnt h =
     Some (cnt + of_nat (length (pairs_merged lt (runs lt xs))), h') \<and> is_list h' l (us @ one_pass lt xs)"
proof (induction "length xs" arbitrary: us xs cnt h rule: less_induct)
  case less
  show ?case
  proof (cases xs)
    case Nil
    then show ?thesis using less.prems by (subst sort_pass.simps) (simp add: list_end_def one_pass_def)
  next
    case (Cons x xs')
    have l: "is_list h l (us @ x # xs')" using less.prems Cons by simp
    note x = is_list_step [OF l] find_end_of_run_eq [OF l, of lt]
    show ?thesis
    proof (cases "run_rest lt x xs'")
      case Nil
      then show ?thesis
        using Cons x run_append [of lt x xs'] l
        by (subst sort_pass.simps) (simp add: list_end_def Let_def one_pass_def)
    next
      case (Cons y ys)
      let ?r = "run lt x xs'" and ?s = "run lt y ys" and ?zs = "run_rest lt y ys"
      have xs: "x # xs' = ?r @ y # ys" "y # ys = ?s @ ?zs"
        using run_append [of lt x xs'] run_append [of lt y ys] Cons by simp_all
      have y: "is_list h l ((us @ ?r) @ y # ys)" using l xs by simp
      note b = is_list_step [OF y] find_end_of_run_eq [OF y, of lt]
      have "is_list h l (us @ ?r @ ?s @ ?zs)" using l xs by metis
      from inplace_merge_eq [OF this, of lt] obtain h1 where
        m: "inplace_merge lt (after_node l (x # xs')) (after_node l (y # ys)) (after_node l ?zs) h = Some h1"
        "is_list h1 l ((us @ merge lt ?r ?s) @ ?zs)"
        using xs by auto
      have "length ?zs < length xs"
        using run_rest_length [of lt y ys] run_rest_length [of lt x xs']
        unfolding \<open>xs = x # xs'\<close> Cons by simp
      from less.hyps [OF this m(2), of "cnt + 1"] obtain h2 where
        r: "sort_pass lt l (after_node l ?zs) (cnt + 1) h1 =
          Some (cnt + 1 + of_nat (length (pairs_merged lt (runs lt ?zs))), h2)"
        "is_list h2 l ((us @ merge lt ?r ?s) @ one_pass lt ?zs)" by blast
      show ?thesis
        using \<open>xs = x # xs'\<close> Cons x b m(1) r
        by (subst sort_pass.simps) (simp add: list_end_def Let_def one_pass_def algebra_simps)
    qed
  qed
qed

definition stably_sorts :: "(nat \<Rightarrow> nat \<Rightarrow> bool) \<Rightarrow> nat list \<Rightarrow> nat list \<Rightarrow> bool" where
  "stably_sorts lt xs ys \<longleftrightarrow> sorted_by lt ys \<and> mset ys = mset xs \<and>
     (\<forall>e. filter (same_as lt e) ys = filter (same_as lt e) xs)"

lemma one_pass_sorted:
  assumes "weak_order lt" "length (pairs_merged lt (runs lt xs)) \<le> 1"
  shows "stably_sorts lt xs (one_pass lt xs)"
proof -
  have "\<forall>s \<in> set (pairs_merged lt (runs lt xs)). sorted_by lt s"
    using pairs_merged_sorted [OF assms(1)] runs_sorted [OF assms(1)] by blast
  then have "sorted_by lt (one_pass lt xs)"
    using assms(2) unfolding one_pass_def by (cases "pairs_merged lt (runs lt xs)") auto
  then show ?thesis by (simp add: stably_sorts_def mset_one_pass one_pass_stable [OF assms(1)])
qed

lemma list_sort_eq:
  assumes "weak_order lt"
  shows "is_list h l xs \<Longrightarrow> length xs < 2 ^ 32 \<Longrightarrow>
    \<exists>h' ys. list_sort lt l h = Some h' \<and> is_list h' l ys \<and> stably_sorts lt xs ys"
proof (induction "length (runs lt xs)" arbitrary: xs h rule: less_induct)
  case less
  let ?n = "length (pairs_merged lt (runs lt xs))"
  obtain h1 where p: "sort_pass lt l (list_begin l h) 0 h = Some (of_nat ?n, h1)" "is_list h1 l (one_pass lt xs)"
    using sort_pass_eq [of h l "[]" xs lt 0] less.prems(1) by (auto simp: list_ends)
  have n: "?n = (length (runs lt xs) + 1) div 2" by (rule length_pairs_merged)
  have "?n < 2 ^ 32" using n length_runs_le(2) [of lt xs] less.prems(2) by linarith
  then have cnt: "(of_nat ?n :: Bit32u) > 1 \<longleftrightarrow> ?n > 1"
    by (simp add: word_less_nat_alt unat_of_nat)
  show ?case
  proof (cases "?n > 1")
    case True
    have "length (runs lt (one_pass lt xs)) < length (runs lt xs)"
      using runs_one_pass [OF assms, of xs] n True by linarith
    moreover have "length (one_pass lt xs) < 2 ^ 32"
      using less.prems(2) mset_one_pass [of lt xs] by (metis size_mset)
    ultimately obtain h' ys where
      "list_sort lt l h1 = Some h'" "is_list h' l ys" "stably_sorts lt (one_pass lt xs) ys"
      using less.hyps [OF _ p(2)] by blast
    moreover from this(3) have "stably_sorts lt xs ys"
      by (simp add: stably_sorts_def mset_one_pass one_pass_stable [OF assms])
    ultimately show ?thesis
      using p(1) cnt True by (subst list_sort.simps) auto
  next
    case False
    then have "stably_sorts lt xs (one_pass lt xs)" by (intro one_pass_sorted [OF assms]) simp
    then show ?thesis
      using p cnt False by (subst list_sort.simps) auto
  qed
qed

end
