(* ===== verification/DList_Edit.thy ===== *)
theory DList_Edit
  imports DList_Sort
begin

text \<open>
  \<open>list_reverse\<close> and \<open>list_unique\<close>, and the properties of the linked lists: the contract of the
  queues, ordered insertion, the stable sort, reversal, removal of duplicates, and what a second
  insertion of an element with stale links does.
\<close>

section \<open>Reversal\<close>

text \<open>The links after the nodes of \<open>S\<close> have had theirs exchanged.\<close>

definition exchanged :: "nat set \<Rightarrow> links \<Rightarrow> links \<Rightarrow> bool" where
  "exchanged S h h' \<longleftrightarrow>
     (\<forall>n. next_ptr h' n = (if n \<in> S then prev_ptr h n else next_ptr h n) \<and>
          prev_ptr h' n = (if n \<in> S then next_ptr h n else prev_ptr h n))"

lemma swap_links_ptr [simp]:
  "next_ptr (swap_links e h) n = (if n = e then prev_ptr h e else next_ptr h n)"
  "prev_ptr (swap_links e h) n = (if n = e then next_ptr h e else prev_ptr h n)"
  by (simp_all add: swap_links_def Let_def)

lemma reverse_loop_eq:
  "is_list h0 l (xs @ ys) \<Longrightarrow> exchanged (set xs) h0 h \<Longrightarrow>
     \<exists>h'. reverse_loop l (after_node l ys) h = Some h' \<and> exchanged (set (xs @ ys)) h0 h'"
proof (induction ys arbitrary: xs h)
  case Nil
  then show ?case by (subst reverse_loop.simps) (simp add: list_end_def)
next
  case (Cons y ys)
  have "y \<notin> set xs" using Cons.prems(1) by (auto simp: is_list_def nodes_def)
  then have "exchanged (set (xs @ [y])) h0 (swap_links y h)" "next_ptr h y = next_ptr h0 y"
    using Cons.prems(2) by (auto simp: exchanged_def)
  then show ?case
    using is_list_step [OF Cons.prems(1)] Cons.IH [of "xs @ [y]" "swap_links y h"] Cons.prems(1)
    by (subst reverse_loop.simps) (simp add: list_end_def Let_def)
qed

lemma linked_rev: "linked h xs \<Longrightarrow> exchanged S h h' \<Longrightarrow> set xs \<subseteq> S \<Longrightarrow> linked h' (rev xs)"
proof (induction h xs rule: linked.induct)
  case (3 h a b ns)
  then have "next_ptr h' b = a" "prev_ptr h' a = b" by (auto simp: exchanged_def)
  then show ?case using 3 linked_append [of h' "rev ns" b "[a]"] by simp
qed auto

lemma is_list_middle: "is_list h l xs \<Longrightarrow> linked h xs"
proof -
  assume "is_list h l xs"
  then have "linked h (xs @ [tail l])"
    by (cases xs) (auto simp: is_list_def nodes_def)
  then show ?thesis
    by (cases xs rule: rev_cases) (auto dest: linked_append [THEN iffD1])
qed

lemma list_reverse_eq:
  assumes "is_list h l xs"
  shows "\<exists>h'. list_reverse l h = Some h' \<and> is_list h' l (rev xs)"
proof (cases xs)
  case Nil
  then show ?thesis using assms by (simp add: list_reverse_def list_empty_iff)
next
  case (Cons x xs')
  define y where "y = last xs"
  have y: "hd (rev xs) = y" "last (rev xs) = x" "xs \<noteq> []"
    using Cons by (simp_all only: y_def hd_rev last_rev list.sel list.simps) auto
  then have y1: "rev xs = y # tl (rev xs)" by (metis list.collapse rev_is_Nil_conv)
  obtain h1 where h1: "reverse_loop l (list_begin l h) h = Some h1" "exchanged (set xs) h h1"
    using reverse_loop_eq [of h l "[]" xs h] assms by (auto simp: list_ends exchanged_def)
  let ?h = "swap_ends l h1"
  have xy: "x \<in> set xs" "y \<in> set xs" using Cons by (simp_all add: y_def)
  have ht: "head l \<noteq> tail l" "head l \<notin> set xs" "tail l \<notin> set xs"
    using assms by (auto simp: is_list_def nodes_def)
  have ends: "x \<noteq> head l" "x \<noteq> tail l" "y \<noteq> head l" "y \<noteq> tail l" using xy ht by blast+
  have links: "next_ptr h (head l) = x" "prev_ptr h (tail l) = y" "prev_ptr h x = head l" "next_ptr h y = tail l"
    "prev_ptr h (head l) = 0" "next_ptr h (tail l) = 0"
    using is_list_links [of h l "[]" xs] is_list_links [of h l xs "[]"] assms Cons
    by (simp_all add: y_def is_list_def)
  have new: "next_ptr ?h n = (if n = head l then y else if n = x then tail l else next_ptr h1 n)"
    "prev_ptr ?h n = (if n = tail l then x else if n = y then head l else prev_ptr h1 n)" for n
    using ends xy ht links h1(2) by (auto simp: swap_ends_def Let_def exchanged_def)
  have d: "distinct (rev xs)" using assms by (simp add: is_list_def nodes_def)
  have "linked ?h (rev xs)"
  proof (rule linked_frame [of h1])
    show "linked h1 (rev xs)" by (rule linked_rev [OF is_list_middle [OF assms] h1(2)]) simp
    show "next_ptr ?h n = next_ptr h1 n" if "n \<in> set (butlast (rev xs))" for n
    proof -
      have nx: "n \<noteq> x" using that d append_butlast_last_id [of "rev xs"] y by (metis distinct_append disjoint_iff list.set_intros(1) rev_is_Nil_conv)
      have "n \<in> set xs" using in_set_butlastD [OF that] by simp
      then show ?thesis using nx ht new by auto
    qed
    show "prev_ptr ?h n = prev_ptr h1 n" if "n \<in> set (tl (rev xs))" for n
    proof -
      have "n \<noteq> y" "n \<in> set xs"
        using that d y y1 by (metis distinct.simps(2), metis list.set_sel(2) rev_is_Nil_conv set_rev)
      then show ?thesis using ht ends new by auto
    qed
  qed
  moreover have "rev xs = butlast (rev xs) @ [x]" using append_butlast_last_id [of "rev xs"] y by simp
  ultimately have "linked ?h (rev xs @ [tail l])"
    using linked_append [of ?h "butlast (rev xs)" x "[tail l]"] new ends by (metis append_Cons append_Nil append_assoc linked.simps(2,3))
  then have "linked ?h (nodes l (rev xs))"
    using y1 new ends unfolding nodes_def by (metis append_Cons linked.simps(3))
  moreover have "prev_ptr ?h (head l) = 0" "next_ptr ?h (tail l) = 0"
    using new ends xy ht links h1(2) by (auto simp: exchanged_def)
  ultimately have "is_list ?h l (rev xs)"
    using assms by (simp add: is_list_def nodes_def)
  then show ?thesis using h1(1) assms Cons by (simp add: list_reverse_def list_empty_iff)
qed

section \<open>Removal of duplicates\<close>

text \<open>The elements kept and those moved out, after \<open>e\<close> has been kept.\<close>

fun kept :: "('a \<Rightarrow> 'a \<Rightarrow> bool) \<Rightarrow> 'a \<Rightarrow> 'a list \<Rightarrow> 'a list" where
  "kept lt e [] = [e]"
| "kept lt e (y # ys) = (if \<not> lt e y \<and> \<not> lt y e then kept lt e ys else e # kept lt y ys)"

fun moved :: "('a \<Rightarrow> 'a \<Rightarrow> bool) \<Rightarrow> 'a \<Rightarrow> 'a list \<Rightarrow> 'a list" where
  "moved lt e [] = []"
| "moved lt e (y # ys) = (if \<not> lt e y \<and> \<not> lt y e then y # moved lt e ys else moved lt y ys)"

lemma mset_kept_moved: "mset (kept lt e ys) + mset (moved lt e ys) = mset (e # ys)"
  by (induction lt e ys rule: kept.induct) auto

lemma kept_strict:
  "weak_order lt \<Longrightarrow> sorted_by lt (e # ys) \<Longrightarrow> sorted_wrt lt (kept lt e ys)"
proof (induction lt e ys rule: kept.induct)
  case (2 lt e y ys)
  note w = weak_orderD [OF "2.prems"(1)]
  show ?case
  proof (cases "\<not> lt e y \<and> \<not> lt y e")
    case True
    then show ?thesis using 2 by (simp add: sorted_by_Cons)
  next
    case False
    then have ey: "lt e y" using "2.prems"(2) by (simp add: sorted_by_Cons)
    have "set (kept lt y ys) \<subseteq> set (y # ys)"
      using mset_kept_moved [of lt y ys] by (metis mset_subset_eq_add_left set_mset_mono set_mset_mset)
    moreover have "lt e z" if "z \<in> set (y # ys)" for z
    proof -
      have "z = y \<or> \<not> lt z y" using that "2.prems"(2) by (auto simp: sorted_by_Cons)
      then show ?thesis using ey w(4) by blast
    qed
    ultimately show ?thesis using 2 False by (auto simp: sorted_by_Cons)
  qed
qed simp

lemma unique_loop_eq:
  assumes "lists h m" "m l = Some (us @ e # ys)"
    "case dup of None \<Rightarrow> True | Some d \<Rightarrow> d \<noteq> l \<and> m d = Some ds"
  shows "\<exists>h'. unique_loop lt l dup e h = Some h' \<and>
    lists h' ((case dup of None \<Rightarrow> m | Some d \<Rightarrow> m(d \<mapsto> ds @ moved lt e ys))(l \<mapsto> us @ kept lt e ys))"
  using assms
proof (induction lt e ys arbitrary: us h m ds rule: kept.induct)
  case (1 lt e)
  have l: "is_list h l (us @ [e])" using "1.prems" by (simp add: lists_def)
  show ?case
    using is_list_step [OF l] "1.prems"
    by (subst unique_loop.simps) (auto simp: list_next_def list_end_def fun_upd_idem split: option.splits)
next
  case (2 lt e y ys)
  have l: "is_list h l (us @ e # y # ys)" using "2.prems" by (simp add: lists_def)
  have l': "is_list h l ((us @ [e]) @ y # ys)" using l by simp
  note step = is_list_step(1) [OF l] is_list_step(2) [OF l']
  show ?case
  proof (cases "\<not> lt e y \<and> \<not> lt y e")
    case True
    let ?h = "snd (list_remove y h)"
    have rm: "lists ?h (m(l \<mapsto> us @ e # ys))" "free ?h (m(l \<mapsto> us @ e # ys)) y"
      using lists_remove [of h m l "us @ [e]" y ys] "2.prems"(1,2) by simp_all
    show ?thesis
    proof (cases dup)
      case None
      have eq: "m(l \<mapsto> us @ e # ys, l \<mapsto> us @ kept lt e ys) = m(l \<mapsto> us @ kept lt e (y # ys))"
        using True by (simp add: fun_eq_iff)
      have "\<exists>h'. unique_loop lt l dup e ?h = Some h' \<and> lists h' (m(l \<mapsto> us @ kept lt e (y # ys)))"
      proof -
        have c: "case dup of None \<Rightarrow> True | Some d \<Rightarrow> d \<noteq> l \<and> (m(l \<mapsto> us @ e # ys)) d = Some ds"
          using None by simp
        show ?thesis using "2.IH"(1) [OF True rm(1) fun_upd_same c] unfolding None option.case eq .
      qed
      then show ?thesis
        using step True None
        by (subst unique_loop.simps) (simp add: list_next_def list_end_def Let_def)
    next
      case (Some d)
      then have d: "d \<noteq> l" "m d = Some ds" using "2.prems"(3) by simp_all
      have pb: "lists (list_push_back d y ?h) (m(l \<mapsto> us @ e # ys, d \<mapsto> ds @ [y]))"
        using lists_push_back [OF rm(1) _ rm(2), of d ds] d by simp
      have eq: "m(l \<mapsto> us @ e # ys, d \<mapsto> ds @ [y], d \<mapsto> (ds @ [y]) @ moved lt e ys, l \<mapsto> us @ kept lt e ys) =
          m(d \<mapsto> ds @ moved lt e (y # ys), l \<mapsto> us @ kept lt e (y # ys))"
        using True d by (simp add: fun_eq_iff)
      have "\<exists>h'. unique_loop lt l dup e (list_push_back d y ?h) = Some h' \<and>
          lists h' (m(d \<mapsto> ds @ moved lt e (y # ys), l \<mapsto> us @ kept lt e (y # ys)))"
      proof -
        have c: "case dup of None \<Rightarrow> True | Some a \<Rightarrow> a \<noteq> l \<and> (m(l \<mapsto> us @ e # ys, d \<mapsto> ds @ [y])) a = Some (ds @ [y])"
          "(m(l \<mapsto> us @ e # ys, d \<mapsto> ds @ [y])) l = Some (us @ e # ys)"
          using d Some by simp_all
        show ?thesis using "2.IH"(1) [OF True pb c(2,1)] unfolding Some option.case eq .
      qed
      then show ?thesis
        using step True Some
        by (subst unique_loop.simps) (simp add: list_next_def list_end_def Let_def)
    qed
  next
    case False
    have ml: "m l = Some ((us @ [e]) @ y # ys)" using "2.prems"(2) by simp
    have mv: "moved lt e (y # ys) = moved lt y ys" "us @ kept lt e (y # ys) = (us @ [e]) @ kept lt y ys"
      using False by auto
    have "unique_loop lt l dup e h = unique_loop lt l dup y h"
      using step False by (subst unique_loop.simps) (auto simp: list_next_def list_end_def Let_def)
    then show ?thesis
      using "2.IH"(2) [OF False "2.prems"(1) ml "2.prems"(3)] unfolding mv by simp
  qed
qed

lemma list_unique_eq:
  assumes "lists h m" "m l = Some xs" "case dup of None \<Rightarrow> True | Some d \<Rightarrow> d \<noteq> l \<and> m d = Some ds"
  shows "\<exists>h' ys zs. list_unique lt l dup h = Some h' \<and>
    lists h' ((case dup of None \<Rightarrow> m | Some d \<Rightarrow> m(d \<mapsto> ds @ zs))(l \<mapsto> ys)) \<and> mset xs = mset ys + mset zs \<and>
    (weak_order lt \<longrightarrow> sorted_by lt xs \<longrightarrow> sorted_wrt lt ys)"
proof (cases xs)
  case Nil
  have "is_list h l []" using assms(1,2) Nil by (simp add: lists_def)
  then have "list_unique lt l dup h = Some h" by (simp add: list_unique_def list_empty_iff)
  moreover have "lists h ((case dup of None \<Rightarrow> m | Some d \<Rightarrow> m(d \<mapsto> ds @ []))(l \<mapsto> []))"
    using assms Nil by (cases dup) (simp_all add: fun_upd_idem)
  ultimately show ?thesis using Nil by (intro exI [of _ h] exI [of _ "[]"]) simp
next
  case (Cons e ys)
  have l: "is_list h l (e # ys)" using assms Cons by (simp add: lists_def)
  have "list_unique lt l dup h = unique_loop lt l dup e h"
    using l by (simp add: list_unique_def list_empty_iff list_ends)
  moreover have "\<exists>h'. unique_loop lt l dup e h = Some h' \<and>
    lists h' ((case dup of None \<Rightarrow> m | Some d \<Rightarrow> m(d \<mapsto> ds @ moved lt e ys))(l \<mapsto> kept lt e ys))"
    using unique_loop_eq [OF assms(1), where l = l and us = "[]" and e = e and ys = ys and dup = dup and ds = ds] assms(2,3) Cons by simp
  moreover have "mset xs = mset (kept lt e ys) + mset (moved lt e ys)"
    using mset_kept_moved [of lt e ys] Cons by simp
  ultimately show ?thesis using kept_strict [of lt e ys] Cons by metis
qed

section \<open>Lists built from scratch\<close>

definition no_links :: links where
  "no_links = \<lparr> prev_ptr = (\<lambda>_. 0), next_ptr = (\<lambda>_. 0) \<rparr>"

definition built :: "struct_list \<Rightarrow> nat list \<Rightarrow> links" where
  "built l xs = foldl (\<lambda>h e. list_push_back l e h) (list_init l no_links) xs"

lemma lists_built:
  "distinct (nodes l xs) \<Longrightarrow> 0 \<notin> set (nodes l xs) \<Longrightarrow> lists (built l xs) [l \<mapsto> xs] \<and>
    (\<forall>e. e \<notin> set (nodes l xs) \<longrightarrow> e \<noteq> 0 \<longrightarrow> prev_ptr (built l xs) e = 0 \<and> next_ptr (built l xs) e = 0)"
proof (induction xs rule: rev_induct)
  case Nil
  then show ?case
    by (auto simp: built_def list_init_def lists_def is_list_def nodes_def no_links_def)
next
  case (snoc e xs)
  let ?h = "built l xs"
  have n: "distinct (nodes l xs)" "0 \<notin> set (nodes l xs)" "e \<notin> set (nodes l xs)" "e \<noteq> 0"
    using snoc.prems by (auto simp: nodes_def)
  have IH: "lists ?h [l \<mapsto> xs]" "\<And>e. e \<notin> set (nodes l xs) \<Longrightarrow> e \<noteq> 0 \<Longrightarrow> prev_ptr ?h e = 0 \<and> next_ptr ?h e = 0"
    using snoc.IH [OF n(1,2)] by blast+
  have d: "detached ?h e" using IH(2) [OF n(3,4)] by (simp add: detached_def)
  have f: "free ?h [l \<mapsto> xs] e" using d n by (simp add: free_def)
  have b: "built l (xs @ [e]) = list_push_back l e ?h" by (simp add: built_def)
  have p: "prev_ptr ?h (tail l) = before_node l xs"
    using is_list_links(2) [of ?h l xs "[]"] IH(1) by (simp add: lists_def)
  have nb: "tail l \<noteq> e" "before_node l xs \<noteq> e" "before_node l xs \<in> set (nodes l xs)"
    using n(3) neighbours_in_nodes(1) [where l = l and xs = xs and ys = "[]"] by (auto simp: nodes_def)
  have "prev_ptr (built l (xs @ [e])) e' = 0 \<and> next_ptr (built l (xs @ [e])) e' = 0"
    if "e' \<notin> set (nodes l (xs @ [e]))" "e' \<noteq> 0" for e'
  proof -
    have "e' \<notin> set (nodes l xs)" "e' \<noteq> e" "e' \<noteq> tail l" using that(1) by (auto simp: nodes_def)
    then show ?thesis
      using IH(2) [OF \<open>e' \<notin> set (nodes l xs)\<close> that(2)] nb
      unfolding b list_push_back_def list_end_def
      by (auto simp: list_insert_links [OF d nb(1) p [symmetric] nb(2)])
  qed
  moreover have "lists (built l (xs @ [e])) [l \<mapsto> xs @ [e]]"
    using lists_push_back [OF IH(1) fun_upd_same f] unfolding b fun_upd_upd .
  ultimately show ?case by blast
qed

lemma is_list_built:
  "distinct (nodes l xs) \<Longrightarrow> 0 \<notin> set (nodes l xs) \<Longrightarrow> is_list (built l xs) l xs"
  using lists_built [of l xs] by (simp add: lists_def)

lemma free_built:
  "distinct (nodes l (e # xs)) \<Longrightarrow> 0 \<notin> set (nodes l (e # xs)) \<Longrightarrow> free (built l xs) [l \<mapsto> xs] e"
  using lists_built [of l xs] by (auto simp: free_def detached_def nodes_def)

lemma lists_init:
  assumes "lists h m" "m d = None" "head d \<noteq> tail d" "head d \<noteq> 0" "tail d \<noteq> 0"
    "\<And>l xs. m l = Some xs \<Longrightarrow> {head d, tail d} \<inter> set (nodes l xs) = {}"
  shows "lists (list_init d h) (m(d \<mapsto> []))"
proof -
  have new: "is_list (list_init d h) d []"
    using assms(3-5) by (simp add: is_list_def nodes_def list_init_def)
  have "is_list (list_init d h) l xs" if "m l = Some xs" for l xs
  proof (rule is_list_frame)
    show "is_list h l xs" using assms(1) that by (simp add: lists_def)
    show "next_ptr (list_init d h) n = next_ptr h n \<and> prev_ptr (list_init d h) n = prev_ptr h n"
      if "n \<in> set (nodes l xs)" for n
      using assms(6) [OF \<open>m l = Some xs\<close>] that by (auto simp: list_init_def)
  qed
  moreover have "set (nodes d []) = {head d, tail d}" by (simp add: nodes_def)
  ultimately show ?thesis
    using new assms(1,6) unfolding lists_def by (auto split: if_splits)
qed

section \<open>Properties\<close>

text \<open>An element of a list is unlinked there before it is linked at its new place.\<close>

lemma lists_move:
  assumes "lists h m" "m l = Some (xs @ e # ys)" "(m(l \<mapsto> xs @ ys)) l' = Some (us @ vs)"
  shows "lists (list_insert (after_node l' vs) e h) (m(l \<mapsto> xs @ ys, l' \<mapsto> us @ e # vs))"
proof -
  have "is_list h l (xs @ e # ys)" using assms(1,2) by (auto simp: lists_def)
  then show ?thesis
    unfolding list_insert_moves
    using lists_insert [OF lists_remove(1) [OF assms(1,2)] assms(3) lists_remove(2) [OF assms(1,2)]]
    by (subst list_insert_moves)
qed

text \<open>
  C20. The linked lists are sequences.  An element \<open>f\<close> that is \<open>free\<close> is put where the
  operation says: one that is not null, is in no list, and whose links, if they still name others, name two
  that are linked past it, as those of an element never linked or just removed.  An element \<open>e\<close> of a list is moved
  from there to any place of that or another list.  Removing an element takes it out, returns its successor
  and leaves it \<open>free\<close>; popping takes the first or the last element.  All other lists keep theirs.
\<close>

theorem list_operations_on_sequences:
  assumes "lists h m" "m l = Some (xs @ e # ys)" "free h m f"
  shows "lists (list_push_back l f h) (m(l \<mapsto> (xs @ e # ys) @ [f])) \<and>
    lists (list_push_front l f h) (m(l \<mapsto> f # xs @ e # ys)) \<and>
    lists (list_insert e f h) (m(l \<mapsto> xs @ f # e # ys)) \<and>
    (\<forall>l' us vs. (m(l \<mapsto> xs @ ys)) l' = Some (us @ vs) \<longrightarrow>
       lists (list_insert (after_node l' vs) e h) (m(l \<mapsto> xs @ ys, l' \<mapsto> us @ e # vs))) \<and>
    (let (n, h') = list_remove e h in n = hd (ys @ [tail l]) \<and>
       lists h' (m(l \<mapsto> xs @ ys)) \<and> free h' (m(l \<mapsto> xs @ ys)) e) \<and>
    fst (list_pop_front l h) = hd (xs @ [e]) \<and>
    lists (snd (list_pop_front l h)) (m(l \<mapsto> tl (xs @ e # ys))) \<and>
    fst (list_pop_back l h) = last (e # ys) \<and>
    lists (snd (list_pop_back l h)) (m(l \<mapsto> butlast (xs @ e # ys)))"
proof -
  have f: "m l = Some (hd (xs @ e # ys) # tl (xs @ e # ys))" using assms(2) by simp
  have b: "m l = Some (butlast (xs @ e # ys) @ [last (xs @ e # ys)])"
    using assms(2) append_butlast_last_id [of "xs @ e # ys"] by simp
  have hd: "hd (xs @ e # ys) = hd (xs @ [e])" by (cases xs) simp_all
  show ?thesis
    using lists_move [OF assms(1,2)] lists_push_back [OF assms] lists_push_front [OF assms] lists_remove [OF assms(1,2)]
      lists_insert [OF assms(1) _ assms(3), of l xs "e # ys"] lists_pop_front [OF assms(1) f]
      lists_pop_back [OF assms(1) b] assms(2) hd
    by (simp add: split_def Let_def)
qed

abbreviation demo :: struct_list where "demo \<equiv> \<lparr> head = 1, tail = 2 \<rparr>"

theorem list_operations_on_sequences_witness:
  "lists (list_push_back demo 9 (built demo [3, 4, 5])) [demo \<mapsto> [3, 4, 5, 9]]"
proof -
  have "lists (built demo [3, 4, 5]) [demo \<mapsto> [3, 4, 5]]" "free (built demo [3, 4, 5]) [demo \<mapsto> [3, 4, 5]] 9"
    using lists_built [of demo "[3, 4, 5]"] free_built [of demo 9 "[3, 4, 5]"]
    by (simp_all add: nodes_def)
  from list_operations_on_sequences [OF this(1) _ this(2), of demo "[3]" 4 "[5]"]
  show ?thesis by (simp del: fun_upd_apply, simp)
qed

text \<open>
  C7. \<open>list_sort\<close> always returns, and sorts stably: for a comparison that is a strict weak order and a
  list that the machine can hold, the result is the same elements in nondecreasing order, with
  the elements that the comparison does not distinguish in their old order.
\<close>

theorem list_sort_stable:
  assumes "weak_order lt" "is_list h l xs" "length xs < 2 ^ 32"
  shows "\<exists>h' ys. list_sort lt l h = Some h' \<and> is_list h' l ys \<and> sorted_by lt ys \<and>
    mset ys = mset xs \<and> (\<forall>e. filter (same_as lt e) ys = filter (same_as lt e) xs)"
  using list_sort_eq [OF assms] by (simp add: stably_sorts_def)

lemma weak_order_key: "weak_order (\<lambda>a b. (k a :: nat) < k b)"
  by (auto simp: weak_order_def)

theorem list_sort_stable_witness:
  "\<exists>h' ys. list_sort (\<lambda>a b. a div 10 < b div 10) demo (built demo [31, 12, 33, 11, 20]) = Some h' \<and>
     is_list h' demo ys \<and> filter (same_as (\<lambda>a b. a div 10 < b div (10::nat)) 10) ys = [12, 11]"
proof -
  have "is_list (built demo [31, 12, 33, 11, 20]) demo [31, 12, 33, 11, 20]"
    by (rule is_list_built) (simp_all add: nodes_def)
  from list_sort_stable [OF weak_order_key this, of "\<lambda>a. a div 10"] obtain h' ys where
    "list_sort (\<lambda>a b. a div 10 < b div 10) demo (built demo [31, 12, 33, 11, 20]) = Some h'" "is_list h' demo ys"
    "filter (same_as (\<lambda>a b. a div 10 < b div (10::nat)) 10) ys =
      filter (same_as (\<lambda>a b. a div 10 < b div (10::nat)) 10) [31, 12, 33, 11, 20]"
    by auto
  then show ?thesis by (auto simp: same_as_def)
qed

text \<open>
  C34. \<open>list_insert_ordered\<close> always returns, puts an element that is \<open>free\<close> (in no list, its old neighbours,
  if any, linked past it) behind the elements that are not greater, and so keeps a sorted list sorted.
\<close>

theorem list_insert_ordered_sorts:
  assumes "weak_order lt" "lists h m" "m l = Some xs" "free h m e" "sorted_by lt xs"
  shows "\<exists>h' ys zs. list_insert_ordered lt l e h = Some h' \<and> lists h' (m(l \<mapsto> ys @ e # zs)) \<and>
    xs = ys @ zs \<and> sorted_by lt (ys @ e # zs) \<and> (\<forall>y \<in> set ys. \<not> lt e y) \<and> (zs \<noteq> [] \<longrightarrow> lt e (hd zs))"
proof -
  let ?P = "\<lambda>y. \<not> lt e y"
  obtain h' where "list_insert_ordered lt l e h = Some h'" "lists h' (m(l \<mapsto> insort_by lt e xs))"
    using lists_insert_ordered [OF assms(2-4)] by blast
  then show ?thesis
    using sorted_insort_by [OF assms(1,5), of e] hd_dropWhile [of ?P xs] set_takeWhileD [of _ ?P xs]
    by (intro exI [of _ h'] exI [of _ "takeWhile ?P xs"] exI [of _ "dropWhile ?P xs"]) (auto simp: insort_by_def)
qed

theorem list_insert_ordered_sorts_witness:
  "\<exists>h'. list_insert_ordered (<) demo 5 (built demo [3, 4, 8]) = Some h'"
proof -
  have "lists (built demo [3, 4, 8]) [demo \<mapsto> [3, 4, 8]]" "free (built demo [3, 4, 8]) [demo \<mapsto> [3, 4, 8]] 5"
    using lists_built [of demo "[3, 4, 8]"] free_built [of demo 5 "[3, 4, 8]"]
    by (simp_all add: nodes_def)
  from list_insert_ordered_sorts [OF weak_order_key [of "\<lambda>a. a"] this(1) _ this(2), of demo "[3, 4, 8]"]
  show ?thesis by (auto simp: sorted_by_def)
qed

text \<open>
  \<open>list_reverse\<close> returns and reverses the list; so a second call restores it.
\<close>

theorem list_reverse_reverses:
  assumes "is_list h l xs"
  shows "\<exists>h' h''. list_reverse l h = Some h' \<and> is_list h' l (rev xs) \<and>
    list_reverse l h' = Some h'' \<and> is_list h'' l xs"
proof -
  obtain h' where h': "list_reverse l h = Some h'" "is_list h' l (rev xs)"
    using list_reverse_eq [OF assms] by blast
  then show ?thesis using list_reverse_eq [OF h'(2)] by auto
qed

theorem list_reverse_reverses_witness:
  "\<exists>h'. list_reverse demo (built demo [3, 4, 5]) = Some h' \<and> is_list h' demo [5, 4, 3]"
proof -
  have "is_list (built demo [3, 4, 5]) demo [3, 4, 5]"
    by (rule is_list_built) (simp_all add: nodes_def)
  from list_reverse_reverses [OF this] show ?thesis by auto
qed

text \<open>
  \<open>list_unique\<close> returns, moves the elements it takes out to the end of the list of duplicates, loses
  none, and leaves a sorted list strictly increasing.
\<close>

theorem list_unique_moves_duplicates:
  assumes "lists h m" "m l = Some xs" "d \<noteq> l" "m d = Some ds" "weak_order lt" "sorted_by lt xs"
  shows "\<exists>h' ys zs. list_unique lt l (Some d) h = Some h' \<and> lists h' (m(d \<mapsto> ds @ zs, l \<mapsto> ys)) \<and>
    mset xs = mset ys + mset zs \<and> sorted_wrt lt ys"
proof -
  have "case Some d of None \<Rightarrow> True | Some a \<Rightarrow> a \<noteq> l \<and> m a = Some ds" using assms(3,4) by simp
  from list_unique_eq [OF assms(1,2) this] show ?thesis
    using assms(5,6) unfolding option.case by metis
qed

theorem list_unique_moves_duplicates_witness:
  "\<exists>h'. list_unique (\<lambda>a b. a div 10 < b div 10) demo (Some \<lparr> head = 6, tail = 7 \<rparr>)
     (list_init \<lparr> head = 6, tail = 7 \<rparr> (built demo [12, 11, 31])) = Some h'"
proof -
  have "lists (built demo [12, 11, 31]) [demo \<mapsto> [12, 11, 31]]"
    using lists_built [of demo "[12, 11, 31]"] by (simp add: nodes_def)
  then have "lists (list_init \<lparr> head = 6, tail = 7 \<rparr> (built demo [12, 11, 31]))
      [demo \<mapsto> [12, 11, 31], \<lparr> head = 6, tail = 7 \<rparr> \<mapsto> []]"
    by (rule lists_init) (auto simp: nodes_def split: if_splits)
  from list_unique_moves_duplicates [OF this _ _ _ weak_order_key [of "\<lambda>a. a div 10"],
      of demo "[12, 11, 31]" "\<lparr> head = 6, tail = 7 \<rparr>" "[]"]
  show ?thesis by (auto simp: sorted_by_def)
qed

text \<open>
  \<open>list_max\<close> and \<open>list_min\<close> return the earliest of the greatest and of the least elements, and
  \<open>list_size\<close> the number of elements modulo the width of the counter.
\<close>

theorem list_extremes_and_size:
  assumes "weak_order lt" "is_list h l (x # xs)"
  shows "list_size l h = Some (of_nat (length (x # xs))) \<and>
    (\<exists>m us vs. list_max lt l h = Some m \<and> x # xs = us @ m # vs \<and>
      (\<forall>y \<in> set us. lt y m) \<and> (\<forall>y \<in> set vs. \<not> lt m y)) \<and>
    (\<exists>m us vs. list_min lt l h = Some m \<and> x # xs = us @ m # vs \<and>
      (\<forall>y \<in> set us. lt m y) \<and> (\<forall>y \<in> set vs. \<not> lt y m))"
proof -
  note ends = list_ends [OF assms(2)]
  have l: "is_list h l ([] @ x # xs)" "is_list h l ([x] @ xs)" using assms(2) by simp_all
  note step = is_list_step [OF l(1)]
  have max: "list_max lt l h = Some (foldl (\<lambda>m e. if lt m e then e else m) x xs)"
    using max_loop_eq [OF l(2), of lt x] ends step by (simp add: list_max_def list_next_def list_end_def Let_def)
  have min: "list_min lt l h = Some (foldl (\<lambda>m e. if lt e m then e else m) x xs)"
    using min_loop_eq [OF l(2), of lt x] ends step by (simp add: list_min_def list_next_def list_end_def Let_def)
  show ?thesis
    using list_size_eq [OF assms(2)] foldl_max [OF assms(1), of "[]" x "[]" "[x]" xs]
      foldl_max [OF weak_order_flip [OF assms(1)], of "[]" x "[]" "[x]" xs]
    unfolding max min by auto
qed

theorem list_extremes_and_size_witness: "list_size demo (built demo [3, 9, 4]) = Some 3"
proof -
  have "is_list (built demo [3, 9, 4]) demo [3, 9, 4]"
    by (rule is_list_built) (simp_all add: nodes_def)
  from list_extremes_and_size [OF weak_order_key [of "\<lambda>a. a"] this] show ?thesis by simp
qed

text \<open>
  Serving the front element and queueing it again serves every element once per round, in order,
  and a round gives back the same queue: the rotation a round-robin scheduler is built on.
\<close>

theorem rotation_is_fair:
  assumes "lists h m" "m l = Some xs"
  shows "fst (dq.turns l (length xs) h) = xs \<and> lists (snd (dq.turns l (length xs) h)) m"
  using dq.one_round [OF assms] .

theorem rotation_is_fair_witness: "fst (dq.turns demo 3 (built demo [3, 4, 5])) = [3, 4, 5]"
proof -
  have "lists (built demo [3, 4, 5]) [demo \<mapsto> [3, 4, 5]]"
    using lists_built [of demo "[3, 4, 5]"] by (simp add: nodes_def)
  from rotation_is_fair [OF this, of demo "[3, 4, 5]"] show ?thesis by (simp add: eval_nat_numeral)
qed

text \<open>
  Inserting an element whose links are stale damages the list: after \<open>A\<close> is popped off the front and
  a new element \<open>C\<close> is pushed there, pushing \<open>A\<close> back makes \<open>list_insert\<close> unlink \<open>C\<close>.
\<close>

theorem stale_links_lose_element:
  "is_list (list_push_back demo 3 (list_push_front demo 9 (snd (list_pop_front demo (built demo [3, 4])))))
     demo [4, 3] \<and>
   is_list (list_push_front demo 9 (snd (list_pop_front demo (built demo [3, 4])))) demo [9, 4]"
  by (simp add: is_list_def nodes_def built_def no_links_def list_init_def list_insert_def list_push_back_def
      list_push_front_def list_pop_front_def list_remove_def list_begin_def list_front_def list_end_def Let_def)

end
