(* ===== verification/Bitmap.thy ===== *)
theory Bitmap
  imports Prelude
begin

text \<open>
  The bitmap of the SSUOS kernel, \<open>SSUOS_P6/src/kernel/bitmap.c\<close>.  A bitmap is an array of
  \<open>unit_type\<close> (\<open>unsigned long\<close>, 32 bits); \<open>units\<close> is that array as a function of the index, so an
  access past the last unit reads and writes the memory that follows, as in C.  \<open>size_t\<close> is 32
  bits wide and indices wrap.  \<open>bit_at\<close> is the array of bits the interface promises.
\<close>

section \<open>The code\<close>

type_synonym size_t = "32 word"
type_synonym unit_type = "32 word"

record bitmap =
  bit_count :: size_t
  units :: "nat \<Rightarrow> unit_type"

abbreviation BIT_NUM :: size_t where "BIT_NUM \<equiv> 32"

definition SIZE_MAX :: size_t where "SIZE_MAX = - 1"

abbreviation BITMAP_ERROR :: size_t where "BITMAP_ERROR \<equiv> SIZE_MAX"

definition unit_index :: "size_t \<Rightarrow> size_t" where
  "unit_index bit_index = bit_index div BIT_NUM"

definition bit_mask :: "size_t \<Rightarrow> unit_type" where
  "bit_mask bit_index = push_bit (unat (bit_index mod BIT_NUM)) 1"

definition unit_count :: "size_t \<Rightarrow> size_t" where
  "unit_count n = (n + BIT_NUM - 1) div BIT_NUM"

definition byte_count :: "size_t \<Rightarrow> size_t" where
  "byte_count n = 4 * unit_count n"

definition end_mask :: "bitmap \<Rightarrow> unit_type" where
  "end_mask b =
     (let last_bits = bit_count b mod BIT_NUM
      in if last_bits \<noteq> 0 then push_bit (unat last_bits) 1 - 1 else - 1)"

text \<open>\<open>sizeof (struct bitmap)\<close> is 8: the count and a pointer.\<close>

definition bitmap_struct_size :: "size_t \<Rightarrow> size_t" where
  "bitmap_struct_size n = 8 + byte_count n"

definition bitmap_size :: "bitmap \<Rightarrow> size_t" where
  "bitmap_size b = bit_count b"

definition or_bitmap :: "bitmap \<Rightarrow> size_t \<Rightarrow> bitmap" where
  "or_bitmap b bit_index =
     (let index = unat (unit_index bit_index)
      in b\<lparr> units := (units b)(index := units b index OR bit_mask bit_index) \<rparr>)"

definition and_bitmap :: "bitmap \<Rightarrow> size_t \<Rightarrow> bitmap" where
  "and_bitmap b bit_index =
     (let index = unat (unit_index bit_index)
      in b\<lparr> units := (units b)(index := units b index AND NOT (bit_mask bit_index)) \<rparr>)"

definition xor_bitmap :: "bitmap \<Rightarrow> size_t \<Rightarrow> bitmap" where
  "xor_bitmap b bit_index =
     (let index = unat (unit_index bit_index)
      in b\<lparr> units := (units b)(index := units b index XOR bit_mask bit_index) \<rparr>)"

definition set_bitmap :: "bitmap \<Rightarrow> size_t \<Rightarrow> bool \<Rightarrow> bitmap" where
  "set_bitmap b index val = (if val then or_bitmap b index else and_bitmap b index)"

definition test_bitmap :: "bitmap \<Rightarrow> size_t \<Rightarrow> bool" where
  "test_bitmap b index = (units b (unat (unit_index index)) AND bit_mask index \<noteq> 0)"

text \<open>The loops \<open>for (i = 0; i < count; i++)\<close> over \<open>from + i\<close>: \<open>n\<close> turns from the index \<open>i\<close> on.\<close>

primrec set_multi_loop :: "nat \<Rightarrow> size_t \<Rightarrow> bool \<Rightarrow> bitmap \<Rightarrow> bitmap" where
  "set_multi_loop 0 i val b = b"
| "set_multi_loop (Suc n) i val b = set_multi_loop n (i + 1) val (set_bitmap b i val)"

definition set_multi_bitmap :: "bitmap \<Rightarrow> size_t \<Rightarrow> size_t \<Rightarrow> bool \<Rightarrow> bitmap" where
  "set_multi_bitmap b start count val = set_multi_loop (unat count) start val b"

definition set_all_bitmap :: "bitmap \<Rightarrow> bool \<Rightarrow> bitmap" where
  "set_all_bitmap b val = set_multi_bitmap b 0 (bitmap_size b) val"

primrec count_loop :: "nat \<Rightarrow> size_t \<Rightarrow> bool \<Rightarrow> size_t \<Rightarrow> bitmap \<Rightarrow> size_t" where
  "count_loop 0 i val value_count b = value_count"
| "count_loop (Suc n) i val value_count b =
     count_loop n (i + 1) val (if test_bitmap b i = val then value_count + 1 else value_count) b"

definition bitmap_count :: "bitmap \<Rightarrow> size_t \<Rightarrow> size_t \<Rightarrow> bool \<Rightarrow> size_t" where
  "bitmap_count b start count val = count_loop (unat count) start val 0 b"

primrec contains_loop :: "nat \<Rightarrow> size_t \<Rightarrow> bool \<Rightarrow> bitmap \<Rightarrow> bool" where
  "contains_loop 0 i val b = False"
| "contains_loop (Suc n) i val b =
     (if test_bitmap b i = val then True else contains_loop n (i + 1) val b)"

definition bitmap_contains :: "bitmap \<Rightarrow> size_t \<Rightarrow> size_t \<Rightarrow> bool \<Rightarrow> bool" where
  "bitmap_contains b start count val = contains_loop (unat count) start val b"

definition bitmap_any :: "bitmap \<Rightarrow> size_t \<Rightarrow> size_t \<Rightarrow> bool" where
  "bitmap_any b start count = bitmap_contains b start count True"

definition bitmap_none :: "bitmap \<Rightarrow> size_t \<Rightarrow> size_t \<Rightarrow> bool" where
  "bitmap_none b start count = (\<not> bitmap_contains b start count True)"

definition bitmap_all :: "bitmap \<Rightarrow> size_t \<Rightarrow> size_t \<Rightarrow> bool" where
  "bitmap_all b start count = (\<not> bitmap_contains b start count False)"

text \<open>
  The search \<open>for (i = from; i <= last; i++)\<close>, \<open>n\<close> turns of it.  When \<open>last\<close> is the largest
  \<open>size_t\<close> the C loop has no bound, but then \<open>count\<close> is 0 and the first turn returns.
\<close>

primrec find_loop :: "nat \<Rightarrow> size_t \<Rightarrow> size_t \<Rightarrow> bool \<Rightarrow> bitmap \<Rightarrow> size_t" where
  "find_loop 0 i count val b = BITMAP_ERROR"
| "find_loop (Suc n) i count val b =
     (if \<not> bitmap_contains b i count (\<not> val) then i else find_loop n (i + 1) count val b)"

definition find_bitmap :: "bitmap \<Rightarrow> size_t \<Rightarrow> size_t \<Rightarrow> bool \<Rightarrow> size_t" where
  "find_bitmap b start count val =
     (if count \<le> bit_count b
      then (let last = bit_count b - count
            in find_loop (unat last + 1 - unat start) start count val b)
      else BITMAP_ERROR)"

definition find_set_bitmap :: "bitmap \<Rightarrow> size_t \<Rightarrow> size_t \<Rightarrow> bool \<Rightarrow> size_t \<times> bitmap" where
  "find_set_bitmap b start count val =
     (let index = find_bitmap b start count val
      in (index, if index \<noteq> BITMAP_ERROR then set_multi_bitmap b index count (\<not> val) else b))"

text \<open>
  \<open>create_bitmap\<close> builds the struct in the block it is given, the units right behind it; \<open>mem\<close> is
  what that memory held.
\<close>

definition create_bitmap :: "size_t \<Rightarrow> (nat \<Rightarrow> unit_type) \<Rightarrow> bitmap" where
  "create_bitmap n mem = set_all_bitmap \<lparr> bit_count = n, units = mem \<rparr> False"

section \<open>The array of bits\<close>

definition bit_at :: "bitmap \<Rightarrow> nat \<Rightarrow> bool" where
  "bit_at b i = bit (units b (i div 32)) (i mod 32)"

lemma unit_index_unat: "unat (unit_index i) = unat i div 32"
  by (simp add: unit_index_def unat_div)

lemma bit_mask_bitm: "bit_mask i = bitm (unat i mod 32)"
  by (simp add: bit_mask_def bitm_def unat_mod)

lemma same_bit: "(i :: nat) div 32 = j div 32 \<and> i mod 32 = j mod 32 \<longleftrightarrow> i = j"
  by (metis div_mult_mod_eq)

lemma test_bitmap_bit [simp]: "test_bitmap b i = bit_at b (unat i)"
  by (simp add: test_bitmap_def bit_at_def unit_index_unat bit_mask_bitm)

lemma set_bitmap_count [simp]: "bit_count (set_bitmap b i v) = bit_count b"
  by (simp add: set_bitmap_def or_bitmap_def and_bitmap_def Let_def)

lemma set_bitmap_bit [simp]: "bit_at (set_bitmap b i v) j = (if j = unat i then v else bit_at b j)"
  using same_bit [of j "unat i"]
  by (auto simp: set_bitmap_def or_bitmap_def and_bitmap_def Let_def bit_at_def unit_index_unat
      bit_mask_bitm)

lemma xor_bitmap_bit: "bit_at (xor_bitmap b i) j = (if j = unat i then \<not> bit_at b j else bit_at b j)"
  using same_bit [of j "unat i"]
  by (auto simp: xor_bitmap_def Let_def bit_at_def unit_index_unat bit_mask_bitm bit_xor_iff)

section \<open>Loops over a range\<close>

text \<open>A range of indices that does not run past the largest \<open>size_t\<close>.\<close>

lemma word_Suc_cases:
  fixes i :: size_t
  assumes "unat i + Suc n \<le> 2 ^ 32"
  shows "unat (i + 1) = Suc (unat i) \<and> unat (i + 1) + n \<le> 2 ^ 32 \<or> n = 0"
proof (cases "n = 0")
  case False
  then have "unat i + 1 < 2 ^ 32" using assms by linarith
  then have "unat (i + 1) = Suc (unat i)"
    by (simp add: unat_plus_if_size word_size)
  with assms show ?thesis by simp
qed simp

lemma atLeastLessThan_first: "{i..<i + Suc n} = insert i {Suc i..<Suc i + n}"
  by auto

lemma set_multi_loop_bit:
  "unat i + n \<le> 2 ^ 32 \<Longrightarrow>
    bit_at (set_multi_loop n i v b) j = (if unat i \<le> j \<and> j < unat i + n then v else bit_at b j)"
proof (induction n arbitrary: i b)
  case (Suc n)
  have "unat i \<le> j \<longleftrightarrow> j = unat i \<or> Suc (unat i) \<le> j" by auto
  then show ?case
    using Suc word_Suc_cases [OF Suc.prems] by auto
qed auto

lemma set_multi_loop_count [simp]: "bit_count (set_multi_loop n i v b) = bit_count b"
  by (induction n arbitrary: i b) simp_all

lemma set_multi_bitmap_bit [simp]:
  "unat i + unat n \<le> 2 ^ 32 \<Longrightarrow>
    bit_at (set_multi_bitmap b i n v) j = (if unat i \<le> j \<and> j < unat i + unat n then v else bit_at b j)"
  by (simp only: set_multi_bitmap_def set_multi_loop_bit)

lemma set_multi_bitmap_count [simp]: "bit_count (set_multi_bitmap b i n v) = bit_count b"
  by (simp add: set_multi_bitmap_def)

definition run :: "bitmap \<Rightarrow> nat \<Rightarrow> nat \<Rightarrow> bool \<Rightarrow> bool" where
  "run b i n v \<longleftrightarrow> (\<forall>j \<in> {i..<i + n}. bit_at b j = v)"

lemma contains_loop_run:
  "unat i + n \<le> 2 ^ 32 \<Longrightarrow> contains_loop n i v b \<longleftrightarrow> \<not> run b (unat i) n (\<not> v)"
proof (induction n arbitrary: i)
  case (Suc n)
  have "run b (unat i) (Suc n) (\<not> v) \<longleftrightarrow> bit_at b (unat i) = (\<not> v) \<and> run b (Suc (unat i)) n (\<not> v)"
    unfolding run_def atLeastLessThan_first by simp
  then show ?case
    using Suc word_Suc_cases [OF Suc.prems] by (auto simp: run_def)
qed (simp add: run_def)

lemma bitmap_contains_run:
  "unat i + unat n \<le> 2 ^ 32 \<Longrightarrow> bitmap_contains b i n v \<longleftrightarrow> \<not> run b (unat i) (unat n) (\<not> v)"
  by (simp only: bitmap_contains_def contains_loop_run)

lemma count_loop_card:
  "unat i + n \<le> 2 ^ 32 \<Longrightarrow>
    count_loop n i v acc b = acc + of_nat (card {j \<in> {unat i..<unat i + n}. bit_at b j = v})"
proof (induction n arbitrary: i acc)
  case (Suc n)
  have "{j \<in> {unat i..<unat i + Suc n}. bit_at b j = v} =
      (if bit_at b (unat i) = v then insert (unat i) else id)
        {j \<in> {Suc (unat i)..<Suc (unat i) + n}. bit_at b j = v}"
    unfolding atLeastLessThan_first by auto
  then have c: "card {j \<in> {unat i..<unat i + Suc n}. bit_at b j = v} =
      (if bit_at b (unat i) = v then 1 else 0) + card {j \<in> {Suc (unat i)..<Suc (unat i) + n}. bit_at b j = v}"
    by simp
  show ?case
  proof (cases "n = 0")
    case True
    then show ?thesis unfolding c by simp
  next
    case False
    then have "unat (i + 1) = Suc (unat i)" "unat (i + 1) + n \<le> 2 ^ 32"
      using word_Suc_cases [OF Suc.prems] by auto
    then show ?thesis unfolding c using Suc.IH [of "i + 1"] by simp
  qed
qed simp

section \<open>Searching\<close>

lemma find_loop_run:
  assumes "\<And>k. k < n \<Longrightarrow> unat i + k + unat c \<le> 2 ^ 32 \<and> unat i + k < 2 ^ 32"
  shows "find_loop n i c v b =
    (if \<exists>k<n. run b (unat i + k) (unat c) v then of_nat (unat i + (LEAST k. run b (unat i + k) (unat c) v))
     else BITMAP_ERROR)"
  using assms
proof (induction n arbitrary: i)
  case (Suc n)
  let ?P = "\<lambda>k. run b (unat i + k) (unat c) v"
  have c: "bitmap_contains b i c (\<not> v) \<longleftrightarrow> \<not> ?P 0"
    using Suc.prems [of 0] by (simp add: bitmap_contains_run)
  show ?case
  proof (cases "?P 0")
    case True
    then have "(LEAST k. ?P k) = 0" by (intro Least_equality) simp_all
    then show ?thesis using True c by auto
  next
    case F: False
    show ?thesis
    proof (cases "n = 0")
      case True
      then show ?thesis using F c by simp
    next
      case False
      then have "unat i + 1 < 2 ^ 32" using Suc.prems [of 1] by simp
      then have u: "unat (i + 1) = Suc (unat i)" by (simp add: unat_plus_if_size word_size)
      have ex: "(\<exists>k<Suc n. ?P k) \<longleftrightarrow> (\<exists>k<n. run b (unat (i + 1) + k) (unat c) v)"
        using F by (auto simp: u less_Suc_eq_0_disj)
      have "(LEAST k. ?P k) = Suc (LEAST k. run b (unat (i + 1) + k) (unat c) v)"
        if m: "\<exists>k<n. run b (unat (i + 1) + k) (unat c) v"
      proof -
        obtain k where "?P (Suc k)" using m by (auto simp: u)
        then show ?thesis using Least_Suc [of ?P "Suc k"] F by (simp add: u)
      qed
      moreover have "find_loop n (i + 1) c v b =
          (if \<exists>k<n. run b (unat (i + 1) + k) (unat c) v
           then of_nat (unat (i + 1) + (LEAST k. run b (unat (i + 1) + k) (unat c) v)) else BITMAP_ERROR)"
        using Suc.prems [of "Suc k" for k] by (intro Suc.IH) (simp add: u)
      ultimately show ?thesis
        using F c ex unfolding u by (cases "\<exists>k<n. run b (Suc (unat i) + k) (unat c) v")
          (simp_all only: if_True if_False, simp_all)
    qed
  qed
qed simp

lemma run_cong: "(\<And>j. i \<le> j \<Longrightarrow> j < i + n \<Longrightarrow> bit_at b j = bit_at b' j) \<Longrightarrow> run b i n v = run b' i n v"
  by (auto simp: run_def)

definition fits :: "bitmap \<Rightarrow> size_t \<Rightarrow> size_t \<Rightarrow> bool \<Rightarrow> nat \<Rightarrow> bool" where
  "fits b start n v i \<longleftrightarrow> unat start \<le> i \<and> i + unat n \<le> unat (bit_count b) \<and> run b i (unat n) v"

lemma find_bitmap_first_fit_lemma:
  "find_bitmap b start n v =
    (if \<exists>i. fits b start n v i then of_nat (LEAST i. fits b start n v i) else BITMAP_ERROR)"
proof (cases "n \<le> bit_count b")
  case False
  then have "\<not> fits b start n v i" for i
    by (auto simp: fits_def word_le_nat_alt)
  then show ?thesis using False by (simp add: find_bitmap_def)
next
  case True
  let ?N = "unat (bit_count b)" and ?n = "unat n" and ?s = "unat start"
  let ?k = "unat (bit_count b - n) + 1 - ?s"
  have le: "?n \<le> ?N" and last: "unat (bit_count b - n) = ?N - ?n"
    using True by (simp_all add: word_le_nat_alt unat_sub)
  have N: "?N < 2 ^ 32" using unsigned_less [of "bit_count b", where 'a = nat] by simp
  have f: "find_bitmap b start n v =
    (if \<exists>k<?k. run b (?s + k) ?n v then of_nat (?s + (LEAST k. run b (?s + k) ?n v)) else BITMAP_ERROR)"
    unfolding find_bitmap_def Let_def using True last le N
    by (simp only: if_True) (rule find_loop_run, intro conjI; linarith)
  have fit: "fits b start n v (?s + k) \<longleftrightarrow> k < ?k \<and> run b (?s + k) ?n v" for k
    using le by (auto simp: fits_def last)
  show ?thesis
  proof (cases "\<exists>k<?k. run b (?s + k) ?n v")
    case True
    define m where "m = (LEAST k. run b (?s + k) ?n v)"
    have m: "m < ?k" "run b (?s + m) ?n v" "\<And>k. run b (?s + k) ?n v \<Longrightarrow> m \<le> k"
      using True Least_le [of "\<lambda>k. run b (?s + k) ?n v"] LeastI [of "\<lambda>k. run b (?s + k) ?n v"]
      unfolding m_def by (blast intro: order.strict_trans1)+
    have "(LEAST i. fits b start n v i) = ?s + m"
    proof (rule Least_equality)
      show "fits b start n v (?s + m)" using m fit by simp
      show "?s + m \<le> i" if "fits b start n v i" for i
        using that m(3) [of "i - ?s"] by (auto simp: fits_def)
    qed
    moreover have "\<exists>i. fits b start n v i" using m fit by blast
    ultimately show ?thesis using f True by (simp add: m_def)
  next
    case False
    have "\<not> fits b start n v i" for i
      using False fit [of "i - ?s"] by (auto simp: fits_def)
    then show ?thesis using f False by (simp only: if_False simp_thms)
  qed
qed

text \<open>
  C30. \<open>find_bitmap\<close> is a first-fit search: it returns the least index at or after \<open>start\<close> from
  which \<open>n\<close> consecutive bits inside the bitmap all have the value asked for, and
  \<open>BITMAP_ERROR\<close> exactly when there is none.
\<close>
theorem find_bitmap_first_fit:
  "find_bitmap b start n v =
    (if \<exists>i. fits b start n v i then of_nat (LEAST i. fits b start n v i) else BITMAP_ERROR)"
  by (rule find_bitmap_first_fit_lemma)

text \<open>
  C31. The bitmap implements an array of bits: single and range writes change exactly the bits they
  name, whatever unit they fall in, and the queries over a range count and compare those bits.
\<close>
theorem bitmap_is_bit_array:
  assumes "unat i + unat n \<le> 2 ^ 32"
  shows "bit_at (set_bitmap b k v) j = (if j = unat k then v else bit_at b j) \<and>
    bit_at (xor_bitmap b k) j = (if j = unat k then \<not> bit_at b j else bit_at b j) \<and>
    bit_at (set_multi_bitmap b i n v) j = (if j \<in> {unat i..<unat i + unat n} then v else bit_at b j) \<and>
    test_bitmap b k = bit_at b (unat k) \<and>
    bitmap_count b i n v = of_nat (card {j \<in> {unat i..<unat i + unat n}. bit_at b j = v}) \<and>
    bitmap_any b i n = (\<exists>j \<in> {unat i..<unat i + unat n}. bit_at b j) \<and>
    bitmap_none b i n = (\<not> (\<exists>j \<in> {unat i..<unat i + unat n}. bit_at b j)) \<and>
    bitmap_all b i n = (\<not> (\<exists>j \<in> {unat i..<unat i + unat n}. \<not> bit_at b j))"
  using assms
  by (auto simp: xor_bitmap_bit bitmap_count_def count_loop_card bitmap_any_def
      bitmap_none_def bitmap_all_def bitmap_contains_run run_def)

lemma bitmap_is_bit_array_witness:
  "let b = set_multi_bitmap (create_bitmap 40 (\<lambda>_. 0)) 30 5 True in bitmap_any b 20 11 \<and> \<not> bitmap_any b 20 10"
proof -
  let ?b = "set_multi_bitmap (create_bitmap 40 (\<lambda>_. 0)) 30 5 True"
  have "bit_at ?b 30" "\<not> (\<exists>j \<in> {20..<30}. bit_at ?b j)" by code_simp+
  then show ?thesis
    using bitmap_is_bit_array [of 20 11 ?b] bitmap_is_bit_array [of 20 10 ?b] by (simp add: Let_def) force
qed

section \<open>The interface the page allocator uses\<close>

text \<open>
  A map of pages: taking a run marks the first free one, giving a run back clears it.  A list of
  live blocks \<open>(i, n)\<close> is tracked by the map when the blocks are pairwise disjoint and the marked
  pages are page 0, which holds the map itself, and theirs.
\<close>

type_synonym block = "nat \<times> nat"

definition pages_of :: "block \<Rightarrow> nat set" where
  "pages_of x = {fst x..<fst x + snd x}"

primrec disjoint_blocks :: "block list \<Rightarrow> bool" where
  "disjoint_blocks [] = True"
| "disjoint_blocks (x # xs) = ((\<forall>y \<in> set xs. pages_of x \<inter> pages_of y = {}) \<and> disjoint_blocks xs)"

lemma disjoint_blocks_remove:
  "disjoint_blocks (xs @ x # ys) \<longleftrightarrow>
    disjoint_blocks (xs @ ys) \<and> (\<forall>y \<in> set (xs @ ys). pages_of x \<inter> pages_of y = {})"
  by (induction xs) auto

locale page_map =
  fixes ok :: "'b \<Rightarrow> bool" and marked :: "'b \<Rightarrow> nat \<Rightarrow> bool" and size :: "'b \<Rightarrow> nat"
    and take_run :: "'b \<Rightarrow> nat \<Rightarrow> nat option \<times> 'b" and give_back :: "'b \<Rightarrow> nat \<Rightarrow> nat \<Rightarrow> 'b"
  assumes take_Some: "ok b \<Longrightarrow> n < 2 ^ 32 \<Longrightarrow> take_run b n = (Some i, b') \<Longrightarrow>
      i + n \<le> size b \<and> ok b' \<and> size b' = size b \<and> (\<forall>j \<in> {i..<i + n}. \<not> marked b j) \<and>
      marked b' = (\<lambda>j. marked b j \<or> j \<in> {i..<i + n})"
    and take_first: "ok b \<Longrightarrow> n < 2 ^ 32 \<Longrightarrow> take_run b n = (Some i, b') \<Longrightarrow> k < i \<Longrightarrow>
      (\<exists>j \<in> {k..<k + n}. marked b j)"
    and take_None: "ok b \<Longrightarrow> n < 2 ^ 32 \<Longrightarrow> take_run b n = (None, b') \<Longrightarrow>
      b' = b \<and> (\<forall>i. i + n \<le> size b \<longrightarrow> (\<exists>j \<in> {i..<i + n}. marked b j))"
    and give: "ok b \<Longrightarrow> i + n \<le> size b \<Longrightarrow> ok (give_back b i n) \<and>
      size (give_back b i n) = size b \<and>
      marked (give_back b i n) = (\<lambda>j. marked b j \<and> j \<notin> {i..<i + n})"
begin

definition tracks :: "'b \<Rightarrow> block list \<Rightarrow> bool" where
  "tracks b live \<longleftrightarrow> ok b \<and> disjoint_blocks live \<and>
     (\<forall>x \<in> set live. 0 < fst x \<and> 0 < snd x \<and> fst x + snd x \<le> size b) \<and>
     (\<forall>j < size b. marked b j \<longleftrightarrow> j = 0 \<or> (\<exists>x \<in> set live. j \<in> pages_of x))"

lemma tracks_take:
  assumes "tracks b live" "0 < n" "n < 2 ^ 32" "take_run b n = (Some i, b')"
  shows "tracks b' ((i, n) # live) \<and> size b' = size b"
proof -
  note t = take_Some [OF _ assms(3,4)]
  have i: "i + n \<le> size b" "ok b'" "size b' = size b" "\<forall>j \<in> {i..<i + n}. \<not> marked b j"
    "marked b' = (\<lambda>j. marked b j \<or> j \<in> {i..<i + n})"
    using t assms(1) by (auto simp: tracks_def)
  have "\<not> marked b i" using i(4) assms(2) by auto
  then have "i \<noteq> 0" using assms(1,2) i(1) by (auto simp: tracks_def)
  moreover have "pages_of (i, n) \<inter> pages_of y = {}" if "y \<in> set live" for y
  proof -
    have "marked b j" if "j \<in> pages_of (i, n)" "j \<in> pages_of y" for j
      using that \<open>y \<in> set live\<close> assms(1) i(1) unfolding tracks_def
      by (auto simp: pages_of_def intro!: bexI [of _ y])
    moreover have "\<not> marked b j" if "j \<in> pages_of (i, n)" for j
      using that i(4) by (auto simp: pages_of_def)
    ultimately show ?thesis by blast
  qed
  ultimately have "disjoint_blocks ((i, n) # live)"
    using assms(1) by (simp add: tracks_def)
  moreover have "marked b' j \<longleftrightarrow> j = 0 \<or> (\<exists>x \<in> set ((i, n) # live). j \<in> pages_of x)" if "j < size b" for j
    using that i(5) assms(1) by (auto simp: tracks_def pages_of_def)
  ultimately show ?thesis
    using i(1-3) \<open>i \<noteq> 0\<close> assms(1,2) by (simp add: tracks_def)
qed

lemma tracks_give:
  assumes "tracks b (xs @ (i, n) # ys)"
  shows "tracks (give_back b i n) (xs @ ys) \<and> size (give_back b i n) = size b"
proof -
  have ok: "ok b" and i: "0 < i" "i + n \<le> size b"
    and d: "disjoint_blocks (xs @ ys)" "\<forall>y \<in> set (xs @ ys). pages_of (i, n) \<inter> pages_of y = {}"
    using assms by (auto simp: tracks_def disjoint_blocks_remove)
  note g = give [OF ok i(2)]
  have "(j = 0 \<or> (\<exists>x \<in> set (xs @ ys). j \<in> pages_of x)) \<longleftrightarrow>
      marked b j \<and> j \<notin> {i..<i + n}" if "j < size b" for j
  proof -
    have "marked b j \<longleftrightarrow> j = 0 \<or> (\<exists>x \<in> set (xs @ (i, n) # ys). j \<in> pages_of x)"
      using assms that by (auto simp: tracks_def)
    moreover have "j \<notin> {i..<i + n}" if "y \<in> set (xs @ ys)" "j \<in> pages_of y" for y
      using that d(2) unfolding pages_of_def by (metis disjoint_iff fst_conv snd_conv)
    moreover have "j \<in> pages_of (i, n) \<longleftrightarrow> j \<in> {i..<i + n}" by (simp add: pages_of_def)
    ultimately show ?thesis
      using i(1) by auto
  qed
  then show ?thesis
    using assms g d(1) by (auto simp: tracks_def)
qed

lemma take_give:
  assumes "ok b" "n < 2 ^ 32" "take_run b n = (Some i, b')"
  shows "marked (give_back b' i n) = marked b"
  using take_Some [OF assms] give [of b' i n] by (auto simp: fun_eq_iff)

end

section \<open>The bitmap provides it\<close>

definition bm_ok :: "bitmap \<Rightarrow> bool" where
  "bm_ok b \<longleftrightarrow> bit_count b < SIZE_MAX"

definition bm_take :: "bitmap \<Rightarrow> nat \<Rightarrow> nat option \<times> bitmap" where
  "bm_take b n =
     (let (i, b') = find_set_bitmap b 0 (of_nat n) False
      in (if i = BITMAP_ERROR then None else Some (unat i), b'))"

definition bm_give :: "bitmap \<Rightarrow> nat \<Rightarrow> nat \<Rightarrow> bitmap" where
  "bm_give b i n = set_multi_bitmap b (of_nat i) (of_nat n) False"

lemma bm_take_cases:
  assumes "bm_ok b" "n < 2 ^ 32"
  shows "\<exists>i. fits b 0 (of_nat n) False i \<Longrightarrow> bm_take b n =
      (Some (LEAST i. fits b 0 (of_nat n) False i),
        set_multi_bitmap b (of_nat (LEAST i. fits b 0 (of_nat n) False i)) (of_nat n) True)"
    and "\<not> (\<exists>i. fits b 0 (of_nat n) False i) \<Longrightarrow> bm_take b n = (None, b)"
proof -
  let ?L = "LEAST i. fits b 0 (of_nat n) False i"
  show "\<not> (\<exists>i. fits b 0 (of_nat n) False i) \<Longrightarrow> bm_take b n = (None, b)"
    by (simp add: bm_take_def find_set_bitmap_def find_bitmap_first_fit_lemma)
  assume ex: "\<exists>i. fits b 0 (of_nat n) False i"
  then have "fits b 0 (of_nat n) False ?L" by (rule LeastI_ex)
  then have "?L \<le> unat (bit_count b)" by (simp add: fits_def)
  then have u: "unat (of_nat ?L :: size_t) = ?L" by (rule unat_of_nat_le)
  have "unat (bit_count b) < unat SIZE_MAX" using assms(1) by (simp add: bm_ok_def word_less_nat_alt)
  then have "(of_nat ?L :: size_t) \<noteq> SIZE_MAX" using u \<open>?L \<le> _\<close> by auto
  with ex u show "bm_take b n = (Some ?L, set_multi_bitmap b (of_nat ?L) (of_nat n) True)"
    by (simp add: bm_take_def find_set_bitmap_def find_bitmap_first_fit_lemma Let_def)
qed

interpretation bm: page_map bm_ok bit_at "\<lambda>b. unat (bit_count b)" bm_take bm_give
proof unfold_locales
  fix b b' :: bitmap and n i k :: nat
  assume ok: "bm_ok b" and n: "n < 2 ^ 32"
  then have un: "unat (of_nat n :: size_t) = n" by (simp add: unsigned_of_nat take_bit_nat_eq_self)
  have fit: "fits b 0 (of_nat n) False j \<longleftrightarrow> j + n \<le> unat (bit_count b) \<and> (\<forall>m \<in> {j..<j + n}. \<not> bit_at b m)" for j
    by (simp add: fits_def un run_def)
  {
    assume t: "bm_take b n = (Some i, b')"
    then have ex: "\<exists>i. fits b 0 (of_nat n) False i"
      using bm_take_cases(2) [OF ok n] by fastforce
    then have i: "i = (LEAST i. fits b 0 (of_nat n) False i)"
      and b': "b' = set_multi_bitmap b (of_nat i) (of_nat n) True"
      using t bm_take_cases(1) [OF ok n] by auto
    have f: "fits b 0 (of_nat n) False i" unfolding i using ex by (rule LeastI_ex)
    then have "i \<le> unat (bit_count b)" using fit by simp
    then have ui: "unat (of_nat i :: size_t) = i" by (rule unat_of_nat_le)
    have "i + n \<le> 2 ^ 32" using f fit unsigned_less [of "bit_count b", where 'a = nat] by simp
    then show "i + n \<le> unat (bit_count b) \<and> bm_ok b' \<and> unat (bit_count b') = unat (bit_count b) \<and>
        (\<forall>j \<in> {i..<i + n}. \<not> bit_at b j) \<and> bit_at b' = (\<lambda>j. bit_at b j \<or> j \<in> {i..<i + n})"
      using f fit ok by (auto simp: b' bm_ok_def ui un fun_eq_iff)
    show "\<exists>j \<in> {k..<k + n}. bit_at b j" if "k < i"
    proof -
      have "\<not> fits b 0 (of_nat n) False k" using that i by (metis not_less_Least)
      moreover have "k + n \<le> unat (bit_count b)" using f fit that by simp
      ultimately show ?thesis using fit by blast
    qed
  }
  show "bm_take b n = (None, b') \<Longrightarrow>
      b' = b \<and> (\<forall>i. i + n \<le> unat (bit_count b) \<longrightarrow> (\<exists>j \<in> {i..<i + n}. bit_at b j))"
    using bm_take_cases [OF ok n] fit by (cases "\<exists>i. fits b 0 (of_nat n) False i") auto
next
  fix b :: bitmap and i n :: nat
  assume ok: "bm_ok b" and i: "i + n \<le> unat (bit_count b)"
  then have u: "unat (of_nat i :: size_t) = i" "unat (of_nat n :: size_t) = n"
    by (auto intro!: unat_of_nat_le [of _ "bit_count b"])
  have "i + n \<le> 2 ^ 32" using i unsigned_less [of "bit_count b", where 'a = nat] by simp
  then show "bm_ok (bm_give b i n) \<and> unat (bit_count (bm_give b i n)) = unat (bit_count b) \<and>
      bit_at (bm_give b i n) = (\<lambda>j. bit_at b j \<and> j \<notin> {i..<i + n})"
    using ok by (auto simp: bm_give_def bm_ok_def u fun_eq_iff)
qed

end
