(* ===== verification/Palloc.thy ===== *)
theory Palloc
  imports Bitmap
begin

text \<open>
  The page allocator of the SSUOS kernel, \<open>SSUOS_P6/src/kernel/mem/palloc.c\<close>: two pools of 4096
  byte pages, each with a bitmap that lives in the pool's own page 0.  \<open>zeroed\<close> logs the calls of
  \<open>memset (pages, 0, n)\<close> as (start, length), oldest last; of what they clear, the bitmaps are followed.
  \<open>low_memory\<close> is what the memory from address 0 on holds.  The pool's lock is initialised and never
  taken, and is left out.  Addresses are 32 bits wide.
\<close>

section \<open>The code\<close>

abbreviation PAGE_SIZE :: Bit32u where "PAGE_SIZE \<equiv> 4096"
abbreviation KERNEL_ADDR :: Bit32u where "KERNEL_ADDR \<equiv> 0x00100000"
abbreviation USER_POOL_START :: Bit32u where "USER_POOL_START \<equiv> 0x3e0000"
abbreviation RKERNEL_HEAP_START :: Bit32u where "RKERNEL_HEAP_START \<equiv> 0x02000000"

abbreviation kernel_area :: Bit32u where "kernel_area \<equiv> 0"
abbreviation user_area :: Bit32u where "user_area \<equiv> 1"

record memory_pool =
  pool_bitmap :: bitmap
  addr :: Bit32u

record palloc =
  kernelpool :: memory_pool
  userpool :: memory_pool
  low_memory :: "nat \<Rightarrow> unit_type"
  zeroed :: "(Bit32u \<times> Bit32u) list"

text \<open>
  \<open>kmem\<close> and \<open>umem\<close> are what the first pages of the pools held before, \<open>lmem\<close> what the memory at address 0
  holds.
\<close>

definition init_palloc :: "(nat \<Rightarrow> unit_type) \<Rightarrow> (nat \<Rightarrow> unit_type) \<Rightarrow> (nat \<Rightarrow> unit_type) \<Rightarrow> palloc" where
  "init_palloc lmem kmem umem =
     (let bitmap_kernel_pool = (USER_POOL_START - KERNEL_ADDR) div PAGE_SIZE;
          bitmap_user_pool = (RKERNEL_HEAP_START - USER_POOL_START) div PAGE_SIZE
      in \<lparr> kernelpool = \<lparr> pool_bitmap = set_bitmap (create_bitmap bitmap_kernel_pool kmem) 0 True,
                         addr = KERNEL_ADDR \<rparr>,
          userpool = \<lparr> pool_bitmap = set_bitmap (create_bitmap bitmap_user_pool umem) 0 True,
                       addr = USER_POOL_START \<rparr>,
          low_memory = lmem, zeroed = [] \<rparr>)"

text \<open>
  One branch of \<open>palloc_get_multiple_page\<close>.  \<open>pages\<close> is \<open>NULL\<close> when it is first tested, so the
  address is always computed, from whatever the search returned.
\<close>

definition get_pages :: "size_t \<Rightarrow> memory_pool \<Rightarrow> Bit32u \<times> memory_pool" where
  "get_pages page_cnt p =
     (let (page_idx, b) = find_set_bitmap (pool_bitmap p) 0 page_cnt False
      in (addr p + page_idx * PAGE_SIZE, p\<lparr> pool_bitmap := b \<rparr>))"

text \<open>
  \<open>memset (pages, 0, n)\<close> as a pool's bitmap sees it.  The bitmap is at the address of the pool: the bit
  count, the pointer \<open>bits\<close>, and the units.  When the first page of the pool is cleared, the count is 0 and
  \<open>bits\<close> is \<open>NULL\<close>, so that the units are read at address 0.
\<close>

definition memset_pool :: "Bit32u \<Rightarrow> Bit32u \<Rightarrow> (nat \<Rightarrow> unit_type) \<Rightarrow> memory_pool \<Rightarrow> memory_pool" where
  "memset_pool pages n low p =
     (let covers = (\<lambda>a. unat pages \<le> a \<and> a < unat pages + unat n);
          a = unat (addr p);
          b = pool_bitmap p
      in p\<lparr> pool_bitmap :=
              if covers a then \<lparr> bit_count = 0, units = low \<rparr>
              else b\<lparr> units := (\<lambda>i. if covers (a + 8 + 4 * i) then 0 else units b i) \<rparr> \<rparr>)"

definition zero_pages :: "Bit32u \<Rightarrow> size_t \<Rightarrow> palloc \<Rightarrow> palloc" where
  "zero_pages pages page_cnt s =
     (if pages \<noteq> 0
      then (let n = PAGE_SIZE * page_cnt
            in s\<lparr> kernelpool := memset_pool pages n (low_memory s) (kernelpool s),
                  userpool := memset_pool pages n (low_memory s) (userpool s),
                  zeroed := (pages, n) # zeroed s \<rparr>)
      else s)"

definition palloc_get_multiple_page :: "Bit32u \<Rightarrow> size_t \<Rightarrow> palloc \<Rightarrow> Bit32u \<times> palloc" where
  "palloc_get_multiple_page flags page_cnt s =
     (if page_cnt = 0 then (0, s)
      else if flags = kernel_area then
        (let (pages, p) = get_pages page_cnt (kernelpool s)
         in (pages, zero_pages pages page_cnt (s\<lparr> kernelpool := p \<rparr>)))
      else if flags = user_area then
        (let (pages, p) = get_pages page_cnt (userpool s)
         in (pages, zero_pages pages page_cnt (s\<lparr> userpool := p \<rparr>)))
      else (0, s))"

definition palloc_get_one_page :: "Bit32u \<Rightarrow> palloc \<Rightarrow> Bit32u \<times> palloc" where
  "palloc_get_one_page flags = palloc_get_multiple_page flags 1"

definition free_pages :: "Bit32u \<Rightarrow> size_t \<Rightarrow> memory_pool \<Rightarrow> memory_pool" where
  "free_pages pages page_cnt p =
     (let page_idx = (pages - addr p) div PAGE_SIZE
      in if bitmap_contains (pool_bitmap p) page_idx page_cnt True
         then p\<lparr> pool_bitmap := set_multi_bitmap (pool_bitmap p) page_idx page_cnt False \<rparr> else p)"

definition palloc_free_multiple_page :: "Bit32u \<Rightarrow> size_t \<Rightarrow> palloc \<Rightarrow> palloc" where
  "palloc_free_multiple_page pages page_cnt s =
     (if pages = 0 \<or> page_cnt = 0 then s
      else if KERNEL_ADDR \<le> pages \<and> pages < USER_POOL_START then
        s\<lparr> kernelpool := free_pages pages page_cnt (kernelpool s) \<rparr>
      else if USER_POOL_START \<le> pages \<and> pages < RKERNEL_HEAP_START then
        s\<lparr> userpool := free_pages pages page_cnt (userpool s) \<rparr>
      else s)"

definition palloc_free_one_page :: "Bit32u \<Rightarrow> palloc \<Rightarrow> palloc" where
  "palloc_free_one_page page = palloc_free_multiple_page page 1"

section \<open>A pool that tracks its blocks\<close>

text \<open>
  A pool in order: its bitmap tracks the blocks \<open>live\<close>, given as page index and page count.
\<close>

definition pool_ok :: "nat \<Rightarrow> Bit32u \<Rightarrow> block list \<Rightarrow> memory_pool \<Rightarrow> bool" where
  "pool_ok n a live p \<longleftrightarrow> bm.tracks (pool_bitmap p) live \<and> unat (bit_count (pool_bitmap p)) = n \<and> addr p = a"

lemma fresh_pool_ok:
  assumes "0 < n" "n < SIZE_MAX"
  shows "pool_ok (unat n) a [] \<lparr> pool_bitmap = set_bitmap (create_bitmap n mem) 0 True, addr = a \<rparr>"
proof -
  have "unat n \<le> 2 ^ 32" using unsigned_less [of n, where 'a = nat] by simp
  then show ?thesis
    using assms by (auto simp: pool_ok_def bm.tracks_def bm_ok_def create_bitmap_def set_all_bitmap_def
        bitmap_size_def)
qed

lemma unat_eq_of_nat_page: "unat x = i \<Longrightarrow> x = of_nat i"
  by auto

lemma page_index:
  assumes "unat a + 4096 * n \<le> 2 ^ 32" "i < n"
  shows "unat (a + of_nat i * PAGE_SIZE) = unat a + 4096 * i"
    and "(a + of_nat i * PAGE_SIZE - a) div PAGE_SIZE = of_nat i"
proof -
  have "4096 * i < 2 ^ 32" using assms by linarith
  then have "unat (of_nat i * PAGE_SIZE) = 4096 * i"
    by (simp add: unat_word_ariths unsigned_of_nat take_bit_eq_mod mod_simps)
  moreover have "unat a + 4096 * i < 2 ^ 32" using assms by linarith
  ultimately show "unat (a + of_nat i * PAGE_SIZE) = unat a + 4096 * i"
    by (simp add: unat_word_ariths(1))
  have "unat (of_nat i * PAGE_SIZE div PAGE_SIZE) = i"
    using \<open>unat (of_nat i * PAGE_SIZE) = 4096 * i\<close> by (simp add: unat_div)
  then show "(a + of_nat i * PAGE_SIZE - a) div PAGE_SIZE = of_nat i"
    by (metis add_diff_cancel_left' unat_eq_of_nat_page)
qed

lemma get_pages_ok:
  assumes "pool_ok n a live p" "cnt \<noteq> 0" "get_pages cnt p = (q, p')"
    and "find_bitmap (pool_bitmap p) 0 cnt False \<noteq> BITMAP_ERROR"
  shows "\<exists>i. q = a + of_nat i * PAGE_SIZE \<and> pool_ok n a ((i, unat cnt) # live) p'"
proof -
  let ?b = "pool_bitmap p"
  obtain i b' where t: "find_set_bitmap ?b 0 cnt False = (i, b')" and i: "i \<noteq> BITMAP_ERROR"
    and q: "q = a + i * PAGE_SIZE" and p': "p' = p\<lparr> pool_bitmap := b' \<rparr>"
    using assms by (auto simp: get_pages_def pool_ok_def find_set_bitmap_def Let_def)
  have "bm_take ?b (unat cnt) = (Some (unat i), b')"
    using t i by (simp add: bm_take_def)
  then have "bm.tracks b' ((unat i, unat cnt) # live) \<and> unat (bit_count b') = unat (bit_count ?b)"
    using assms(1,2) unsigned_less [of cnt, where 'a = nat]
    by (intro bm.tracks_take) (auto simp: pool_ok_def unat_gt_0)
  then show ?thesis
    using assms(1) by (intro exI [of _ "unat i"]) (auto simp: pool_ok_def q p')
qed

lemma free_pages_ok:
  assumes "pool_ok n a (xs @ (i, unat c) # ys) p" "unat a + 4096 * n \<le> 2 ^ 32"
  shows "pool_ok n a (xs @ ys) (free_pages (a + of_nat i * PAGE_SIZE) c p)"
proof -
  let ?b = "pool_bitmap p"
  have tr: "bm.tracks ?b (xs @ (i, unat c) # ys)" and n: "unat (bit_count ?b) = n" and a: "addr p = a"
    using assms(1) by (auto simp: pool_ok_def)
  then have i: "0 < unat c" "i + unat c \<le> n"
    by (auto simp: bm.tracks_def)
  have idx: "(a + of_nat i * PAGE_SIZE - a) div PAGE_SIZE = of_nat i"
    using page_index(2) [OF assms(2), of i] i by simp
  have le: "n < 2 ^ 32" using n unsigned_less [of "bit_count ?b", where 'a = nat] by simp
  then have u: "unat (of_nat i :: size_t) = i"
    using i by (simp add: unsigned_of_nat take_bit_nat_eq_self)
  have "bit_at ?b i"
    using tr i n by (auto simp: bm.tracks_def pages_of_def intro!: bexI [of _ "(i, unat c)"])
  then have "bitmap_contains ?b (of_nat i) c True"
    using i le u by (subst bitmap_contains_run) (auto simp: run_def intro!: bexI [of _ i])
  then have "free_pages (a + of_nat i * PAGE_SIZE) c p = p\<lparr> pool_bitmap := bm_give ?b i (unat c) \<rparr>"
    unfolding free_pages_def a idx Let_def by (simp add: bm_give_def)
  then show ?thesis
    using bm.tracks_give [OF tr] n a by (simp add: pool_ok_def)
qed

text \<open>Clearing pages outside a pool's first one does not reach its bitmap.\<close>

lemma memset_pool_ok:
  assumes "pool_ok n a live p" "n \<le> 32000" "unat q + unat len \<le> unat a \<or> unat a + 4096 \<le> unat q"
  shows "pool_ok n a live (memset_pool q len low p)"
proof -
  let ?b = "pool_bitmap p" and ?p = "memset_pool q len low p"
  let ?covers = "\<lambda>x. unat q \<le> x \<and> x < unat q + unat len"
  have "addr p = a" using assms(1) by (simp add: pool_ok_def)
  then have p: "?p = p\<lparr> pool_bitmap := ?b\<lparr> units := (\<lambda>i. if ?covers (unat a + 8 + 4 * i) then 0 else units ?b i) \<rparr> \<rparr>"
    using assms(3) by (auto simp: memset_pool_def Let_def)
  have "\<not> ?covers (unat a + 8 + 4 * (j div 32))" if "j < n" for j
    using assms(2,3) that div_le_mono [of j 32000 32] by auto
  then have "bit_at (pool_bitmap ?p) j \<longleftrightarrow> bit_at ?b j" if "j < n" for j
    unfolding p using that by (auto simp: bit_at_def)
  then show ?thesis
    using assms(1) unfolding p by (auto simp: pool_ok_def bm.tracks_def bm_ok_def)
qed

section \<open>A client of the allocator\<close>

text \<open>
  A client asks for pages while there are enough, and gives back blocks it was given, each once.
  \<open>live\<close> lists what it holds, as (address, page count).
\<close>

type_synonym held = "(Bit32u \<times> size_t) list"

definition enough :: "Bit32u \<Rightarrow> size_t \<Rightarrow> palloc \<Rightarrow> bool" where
  "enough flags cnt s \<longleftrightarrow>
     flags = kernel_area \<and> find_bitmap (pool_bitmap (kernelpool s)) 0 cnt False \<noteq> BITMAP_ERROR \<or>
     flags = user_area \<and> find_bitmap (pool_bitmap (userpool s)) 0 cnt False \<noteq> BITMAP_ERROR"

inductive client :: "palloc \<times> held \<Rightarrow> palloc \<times> held \<Rightarrow> bool" where
  alloc: "cnt \<noteq> 0 \<Longrightarrow> enough flags cnt s \<Longrightarrow> palloc_get_multiple_page flags cnt s = (q, s') \<Longrightarrow>
    client (s, live) (s', (q, cnt) # live)"
| free: "client (s, xs @ (q, cnt) # ys) (palloc_free_multiple_page q cnt s, xs @ ys)"

inductive_cases clientE: "client (s, live) t"

text \<open>The blocks of one pool, by page index.\<close>

definition in_kernel :: "Bit32u \<times> size_t \<Rightarrow> bool" where
  "in_kernel x \<longleftrightarrow> fst x < USER_POOL_START"

definition block_of :: "Bit32u \<Rightarrow> Bit32u \<times> size_t \<Rightarrow> block" where
  "block_of a x = (unat ((fst x - a) div PAGE_SIZE), unat (snd x))"

definition kernel_blocks :: "held \<Rightarrow> block list" where
  "kernel_blocks live = map (block_of KERNEL_ADDR) (filter in_kernel live)"

definition user_blocks :: "held \<Rightarrow> block list" where
  "user_blocks live = map (block_of USER_POOL_START) (filter (\<lambda>x. \<not> in_kernel x) live)"

definition well_placed :: "Bit32u \<times> size_t \<Rightarrow> bool" where
  "well_placed x \<longleftrightarrow> (\<exists>i. fst x = KERNEL_ADDR + of_nat i * PAGE_SIZE \<and> 0 < i \<and> i + unat (snd x) \<le> 736 \<or>
     fst x = USER_POOL_START + of_nat i * PAGE_SIZE \<and> 0 < i \<and> i + unat (snd x) \<le> 7200) \<and> snd x \<noteq> 0"

definition palloc_inv :: "palloc \<times> held \<Rightarrow> bool" where
  "palloc_inv t \<longleftrightarrow>
     pool_ok 736 KERNEL_ADDR (kernel_blocks (snd t)) (kernelpool (fst t)) \<and>
     pool_ok 7200 USER_POOL_START (user_blocks (snd t)) (userpool (fst t)) \<and>
     (\<forall>x \<in> set (snd t). well_placed x)"

lemma kernel_page:
  assumes "i < 736"
  defines "q \<equiv> KERNEL_ADDR + of_nat i * PAGE_SIZE"
  shows "unat q = 0x100000 + 4096 * i" "in_kernel (q, c)" "KERNEL_ADDR \<le> q" "q < USER_POOL_START"
    "block_of KERNEL_ADDR (q, c) = (i, unat c)" "q \<noteq> 0"
proof -
  show u: "unat q = 0x100000 + 4096 * i"
    using page_index(1) [of KERNEL_ADDR 736 i] assms(1) by (simp add: q_def)
  show "in_kernel (q, c)" "KERNEL_ADDR \<le> q" "q < USER_POOL_START" "q \<noteq> 0"
    using u assms(1) by (auto simp: in_kernel_def word_less_nat_alt word_le_nat_alt)
  have "unat (of_nat i :: Bit32u) = i"
    using assms(1) by (simp add: unsigned_of_nat take_bit_nat_eq_self)
  then show "block_of KERNEL_ADDR (q, c) = (i, unat c)"
    using page_index(2) [of KERNEL_ADDR 736 i] assms(1) by (simp add: q_def block_of_def)
qed

lemma user_page:
  assumes "i < 7200"
  defines "q \<equiv> USER_POOL_START + of_nat i * PAGE_SIZE"
  shows "unat q = 0x3e0000 + 4096 * i" "\<not> in_kernel (q, c)" "USER_POOL_START \<le> q" "q < RKERNEL_HEAP_START"
    "block_of USER_POOL_START (q, c) = (i, unat c)" "q \<noteq> 0"
proof -
  show u: "unat q = 0x3e0000 + 4096 * i"
    using page_index(1) [of USER_POOL_START 7200 i] assms(1) by (simp add: q_def)
  show "\<not> in_kernel (q, c)" "USER_POOL_START \<le> q" "q < RKERNEL_HEAP_START" "q \<noteq> 0"
    using u assms(1) by (auto simp: in_kernel_def word_less_nat_alt word_le_nat_alt)
  have "unat (of_nat i :: Bit32u) = i"
    using assms(1) by (simp add: unsigned_of_nat take_bit_nat_eq_self)
  then show "block_of USER_POOL_START (q, c) = (i, unat c)"
    using page_index(2) [of USER_POOL_START 7200 i] assms(1) by (simp add: q_def block_of_def)
qed

lemma pool_ok_head: "pool_ok n a ((i, c) # live) p \<Longrightarrow> 0 < i \<and> 0 < c \<and> i + c \<le> n"
  by (auto simp: pool_ok_def bm.tracks_def)

lemma palloc_inv_init: "palloc_inv (init_palloc lmem kmem umem, [])"
  using fresh_pool_ok [of 736 KERNEL_ADDR kmem] fresh_pool_ok [of 7200 USER_POOL_START umem]
  by (simp add: palloc_inv_def init_palloc_def kernel_blocks_def user_blocks_def SIZE_MAX_def)

lemma unat_pages: "unat cnt \<le> 7200 \<Longrightarrow> unat (PAGE_SIZE * cnt) = 4096 * unat cnt"
  by (simp add: unat_word_ariths)

lemma alloc_kernel_inv:
  assumes inv: "palloc_inv (s, live)" and cnt: "cnt \<noteq> 0"
    and f: "find_bitmap (pool_bitmap (kernelpool s)) 0 cnt False \<noteq> BITMAP_ERROR"
    and g: "palloc_get_multiple_page kernel_area cnt s = (q, s')"
  shows "palloc_inv (s', (q, cnt) # live) \<and> zeroed s' = (q, PAGE_SIZE * cnt) # zeroed s \<and> q < USER_POOL_START"
proof -
  obtain p where gp: "get_pages cnt (kernelpool s) = (q, p)"
    and s': "s' = zero_pages q cnt (s\<lparr> kernelpool := p \<rparr>)"
    using g cnt by (auto simp: palloc_get_multiple_page_def split: prod.splits)
  obtain i where q: "q = KERNEL_ADDR + of_nat i * PAGE_SIZE"
    and p: "pool_ok 736 KERNEL_ADDR ((i, unat cnt) # kernel_blocks live) p"
    using get_pages_ok [of 736 KERNEL_ADDR "kernel_blocks live", OF _ cnt gp f] inv
    by (auto simp: palloc_inv_def)
  have i: "0 < i" "0 < unat cnt" "i + unat cnt \<le> 736"
    using pool_ok_head [OF p] by auto
  then have "i < 736" by linarith
  note k = kernel_page [OF this, folded q]
  have "well_placed (q, cnt)"
    using q i cnt by (auto simp: well_placed_def)
  moreover have "pool_ok 736 KERNEL_ADDR ((i, unat cnt) # kernel_blocks live) (memset_pool q (PAGE_SIZE * cnt) l p)" for l
    using memset_pool_ok [OF p] k(1) i by simp
  moreover have "pool_ok 7200 USER_POOL_START (user_blocks live) (memset_pool q (PAGE_SIZE * cnt) l (userpool s))" for l
    using memset_pool_ok [of 7200 USER_POOL_START "user_blocks live" "userpool s" q] inv k(1) i
    by (simp add: palloc_inv_def unat_pages)
  ultimately show ?thesis
    using inv k by (simp add: palloc_inv_def s' zero_pages_def Let_def kernel_blocks_def user_blocks_def)
qed

lemma alloc_user_inv:
  assumes inv: "palloc_inv (s, live)" and cnt: "cnt \<noteq> 0"
    and f: "find_bitmap (pool_bitmap (userpool s)) 0 cnt False \<noteq> BITMAP_ERROR"
    and g: "palloc_get_multiple_page user_area cnt s = (q, s')"
  shows "palloc_inv (s', (q, cnt) # live) \<and> zeroed s' = (q, PAGE_SIZE * cnt) # zeroed s"
proof -
  obtain p where gp: "get_pages cnt (userpool s) = (q, p)"
    and s': "s' = zero_pages q cnt (s\<lparr> userpool := p \<rparr>)"
    using g cnt by (auto simp: palloc_get_multiple_page_def split: prod.splits)
  obtain i where q: "q = USER_POOL_START + of_nat i * PAGE_SIZE"
    and p: "pool_ok 7200 USER_POOL_START ((i, unat cnt) # user_blocks live) p"
    using get_pages_ok [of 7200 USER_POOL_START "user_blocks live", OF _ cnt gp f] inv
    by (auto simp: palloc_inv_def)
  have i: "0 < i" "0 < unat cnt" "i + unat cnt \<le> 7200"
    using pool_ok_head [OF p] by auto
  then have "i < 7200" by linarith
  note k = user_page [OF this, folded q]
  have "well_placed (q, cnt)"
    using q i cnt by (auto simp: well_placed_def)
  moreover have "pool_ok 7200 USER_POOL_START ((i, unat cnt) # user_blocks live) (memset_pool q (PAGE_SIZE * cnt) l p)" for l
    using memset_pool_ok [OF p] k(1) i by simp
  moreover have "pool_ok 736 KERNEL_ADDR (kernel_blocks live) (memset_pool q (PAGE_SIZE * cnt) l (kernelpool s))" for l
    using memset_pool_ok [of 736 KERNEL_ADDR "kernel_blocks live" "kernelpool s" q] inv k(1) i
    by (simp add: palloc_inv_def)
  ultimately show ?thesis
    using inv k by (simp add: palloc_inv_def s' zero_pages_def Let_def kernel_blocks_def user_blocks_def)
qed

lemma free_inv:
  assumes inv: "palloc_inv (s, xs @ (q, cnt) # ys)"
  shows "palloc_inv (palloc_free_multiple_page q cnt s, xs @ ys)"
proof -
  have "well_placed (q, cnt)" using inv by (simp add: palloc_inv_def)
  then have c: "cnt \<noteq> 0" "0 < unat cnt" by (auto simp: well_placed_def unat_gt_0)
  from \<open>well_placed (q, cnt)\<close> consider
      (k) i where "q = KERNEL_ADDR + of_nat i * PAGE_SIZE" "i + unat cnt \<le> 736"
    | (u) i where "q = USER_POOL_START + of_nat i * PAGE_SIZE" "i + unat cnt \<le> 7200"
    by (auto simp: well_placed_def)
  then show ?thesis
  proof cases
    case k
    then have "i < 736" using c by linarith
    note kp = kernel_page [OF this, folded k(1)]
    have "pool_ok 736 KERNEL_ADDR (kernel_blocks xs @ (i, unat cnt) # kernel_blocks ys) (kernelpool s)"
      using inv kp by (simp add: palloc_inv_def kernel_blocks_def)
    from free_pages_ok [OF this, folded k(1)] show ?thesis
      using inv kp c by (simp add: palloc_inv_def palloc_free_multiple_page_def kernel_blocks_def user_blocks_def)
  next
    case u
    then have "i < 7200" using c by linarith
    note up = user_page [OF this, folded u(1)]
    have "pool_ok 7200 USER_POOL_START (user_blocks xs @ (i, unat cnt) # user_blocks ys) (userpool s)"
      using inv up by (simp add: palloc_inv_def user_blocks_def)
    from free_pages_ok [OF this, folded u(1)] show ?thesis
      using inv up c leD [OF up(3)]
      by (simp add: palloc_inv_def palloc_free_multiple_page_def kernel_blocks_def user_blocks_def)
  qed
qed

lemma client_inv: "client t t' \<Longrightarrow> palloc_inv t \<Longrightarrow> palloc_inv t'"
proof (induction rule: client.induct)
  case (alloc cnt flags s q s' live)
  then show ?case
    unfolding enough_def using alloc_kernel_inv alloc_user_inv by blast
next
  case (free s xs q cnt ys)
  then show ?case by (rule_tac free_inv)
qed

lemma reachable_inv: "client\<^sup>*\<^sup>* t t' \<Longrightarrow> palloc_inv t \<Longrightarrow> palloc_inv t'"
  by (induction rule: rtranclp_induct) (auto intro: client_inv)

section \<open>What a client can rely on\<close>

text \<open>The bytes of a held block, as an interval of addresses.\<close>

definition held_bytes :: "Bit32u \<times> size_t \<Rightarrow> block" where
  "held_bytes x = (unat (fst x), 4096 * unat (snd x))"

lemma disjoint_pages_bytes:
  assumes "pages_of (i, c) \<inter> pages_of (j, d) = {}"
  shows "pages_of (a + 4096 * i, 4096 * c) \<inter> pages_of (a + 4096 * j, 4096 * d) = {}"
proof -
  have "(b - a) div 4096 \<in> pages_of (i, c)" if "b \<in> pages_of (a + 4096 * i, 4096 * c)" for b i c :: nat
  proof -
    have "4096 * i \<le> b - a" "b - a < 4096 * (i + c)"
      using that by (auto simp: pages_of_def)
    then have "i \<le> (b - a) div 4096" "(b - a) div 4096 < i + c"
      by (simp_all add: less_eq_div_iff_mult_less_eq div_less_iff_less_mult)
    then show ?thesis by (simp add: pages_of_def)
  qed
  with assms show ?thesis by blast
qed

lemma well_placed_cases:
  assumes "well_placed x"
  obtains (k) i where "in_kernel x" "0 < i" "i + unat (snd x) \<le> 736" "unat (fst x) = 0x100000 + 4096 * i"
      "block_of KERNEL_ADDR x = (i, unat (snd x))"
  | (u) i where "\<not> in_kernel x" "0 < i" "i + unat (snd x) \<le> 7200" "unat (fst x) = 0x3e0000 + 4096 * i"
      "block_of USER_POOL_START x = (i, unat (snd x))"
proof -
  obtain q c where x: "x = (q, c)" by fastforce
  have c: "0 < unat c" using assms by (auto simp: well_placed_def x unat_gt_0)
  from assms consider
      i where "q = KERNEL_ADDR + of_nat i * PAGE_SIZE" "0 < i" "i + unat c \<le> 736"
    | i where "q = USER_POOL_START + of_nat i * PAGE_SIZE" "0 < i" "i + unat c \<le> 7200"
    by (auto simp: well_placed_def x)
  then show ?thesis
  proof cases
    case (1 i)
    then have "i < 736" using c by linarith
    from kernel_page [OF this, folded 1(1)] 1 show ?thesis by (intro k [of i]) (simp_all add: x)
  next
    case (2 i)
    then have "i < 7200" using c by linarith
    from user_page [OF this, folded 2(1)] 2 show ?thesis by (intro u [of i]) (simp_all add: x)
  qed
qed

lemma held_region:
  assumes "well_placed x"
  shows "pages_of (held_bytes x) \<subseteq> (if in_kernel x then {0x101000..<0x3e0000} else {0x3e1000..<0x2000000})"
  using assms by (cases rule: well_placed_cases) (auto simp: held_bytes_def pages_of_def)

lemma held_as_block:
  assumes "well_placed x"
  shows "in_kernel x \<Longrightarrow> held_bytes x =
      (0x100000 + 4096 * fst (block_of KERNEL_ADDR x), 4096 * snd (block_of KERNEL_ADDR x))"
    and "\<not> in_kernel x \<Longrightarrow> held_bytes x =
      (0x3e0000 + 4096 * fst (block_of USER_POOL_START x), 4096 * snd (block_of USER_POOL_START x))"
  using assms by (cases rule: well_placed_cases, simp_all add: held_bytes_def)+

lemma disjoint_scaled:
  "pages_of x \<inter> pages_of y = {} \<Longrightarrow>
    pages_of (a + 4096 * fst x, 4096 * snd x) \<inter> pages_of (a + 4096 * fst y, 4096 * snd y) = {}"
  by (rule disjoint_pages_bytes) simp

lemma held_disjoint:
  assumes "well_placed x" "well_placed y"
    and "in_kernel x \<Longrightarrow> in_kernel y \<Longrightarrow> pages_of (block_of KERNEL_ADDR x) \<inter> pages_of (block_of KERNEL_ADDR y) = {}"
    and "\<not> in_kernel x \<Longrightarrow> \<not> in_kernel y \<Longrightarrow>
      pages_of (block_of USER_POOL_START x) \<inter> pages_of (block_of USER_POOL_START y) = {}"
  shows "pages_of (held_bytes x) \<inter> pages_of (held_bytes y) = {}"
proof (cases "in_kernel x = in_kernel y")
  case False
  define K U :: "nat set" where "K = {0x101000..<0x3e0000}" and "U = {0x3e1000..<0x2000000}"
  have d: "K \<inter> U = {}" by (auto simp: K_def U_def)
  note r = held_region [OF assms(1), folded K_def U_def] held_region [OF assms(2), folded K_def U_def]
  show ?thesis
  proof (cases "in_kernel x")
    case True
    with False r have "pages_of (held_bytes x) \<subseteq> K" "pages_of (held_bytes y) \<subseteq> U" by simp_all
    with d show ?thesis by blast
  next
    case nk: False
    with False r have "pages_of (held_bytes x) \<subseteq> U" "pages_of (held_bytes y) \<subseteq> K" by simp_all
    with d show ?thesis by blast
  qed
next
  case True
  note sx = held_as_block [OF assms(1)] and sy = held_as_block [OF assms(2)]
  show ?thesis
  proof (cases "in_kernel x")
    case k: True
    then show ?thesis
      unfolding sx(1) [OF k] sy(1) [OF k [unfolded True]] using True by (intro disjoint_scaled assms(3)) simp_all
  next
    case u: False
    then show ?thesis
      unfolding sx(2) [OF u] sy(2) [OF u [unfolded True]] using True by (intro disjoint_scaled assms(4)) simp_all
  qed
qed

lemma inv_disjoint:
  "disjoint_blocks (kernel_blocks live) \<Longrightarrow> disjoint_blocks (user_blocks live) \<Longrightarrow>
    \<forall>x \<in> set live. well_placed x \<Longrightarrow> disjoint_blocks (map held_bytes live)"
proof (induction live)
  case (Cons x live)
  have "pages_of (held_bytes x) \<inter> pages_of (held_bytes y) = {}" if "y \<in> set live" for y
    using Cons.prems that by (cases y, intro held_disjoint) (simp_all add: kernel_blocks_def user_blocks_def)
  moreover have "disjoint_blocks (kernel_blocks live)" "disjoint_blocks (user_blocks live)"
    using Cons.prems by (auto simp: kernel_blocks_def user_blocks_def split: if_splits)
  ultimately show ?case using Cons by simp
qed simp

lemma palloc_inv_disjoint: "palloc_inv (s, live) \<Longrightarrow> disjoint_blocks (map held_bytes live)"
  by (intro inv_disjoint) (auto simp: palloc_inv_def pool_ok_def bm.tracks_def)

text \<open>
  C10. Memory safety of the allocator for well-behaved clients: in every state a client can reach
  from \<open>init_palloc\<close> by asking for pages while there are enough and giving back what it holds, the
  blocks it holds are pairwise disjoint byte ranges, each inside one pool and clear of the pool's
  first page, where the bitmap lives.
\<close>
theorem held_blocks_are_disjoint:
  assumes "client\<^sup>*\<^sup>* (init_palloc lmem kmem umem, []) (s, live)"
  shows "disjoint_blocks (map held_bytes live) \<and>
    (\<forall>x \<in> set live. pages_of (held_bytes x) \<subseteq> (if in_kernel x then {0x101000..<0x3e0000} else {0x3e1000..<0x2000000}))"
proof -
  have inv: "palloc_inv (s, live)"
    using reachable_inv [OF assms palloc_inv_init] .
  then show ?thesis
    using palloc_inv_disjoint [OF inv] by (simp add: palloc_inv_def held_region)
qed

lemma init_enough:
  assumes "0 < unat cnt" "unat cnt < 736"
  shows "enough kernel_area cnt (init_palloc lmem kmem umem)"
proof -
  let ?b = "pool_bitmap (kernelpool (init_palloc lmem kmem umem))"
  have ok: "pool_ok 736 KERNEL_ADDR [] (kernelpool (init_palloc lmem kmem umem))"
    using palloc_inv_init [of lmem kmem umem] by (simp add: palloc_inv_def kernel_blocks_def)
  then have b: "unat (bit_count ?b) = 736" "\<And>j. j < 736 \<Longrightarrow> bit_at ?b j \<longleftrightarrow> j = 0"
    by (auto simp: pool_ok_def bm.tracks_def)
  then have f: "fits ?b 0 cnt False 1"
    using assms by (simp add: fits_def run_def)
  then have "(LEAST i. fits ?b 0 cnt False i) \<le> 1" by (rule Least_le)
  then have "(of_nat (LEAST i. fits ?b 0 cnt False i) :: size_t) \<in> {0, 1}"
    by (auto simp: le_Suc_eq)
  then show ?thesis
    using f by (auto simp: enough_def find_bitmap_first_fit_lemma SIZE_MAX_def)
qed

lemma held_blocks_are_disjoint_witness:
  "\<exists>s q. client\<^sup>*\<^sup>* (init_palloc (\<lambda>_. 0) (\<lambda>_. 0) (\<lambda>_. 0), []) (s, [(q, 3)]) \<and>
    pages_of (held_bytes (q, 3)) \<subseteq> {0x101000..<0x2000000}"
proof -
  obtain q s where g: "palloc_get_multiple_page kernel_area 3 (init_palloc (\<lambda>_. 0) (\<lambda>_. 0) (\<lambda>_. 0)) = (q, s)"
    by fastforce
  have "client (init_palloc (\<lambda>_. 0) (\<lambda>_. 0) (\<lambda>_. 0), []) (s, [(q, 3)])"
    by (rule client.alloc [OF _ init_enough g]) simp_all
  then have r: "client\<^sup>*\<^sup>* (init_palloc (\<lambda>_. 0) (\<lambda>_. 0) (\<lambda>_. 0), []) (s, [(q, 3)])" by (rule r_into_rtranclp)
  from held_blocks_are_disjoint [OF r]
  have "pages_of (held_bytes (q, 3)) \<subseteq> {0x101000..<0x2000000}"
    by (auto split: if_splits)
  with r show ?thesis by blast
qed

text \<open>
  Every allocation of such a client clears exactly the block it returns, and so no byte of any
  block held before, nor of the bitmaps in the first pages of the pools.
\<close>
theorem allocation_zeroes_fresh_block:
  assumes "client\<^sup>*\<^sup>* (init_palloc lmem kmem umem, []) (s, live)"
    and "cnt \<noteq> 0" "enough flags cnt s" "palloc_get_multiple_page flags cnt s = (q, s')"
  shows "zeroed s' = (q, PAGE_SIZE * cnt) # zeroed s \<and> unat (PAGE_SIZE * cnt) = 4096 * unat cnt \<and>
    (\<forall>x \<in> set live. pages_of (held_bytes (q, cnt)) \<inter> pages_of (held_bytes x) = {}) \<and>
    pages_of (held_bytes (q, cnt)) \<inter> ({0x100000..<0x101000} \<union> {0x3e0000..<0x3e1000}) = {}"
proof -
  have inv: "palloc_inv (s, live)"
    using reachable_inv [OF assms(1) palloc_inv_init] .
  have z: "palloc_inv (s', (q, cnt) # live) \<and> zeroed s' = (q, PAGE_SIZE * cnt) # zeroed s"
    using assms(2-4) alloc_kernel_inv [OF inv] alloc_user_inv [OF inv] unfolding enough_def by blast
  then have w: "well_placed (q, cnt)" and d: "disjoint_blocks (map held_bytes ((q, cnt) # live))"
    using palloc_inv_disjoint [of s' "(q, cnt) # live"] by (simp_all add: palloc_inv_def)
  have "unat cnt \<le> 7200"
    using w by (cases rule: well_placed_cases) auto
  then have "unat (PAGE_SIZE * cnt) = 4096 * unat cnt"
    by (simp add: unat_word_ariths)
  moreover have "pages_of (held_bytes (q, cnt)) \<inter> ({0x100000..<0x101000} \<union> {0x3e0000..<0x3e1000}) = {}"
    using w by (cases rule: well_placed_cases) (auto simp: held_bytes_def pages_of_def)
  ultimately show ?thesis using z d by simp
qed

lemma allocation_zeroes_fresh_block_witness:
  "\<exists>q s. palloc_get_multiple_page kernel_area 3 (init_palloc (\<lambda>_. 0) (\<lambda>_. 0) (\<lambda>_. 0)) = (q, s) \<and>
    zeroed s = [(q, 0x3000)]"
proof -
  obtain q s where g: "palloc_get_multiple_page kernel_area 3 (init_palloc (\<lambda>_. 0) (\<lambda>_. 0) (\<lambda>_. 0)) = (q, s)"
    by fastforce
  have "enough kernel_area 3 (init_palloc (\<lambda>_. 0) (\<lambda>_. 0) (\<lambda>_. 0))" by (rule init_enough) simp_all
  from allocation_zeroes_fresh_block [OF rtranclp.rtrancl_refl _ this g]
  have "zeroed s = [(q, 0x3000)]" by (simp add: init_palloc_def)
  with g show ?thesis by blast
qed

text \<open>
  C32. Allocating and freeing again is neutral: if there are enough pages, the block a pool returns,
  freed at once, leaves the pools' bits as they were.
\<close>
theorem allocate_free_round_trip:
  assumes "client\<^sup>*\<^sup>* (init_palloc lmem kmem umem, []) (s, live)"
    and "cnt \<noteq> 0" "enough flags cnt s" "palloc_get_multiple_page flags cnt s = (q, s')"
    and "s'' = palloc_free_multiple_page q cnt s'"
  shows "(j < 736 \<longrightarrow> bit_at (pool_bitmap (kernelpool s'')) j = bit_at (pool_bitmap (kernelpool s)) j) \<and>
    (j < 7200 \<longrightarrow> bit_at (pool_bitmap (userpool s'')) j = bit_at (pool_bitmap (userpool s)) j)"
proof -
  have inv: "palloc_inv (s, live)"
    using reachable_inv [OF assms(1) palloc_inv_init] .
  have "client (s, live) (s', (q, cnt) # live)"
    using assms(2-4) by (rule client.alloc)
  then have "palloc_inv (s', [] @ (q, cnt) # live)"
    using client_inv inv by simp
  from free_inv [OF this] have "palloc_inv (s'', live)"
    by (simp add: assms(5))
  with inv show ?thesis
    by (simp add: palloc_inv_def pool_ok_def bm.tracks_def)
qed

lemma allocate_free_round_trip_witness:
  "\<exists>q s. palloc_get_multiple_page kernel_area 3 (init_palloc (\<lambda>_. 0) (\<lambda>_. 0) (\<lambda>_. 0)) = (q, s) \<and>
    \<not> bit_at (pool_bitmap (kernelpool (palloc_free_multiple_page q 3 s))) 2"
proof -
  let ?s = "init_palloc (\<lambda>_. 0) (\<lambda>_. 0) (\<lambda>_. 0)"
  obtain q s where g: "palloc_get_multiple_page kernel_area 3 ?s = (q, s)" by fastforce
  have e: "enough kernel_area 3 ?s" by (rule init_enough) simp_all
  have "\<not> bit_at (pool_bitmap (kernelpool ?s)) 2"
    using palloc_inv_init [of "\<lambda>_. 0" "\<lambda>_. 0" "\<lambda>_. 0"]
    by (simp add: palloc_inv_def pool_ok_def bm.tracks_def kernel_blocks_def)
  then have "\<not> bit_at (pool_bitmap (kernelpool (palloc_free_multiple_page q 3 s))) 2"
    using allocate_free_round_trip [OF rtranclp.rtrancl_refl _ e g refl, of 2] by simp
  with g show ?thesis by blast
qed

section \<open>What it cannot\<close>




text \<open>
  Nothing protects the page that holds a pool's bitmap: freeing the first page of the kernel
  pool is accepted, and the next single-page request is given that very page and clears it, with
  the bitmap in it.
\<close>
theorem bitmap_page_can_be_handed_out:
  assumes "client\<^sup>*\<^sup>* (init_palloc lmem kmem umem, []) (s, live)"
    and "palloc_get_one_page kernel_area (palloc_free_one_page KERNEL_ADDR s) = (q, s')"
  shows "q = KERNEL_ADDR \<and> zeroed s' = (KERNEL_ADDR, PAGE_SIZE) # zeroed s \<and> bit_count (pool_bitmap (kernelpool s')) = 0"
proof -
  have inv: "palloc_inv (s, live)"
    using reachable_inv [OF assms(1) palloc_inv_init] .
  let ?b = "pool_bitmap (kernelpool s)"
  have b: "unat (bit_count ?b) = 736" "bit_at ?b 0" "addr (kernelpool s) = KERNEL_ADDR"
    using inv by (auto simp: palloc_inv_def pool_ok_def bm.tracks_def)
  have c: "bitmap_contains ?b 0 1 True"
    using b by (subst bitmap_contains_run) (auto simp: run_def)
  let ?b' = "set_multi_bitmap ?b 0 1 False"
  let ?s = "s\<lparr> kernelpool := (kernelpool s)\<lparr> pool_bitmap := ?b' \<rparr> \<rparr>"
  have f: "palloc_free_one_page KERNEL_ADDR s = ?s"
    using b c by (simp add: palloc_free_one_page_def palloc_free_multiple_page_def free_pages_def)
  have "fits ?b' 0 1 False 0" using b by (simp add: fits_def run_def)
  then have "find_bitmap ?b' 0 1 False = 0"
    by (auto simp: find_bitmap_first_fit_lemma Least_eq_0)
  then show ?thesis
    using assms(2) b unfolding f
    by (auto simp: palloc_get_one_page_def palloc_get_multiple_page_def get_pages_def
        find_set_bitmap_def zero_pages_def Let_def memset_pool_def SIZE_MAX_def)
qed

lemma bitmap_page_can_be_handed_out_witness:
  "fst (palloc_get_one_page kernel_area (palloc_free_one_page KERNEL_ADDR (init_palloc (\<lambda>_. 0) (\<lambda>_. 0) (\<lambda>_. 0)))) =
    KERNEL_ADDR"
  using bitmap_page_can_be_handed_out [OF rtranclp.rtrancl_refl, of "\<lambda>_. 0" "\<lambda>_. 0" "\<lambda>_. 0"]
  by (metis prod.collapse)

end
