(* ===== verification/Sched.thy ===== *)
theory Sched
  imports DList_Edit Palloc
begin

text \<open>
  Processes and the scheduler of \<open>SSUOS_P6\<close>: \<open>proc/proc.c\<close>, \<open>proc/sched.c\<close> and the timer handler of
  \<open>arch/interrupt.c\<close>.  A \<open>struct process\<close> is named by its index in \<open>procs\<close>; its two list elements and
  the headers of the four lists have fixed addresses in the heap of links.  \<open>unsigned long\<close> has
  32 bits.  Printing, the unused page table entry of a process and the interrupt flag are left
  out.  \<open>switch_process\<close> is assembly: it loads the page directory of the next process, and the switch
  is recorded; the stacks it exchanges hold the register contents, which the model does not have.
\<close>

datatype p_state = PROC_UNUSED | PROC_RUN | PROC_STOP | PROC_ZOMBIE | PROC_BLOCK

record process =
  pid :: int
  stack :: Bit32u
  pd :: Bit32u
  state :: p_state
  time_sleep :: Bit64u
  priority :: Bit8u
  time_slice :: Bit32u
  time_used :: Bit64u
  time_sched :: Bit64u
  parent :: "nat option"
  simple_lock :: int
  child_pid :: int
  exit_status :: int

record kernel =
  heap :: links
  procs :: "nat \<Rightarrow> process"
  cur_process :: nat
  ticks :: Bit32u
  sched_on_return :: bool
  lock_pid_simple :: int
  lately_pid :: int
  cr3 :: Bit32u
  switches :: "(nat \<times> nat) list"

definition PROC_NUM_MAX :: nat where "PROC_NUM_MAX = 16"
definition TIMER_MAX :: Bit32u where "TIMER_MAX = 10"

definition p_list :: struct_list where "p_list = \<lparr> head = 1, tail = 2 \<rparr>"
definition r_list :: struct_list where "r_list = \<lparr> head = 3, tail = 4 \<rparr>"
definition s_list :: struct_list where "s_list = \<lparr> head = 5, tail = 6 \<rparr>"
definition d_list :: struct_list where "d_list = \<lparr> head = 7, tail = 8 \<rparr>"

text \<open>\<open>&procs[i].elem_stat\<close>, \<open>&procs[i].elem_all\<close>, and \<open>list_entry (a, struct process, elem_stat)\<close>.\<close>

definition elem_stat :: "nat \<Rightarrow> nat" where "elem_stat i = 10 + 2 * i"
definition elem_all :: "nat \<Rightarrow> nat" where "elem_all i = 11 + 2 * i"
definition list_entry :: "nat \<Rightarrow> nat" where "list_entry a = (a - 10) div 2"

definition upd_proc :: "nat \<Rightarrow> (process \<Rightarrow> process) \<Rightarrow> kernel \<Rightarrow> kernel" where
  "upd_proc i f k = k\<lparr> procs := (procs k)(i := f (procs k i)) \<rparr>"

abbreviation on_heap :: "(links \<Rightarrow> links) \<Rightarrow> kernel \<Rightarrow> kernel" where
  "on_heap f k \<equiv> k\<lparr> heap := f (heap k) \<rparr>"

definition less_time_sleep :: "kernel \<Rightarrow> nat \<Rightarrow> nat \<Rightarrow> bool" where
  "less_time_sleep k a b \<longleftrightarrow> time_sleep (procs k (list_entry a)) < time_sleep (procs k (list_entry b))"

definition get_ticks :: "kernel \<Rightarrow> Bit32u" where "get_ticks k = ticks k"

section \<open>Scheduling\<close>

partial_function (option) wake_loop :: "Bit64u \<Rightarrow> kernel \<Rightarrow> kernel option" where
  "wake_loop t k =
     (if \<not> list_empty s_list (heap k) then
        (let p = list_entry (list_front s_list (heap k)) in
         if time_sleep (procs k p) > t then Some k
         else wake_loop t (on_heap (\<lambda>h. snd (list_remove (elem_stat p) h))
                (upd_proc p (\<lambda>q. q\<lparr> state := PROC_RUN \<rparr>) k)))
      else Some k)"

definition proc_wake :: "kernel \<Rightarrow> kernel option" where
  "proc_wake k = wake_loop (ucast (get_ticks k)) k"

partial_function (option) next_loop :: "nat \<Rightarrow> kernel \<Rightarrow> nat option" where
  "next_loop e k =
     (if e \<noteq> list_end r_list then
        (let p = list_entry (list_front r_list (heap k)) in
         if state (procs k p) = PROC_RUN then Some p else next_loop (list_next e (heap k)) k)
      else Some (cur_process k))"

definition requeue :: "kernel \<Rightarrow> kernel" where
  "requeue k =
     (let e = elem_stat (cur_process k)
      in if state (procs k (cur_process k)) = PROC_RUN
         then on_heap (\<lambda>h. list_push_back r_list e (snd (list_remove e h))) k else k)"

definition get_next_proc :: "kernel \<Rightarrow> (nat \<times> kernel) option" where
  "get_next_proc k =
     (let k = requeue k
      in Option.bind (next_loop (list_begin r_list (heap k)) k) (\<lambda>p. Some (p, k)))"

definition switch_process :: "nat \<Rightarrow> nat \<Rightarrow> kernel \<Rightarrow> kernel" where
  "switch_process cur nxt k = k\<lparr> cr3 := pd (procs k nxt), switches := (cur, nxt) # switches k \<rparr>"

definition schedule :: "kernel \<Rightarrow> kernel option" where
  "schedule k =
     Option.bind (proc_wake k) (\<lambda>k.
     Option.bind (get_next_proc k) (\<lambda>(nxt, k).
       let cur = cur_process k;
           k = k\<lparr> cur_process := nxt \<rparr>;
           k = upd_proc nxt (\<lambda>p. p\<lparr> time_sched := time_sched p + 1, time_slice := 0 \<rparr>) k
       in Some (switch_process cur nxt k)))"

section \<open>Sleeping, blocking, ending\<close>

definition proc_sleep :: "Bit32u \<Rightarrow> kernel \<Rightarrow> kernel option" where
  "proc_sleep n k =
     (let c = cur_process k;
          k = upd_proc c (\<lambda>p. p\<lparr> time_sleep := ucast (n + get_ticks k), state := PROC_STOP \<rparr>) k
      in Option.bind (list_insert_ordered (less_time_sleep k) s_list (elem_stat c) (heap k)) (\<lambda>h.
           schedule (k\<lparr> heap := h \<rparr>)))"

definition proc_block :: "kernel \<Rightarrow> kernel option" where
  "proc_block k = schedule (upd_proc (cur_process k) (\<lambda>p. p\<lparr> state := PROC_BLOCK \<rparr>) k)"

definition proc_unblock :: "nat \<Rightarrow> kernel \<Rightarrow> kernel" where
  "proc_unblock p k =
     upd_proc p (\<lambda>q. q\<lparr> state := PROC_RUN \<rparr>) (on_heap (list_push_back r_list (elem_stat p)) k)"

text \<open>A process without a parent would store through NULL; every process but the first has one.\<close>

definition tell_parent :: "kernel \<Rightarrow> kernel" where
  "tell_parent k =
     (case parent (procs k (cur_process k)) of
        Some q \<Rightarrow> upd_proc q (\<lambda>p. p\<lparr> child_pid := pid (procs k (cur_process k)), simple_lock := 0 \<rparr>) k
      | None \<Rightarrow> k)"

definition proc_free :: "kernel \<Rightarrow> kernel" where
  "proc_free k =
     (let k = tell_parent k;
          c = cur_process k;
          k = on_heap (\<lambda>h. snd (list_remove (elem_stat c) h)) k;
          k = upd_proc c (\<lambda>p. p\<lparr> state := PROC_ZOMBIE \<rparr>) k
      in on_heap (list_push_back d_list (elem_stat c)) k)"

definition proc_end :: "kernel \<Rightarrow> kernel option" where
  "proc_end k = schedule (proc_free k)"

text \<open>The loop of \<open>idle\<close> that takes the ended processes off their list.\<close>

partial_function (option) reap_loop :: "kernel \<Rightarrow> kernel option" where
  "reap_loop k =
     (if \<not> list_empty d_list (heap k) then
        (let (e, h) = list_pop_front d_list (heap k);
             p = list_entry e;
             k = upd_proc p (\<lambda>q. q\<lparr> state := PROC_UNUSED \<rparr>) (k\<lparr> heap := h \<rparr>)
         in reap_loop (on_heap (\<lambda>h. snd (list_remove (elem_all p) h)) k))
      else Some k)"

definition idle_turn :: "kernel \<Rightarrow> kernel option" where
  "idle_turn k = Option.bind (reap_loop k) schedule"

section \<open>Interrupts and system calls\<close>

definition do_sched_on_return :: "kernel \<Rightarrow> kernel" where
  "do_sched_on_return k = k\<lparr> sched_on_return := True \<rparr>"

definition timer_handler :: "kernel \<Rightarrow> kernel" where
  "timer_handler k =
     (let c = cur_process k;
          k = k\<lparr> ticks := ticks k + 1 \<rparr>;
          k = upd_proc c (\<lambda>p. p\<lparr> time_used := time_used p + 1, time_slice := time_slice p + 1 \<rparr>) k
      in if time_slice (procs k c) \<ge> TIMER_MAX then do_sched_on_return k else k)"

definition do_exit :: "int \<Rightarrow> kernel \<Rightarrow> kernel" where
  "do_exit status k =
     do_sched_on_return (proc_free (upd_proc (cur_process k) (\<lambda>p. p\<lparr> exit_status := status \<rparr>) k))"

section \<open>Creation\<close>

text \<open>
  The first unused slot after the last one given out; the index is left alone when there is none.  The
  numbers are \<open>int\<close> in the program and would overflow after \<open>2 ^ 31\<close> creations.
\<close>

primrec pid_loop :: "nat \<Rightarrow> nat \<Rightarrow> int \<times> nat \<Rightarrow> kernel \<Rightarrow> int \<times> nat" where
  "pid_loop 0 i r k = r"
| "pid_loop (Suc n) i r k =
     (let tmp = int i + lately_pid k + 1 in
      if state (procs k (nat (tmp mod int PROC_NUM_MAX))) = PROC_UNUSED
      then (lately_pid k + 1, nat (tmp mod int PROC_NUM_MAX))
      else pid_loop n (i + 1) r k)"

text \<open>A held lock is waited for for ever.\<close>

definition getValidPid :: "nat \<Rightarrow> kernel \<Rightarrow> ((int \<times> nat) \<times> kernel) option" where
  "getValidPid idx k =
     (if lock_pid_simple k \<noteq> 0 then None
      else (let k = k\<lparr> lock_pid_simple := lock_pid_simple k + 1 \<rparr>;
                (p, idx) = pid_loop PROC_NUM_MAX 0 (- 1, idx) k;
                k = (if p \<noteq> - 1 then k\<lparr> lately_pid := p \<rparr> else k)
            in Some ((p, idx), k\<lparr> lock_pid_simple := 0 \<rparr>)))"

text \<open>
  \<open>proc_create\<close>: \<open>idx\<close> is what the uninitialised index holds, \<open>new_stack\<close> the stack pointer into the
  fresh stack page and \<open>new_pd\<close> the page directory that \<open>pd_create\<close> returns.  The priority of the
  options is \<open>unsigned\<close>, that of a process \<open>unsigned char\<close>.
\<close>

definition proc_create :: "nat \<Rightarrow> Bit32u option \<Rightarrow> Bit32u \<Rightarrow> Bit32u \<Rightarrow> kernel \<Rightarrow> (int \<times> kernel) option" where
  "proc_create idx opt new_stack new_pd k =
     Option.bind (getValidPid idx k) (\<lambda>((new_pid, i), k).
       let k = upd_proc i (\<lambda>p. p\<lparr> pid := new_pid, state := PROC_RUN,
                 priority := (case opt of Some q \<Rightarrow> ucast q | None \<Rightarrow> 0),
                 time_used := 0, time_sched := 0, parent := Some (cur_process k), simple_lock := 0,
                 child_pid := - 1, stack := new_stack, pd := new_pd \<rparr>) k;
           k = on_heap (set_next (elem_all i) 0 \<circ> set_prev (elem_all i) 0) k;
           k = on_heap (set_next (elem_stat i) 0 \<circ> set_prev (elem_stat i) 0) k;
           k = on_heap (list_push_back p_list (elem_all i)) k;
           k = on_heap (list_push_back r_list (elem_stat i)) k
       in Some (pid (procs k i), k))"

definition do_fork :: "nat \<Rightarrow> Bit32u \<Rightarrow> Bit32u \<Rightarrow> kernel \<Rightarrow> (int \<times> kernel) option" where
  "do_fork idx new_stack new_pd k =
     proc_create idx (Some (ucast (priority (procs k (cur_process k))))) new_stack new_pd k"

text \<open>\<open>init_proc\<close>: the empty lists and process table, and the idle process in the first slot.\<close>

definition empty_table :: "kernel \<Rightarrow> kernel" where
  "empty_table k =
     (let k = k\<lparr> lock_pid_simple := 0, lately_pid := - 1 \<rparr>;
          k = on_heap (list_init d_list \<circ> list_init s_list \<circ> list_init r_list \<circ> list_init p_list) k
      in k\<lparr> procs := (\<lambda>i. if i < PROC_NUM_MAX
           then (procs k i)\<lparr> pid := int i, state := PROC_UNUSED, parent := None \<rparr> else procs k i) \<rparr>)"

definition init_proc :: "nat \<Rightarrow> Bit32u \<Rightarrow> kernel \<Rightarrow> kernel option" where
  "init_proc idx boot_pd k =
     Option.bind (getValidPid idx (empty_table k)) (\<lambda>((new_pid, i), k).
       let k = k\<lparr> cur_process := i \<rparr>;
           k = upd_proc i (\<lambda>p. p\<lparr> pid := new_pid, parent := None, state := PROC_RUN, priority := 0,
                 stack := 0, pd := boot_pd \<rparr>) k;
           k = on_heap (set_next (elem_all i) 0 \<circ> set_prev (elem_all i) 0) k;
           k = on_heap (set_next (elem_stat i) 0 \<circ> set_prev (elem_stat i) 0) k;
           k = on_heap (list_push_back p_list (elem_all i)) k
       in Some (on_heap (list_push_back r_list (elem_stat i)) k))"

end
