(* ===== verification/Sched_Spec.thy ===== *)
theory Sched_Spec
  imports Sched
begin

text \<open>
  The scheduler on the queues its lists hold: what each operation does to the run queue, the
  sleep queue, the queue of ended processes and the list of all processes.
\<close>

section \<open>The four queues\<close>

definition qmap :: "nat list \<Rightarrow> nat list \<Rightarrow> nat list \<Rightarrow> nat list \<Rightarrow> struct_list \<Rightarrow> nat list option" where
  "qmap r s d p = [r_list \<mapsto> map elem_stat r, s_list \<mapsto> map elem_stat s, d_list \<mapsto> map elem_stat d,
     p_list \<mapsto> map elem_all p]"

abbreviation queues :: "kernel \<Rightarrow> nat list \<Rightarrow> nat list \<Rightarrow> nat list \<Rightarrow> nat list \<Rightarrow> bool" where
  "queues k r s d p \<equiv> lists (heap k) (qmap r s d p)"

lemmas list_addrs = p_list_def r_list_def s_list_def d_list_def

lemma qmap_lists [simp]:
  "qmap r s d p r_list = Some (map elem_stat r)" "qmap r s d p s_list = Some (map elem_stat s)"
  "qmap r s d p d_list = Some (map elem_stat d)" "qmap r s d p p_list = Some (map elem_all p)"
  by (simp_all add: qmap_def list_addrs)

lemma qmap_upd [simp]:
  "(qmap r s d p)(r_list \<mapsto> map elem_stat r') = qmap r' s d p"
  "(qmap r s d p)(s_list \<mapsto> map elem_stat s') = qmap r s' d p"
  "(qmap r s d p)(d_list \<mapsto> map elem_stat d') = qmap r s d' p"
  "(qmap r s d p)(p_list \<mapsto> map elem_all p') = qmap r s d p'"
  by (auto simp: qmap_def fun_eq_iff list_addrs)

lemma qmap_SomeD:
  "qmap r s d p l = Some xs \<Longrightarrow> l = r_list \<and> xs = map elem_stat r \<or> l = s_list \<and> xs = map elem_stat s \<or>
    l = d_list \<and> xs = map elem_stat d \<or> l = p_list \<and> xs = map elem_all p"
  by (auto simp: qmap_def list_addrs split: if_splits)

lemma entries [simp]:
  "list_entry (elem_stat i) = i" "elem_stat i = elem_stat j \<longleftrightarrow> i = j" "elem_all i = elem_all j \<longleftrightarrow> i = j"
  "elem_stat i \<noteq> elem_all j" "elem_all j \<noteq> elem_stat i" "elem_stat i \<noteq> 0" "elem_all i \<noteq> 0"
  by (simp_all add: list_entry_def elem_stat_def elem_all_def) presburger+

lemma elem_stat_image [simp]: "elem_stat i \<in> elem_stat ` A \<longleftrightarrow> i \<in> A" "elem_all i \<in> elem_all ` A \<longleftrightarrow> i \<in> A"
  "elem_stat i \<notin> elem_all ` A" "elem_all i \<notin> elem_stat ` A"
  by (auto simp: image_iff)

lemma queues_is_list:
  assumes "queues k r s d p"
  shows "is_list (heap k) r_list (map elem_stat r)" "is_list (heap k) s_list (map elem_stat s)"
    "is_list (heap k) d_list (map elem_stat d)" "is_list (heap k) p_list (map elem_all p)"
  using assms by (auto simp: lists_def)

lemma in_nodes:
  assumes "l \<in> {r_list, s_list, d_list, p_list}"
  shows "elem_stat i \<in> set (nodes l (map elem_stat xs)) \<longleftrightarrow> i \<in> set xs"
    "elem_all i \<in> set (nodes l (map elem_all xs)) \<longleftrightarrow> i \<in> set xs"
    "elem_stat i \<notin> set (nodes l (map elem_all xs))" "elem_all i \<notin> set (nodes l (map elem_stat xs))"
proof -
  have "head l < 10" "tail l < 10" using assms by (auto simp: list_addrs)
  then have n: "elem_stat i \<noteq> head l" "elem_stat i \<noteq> tail l" "elem_all i \<noteq> head l" "elem_all i \<noteq> tail l"
    by (simp_all add: elem_stat_def elem_all_def)
  show "elem_stat i \<in> set (nodes l (map elem_stat xs)) \<longleftrightarrow> i \<in> set xs"
    "elem_all i \<in> set (nodes l (map elem_all xs)) \<longleftrightarrow> i \<in> set xs"
    "elem_stat i \<notin> set (nodes l (map elem_all xs))" "elem_all i \<notin> set (nodes l (map elem_stat xs))"
    using n by (auto simp: nodes_def)
qed

lemma queues_distinct:
  assumes "queues k r s d p"
  shows "distinct r" "distinct s" "distinct d" "distinct p"
    "set r \<inter> set s = {}" "set r \<inter> set d = {}" "set s \<inter> set d = {}"
proof -
  note l = queues_is_list [OF assms]
  show "distinct r" "distinct s" "distinct d" "distinct p"
    using l by (auto simp: is_list_def nodes_def distinct_map)
  have disj: "set (nodes l xs) \<inter> set (nodes l' ys) = {}"
    if "qmap r s d p l = Some xs" "qmap r s d p l' = Some ys" "l \<noteq> l'" for l l' xs ys
    using assms that unfolding lists_def by blast
  have ne: "r_list \<noteq> s_list" "r_list \<noteq> d_list" "s_list \<noteq> d_list" by (simp_all add: list_addrs)
  show "set r \<inter> set s = {}" "set r \<inter> set d = {}" "set s \<inter> set d = {}"
    using disj [of r_list _ s_list, OF qmap_lists(1,2)] disj [of r_list _ d_list, OF qmap_lists(1,3)]
      disj [of s_list _ d_list, OF qmap_lists(2,3)] ne
    by (auto simp: nodes_def)
qed

lemma free_statI:
  "detached h (elem_stat i) \<Longrightarrow> i \<notin> set r \<union> set s \<union> set d \<Longrightarrow> free h (qmap r s d p) (elem_stat i)"
  by (auto simp: free_def in_nodes dest!: qmap_SomeD)

lemma free_allI: "detached h (elem_all i) \<Longrightarrow> i \<notin> set p \<Longrightarrow> free h (qmap r s d p) (elem_all i)"
  by (auto simp: free_def in_nodes dest!: qmap_SomeD)

section \<open>Choosing the next process\<close>

lemma upd_proc_sel [simp]:
  "heap (upd_proc i f k) = heap k" "cur_process (upd_proc i f k) = cur_process k" "ticks (upd_proc i f k) = ticks k"
  "sched_on_return (upd_proc i f k) = sched_on_return k" "lock_pid_simple (upd_proc i f k) = lock_pid_simple k"
  "lately_pid (upd_proc i f k) = lately_pid k" "cr3 (upd_proc i f k) = cr3 k" "switches (upd_proc i f k) = switches k"
  "procs (upd_proc i f k) j = (if j = i then f (procs k i) else procs k j)"
  by (simp_all add: upd_proc_def)

lemma requeue_sel [simp]:
  "procs (requeue k) = procs k" "cur_process (requeue k) = cur_process k" "ticks (requeue k) = ticks k"
  "lock_pid_simple (requeue k) = lock_pid_simple k" "lately_pid (requeue k) = lately_pid k"
  "switches (requeue k) = switches k"
  by (simp_all add: requeue_def Let_def)

lemma queues_requeue:
  assumes "queues k (a @ cur_process k # b) s d p" "state (procs k (cur_process k)) = PROC_RUN"
  shows "queues (requeue k) (a @ b @ [cur_process k]) s d p"
proof -
  let ?e = "elem_stat (cur_process k)"
  note rm = lists_remove [OF assms(1), of r_list "map elem_stat a" ?e "map elem_stat b", simplified]
  have u: "(qmap (a @ cur_process k # b) s d p)(r_list \<mapsto> map elem_stat a @ map elem_stat b) = qmap (a @ b) s d p"
    using qmap_upd(1) [of "a @ cur_process k # b" s d p "a @ b"] by simp
  show ?thesis
    using lists_push_back [OF rm(1) _ rm(2), of r_list] assms(2)
      qmap_upd(1) [of "a @ b" s d p "a @ b @ [cur_process k]"]
    unfolding u by (simp add: requeue_def Let_def)
qed

lemma next_loop_not_run:
  assumes "is_list (heap k) r_list (xs @ ys)" "state (procs k (list_entry (list_front r_list (heap k)))) \<noteq> PROC_RUN"
  shows "next_loop (after_node r_list ys) k = Some (cur_process k)"
  using assms(1)
proof (induction ys arbitrary: xs)
  case Nil
  then show ?case by (simp add: next_loop.simps list_end_def)
next
  case (Cons y ys)
  then show ?case
    using is_list_step [OF Cons.prems] Cons.IH [of "xs @ [y]"] assms(2)
    by (subst next_loop.simps) (simp add: list_end_def list_next_def Let_def)
qed

lemma next_loop_eq:
  assumes "queues k r s d p"
  shows "next_loop (list_begin r_list (heap k)) k =
    Some (case r of x # _ \<Rightarrow> if state (procs k x) = PROC_RUN then x else cur_process k | [] \<Rightarrow> cur_process k)"
proof (cases r)
  case Nil
  then show ?thesis
    using list_ends(1) [OF queues_is_list(1) [OF assms]] by (simp add: next_loop.simps list_end_def)
next
  case (Cons x xs)
  note l = queues_is_list(1) [OF assms]
  have f: "list_front r_list (heap k) = elem_stat x" "list_begin r_list (heap k) = elem_stat x" "elem_stat x \<noteq> tail r_list"
    using list_ends [OF l] l Cons by (auto simp: is_list_def nodes_def)
  show ?thesis
  proof (cases "state (procs k x) = PROC_RUN")
    case True
    then show ?thesis using f Cons by (simp add: next_loop.simps list_end_def Let_def)
  next
    case False
    then show ?thesis
      using next_loop_not_run [of k "[]" "map elem_stat r"] l f Cons by simp
  qed
qed

section \<open>Waking\<close>

definition woken :: "nat list \<Rightarrow> (nat \<Rightarrow> process) \<Rightarrow> nat \<Rightarrow> process" where
  "woken ws f = (\<lambda>i. if i \<in> set ws then (f i)\<lparr> state := PROC_RUN \<rparr> else f i)"

text \<open>An element just removed still points to its old neighbours; removing it again changes nothing.\<close>

definition just_removed :: "links \<Rightarrow> nat \<Rightarrow> bool" where
  "just_removed h e \<longleftrightarrow> detached h e \<and> prev_ptr h e \<noteq> 0 \<and> next_ptr h e \<noteq> 0"

lemma list_remove_just_removed: "just_removed h e \<Longrightarrow> snd (list_remove e h) = h"
  unfolding just_removed_def detached_def list_remove_def Let_def snd_conv
  by (metis set_ptr_simps(2,3) set_same_ptr)

lemma just_removedI:
  assumes "is_list h l (xs @ e # ys)"
  shows "just_removed (snd (list_remove e h)) e"
proof -
  let ?p = "before_node l xs" and ?b = "after_node l ys"
  have n: "next_ptr h e = ?b" "prev_ptr h e = ?p"
    using is_list_links [of h l "xs @ [e]" ys] is_list_links [of h l xs "e # ys"] assms by simp_all
  have "{?p, ?b} \<subseteq> set (nodes l (xs @ ys))" using neighbours_in_nodes by auto
  then have d: "?p \<noteq> e" "?b \<noteq> e" "?p \<noteq> 0" "?b \<noteq> 0"
    using assms by (auto simp: is_list_def nodes_def)
  have "next_ptr h ?p = e" using is_list_links(1) [of h l xs "e # ys"] assms by simp
  from list_remove_links [OF this n(2,1) d(1,2)] show ?thesis
    using is_list_remove(3) [OF assms] d n by (simp add: just_removed_def)
qed

lemma wake_loop_stop:
  "list_empty s_list (heap k) \<or> t < time_sleep (procs k (list_entry (list_front s_list (heap k)))) \<Longrightarrow>
    wake_loop t k = Some k"
  by (subst wake_loop.simps) (auto simp: Let_def)

lemma wake_loop_eq:
  assumes "queues k r (ws @ s) d p" "\<forall>i \<in> set ws. time_sleep (procs k i) \<le> t"
    and "s \<noteq> [] \<longrightarrow> t < time_sleep (procs k (hd s))"
  shows "\<exists>h. wake_loop t k = Some (k\<lparr> heap := h, procs := woken ws (procs k) \<rparr>) \<and> lists h (qmap r s d p) \<and>
    (ws \<noteq> [] \<longrightarrow> just_removed h (elem_stat (last ws)))"
  using assms
proof (induction ws arbitrary: k)
  case Nil
  then have q: "queues k r s d p" by simp
  note l = queues_is_list(2) [OF q]
  have "wake_loop t k = Some k"
  proof (cases s)
    case Nil
    then show ?thesis using list_empty_iff [OF l] by (simp add: wake_loop.simps)
  next
    case (Cons x xs)
    then show ?thesis
      using Nil.prems(3) list_empty_iff [OF l] list_ends [OF l]
      by (simp add: wake_loop.simps Let_def)
  qed
  then show ?case using q by (intro exI [of _ "heap k"]) (simp add: woken_def)
next
  case (Cons w ws)
  let ?k = "on_heap (\<lambda>h. snd (list_remove (elem_stat w) h)) (upd_proc w (\<lambda>q. q\<lparr> state := PROC_RUN \<rparr>) k)"
  note l = queues_is_list(2) [OF Cons.prems(1)]
  have f: "\<not> list_empty s_list (heap k)" "list_front s_list (heap k) = elem_stat w"
    using list_empty_iff [OF l] list_ends [OF l] by simp_all
  have "\<not> t < time_sleep (procs k w)" using Cons.prems(2) by auto
  then have step: "wake_loop t k = wake_loop t ?k"
    using f by (subst wake_loop.simps) (simp add: Let_def)
  have q: "queues ?k r (ws @ s) d p"
    using lists_remove(1) [OF Cons.prems(1), of s_list "[]" "elem_stat w" "map elem_stat (ws @ s)"]
      qmap_upd(2) [of r "w # ws @ s" d p "ws @ s"] by simp
  have w: "w \<notin> set (ws @ s)" using queues_distinct(2) [OF Cons.prems(1)] by simp
  have "\<forall>i \<in> set ws. time_sleep (procs ?k i) \<le> t" "s \<noteq> [] \<longrightarrow> t < time_sleep (procs ?k (hd s))"
    using Cons.prems(2,3) by auto
  from Cons.IH [OF q this] obtain h where h:
    "wake_loop t ?k = Some (?k\<lparr> heap := h, procs := woken ws (procs ?k) \<rparr>)" "lists h (qmap r s d p)"
    "ws \<noteq> [] \<longrightarrow> just_removed h (elem_stat (last ws))" by blast
  have "?k\<lparr> heap := h, procs := woken ws (procs ?k) \<rparr> = k\<lparr> heap := h, procs := woken (w # ws) (procs k) \<rparr>"
  proof -
    have "woken ws (procs ?k) = woken (w # ws) (procs k)" by (auto simp: woken_def fun_eq_iff)
    then show ?thesis by (simp add: upd_proc_def)
  qed
  moreover have "just_removed h (elem_stat w)" if "ws = []"
  proof -
    have "wake_loop t ?k = Some ?k"
    proof -
      note l' = queues_is_list(2) [OF q]
      have "list_empty s_list (heap ?k) \<or> t < time_sleep (procs ?k (list_entry (list_front s_list (heap ?k))))"
        using that Cons.prems(3) list_empty_iff [OF l'] list_ends(2) [OF l'] by (cases s) auto
      then show ?thesis by (rule wake_loop_stop)
    qed
    from arg_cong [OF trans [OF sym [OF this] h(1)], of "\<lambda>x. heap (the x)"] have "h = snd (list_remove (elem_stat w) (heap k))" by simp
    then show ?thesis using just_removedI [of "heap k" s_list "[]"] l by simp
  qed
  ultimately show ?case using step h by auto
qed

section \<open>One turn of the scheduler\<close>

definition run_next :: "nat \<Rightarrow> kernel \<Rightarrow> kernel" where
  "run_next n k = switch_process (cur_process k) n
     (upd_proc n (\<lambda>p. p\<lparr> time_sched := time_sched p + 1, time_slice := 0 \<rparr>) (k\<lparr> cur_process := n \<rparr>))"

lemma run_next_sel [simp]:
  "heap (run_next n k) = heap k" "cur_process (run_next n k) = n" "ticks (run_next n k) = ticks k"
  "state (procs (run_next n k) i) = state (procs k i)" "time_sleep (procs (run_next n k) i) = time_sleep (procs k i)"
  "lock_pid_simple (run_next n k) = lock_pid_simple k" "lately_pid (run_next n k) = lately_pid k"
  "switches (run_next n k) = (cur_process k, n) # switches k"
  "time_sched (procs (run_next n k) i) = time_sched (procs k i) + (if i = n then 1 else 0)"
  "parent (procs (run_next n k) i) = parent (procs k i)" "time_slice (procs (run_next n k) n) = 0"
  by (simp_all add: run_next_def switch_process_def)

text \<open>\<open>k1\<close> is the kernel after the wake-ups.\<close>

lemma schedule_eq:
  assumes "proc_wake k = Some k1" "queues (requeue k1) r s d p"
    "n = (case r of x # _ \<Rightarrow> if state (procs k1 x) = PROC_RUN then x else cur_process k1 | [] \<Rightarrow> cur_process k1)"
  shows "schedule k = Some (run_next n (requeue k1)) \<and> queues (run_next n (requeue k1)) r s d p"
proof -
  have n: "next_loop (list_begin r_list (heap (requeue k1))) (requeue k1) = Some n"
    using next_loop_eq [OF assms(2)] unfolding assms(3) requeue_sel .
  show ?thesis
    using assms(2) by (simp add: schedule_def get_next_proc_def assms(1) n run_next_def Let_def switch_process_def)
qed

text \<open>The processes whose time has come are the front of the sorted sleep queue.\<close>

abbreviation due :: "kernel \<Rightarrow> nat \<Rightarrow> bool" where
  "due k i \<equiv> time_sleep (procs k i) \<le> ucast (ticks k)"

lemma proc_wake_eq:
  assumes "queues k r (ws @ s) d p" "\<forall>i \<in> set ws. due k i" "s \<noteq> [] \<longrightarrow> \<not> due k (hd s)"
  obtains h where "proc_wake k = Some (k\<lparr> heap := h, procs := woken ws (procs k) \<rparr>)" "lists h (qmap r s d p)"
    "ws \<noteq> [] \<longrightarrow> just_removed h (elem_stat (last ws))"
  using wake_loop_eq [OF assms(1), of "ucast (ticks k)"] assms(2,3)
  unfolding proc_wake_def get_ticks_def by (metis not_less)

lemma state_woken: "state (woken ws f i) = (if i \<in> set ws then PROC_RUN else state (f i))"
  "time_sleep (woken ws f i) = time_sleep (f i)" "time_sched (woken ws f i) = time_sched (f i)"
  "parent (woken ws f i) = parent (f i)"
  by (simp_all add: woken_def)

text \<open>A running process that gives way goes to the back of the run queue.\<close>

lemma schedule_running:
  assumes "queues k (c # b) (ws @ s) d p" "\<forall>i \<in> set ws. due k i" "s \<noteq> [] \<longrightarrow> \<not> due k (hd s)"
    and "cur_process k = c" "\<forall>i \<in> set (c # b). state (procs k i) = PROC_RUN"
  shows "\<exists>h. let k1 = k\<lparr> heap := h, procs := woken ws (procs k) \<rparr> in
    schedule k = Some (run_next (hd (b @ [c])) (requeue k1)) \<and>
    queues (run_next (hd (b @ [c])) (requeue k1)) (b @ [c]) s d p"
proof -
  obtain h where w: "proc_wake k = Some (k\<lparr> heap := h, procs := woken ws (procs k) \<rparr>)" "lists h (qmap (c # b) s d p)"
    using proc_wake_eq [OF assms(1-3)] by blast
  let ?k1 = "k\<lparr> heap := h, procs := woken ws (procs k) \<rparr>"
  have "queues (requeue ?k1) (b @ [c]) s d p"
    using queues_requeue [of ?k1 "[]" b s d p] w(2) assms(4,5) by (simp add: state_woken)
  from schedule_eq [OF w(1) this refl] show ?thesis
    using assms(4,5) by (intro exI [of _ h]) (cases b; simp add: state_woken Let_def)
qed

text \<open>A process that has left the run queue is followed by the front of the queue.\<close>

lemma schedule_leaving:
  assumes "queues k (x # b) (ws @ s) d p" "\<forall>i \<in> set ws. due k i" "s \<noteq> [] \<longrightarrow> \<not> due k (hd s)"
    and "cur_process k \<notin> set ws" "state (procs k (cur_process k)) \<noteq> PROC_RUN" "state (procs k x) = PROC_RUN"
  shows "\<exists>h. let k1 = k\<lparr> heap := h, procs := woken ws (procs k) \<rparr> in
    schedule k = Some (run_next x k1) \<and> queues (run_next x k1) (x # b) s d p"
proof -
  obtain h where w: "proc_wake k = Some (k\<lparr> heap := h, procs := woken ws (procs k) \<rparr>)" "lists h (qmap (x # b) s d p)"
    using proc_wake_eq [OF assms(1-3)] by blast
  let ?k1 = "k\<lparr> heap := h, procs := woken ws (procs k) \<rparr>"
  have r: "requeue ?k1 = ?k1" using assms(4,5) by (simp add: requeue_def state_woken Let_def)
  then have "queues (requeue ?k1) (x # b) s d p" using w(2) by simp
  from schedule_eq [OF w(1) this refl] show ?thesis
    using assms(6) r by (intro exI [of _ h]) (simp add: state_woken Let_def)
qed

text \<open>A process that is woken by its own call is queued behind the others.\<close>

lemma schedule_woken_self:
  assumes "queues k r (ws @ [c] @ s) d p" "\<forall>i \<in> set (ws @ [c]). due k i" "s \<noteq> [] \<longrightarrow> \<not> due k (hd s)"
    and "cur_process k = c" "\<forall>i \<in> set r. state (procs k i) = PROC_RUN"
  shows "\<exists>h. let k1 = k\<lparr> heap := h, procs := woken (ws @ [c]) (procs k) \<rparr> in
    schedule k = Some (run_next (hd (r @ [c])) (requeue k1)) \<and>
    queues (run_next (hd (r @ [c])) (requeue k1)) (r @ [c]) s d p"
proof -
  have q: "queues k r ((ws @ [c]) @ s) d p" using assms(1) by simp
  obtain h where w: "proc_wake k = Some (k\<lparr> heap := h, procs := woken (ws @ [c]) (procs k) \<rparr>)" "lists h (qmap r s d p)"
    "just_removed h (elem_stat c)"
    using proc_wake_eq [OF q assms(2,3)] by (metis last_snoc snoc_eq_iff_butlast)
  let ?k1 = "k\<lparr> heap := h, procs := woken (ws @ [c]) (procs k) \<rparr>"
  have "c \<notin> set r \<union> set s \<union> set d" using queues_distinct [OF q] by auto
  then have "free h (qmap r s d p) (elem_stat c)"
    using w(3) by (intro free_statI) (simp_all add: just_removed_def)
  from lists_push_back [OF w(2) qmap_lists(1) this]
  have "lists (list_push_back r_list (elem_stat c) h) (qmap (r @ [c]) s d p)"
    using qmap_upd(1) [of r s d p "r @ [c]"] by simp
  then have "queues (requeue ?k1) (r @ [c]) s d p"
    using assms(4) by (simp add: requeue_def state_woken list_remove_just_removed [OF w(3)] Let_def)
  from schedule_eq [OF w(1) this refl] show ?thesis
    using assms(4,5) by (intro exI [of _ h]) (cases r; simp add: state_woken Let_def)
qed

end
