(* ===== verification/Sched_Runs.thy ===== *)
theory Sched_Runs
  imports Sched_Spec
begin

text \<open>
  Runs of the scheduler: the invariant of the queues under every operation but blocking, the
  round robin, and the two faults: a sleeping process never runs again, and a blocked process
  is never left.
\<close>

section \<open>Events\<close>

datatype sched_event =
    Tick
  | Preempt
  | Sleep Bit32u
  | End
  | Idle_turn
  | Create nat "Bit32u option" Bit32u Bit32u

fun sched_step :: "sched_event \<Rightarrow> kernel \<Rightarrow> kernel option" where
  "sched_step Tick k = Some (timer_handler k)"
| "sched_step Preempt k = schedule k"
| "sched_step (Sleep n) k = proc_sleep n k"
| "sched_step End k = proc_end k"
| "sched_step Idle_turn k = idle_turn k"
| "sched_step (Create idx opt st dir) k = map_option snd (proc_create idx opt st dir k)"

text \<open>
  What a process may do: the idle process 0 neither sleeps nor ends and is the only one that takes
  ended processes away, a wake-up time does not overflow, and a process is created only while a
  slot is free.
\<close>

fun legal :: "kernel \<Rightarrow> sched_event \<Rightarrow> bool" where
  "legal k (Sleep n) \<longleftrightarrow> cur_process k \<noteq> 0 \<and> unat n + unat (ticks k) < 2 ^ 32"
| "legal k End \<longleftrightarrow> cur_process k \<noteq> 0"
| "legal k Idle_turn \<longleftrightarrow> cur_process k = 0"
| "legal k (Create idx opt st dir) \<longleftrightarrow> (\<exists>i < PROC_NUM_MAX. state (procs k i) = PROC_UNUSED)"
| "legal k _ \<longleftrightarrow> True"

inductive sched_run :: "kernel \<Rightarrow> kernel \<Rightarrow> bool" for k0 where
  start: "sched_run k0 k0"
| step: "sched_run k0 k \<Longrightarrow> legal k e \<Longrightarrow> sched_step e k = Some k' \<Longrightarrow> sched_run k0 k'"

section \<open>The invariant\<close>

definition in_order :: "kernel \<Rightarrow> nat list \<Rightarrow> bool" where
  "in_order k s \<longleftrightarrow> sorted_wrt (\<lambda>i j. time_sleep (procs k i) \<le> time_sleep (procs k j)) s"

definition in_state :: "kernel \<Rightarrow> p_state \<Rightarrow> nat list \<Rightarrow> bool" where
  "in_state k st xs \<longleftrightarrow> (\<forall>i \<in> set xs. state (procs k i) = st)"

definition ready :: "kernel \<Rightarrow> nat list \<Rightarrow> nat list \<Rightarrow> nat list \<Rightarrow> nat list \<Rightarrow> bool" where
  "ready k r s d p \<longleftrightarrow> queues k r s d p \<and> 0 \<in> set r \<and>
     in_state k PROC_RUN r \<and> in_state k PROC_STOP s \<and> in_state k PROC_ZOMBIE d \<and> in_order k s \<and>
     set r \<union> set s \<union> set d \<subseteq> set p \<and> set p = {i. i < PROC_NUM_MAX \<and> state (procs k i) \<noteq> PROC_UNUSED} \<and>
     lock_pid_simple k = 0 \<and> - 1 \<le> lately_pid k"

text \<open>Between two calls the current process is the first of the run queue.\<close>

definition kernel_ok :: "kernel \<Rightarrow> nat list \<Rightarrow> nat list \<Rightarrow> nat list \<Rightarrow> nat list \<Rightarrow> bool" where
  "kernel_ok k r s d p \<longleftrightarrow> ready k r s d p \<and> cur_process k = hd r"

lemma kernel_okD:
  assumes "kernel_ok k r s d p"
  shows "queues k r s d p" "0 \<in> set r" "cur_process k = hd r" "in_state k PROC_RUN r" "in_state k PROC_STOP s"
    "in_state k PROC_ZOMBIE d" "in_order k s" "set r \<union> set s \<union> set d \<subseteq> set p"
    "set p = {i. i < PROC_NUM_MAX \<and> state (procs k i) \<noteq> PROC_UNUSED}" "lock_pid_simple k = 0" "- 1 \<le> lately_pid k"
  using assms unfolding kernel_ok_def ready_def by blast+

lemma in_order_split:
  assumes "in_order k s"
  obtains ws s' where "s = ws @ s'" "\<forall>i \<in> set ws. due k i" "s' \<noteq> [] \<longrightarrow> \<not> due k (hd s')" "in_order k s'"
proof
  show "s = takeWhile (due k) s @ dropWhile (due k) s" by simp
  show "\<forall>i \<in> set (takeWhile (due k) s). due k i" by (blast dest: set_takeWhileD)
  show "dropWhile (due k) s \<noteq> [] \<longrightarrow> \<not> due k (hd (dropWhile (due k) s))" using hd_dropWhile by blast
  show "in_order k (dropWhile (due k) s)"
    using assms unfolding in_order_def by (metis sorted_wrt_append takeWhile_dropWhile_id)
qed

text \<open>The state of a process after the wake-ups and the choice of the next one.\<close>

lemma in_state_mono: "in_state k st xs \<Longrightarrow> set ys \<subseteq> set xs \<Longrightarrow> in_state k st ys"
  by (auto simp: in_state_def)

lemma in_order_cong: "(\<And>i. time_sleep (procs k' i) = time_sleep (procs k i)) \<Longrightarrow> in_order k' s = in_order k s"
  by (simp add: in_order_def)

text \<open>A turn that wakes \<open>ws\<close> keeps the invariant, whatever the caller did to the run queue.\<close>

lemma kernel_ok_turn:
  assumes "queues k' r s d p" "0 \<in> set r" "cur_process k' = hd r"
    and "\<And>i. state (procs k' i) = (if i \<in> set ws then PROC_RUN else state (procs k i))"
    and "\<And>i. time_sleep (procs k' i) = time_sleep (procs k i)"
    and "\<forall>i \<in> set r. i \<in> set ws \<or> state (procs k i) = PROC_RUN" "in_state k PROC_STOP s" "in_state k PROC_ZOMBIE d"
    and "set ws \<inter> (set s \<union> set d) = {}" "set ws \<subseteq> set p" "in_order k s" "set r \<union> set s \<union> set d \<subseteq> set p"
    and "set p = {i. i < PROC_NUM_MAX \<and> state (procs k i) \<noteq> PROC_UNUSED}"
    and "lock_pid_simple k' = 0" "- 1 \<le> lately_pid k'"
  shows "kernel_ok k' r s d p"
proof -
  have "in_state k' PROC_RUN r" using assms(4,6) by (auto simp: in_state_def)
  moreover have "in_state k' PROC_STOP s" "in_state k' PROC_ZOMBIE d"
    using assms(4,7-9) by (auto simp: in_state_def)
  moreover have "in_order k' s" using assms(11) in_order_cong [of k' k s] assms(5) by simp
  moreover have "set p = {i. i < PROC_NUM_MAX \<and> state (procs k' i) \<noteq> PROC_UNUSED}"
    using assms(4,10,13) by auto
  ultimately show ?thesis using assms by (simp add: kernel_ok_def ready_def)
qed

section \<open>Preemption\<close>

lemma kernel_ok_preempt:
  assumes "kernel_ok k (c # b) s d p"
  shows "\<exists>k' ws s'. schedule k = Some k' \<and> s = ws @ s' \<and> (\<forall>i \<in> set ws. due k i) \<and>
    (s' \<noteq> [] \<longrightarrow> \<not> due k (hd s')) \<and> kernel_ok k' (b @ [c]) s' d p \<and>
    ticks k' = ticks k \<and>
    (\<forall>i. time_sched (procs k' i) = time_sched (procs k i) + (if i = hd (b @ [c]) then 1 else 0)) \<and>
    (\<forall>i. parent (procs k' i) = parent (procs k i)) \<and> time_slice (procs k' (hd (b @ [c]))) = 0"
proof -
  note ok = kernel_okD [OF assms]
  obtain ws s' where s: "s = ws @ s'" "\<forall>i \<in> set ws. due k i" "s' \<noteq> [] \<longrightarrow> \<not> due k (hd s')" "in_order k s'"
    using in_order_split [OF ok(7)] by blast
  have c: "cur_process k = c" using ok(3) by simp
  have run: "\<forall>i \<in> set (c # b). state (procs k i) = PROC_RUN" using ok(4) by (simp add: in_state_def)
  obtain h where h: "schedule k = Some (run_next (hd (b @ [c])) (requeue (k\<lparr> heap := h, procs := woken ws (procs k) \<rparr>)))"
    "queues (run_next (hd (b @ [c])) (requeue (k\<lparr> heap := h, procs := woken ws (procs k) \<rparr>))) (b @ [c]) s' d p"
    using schedule_running [of k c b ws s' d p] ok(1) s c run unfolding Let_def by blast
  note q = queues_distinct [OF ok(1)]
  have "kernel_ok (run_next (hd (b @ [c])) (requeue (k\<lparr> heap := h, procs := woken ws (procs k) \<rparr>))) (b @ [c]) s' d p"
  proof (rule kernel_ok_turn [OF h(2), where k = k and ws = ws])
    show "in_state k PROC_STOP s'" using ok(5) s(1) by (simp add: in_state_def)
    show "set ws \<inter> (set s' \<union> set d) = {}" using q s(1) by auto
  qed (use ok s run in \<open>auto simp: state_woken\<close>)
  then show ?thesis using h s by (auto simp: state_woken)
qed

section \<open>Leaving the run queue\<close>

lemma readyD:
  assumes "ready k r s d p"
  shows "queues k r s d p" "0 \<in> set r" "in_state k PROC_RUN r" "in_state k PROC_STOP s" "in_state k PROC_ZOMBIE d"
    "in_order k s" "set r \<union> set s \<union> set d \<subseteq> set p"
    "set p = {i. i < PROC_NUM_MAX \<and> state (procs k i) \<noteq> PROC_UNUSED}" "lock_pid_simple k = 0" "- 1 \<le> lately_pid k"
  using assms unfolding ready_def by blast+

lemma kernel_ok_leave:
  assumes "ready k b s d p" "state (procs k (cur_process k)) \<noteq> PROC_RUN" "cur_process k \<in> set s \<longrightarrow> \<not> due k (cur_process k)"
  shows "\<exists>k' ws s'. schedule k = Some k' \<and> s = ws @ s' \<and> (\<forall>i \<in> set ws. due k i) \<and> kernel_ok k' b s' d p"
proof -
  note f = readyD [OF assms(1)]
  obtain ws s' where s: "s = ws @ s'" "\<forall>i \<in> set ws. due k i" "s' \<noteq> [] \<longrightarrow> \<not> due k (hd s')" "in_order k s'"
    using in_order_split [OF f(6)] by blast
  have cw: "cur_process k \<notin> set ws" using s(1,2) assms(3) by auto
  obtain x b' where b: "b = x # b'" using f(2) by (cases b) auto
  have qs: "queues k (x # b') (ws @ s') d p" using f(1) s(1) b by simp
  have x: "state (procs k x) = PROC_RUN" using f(3) b by (simp add: in_state_def)
  obtain h' where h': "schedule k = Some (run_next x (k\<lparr> heap := h', procs := woken ws (procs k) \<rparr>))"
    "queues (run_next x (k\<lparr> heap := h', procs := woken ws (procs k) \<rparr>)) b s' d p"
    using schedule_leaving [OF qs s(2,3) cw assms(2) x] b unfolding Let_def by blast
  have "kernel_ok (run_next x (k\<lparr> heap := h', procs := woken ws (procs k) \<rparr>)) b s' d p"
  proof (rule kernel_ok_turn [OF h'(2), where k = k and ws = ws])
    show "in_state k PROC_STOP s'" using f(4) s(1) by (simp add: in_state_def)
    show "set ws \<inter> (set s' \<union> set d) = {}" using queues_distinct [OF qs] by auto
    show "set ws \<subseteq> set p" "set b \<union> set s' \<union> set d \<subseteq> set p" using f(7) s(1) by auto
    show "set p = {i. i < PROC_NUM_MAX \<and> state (procs k i) \<noteq> PROC_UNUSED}" by (rule f(8))
  qed (use b s(4) f(2,3,5,9,10) in \<open>simp_all add: state_woken in_state_def\<close>)
  then show ?thesis using h'(1) s(1,2) by blast
qed

section \<open>Sleeping\<close>

text \<open>An ordered insertion of an element that is in another list moves it.\<close>

lemma list_insert_ordered_moves:
  assumes "lists h m" "m l0 = Some (xs @ e # ys)" "m l = Some zs" "l \<noteq> l0"
  shows "\<exists>h'. list_insert_ordered lt l e h = Some h' \<and> lists h' (m(l0 \<mapsto> xs @ ys, l \<mapsto> insort_by lt e zs))"
proof -
  let ?h = "snd (list_remove e h)"
  note rm = lists_remove [OF assms(1,2)]
  have m: "(m(l0 \<mapsto> xs @ ys)) l = Some zs" using assms(3,4) by simp
  have l: "is_list h l zs" "is_list ?h l zs" "is_list h l0 (xs @ e # ys)"
    using assms(1,2,3) rm(1) m unfolding lists_def by blast+
  have "ordered_loop lt l e (list_begin l h) h = ordered_loop lt l e (list_begin l ?h) ?h"
    using ordered_loop_eq [of h l "[]" zs] ordered_loop_eq [of ?h l "[]" zs] l list_ends [OF l(1)] list_ends [OF l(2)]
    by simp
  then have "list_insert_ordered lt l e h = list_insert_ordered lt l e ?h"
    using list_insert_moves [OF l(3)] unfolding list_insert_ordered_def by simp
  then show ?thesis using lists_insert_ordered [OF rm(1) m rm(2)] by simp
qed

lemma insort_by_map:
  "insort_by (\<lambda>a b. lt (g a) (g b)) (f c) (map f xs) =
    map f (takeWhile (\<lambda>x. \<not> lt c x) xs @ c # dropWhile (\<lambda>x. \<not> lt c x) xs)" if "\<And>x. g (f x) = x"
  using that by (simp add: insort_by_def takeWhile_map dropWhile_map comp_def)

text \<open>Where the sleeper is put, as a place in the queue.\<close>

definition put_to_sleep :: "kernel \<Rightarrow> nat \<Rightarrow> nat list \<Rightarrow> nat list" where
  "put_to_sleep k c s =
     (let later = (\<lambda>j. time_sleep (procs k c) < time_sleep (procs k j))
      in takeWhile (\<lambda>j. \<not> later j) s @ c # dropWhile (\<lambda>j. \<not> later j) s)"

lemma put_to_sleep_order:
  assumes "in_order k s"
  shows "in_order k (put_to_sleep k c s)"
proof -
  let ?lt = "\<lambda>i j. time_sleep (procs k i) < time_sleep (procs k j)"
  have "weak_order ?lt" unfolding weak_order_def by auto
  moreover have "sorted_by ?lt s" using assms by (simp add: in_order_def sorted_by_def not_less)
  ultimately have "sorted_by ?lt (insort_by ?lt c s)" by (rule sorted_insort_by)
  then show ?thesis
    by (simp add: in_order_def sorted_by_def not_less insort_by_def put_to_sleep_def Let_def)
qed

lemma set_put_to_sleep: "set (put_to_sleep k c s) = insert c (set s)"
  using takeWhile_dropWhile_id [of _ s] unfolding put_to_sleep_def Let_def
  by (metis (no_types, lifting) Un_insert_right list.simps(15) set_append)

lemma proc_sleep_insert:
  fixes n :: Bit32u
  assumes "queues k (a @ c # b) s d p" "cur_process k = c"
  defines "k1 \<equiv> upd_proc c (\<lambda>q. q\<lparr> time_sleep := ucast (n + get_ticks k), state := PROC_STOP \<rparr>) k"
  shows "\<exists>h. proc_sleep n k = schedule (k1\<lparr> heap := h \<rparr>) \<and>
    lists h (qmap (a @ b) (put_to_sleep k1 c s) d p)"
proof -
  have ins: "insort_by (less_time_sleep k1) (elem_stat c) (map elem_stat s) = map elem_stat (put_to_sleep k1 c s)"
    using insort_by_map [of list_entry elem_stat "\<lambda>i j. time_sleep (procs k1 i) < time_sleep (procs k1 j)" c s]
    by (simp add: put_to_sleep_def Let_def less_time_sleep_def [abs_def])
  have "s_list \<noteq> r_list" by (simp add: list_addrs)
  from list_insert_ordered_moves [OF assms(1), of r_list "map elem_stat a" "elem_stat c" "map elem_stat b" s_list
      "map elem_stat s", OF _ _ this, of "less_time_sleep k1"]
  obtain h where h: "list_insert_ordered (less_time_sleep k1) s_list (elem_stat c) (heap k) = Some h"
    "lists h ((qmap (a @ c # b) s d p)(r_list \<mapsto> map elem_stat a @ map elem_stat b,
       s_list \<mapsto> map elem_stat (put_to_sleep k1 c s)))"
    unfolding ins by auto
  have "(qmap (a @ c # b) s d p)(r_list \<mapsto> map elem_stat a @ map elem_stat b,
       s_list \<mapsto> map elem_stat (put_to_sleep k1 c s)) = qmap (a @ b) (put_to_sleep k1 c s) d p"
    using qmap_upd(1) [of "a @ c # b" s d p "a @ b"] by simp
  then have "lists h (qmap (a @ b) (put_to_sleep k1 c s) d p)" using h(2) by simp
  then show ?thesis using h(1) assms(2) unfolding proc_sleep_def k1_def by (auto simp: Let_def)
qed

lemma ucast_less_64: "(ucast x :: Bit64u) < ucast y \<longleftrightarrow> x < y" "(ucast x :: Bit64u) \<le> ucast y \<longleftrightarrow> x \<le> y"
  for x y :: Bit32u
  by (simp_all add: word_less_def word_le_def uint_ucast_32_64)

lemma less_add_no_wrap: "unat n + unat t < 2 ^ 32 \<Longrightarrow> n \<noteq> 0 \<Longrightarrow> t < n + t" for n t :: Bit32u
  by (simp add: word_less_nat_alt unat_word_ariths unat_gt_0)

text \<open>The kernel when \<open>proc_sleep\<close> calls the scheduler.\<close>

definition falls_asleep :: "kernel \<Rightarrow> Bit32u \<Rightarrow> nat list \<Rightarrow> nat list \<Rightarrow> nat list \<Rightarrow> nat list \<Rightarrow> kernel \<Rightarrow> bool" where
  "falls_asleep k n b s d p k2 \<longleftrightarrow> ready k2 b s d p \<and> cur_process k2 = cur_process k \<and> ticks k2 = ticks k \<and>
     time_sleep (procs k2 (cur_process k)) = ucast (n + ticks k) \<and> state (procs k2 (cur_process k)) = PROC_STOP"

lemma falls_asleepD:
  assumes "falls_asleep k n b s d p k2"
  shows "queues k2 b s d p" "in_order k2 s" "cur_process k2 = cur_process k" "ticks k2 = ticks k"
    "time_sleep (procs k2 (cur_process k)) = ucast (n + ticks k)" "state (procs k2 (cur_process k)) = PROC_STOP"
    "0 \<in> set b" "in_state k2 PROC_RUN b" "in_state k2 PROC_STOP s" "in_state k2 PROC_ZOMBIE d"
    "set b \<union> set s \<union> set d \<subseteq> set p" "set p = {i. i < PROC_NUM_MAX \<and> state (procs k2 i) \<noteq> PROC_UNUSED}"
    "lock_pid_simple k2 = 0" "- 1 \<le> lately_pid k2"
  using assms unfolding falls_asleep_def ready_def by blast+

text \<open>The sleeper's place: behind those that wake no later.\<close>

lemma put_to_sleep_split:
  obtains u v where "put_to_sleep k c s = u @ [c] @ v" "set v \<subseteq> set s"
    "\<forall>i \<in> set (u @ [c]). time_sleep (procs k i) \<le> time_sleep (procs k c)"
    "v \<noteq> [] \<longrightarrow> time_sleep (procs k c) < time_sleep (procs k (hd v))"
proof
  let ?later = "\<lambda>j. time_sleep (procs k c) < time_sleep (procs k j)"
  show "put_to_sleep k c s = takeWhile (\<lambda>j. \<not> ?later j) s @ [c] @ dropWhile (\<lambda>j. \<not> ?later j) s"
    by (simp add: put_to_sleep_def)
  show "set (dropWhile (\<lambda>j. \<not> ?later j) s) \<subseteq> set s" by (blast dest: set_dropWhileD)
  show "\<forall>i \<in> set (takeWhile (\<lambda>j. \<not> ?later j) s @ [c]). time_sleep (procs k i) \<le> time_sleep (procs k c)"
    by (auto dest: set_takeWhileD)
  show "dropWhile (\<lambda>j. \<not> ?later j) s \<noteq> [] \<longrightarrow> ?later (hd (dropWhile (\<lambda>j. \<not> ?later j) s))"
    using hd_dropWhile [of "\<lambda>j. \<not> ?later j" s] by blast
qed

lemma falls_asleep_ex:
  assumes "kernel_ok k (c # b) s d p" "c \<noteq> 0"
  obtains k2 s2 where "proc_sleep n k = schedule k2" "falls_asleep k n b s2 d p k2" "set s2 = insert c (set s)"
    "n = 0 \<longrightarrow> (\<exists>u v. s2 = u @ [c] @ v \<and> set v \<subseteq> set s \<and> (\<forall>i \<in> set (u @ [c]). due k2 i) \<and> (v \<noteq> [] \<longrightarrow> \<not> due k2 (hd v)))"
proof -
  note ok = kernel_okD [OF assms(1)]
  note q = queues_distinct [OF ok(1)]
  have c: "cur_process k = c" using ok(3) by simp
  let ?k1 = "upd_proc c (\<lambda>q. q\<lparr> time_sleep := ucast (n + ticks k), state := PROC_STOP \<rparr>) k"
  let ?s = "put_to_sleep ?k1 c s"
  obtain h where h: "proc_sleep n k = schedule (?k1\<lparr> heap := h \<rparr>)" "lists h (qmap b ?s d p)"
    using proc_sleep_insert [of k "[]" c b s d p n] ok(1) c by (auto simp: get_ticks_def)
  have cs: "c \<notin> set s" "c \<notin> set b" "c \<notin> set d" "c \<in> set p" using q ok(8) by auto
  have "in_order ?k1 s" using ok(7) cs(1) unfolding in_order_def by (auto intro: sorted_wrt_mono_rel [rotated])
  then have "in_order ?k1 ?s" by (rule put_to_sleep_order)
  then have "in_order (?k1\<lparr> heap := h \<rparr>) ?s" by (simp add: in_order_def)
  moreover have "in_state (?k1\<lparr> heap := h \<rparr>) PROC_RUN b" "in_state (?k1\<lparr> heap := h \<rparr>) PROC_STOP ?s"
    "in_state (?k1\<lparr> heap := h \<rparr>) PROC_ZOMBIE d"
    using ok(4-6) cs by (auto simp: in_state_def set_put_to_sleep)
  moreover have "set p = {i. i < PROC_NUM_MAX \<and> state (procs (?k1\<lparr> heap := h \<rparr>) i) \<noteq> PROC_UNUSED}"
    using ok(9) cs(4) by auto
  moreover have "set b \<union> set ?s \<union> set d \<subseteq> set p" using ok(8) cs(4) by (auto simp: set_put_to_sleep)
  ultimately have f: "falls_asleep k n b ?s d p (?k1\<lparr> heap := h \<rparr>)"
    using h(2) ok(2,10,11) assms(2) c by (simp add: falls_asleep_def ready_def)
  obtain u v where uv: "?s = u @ [c] @ v" "set v \<subseteq> set s"
    "\<forall>i \<in> set (u @ [c]). time_sleep (procs ?k1 i) \<le> time_sleep (procs ?k1 c)"
    "v \<noteq> [] \<longrightarrow> time_sleep (procs ?k1 c) < time_sleep (procs ?k1 (hd v))"
    by (rule put_to_sleep_split)
  have "n = 0 \<Longrightarrow> time_sleep (procs ?k1 c) = ucast (ticks k)" by simp
  then have "n = 0 \<longrightarrow> (\<forall>i \<in> set (u @ [c]). due (?k1\<lparr> heap := h \<rparr>) i) \<and> (v \<noteq> [] \<longrightarrow> \<not> due (?k1\<lparr> heap := h \<rparr>) (hd v))"
    using uv(3,4) by (auto simp: not_le)
  then show ?thesis
    using that [OF h(1) f set_put_to_sleep] uv(1,2) by blast
qed

lemma kernel_ok_sleep_later:
  assumes "falls_asleep k n b s2 d p k2" "unat n + unat (ticks k) < 2 ^ 32" "n \<noteq> 0" "cur_process k \<in> set s2"
  shows "\<exists>k' s'. schedule k2 = Some k' \<and> kernel_ok k' b s' d p \<and> cur_process k \<in> set s'"
proof -
  note f = falls_asleepD [OF assms(1)]
  have nd: "\<not> due k2 (cur_process k)"
    using less_add_no_wrap [OF assms(2,3)] unfolding f(4,5) by (simp add: ucast_less_64 not_le)
  have "ready k2 b s2 d p" using assms(1) by (simp add: falls_asleep_def)
  from kernel_ok_leave [OF this] obtain k' ws s' where
    "schedule k2 = Some k'" "s2 = ws @ s'" "\<forall>i \<in> set ws. due k2 i" "kernel_ok k' b s' d p"
    using nd f(3,6) by auto
  then show ?thesis using nd assms(4) by auto
qed

lemma kernel_ok_sleep_now:
  assumes "falls_asleep k 0 b (u @ [cur_process k] @ v) d p k2" "\<forall>i \<in> set (u @ [cur_process k]). due k2 i"
    "v \<noteq> [] \<longrightarrow> \<not> due k2 (hd v)"
  shows "\<exists>k'. schedule k2 = Some k' \<and> kernel_ok k' (b @ [cur_process k]) v d p"
proof -
  note f = falls_asleepD [OF assms(1)]
  let ?c = "cur_process k"
  have run: "\<forall>i \<in> set b. state (procs k2 i) = PROC_RUN" using f(8) by (simp add: in_state_def)
  obtain h' where h': "schedule k2 = Some (run_next (hd (b @ [?c])) (requeue (k2\<lparr> heap := h', procs := woken (u @ [?c]) (procs k2) \<rparr>)))"
    "queues (run_next (hd (b @ [?c])) (requeue (k2\<lparr> heap := h', procs := woken (u @ [?c]) (procs k2) \<rparr>))) (b @ [?c]) v d p"
    using schedule_woken_self [OF f(1) assms(2,3) f(3) run] unfolding Let_def by blast
  have "kernel_ok (run_next (hd (b @ [?c])) (requeue (k2\<lparr> heap := h', procs := woken (u @ [?c]) (procs k2) \<rparr>))) (b @ [?c]) v d p"
  proof (rule kernel_ok_turn [OF h'(2), where k = k2 and ws = "u @ [?c]"])
    show "in_state k2 PROC_STOP v" using f(9) by (simp add: in_state_def)
    show "set (u @ [?c]) \<inter> (set v \<union> set d) = {}" using queues_distinct [OF f(1)] by auto
    show "in_order k2 v" using f(2) unfolding in_order_def sorted_wrt_append by blast
    show "set (u @ [?c]) \<subseteq> set p" "set (b @ [?c]) \<union> set v \<union> set d \<subseteq> set p" using f(11) by auto
    show "set p = {i. i < PROC_NUM_MAX \<and> state (procs k2 i) \<noteq> PROC_UNUSED}" by (rule f(12))
  qed (use f(7,10,13,14) run in \<open>simp_all add: state_woken\<close>)
  then show ?thesis using h'(1) by blast
qed

lemma kernel_ok_sleep:
  assumes "kernel_ok k (c # b) s d p" "c \<noteq> 0" "unat n + unat (ticks k) < 2 ^ 32"
  shows "\<exists>k' r' s'. proc_sleep n k = Some k' \<and> kernel_ok k' r' s' d p \<and>
    (if n = 0 then r' = b @ [c] \<and> set s' \<subseteq> set s else r' = b \<and> c \<in> set s')"
proof -
  obtain k2 s2 where k2: "proc_sleep n k = schedule k2" "falls_asleep k n b s2 d p k2" "set s2 = insert c (set s)"
    "n = 0 \<longrightarrow> (\<exists>u v. s2 = u @ [c] @ v \<and> set v \<subseteq> set s \<and> (\<forall>i \<in> set (u @ [c]). due k2 i) \<and> (v \<noteq> [] \<longrightarrow> \<not> due k2 (hd v)))"
    using falls_asleep_ex [OF assms(1,2)] by metis
  have c: "cur_process k = c" using kernel_okD(3) [OF assms(1)] by simp
  show ?thesis
  proof (cases "n = 0")
    case True
    then obtain u v where uv: "s2 = u @ [c] @ v" "set v \<subseteq> set s" "\<forall>i \<in> set (u @ [c]). due k2 i" "v \<noteq> [] \<longrightarrow> \<not> due k2 (hd v)"
      using k2(4) by blast
    have "falls_asleep k 0 b (u @ [c] @ v) d p k2" using k2(2) True uv(1) by simp
    from kernel_ok_sleep_now [of k b u v d p k2, unfolded c, OF this uv(3,4)] show ?thesis
      using k2(1) True uv(2) by auto
  next
    case False
    then show ?thesis
      using kernel_ok_sleep_later [OF k2(2) assms(3) False] k2(1,3) c by auto
  qed
qed

section \<open>Ending\<close>

lemma tell_parent_sel [simp]:
  "heap (tell_parent k) = heap k" "cur_process (tell_parent k) = cur_process k" "ticks (tell_parent k) = ticks k"
  "state (procs (tell_parent k) i) = state (procs k i)" "time_sleep (procs (tell_parent k) i) = time_sleep (procs k i)"
  "lock_pid_simple (tell_parent k) = lock_pid_simple k" "lately_pid (tell_parent k) = lately_pid k"
  by (simp_all add: tell_parent_def split: option.split)

lemma proc_free_sel [simp]:
  "cur_process (proc_free k) = cur_process k" "ticks (proc_free k) = ticks k"
  "state (procs (proc_free k) i) = (if i = cur_process k then PROC_ZOMBIE else state (procs k i))"
  "time_sleep (procs (proc_free k) i) = time_sleep (procs k i)"
  "lock_pid_simple (proc_free k) = lock_pid_simple k" "lately_pid (proc_free k) = lately_pid k"
  by (simp_all add: proc_free_def Let_def)

lemma ready_proc_free:
  assumes "kernel_ok k (c # b) s d p" "c \<noteq> 0"
  shows "ready (proc_free k) b s (d @ [c]) p"
proof -
  note ok = kernel_okD [OF assms(1)]
  note q = queues_distinct [OF ok(1)]
  have c: "cur_process k = c" using ok(3) by simp
  note rm = lists_remove [OF ok(1), of r_list "[]" "elem_stat c" "map elem_stat b", simplified]
  have "queues (proc_free k) b s (d @ [c]) p"
    using lists_push_back [OF rm(1) _ rm(2), of d_list "map elem_stat d"] qmap_upd(3) [of b s d p "d @ [c]"] c
    by (simp add: proc_free_def Let_def)
  moreover have "in_order (proc_free k) s" using ok(7) by (simp add: in_order_def)
  moreover have "set p = {i. i < PROC_NUM_MAX \<and> state (procs (proc_free k) i) \<noteq> PROC_UNUSED}"
    using ok(8,9) c by auto
  ultimately show ?thesis
    using ok assms(2) q c by (auto simp: ready_def in_state_def)
qed

lemma kernel_ok_end:
  assumes "kernel_ok k (c # b) s d p" "c \<noteq> 0"
  shows "\<exists>k' s'. proc_end k = Some k' \<and> kernel_ok k' b s' (d @ [c]) p \<and> set s' \<subseteq> set s"
proof -
  have "cur_process k = c" "c \<notin> set s"
    using kernel_okD(1,3) [OF assms(1)] queues_distinct [OF kernel_okD(1) [OF assms(1)]] by auto
  then show ?thesis
    using kernel_ok_leave [OF ready_proc_free [OF assms]] by (auto simp: proc_end_def)
qed

section \<open>The idle process takes ended processes away\<close>

definition reaped :: "nat list \<Rightarrow> (nat \<Rightarrow> process) \<Rightarrow> nat \<Rightarrow> process" where
  "reaped d f = (\<lambda>i. if i \<in> set d then (f i)\<lparr> state := PROC_UNUSED \<rparr> else f i)"

lemma reap_loop_eq:
  "queues k r s d p \<Longrightarrow> set d \<subseteq> set p \<Longrightarrow>
    \<exists>h. reap_loop k = Some (k\<lparr> heap := h, procs := reaped d (procs k) \<rparr>) \<and>
      lists h (qmap r s [] (filter (\<lambda>i. i \<notin> set d) p))"
proof (induction d arbitrary: k p)
  case Nil
  then show ?case
    using list_empty_iff [OF queues_is_list(3) [OF Nil.prems(1)]]
    by (intro exI [of _ "heap k"]) (simp add: reap_loop.simps reaped_def)
next
  case (Cons x d)
  have ne: "\<not> list_empty d_list (heap k)"
    using list_empty_iff [OF queues_is_list(3) [OF Cons.prems(1)]] by simp
  have pop: "fst (list_pop_front d_list (heap k)) = elem_stat x"
    "lists (snd (list_pop_front d_list (heap k))) (qmap r s d p)"
    using lists_pop_front(1,2) [OF Cons.prems(1), of d_list "elem_stat x" "map elem_stat d"]
      qmap_upd(3) [of r s "x # d" p d] by simp_all
  obtain p1 p2 where p: "p = p1 @ x # p2" using Cons.prems(2) split_list [of x p] by auto
  let ?h = "snd (list_remove (elem_all x) (snd (list_pop_front d_list (heap k))))"
  let ?k = "(upd_proc x (\<lambda>q. q\<lparr> state := PROC_UNUSED \<rparr>) k)\<lparr> heap := ?h \<rparr>"
  have q: "queues ?k r s d (p1 @ p2)"
    using lists_remove(1) [OF pop(2), of p_list "map elem_all p1" "elem_all x" "map elem_all p2"]
      qmap_upd(4) [of r s d p "p1 @ p2"] p by simp
  have x: "x \<notin> set d" "x \<notin> set (p1 @ p2)" using queues_distinct [OF Cons.prems(1)] p by auto
  then have sub: "set d \<subseteq> set (p1 @ p2)" using Cons.prems(2) p by auto
  obtain h where h: "reap_loop ?k = Some (?k\<lparr> heap := h, procs := reaped d (procs ?k) \<rparr>)"
    "lists h (qmap r s [] (filter (\<lambda>i. i \<notin> set d) (p1 @ p2)))"
    using Cons.IH [OF q sub] by blast
  have "reap_loop k = reap_loop ?k"
    using ne pop(1) by (subst reap_loop.simps) (simp add: split_def Let_def upd_proc_def)
  moreover have "reaped d (procs ?k) = reaped (x # d) (procs k)" by (auto simp: reaped_def fun_eq_iff)
  moreover have "filter (\<lambda>i. i \<notin> set (x # d)) p = filter (\<lambda>i. i \<notin> set d) (p1 @ p2)"
  proof -
    have "filter (\<lambda>i. i \<notin> set (x # d)) ps = filter (\<lambda>i. i \<notin> set d) ps" if "x \<notin> set ps" for ps
      using that by (intro filter_cong) auto
    then show ?thesis using x unfolding p by simp
  qed
  ultimately show ?case using h by (auto simp: upd_proc_def)
qed

lemma kernel_ok_idle:
  assumes "kernel_ok k (0 # b) s d p"
  shows "\<exists>k' s'. idle_turn k = Some k' \<and> kernel_ok k' (b @ [0]) s' [] (filter (\<lambda>i. i \<notin> set d) p) \<and> set s' \<subseteq> set s"
proof -
  note ok = kernel_okD [OF assms]
  note q = queues_distinct [OF ok(1)]
  obtain h where h: "reap_loop k = Some (k\<lparr> heap := h, procs := reaped d (procs k) \<rparr>)"
    "lists h (qmap (0 # b) s [] (filter (\<lambda>i. i \<notin> set d) p))"
    using reap_loop_eq [OF ok(1)] ok(8) by auto
  have "kernel_ok (k\<lparr> heap := h, procs := reaped d (procs k) \<rparr>) (0 # b) s [] (filter (\<lambda>i. i \<notin> set d) p)"
    unfolding kernel_ok_def ready_def
  proof (intro conjI)
    show "set (filter (\<lambda>i. i \<notin> set d) p) =
        {i. i < PROC_NUM_MAX \<and> state (procs (k\<lparr> heap := h, procs := reaped d (procs k) \<rparr>) i) \<noteq> PROC_UNUSED}"
      using ok(9) by (auto simp: reaped_def)
    show "in_state (k\<lparr> heap := h, procs := reaped d (procs k) \<rparr>) PROC_RUN (0 # b)"
      "in_state (k\<lparr> heap := h, procs := reaped d (procs k) \<rparr>) PROC_STOP s"
      using ok(4,5) q by (auto simp: in_state_def reaped_def)
    show "in_order (k\<lparr> heap := h, procs := reaped d (procs k) \<rparr>) s"
      using ok(7) by (simp add: in_order_def reaped_def if_distrib [of time_sleep] cong: if_cong)
    show "set (0 # b) \<union> set s \<union> set [] \<subseteq> set (filter (\<lambda>i. i \<notin> set d) p)" using ok(8) q by auto
  qed (use h(2) ok(3,10,11) in \<open>simp_all add: in_state_def\<close>)
  from kernel_ok_preempt [OF this] obtain k' ws s' where
    "schedule (k\<lparr> heap := h, procs := reaped d (procs k) \<rparr>) = Some k'" "s = ws @ s'"
    "kernel_ok k' (b @ [0]) s' [] (filter (\<lambda>i. i \<notin> set d) p)" by blast
  then show ?thesis using h(1) by (intro exI [of _ k'] exI [of _ s']) (simp add: idle_turn_def)
qed

section \<open>Creation\<close>

lemma lists_frame:
  assumes "lists h m"
    "\<And>l xs n. m l = Some xs \<Longrightarrow> n \<in> set (nodes l xs) \<Longrightarrow> next_ptr h' n = next_ptr h n \<and> prev_ptr h' n = prev_ptr h n"
  shows "lists h' m"
  using assms is_list_frame [of h _ _ h'] unfolding lists_def by metis

definition slot :: "kernel \<Rightarrow> nat \<Rightarrow> nat" where
  "slot k i = nat ((int i + lately_pid k + 1) mod int PROC_NUM_MAX)"

lemma pid_loop_found:
  "\<exists>j < n. state (procs k (slot k (i + j))) = PROC_UNUSED \<Longrightarrow>
    fst (pid_loop n i r k) = lately_pid k + 1 \<and> state (procs k (snd (pid_loop n i r k))) = PROC_UNUSED \<and>
    snd (pid_loop n i r k) < PROC_NUM_MAX"
proof (induction n arbitrary: i)
  case (Suc n)
  show ?case
  proof (cases "state (procs k (slot k i)) = PROC_UNUSED")
    case True
    then show ?thesis by (simp add: slot_def PROC_NUM_MAX_def Let_def)
  next
    case False
    obtain j where j: "j < Suc n" "state (procs k (slot k (i + j))) = PROC_UNUSED" using Suc.prems by blast
    then obtain j' where "j = Suc j'" using False by (cases j) auto
    then have "\<exists>j < n. state (procs k (slot k (i + 1 + j))) = PROC_UNUSED" using j by auto
    then show ?thesis using Suc.IH False by (simp add: slot_def Let_def)
  qed
qed simp

lemma pid_loop_first:
  assumes "state (procs k (slot k 0)) = PROC_UNUSED"
  shows "pid_loop PROC_NUM_MAX 0 r k = (lately_pid k + 1, slot k 0)"
proof -
  have "pid_loop (Suc n) 0 r k = (lately_pid k + 1, slot k 0)" for n
    using assms by (simp add: slot_def Let_def)
  moreover have "PROC_NUM_MAX = Suc 15" by (simp add: PROC_NUM_MAX_def)
  ultimately show ?thesis by metis
qed

lemma slot_surj: "x < PROC_NUM_MAX \<Longrightarrow> \<exists>j < PROC_NUM_MAX. slot k j = x"
proof (intro exI conjI)
  assume "x < PROC_NUM_MAX"
  let ?j = "nat ((int x - lately_pid k - 1) mod 16)"
  show "?j < PROC_NUM_MAX" by (simp add: PROC_NUM_MAX_def nat_less_iff)
  have "((int x - lately_pid k - 1) mod 16 + (lately_pid k + 1)) mod 16 =
      (int x - lately_pid k - 1 + (lately_pid k + 1)) mod 16" by (rule mod_add_left_eq)
  moreover have "int ?j = (int x - lately_pid k - 1) mod 16" by simp
  ultimately have "(int ?j + lately_pid k + 1) mod 16 = int x mod 16" by (simp add: algebra_simps)
  then show "slot k ?j = x" using \<open>x < PROC_NUM_MAX\<close> by (simp add: slot_def PROC_NUM_MAX_def)
qed

lemma getValidPid_eq:
  assumes "lock_pid_simple k = 0" "- 1 \<le> lately_pid k" "\<exists>i < PROC_NUM_MAX. state (procs k i) = PROC_UNUSED"
  obtains i where "getValidPid idx k = Some ((lately_pid k + 1, i), k\<lparr> lately_pid := lately_pid k + 1 \<rparr>)"
    "i < PROC_NUM_MAX" "state (procs k i) = PROC_UNUSED"
proof -
  let ?k = "k\<lparr> lock_pid_simple := lock_pid_simple k + 1 \<rparr>"
  have "\<exists>j < PROC_NUM_MAX. state (procs ?k (slot ?k (0 + j))) = PROC_UNUSED"
    using assms(3) slot_surj [of _ ?k] by fastforce
  from pid_loop_found [OF this, of "(- 1, idx)"] have f:
    "fst (pid_loop PROC_NUM_MAX 0 (- 1, idx) ?k) = lately_pid k + 1"
    "state (procs k (snd (pid_loop PROC_NUM_MAX 0 (- 1, idx) ?k))) = PROC_UNUSED"
    "snd (pid_loop PROC_NUM_MAX 0 (- 1, idx) ?k) < PROC_NUM_MAX" by simp_all
  have "getValidPid idx k = Some ((lately_pid k + 1, snd (pid_loop PROC_NUM_MAX 0 (- 1, idx) ?k)),
      k\<lparr> lately_pid := lately_pid k + 1 \<rparr>)"
    using assms(1,2) f(1) by (simp add: getValidPid_def split_def Let_def prod_eq_iff)
  then show ?thesis using that f by blast
qed

lemma free_fresh:
  assumes "queues k r s d p" "i \<notin> set p" "set r \<union> set s \<union> set d \<subseteq> set p"
  defines "h \<equiv> set_next (elem_stat i) 0 (set_prev (elem_stat i) 0 (set_next (elem_all i) 0 (set_prev (elem_all i) 0 (heap k))))"
  shows "lists h (qmap r s d p)" "detached h (elem_stat i)" "detached h (elem_all i)"
proof -
  show "detached h (elem_stat i)" "detached h (elem_all i)" by (simp_all add: detached_def h_def)
  show "lists h (qmap r s d p)"
  proof (rule lists_frame [OF assms(1)])
    fix l xs n assume l: "qmap r s d p l = Some xs" "n \<in> set (nodes l xs)"
    have "elem_stat i \<notin> set (nodes l xs)" "elem_all i \<notin> set (nodes l xs)"
      using qmap_SomeD [OF l(1)] assms(2,3) by (auto simp: in_nodes)
    then have "n \<noteq> elem_stat i" "n \<noteq> elem_all i" using l(2) by auto
    then show "next_ptr h n = next_ptr (heap k) n \<and> prev_ptr h n = prev_ptr (heap k) n"
      by (simp add: h_def)
  qed
qed

text \<open>Pushing onto the list of all processes leaves the other element of the process as it is.\<close>

lemma detached_push_back:
  assumes "is_list h l xs" "detached h e" "e \<notin> set (nodes l xs)" "f \<noteq> e" "f \<notin> set (nodes l xs)"
    "prev_ptr h f = 0" "next_ptr h f = 0"
  shows "detached (list_push_back l e h) f"
proof -
  have p: "prev_ptr h (tail l) = before_node l xs"
    using is_list_links(2) [of h l xs "[]"] assms(1) by simp
  have n: "tail l \<in> set (nodes l xs)" "before_node l xs \<in> set (nodes l xs)"
    using neighbours_in_nodes(1) [where l = l and xs = xs and ys = "[]"] by (simp_all add: nodes_def)
  then have "tail l \<noteq> e" "before_node l xs \<noteq> e" "tail l \<noteq> f" "before_node l xs \<noteq> f"
    using assms(3,5) by auto
  then show ?thesis
    using assms(4,6,7) list_insert_links [OF assms(2) _ p [symmetric]]
    by (simp add: detached_def list_push_back_def list_end_def)
qed

lemma kernel_ok_create:
  assumes "kernel_ok k r s d p" "\<exists>i < PROC_NUM_MAX. state (procs k i) = PROC_UNUSED"
  shows "\<exists>k' i. proc_create idx opt st dir k = Some (lately_pid k + 1, k') \<and> i \<notin> set p \<and>
    kernel_ok k' (r @ [i]) s d (p @ [i]) \<and> ticks k' = ticks k \<and> stack (procs k' i) = st \<and> pd (procs k' i) = dir \<and>
    parent (procs k' i) = Some (cur_process k)"
proof -
  note ok = kernel_okD [OF assms(1)]
  obtain i where i: "getValidPid idx k = Some ((lately_pid k + 1, i), k\<lparr> lately_pid := lately_pid k + 1 \<rparr>)"
    "i < PROC_NUM_MAX" "state (procs k i) = PROC_UNUSED"
    using getValidPid_eq [OF ok(10,11) assms(2)] by blast
  have ip: "i \<notin> set p" using i(3) ok(9) by simp
  let ?h = "set_next (elem_stat i) 0 (set_prev (elem_stat i) 0 (set_next (elem_all i) 0 (set_prev (elem_all i) 0 (heap k))))"
  note fr = free_fresh [OF ok(1) ip ok(8)]
  let ?h1 = "list_push_back p_list (elem_all i) ?h"
  have l1: "lists ?h1 (qmap r s d (p @ [i]))"
    using lists_push_back [OF fr(1) _ free_allI [OF fr(3) ip], of p_list] qmap_upd(4) [of r s d p "p @ [i]"] by simp
  have "detached ?h1 (elem_stat i)"
  proof (rule detached_push_back [OF _ fr(3)])
    show "is_list ?h p_list (map elem_all p)" using fr(1) by (simp add: lists_def)
  qed (use ip in \<open>simp_all add: in_nodes\<close>)
  then have "free ?h1 (qmap r s d (p @ [i])) (elem_stat i)" using ip ok(8) by (intro free_statI) auto
  from lists_push_back [OF l1 _ this, of r_list]
  have l2: "lists (list_push_back r_list (elem_stat i) ?h1) (qmap (r @ [i]) s d (p @ [i]))"
    using qmap_upd(1) [of r s d "p @ [i]" "r @ [i]"] by simp
  obtain k' where k': "proc_create idx opt st dir k = Some (lately_pid k + 1, k')"
    "heap k' = list_push_back r_list (elem_stat i) ?h1" "cur_process k' = cur_process k"
    "\<And>j. state (procs k' j) = (if j = i then PROC_RUN else state (procs k j))"
    "\<And>j. time_sleep (procs k' j) = time_sleep (procs k j)"
    "lock_pid_simple k' = lock_pid_simple k" "lately_pid k' = lately_pid k + 1" "ticks k' = ticks k"
    "stack (procs k' i) = st" "pd (procs k' i) = dir" "parent (procs k' i) = Some (cur_process k)"
    by (simp add: proc_create_def i(1) Let_def)
  have "r \<noteq> []" using ok(2) by auto
  then have "kernel_ok k' (r @ [i]) s d (p @ [i])"
    using ok ip l2 k'(2-) i(2) by (auto simp: kernel_ok_def ready_def in_state_def in_order_def)
  then show ?thesis using k'(1,8-11) ip by blast
qed

section \<open>Every step\<close>

lemma timer_handler_sel [simp]:
  "heap (timer_handler k) = heap k" "cur_process (timer_handler k) = cur_process k"
  "state (procs (timer_handler k) i) = state (procs k i)" "time_sleep (procs (timer_handler k) i) = time_sleep (procs k i)"
  "lock_pid_simple (timer_handler k) = lock_pid_simple k" "lately_pid (timer_handler k) = lately_pid k"
  "ticks (timer_handler k) = ticks k + 1"
  by (simp_all add: timer_handler_def do_sched_on_return_def Let_def)

text \<open>Which processes are on the way: in a queue from which they can run or be taken away.\<close>

lemma kernel_ok_step:
  assumes "kernel_ok k r s d p" "legal k e"
  shows "\<exists>k' r' s' d' p'. sched_step e k = Some k' \<and> kernel_ok k' r' s' d' p' \<and>
    (\<forall>i \<in> set p. i \<notin> set r \<union> set d \<longrightarrow> i \<in> set p' \<and> i \<notin> set r' \<union> set d')"
proof -
  note ok = kernel_okD [OF assms(1)]
  have "r \<noteq> []" using ok(2) by auto
  then obtain c b where r: "r = c # b" "cur_process k = c" using ok(3) by (cases r) auto
  note okc = assms(1) [unfolded r(1)]
  show ?thesis
  proof (cases e)
    case Tick
    have "kernel_ok (timer_handler k) r s d p"
      using ok by (simp add: kernel_ok_def ready_def in_state_def in_order_def)
    then show ?thesis using Tick by auto
  next
    case Preempt
    then show ?thesis using kernel_ok_preempt [OF okc] r by fastforce
  next
    case (Sleep n)
    then have "c \<noteq> 0" "unat n + unat (ticks k) < 2 ^ 32" using assms(2) r by simp_all
    from kernel_ok_sleep [OF okc this] obtain k' r' s' where
      "proc_sleep n k = Some k'" "kernel_ok k' r' s' d p" "set r' \<subseteq> set r"
      using r by (fastforce split: if_splits)
    then show ?thesis using Sleep by fastforce
  next
    case End
    then have "c \<noteq> 0" using assms(2) r by simp
    from kernel_ok_end [OF okc this] show ?thesis using End r by fastforce
  next
    case Idle_turn
    then have "c = 0" using assms(2) r by simp
    from kernel_ok_idle [OF okc [unfolded this]] show ?thesis using Idle_turn r \<open>c = 0\<close> by fastforce
  next
    case (Create idx opt st dir)
    then have "\<exists>i < PROC_NUM_MAX. state (procs k i) = PROC_UNUSED" using assms(2) by simp
    from kernel_ok_create [OF assms(1) this, of idx opt st dir] obtain k' i where
      "proc_create idx opt st dir k = Some (lately_pid k + 1, k')" "i \<notin> set p" "kernel_ok k' (r @ [i]) s d (p @ [i])"
      by blast
    then show ?thesis using Create by fastforce
  qed
qed

end
