(* ===== verification/Sched_Props.thy ===== *)
theory Sched_Props
  imports Sched_Runs
begin

text \<open>The properties of the scheduler, from the boot of the process table on.\<close>

section \<open>Boot\<close>

lemma init_proc_ok:
  "\<exists>k0. init_proc idx dir k = Some k0 \<and> kernel_ok k0 [0] [] [] [0] \<and> ticks k0 = ticks k"
proof -
  let ?k = "empty_table k"
  let ?h = "heap ?k"
  have h: "?h = list_init d_list (list_init s_list (list_init r_list (list_init p_list (heap k))))"
    and st: "\<And>i. i < PROC_NUM_MAX \<Longrightarrow> state (procs ?k i) = PROC_UNUSED" "\<And>i. time_sleep (procs ?k i) = time_sleep (procs k i)"
    and sel: "lock_pid_simple ?k = 0" "lately_pid ?k = - 1" "ticks ?k = ticks k"
    by (simp_all add: empty_table_def Let_def)
  have "slot (?k\<lparr> lock_pid_simple := 1 \<rparr>) 0 = 0" by (simp add: slot_def sel)
  moreover have "0 < PROC_NUM_MAX" by (simp add: PROC_NUM_MAX_def)
  ultimately have "pid_loop PROC_NUM_MAX 0 (- 1, idx) (?k\<lparr> lock_pid_simple := 1 \<rparr>) = (0, 0)"
    by (subst pid_loop_first) (simp_all add: st sel)
  then have v: "getValidPid idx ?k = Some ((0, 0), ?k\<lparr> lately_pid := 0 \<rparr>)"
    by (simp add: getValidPid_def Let_def sel)
  have "lists (heap k) Map.empty" by (simp add: lists_def)
  then have "lists (list_init p_list (heap k)) [p_list \<mapsto> []]"
    by (rule lists_init) (simp_all add: list_addrs)
  then have "lists (list_init r_list (list_init p_list (heap k))) [p_list \<mapsto> [], r_list \<mapsto> []]"
    by (rule lists_init) (auto simp: list_addrs nodes_def split: if_splits)
  then have "lists (list_init s_list (list_init r_list (list_init p_list (heap k))))
      [p_list \<mapsto> [], r_list \<mapsto> [], s_list \<mapsto> []]"
    by (rule lists_init) (auto simp: list_addrs nodes_def split: if_splits)
  then have "lists ?h [p_list \<mapsto> [], r_list \<mapsto> [], s_list \<mapsto> [], d_list \<mapsto> []]"
    unfolding h by (rule lists_init) (auto simp: list_addrs nodes_def split: if_splits)
  moreover have "[p_list \<mapsto> [], r_list \<mapsto> [], s_list \<mapsto> [], d_list \<mapsto> []] = qmap [] [] [] []"
    by (simp add: qmap_def fun_eq_iff list_addrs)
  ultimately have "lists ?h (qmap [] [] [] [])" by simp
  then have q: "queues (?k\<lparr> lately_pid := 0 \<rparr>) [] [] [] []" by simp
  let ?g = "set_next (elem_stat 0) 0 (set_prev (elem_stat 0) 0 (set_next (elem_all 0) 0 (set_prev (elem_all 0) 0 ?h)))"
  have fr: "lists ?g (qmap [] [] [] [])" "detached ?g (elem_all 0)"
    using free_fresh [OF q, of 0] by simp_all
  let ?g1 = "list_push_back p_list (elem_all 0) ?g"
  have l1: "lists ?g1 (qmap [] [] [] [0])"
    using lists_push_back [OF fr(1) _ free_allI [OF fr(2)], of p_list] qmap_upd(4) [of "[]" "[]" "[]" "[]" "[0]"] by simp
  have "detached ?g1 (elem_stat 0)"
  proof (rule detached_push_back [OF _ fr(2)])
    show "is_list ?g p_list (map elem_all [])" using fr(1) by (simp add: lists_def)
  qed (use in_nodes(2,3) [of p_list 0 "[]"] in simp_all)
  then have "free ?g1 (qmap [] [] [] [0]) (elem_stat 0)" by (intro free_statI) auto
  from lists_push_back [OF l1 _ this, of r_list]
  have l2: "lists (list_push_back r_list (elem_stat 0) ?g1) (qmap [0] [] [] [0])"
    using qmap_upd(1) [of "[]" "[]" "[]" "[0]" "[0]"] by simp
  let ?k0 = "(upd_proc 0 (\<lambda>p. p\<lparr> pid := 0, parent := None, state := PROC_RUN, priority := 0, stack := 0, pd := dir \<rparr>)
      (?k\<lparr> lately_pid := 0, cur_process := 0 \<rparr>))\<lparr> heap := list_push_back r_list (elem_stat 0) ?g1 \<rparr>"
  have i: "init_proc idx dir k = Some ?k0"
    by (simp add: init_proc_def v Let_def)
  have "kernel_ok ?k0 [0] [] [] [0]"
    using l2 st sel \<open>0 < PROC_NUM_MAX\<close> by (auto simp: kernel_ok_def ready_def in_state_def in_order_def)
  then show ?thesis using i sel by auto
qed

lemma sched_run_ok:
  assumes "sched_run k0 k" "kernel_ok k0 r s d p"
  shows "\<exists>r s d p. kernel_ok k r s d p"
  using assms by (induction rule: sched_run.induct) (blast, metis kernel_ok_step option.inject)

lemma sched_run_off:
  assumes "sched_run k0 k" "kernel_ok k0 r s d p" "i \<in> set p" "i \<notin> set r \<union> set d"
  shows "\<exists>r s d p. kernel_ok k r s d p \<and> i \<in> set p \<and> i \<notin> set r \<union> set d"
  using assms
proof (induction rule: sched_run.induct)
  case (step k e k')
  then show ?case using kernel_ok_step by (metis option.inject)
qed blast

section \<open>Turns\<close>

primrec turns :: "nat \<Rightarrow> kernel \<Rightarrow> kernel option" where
  "turns 0 k = Some k"
| "turns (Suc n) k = Option.bind (schedule k) (turns n)"

lemma turns_rotate:
  "kernel_ok k r [] d p \<Longrightarrow> \<exists>k'. turns n k = Some k' \<and> kernel_ok k' (rotate n r) [] d p"
proof (induction n arbitrary: k r)
  case (Suc n)
  have "r \<noteq> []" using kernel_okD(2) [OF Suc.prems] by auto
  then obtain c b where r: "r = c # b" by (cases r) auto
  obtain k' where k': "schedule k = Some k'" "kernel_ok k' (b @ [c]) [] d p"
    using kernel_ok_preempt [OF Suc.prems [unfolded r]] by auto
  from Suc.IH [OF k'(2)] show ?case
    using k'(1) r by (simp add: rotate1_rotate_swap)
qed simp

text \<open>The queue when its front is blocked.\<close>

lemma schedule_blocked:
  assumes "queues k (c # b) s d p" "in_order k s" "cur_process k = c" "state (procs k c) = PROC_BLOCK"
  shows "\<exists>k' s'. schedule k = Some k' \<and> queues k' (c # b) s' d p \<and> in_order k' s' \<and> cur_process k' = c \<and>
    state (procs k' c) = PROC_BLOCK \<and> (\<forall>i \<in> set b. state (procs k' i) = state (procs k i))"
proof -
  obtain ws s' where s: "s = ws @ s'" "\<forall>i \<in> set ws. due k i" "s' \<noteq> [] \<longrightarrow> \<not> due k (hd s')" "in_order k s'"
    using in_order_split [OF assms(2)] by blast
  have q: "queues k (c # b) (ws @ s') d p" using assms(1) s(1) by simp
  have cw: "c \<notin> set ws" "\<forall>i \<in> set b. i \<notin> set ws" using queues_distinct(5) [OF q] by auto
  obtain h where w: "proc_wake k = Some (k\<lparr> heap := h, procs := woken ws (procs k) \<rparr>)" "lists h (qmap (c # b) s' d p)"
    using proc_wake_eq [OF q s(2,3)] by blast
  let ?k1 = "k\<lparr> heap := h, procs := woken ws (procs k) \<rparr>"
  have rq: "requeue ?k1 = ?k1" using assms(3,4) cw by (simp add: requeue_def state_woken Let_def)
  have "queues (requeue ?k1) (c # b) s' d p" using w(2) rq by simp
  from schedule_eq [OF w(1) this refl] have "schedule k = Some (run_next c ?k1)"
    using assms(3,4) cw rq by (simp add: state_woken)
  then show ?thesis
    using w(2) s(4) assms(3,4) cw in_order_cong [of "run_next c ?k1" k s']
    by (intro exI [of _ "run_next c ?k1"] exI [of _ s']) (auto simp: state_woken)
qed

lemma turns_blocked:
  "queues k (c # b) s d p \<Longrightarrow> in_order k s \<Longrightarrow> cur_process k = c \<Longrightarrow> state (procs k c) = PROC_BLOCK \<Longrightarrow>
    \<exists>k'. turns n k = Some k' \<and> cur_process k' = c \<and> (\<forall>i \<in> set b. state (procs k' i) = state (procs k i))"
proof (induction n arbitrary: k s)
  case (Suc n)
  then show ?case using schedule_blocked [OF Suc.prems] Suc.IH by fastforce
qed simp

section \<open>Properties\<close>

text \<open>
  C1. From the boot of the process table on, whatever legal events happen, the lists are in order: every
  process on the run queue is runnable and the current one is in front, every process on the sleep queue is
  stopped, in the order of their wake-up times, and every process on the third list has ended; the idle
  process is on the run queue, a process slot is in use exactly when it is in the list of all
  processes, and every further legal event returns.  Not every runnable process is on the run queue: one
  that has been woken is on none.  The events are ticks, rescheduling, sleeping, ending, turns of the idle
  process and creation, under the conditions of \<open>legal\<close>; blocking, unblocking and the system calls \<open>exit\<close>
  and \<open>wait\<close> are not among them.
\<close>

theorem scheduler_queues_always_ok:
  assumes "init_proc idx dir k = Some k0" "sched_run k0 k1"
  shows "(\<exists>r s d p. kernel_ok k1 r s d p) \<and> (legal k1 e \<longrightarrow> sched_step e k1 \<noteq> None)"
proof -
  obtain r s d p where "kernel_ok k1 r s d p"
    using sched_run_ok [OF assms(2)] init_proc_ok [of idx dir k] assms(1) by (metis option.inject)
  moreover from kernel_ok_step [OF this] have "legal k1 e \<longrightarrow> sched_step e k1 \<noteq> None" by blast
  ultimately show ?thesis by blast
qed

definition blank_process :: process where
  "blank_process = \<lparr> pid = 0, stack = 0, pd = 0, state = PROC_UNUSED, time_sleep = 0, priority = 0, time_slice = 0,
     time_used = 0, time_sched = 0, parent = None, simple_lock = 0, child_pid = 0, exit_status = 0 \<rparr>"

definition blank_kernel :: kernel where
  "blank_kernel = \<lparr> heap = no_links, procs = (\<lambda>_. blank_process), cur_process = 0, ticks = 0, sched_on_return = False,
     lock_pid_simple = 0, lately_pid = 0, cr3 = 0, switches = [] \<rparr>"

definition booted :: kernel where
  "booted = the (init_proc 0 0 blank_kernel)"

lemma booted: "init_proc 0 0 blank_kernel = Some booted" "kernel_ok booted [0] [] [] [0]" "ticks booted = ticks blank_kernel"
  using init_proc_ok [of 0 0 blank_kernel] by (auto simp: booted_def)

theorem scheduler_queues_always_ok_witness:
  "\<exists>r s d p. kernel_ok (timer_handler booted) r s d p"
proof -
  have "sched_run booted (timer_handler booted)"
    by (rule sched_run.step [OF sched_run.start, where e = Tick]) simp_all
  from scheduler_queues_always_ok [OF booted(1) this] show ?thesis by blast
qed

text \<open>
  C4. Round robin: while nothing sleeps, the processes of the run queue become current in turn, each
  once in every round, and the queue only rotates.
\<close>

theorem scheduler_round_robin:
  assumes "kernel_ok k r [] d p"
  shows "\<exists>k'. turns n k = Some k' \<and> cur_process k' = r ! (n mod length r) \<and> kernel_ok k' (rotate n r) [] d p"
proof -
  obtain k' where k': "turns n k = Some k'" "kernel_ok k' (rotate n r) [] d p"
    using turns_rotate [OF assms] by blast
  have "r \<noteq> []" using kernel_okD(2) [OF assms] by auto
  then have "cur_process k' = r ! (n mod length r)"
    using kernel_okD(3) [OF k'(2)] by (simp add: hd_rotate_conv_nth)
  then show ?thesis using k' by blast
qed

text \<open>Two processes beside the idle one.\<close>

lemma slot_left:
  assumes "kernel_ok k r s d p" "length p < 16"
  shows "\<exists>i < PROC_NUM_MAX. state (procs k i) = PROC_UNUSED"
proof (rule ccontr)
  assume "\<not> ?thesis"
  then have "set p = {..<16}" using kernel_okD(9) [OF assms(1)] by (auto simp: PROC_NUM_MAX_def)
  then show False using assms(2) card_length [of p] by simp
qed

lemma create_run:
  assumes "sched_run k0 k" "kernel_ok k r s d p" "length p < 16"
  shows "\<exists>k' i. sched_run k0 k' \<and> kernel_ok k' (r @ [i]) s d (p @ [i]) \<and> ticks k' = ticks k"
proof -
  note sl = slot_left [OF assms(2,3)]
  obtain k' i where k': "proc_create 0 None 0 0 k = Some (lately_pid k + 1, k')" "kernel_ok k' (r @ [i]) s d (p @ [i])"
    "ticks k' = ticks k"
    using kernel_ok_create [OF assms(2) sl, of 0 None 0 0] by blast
  have "sched_run k0 k'"
    by (rule sched_run.step [OF assms(1), where e = "Create 0 None 0 0"]) (use k'(1) sl in simp_all)
  then show ?thesis using k' by blast
qed

lemma two_created: "\<exists>k i j. sched_run booted k \<and> kernel_ok k [0, i, j] [] [] [0, i, j] \<and> ticks k = 0"
proof -
  obtain k1 i where k1: "sched_run booted k1" "kernel_ok k1 [0, i] [] [] [0, i]" "ticks k1 = ticks booted"
    using create_run [OF sched_run.start booted(2)] by auto
  obtain k2 j where "sched_run booted k2" "kernel_ok k2 ([0, i] @ [j]) [] [] ([0, i] @ [j])" "ticks k2 = ticks k1"
    using create_run [OF k1(1,2)] by fastforce
  moreover have "ticks booted = 0" using booted(3) by (simp add: blank_kernel_def)
  ultimately show ?thesis using k1(3) by (metis append_Cons append_Nil)
qed

theorem scheduler_round_robin_witness:
  "\<exists>k i j k'. kernel_ok k [0, i, j] [] [] [0, i, j] \<and> turns 5 k = Some k' \<and> cur_process k' = j"
proof -
  obtain k i j where "kernel_ok k [0, i, j] [] [] [0, i, j]" using two_created by blast
  moreover from scheduler_round_robin [OF this, of 5] obtain k' where
    "turns 5 k = Some k'" "cur_process k' = [0, i, j] ! (5 mod length [0, i, j])" by blast
  moreover have "[0, i, j] ! (5 mod length [0, i, j]) = j" by simp
  ultimately show ?thesis by metis
qed

text \<open>
  C35. A process that is asleep never becomes current again in a run of legal events: \<open>proc_wake\<close> takes it
  off the sleep queue and calls it runnable, but nothing puts it back on the run queue.  (\<open>proc_unblock\<close>,
  which only the disk driver's semaphores call, is not one of the events.)
\<close>

theorem sleeper_never_runs_again:
  assumes "init_proc idx dir k = Some k0" "sched_run k0 k1" "i < PROC_NUM_MAX" "state (procs k1 i) = PROC_STOP"
    "sched_run k1 k2"
  shows "cur_process k2 \<noteq> i"
proof -
  obtain r s d p where ok: "kernel_ok k1 r s d p"
    using sched_run_ok [OF assms(2)] init_proc_ok [of idx dir k] assms(1) by (metis option.inject)
  have "i \<in> set p" "i \<notin> set r \<union> set d"
    using kernel_okD(4,6,9) [OF ok] assms(3,4) by (auto simp: in_state_def)
  from sched_run_off [OF assms(5) ok this] obtain r' s' d' p' where
    "kernel_ok k2 r' s' d' p'" "i \<notin> set r' \<union> set d'" by blast
  moreover from kernel_okD(2,3) [OF this(1)] have "cur_process k2 \<in> set r'" by (cases r') auto
  ultimately show ?thesis by auto
qed

theorem sleeper_never_runs_again_witness:
  "\<exists>k1 i. sched_run booted k1 \<and> state (procs k1 i) = PROC_STOP \<and> (\<forall>k2. sched_run k1 k2 \<longrightarrow> cur_process k2 \<noteq> i)"
proof -
  obtain k i j where k: "sched_run booted k" "kernel_ok k [0, i, j] [] [] [0, i, j]" "ticks k = 0"
    using two_created by blast
  note q = queues_distinct [OF kernel_okD(1) [OF k(2)]]
  obtain k' where k': "schedule k = Some k'" "kernel_ok k' [i, j, 0] [] [] [0, i, j]" "ticks k' = ticks k"
    using kernel_ok_preempt [OF k(2)] by auto
  have c: "cur_process k' = i" "i \<noteq> 0" using kernel_okD(3) [OF k'(2)] q by auto
  have t: "unat (1 :: Bit32u) + unat (ticks k') < 2 ^ 32" using k(3) k'(3) by simp
  have run': "sched_run booted k'" by (rule sched_run.step [OF k(1), where e = Preempt]) (use k'(1) in simp_all)
  obtain k1 r s where k1: "proc_sleep 1 k' = Some k1" "kernel_ok k1 r s [] [0, i, j]" "i \<in> set s"
    using kernel_ok_sleep [OF k'(2) c(2) t] by auto
  have run1: "sched_run booted k1" by (rule sched_run.step [OF run', where e = "Sleep 1"]) (use k1(1) c t in simp_all)
  have i: "i < PROC_NUM_MAX" "state (procs k1 i) = PROC_STOP"
    using kernel_okD(5,9) [OF k1(2)] k1(3) by (auto simp: in_state_def)
  then show ?thesis
    using run1 sleeper_never_runs_again [OF booted(1) run1 i] by blast
qed

text \<open>
  C36. A process that blocks keeps the processor: it stays at the front of the run queue, the search for
  a runnable process looks at the front only, and so every later turn picks the blocked process
  again, however many runnable processes wait behind it.
\<close>

theorem blocked_process_keeps_running:
  assumes "kernel_ok k r s d p"
  shows "\<exists>k1 k2. proc_block k = Some k1 \<and> turns n k1 = Some k2 \<and> cur_process k2 = cur_process k \<and>
    (\<forall>i \<in> set (tl r). state (procs k2 i) = PROC_RUN)"
proof -
  note ok = kernel_okD [OF assms]
  obtain c b where r: "r = c # b" "cur_process k = c" using ok(2,3) by (cases r) auto
  let ?k = "upd_proc c (\<lambda>p. p\<lparr> state := PROC_BLOCK \<rparr>) k"
  have c: "c \<notin> set b" "c \<notin> set s" using queues_distinct [OF ok(1)] r by auto
  have "in_order ?k s" using ok(7) in_order_cong [of ?k k s] by simp
  from turns_blocked [of ?k c b s d p "Suc n"] this obtain k2 where
    "turns (Suc n) ?k = Some k2" "cur_process k2 = c" "\<forall>i \<in> set b. state (procs k2 i) = state (procs ?k i)"
    using ok(1) r by auto
  then show ?thesis
    using ok(4) r c by (cases "schedule ?k") (auto simp: proc_block_def in_state_def)
qed

theorem blocked_process_keeps_running_witness:
  "\<exists>k i j k1 k2. kernel_ok k [0, i, j] [] [] [0, i, j] \<and> proc_block k = Some k1 \<and> turns 7 k1 = Some k2 \<and>
     cur_process k2 = 0 \<and> state (procs k2 j) = PROC_RUN"
proof -
  obtain k i j where k: "kernel_ok k [0, i, j] [] [] [0, i, j]" using two_created by blast
  from blocked_process_keeps_running [OF k, of 7] obtain k1 k2 where
    "proc_block k = Some k1" "turns 7 k1 = Some k2" "cur_process k2 = 0" "state (procs k2 j) = PROC_RUN"
    using kernel_okD(3) [OF k] by auto
  then show ?thesis using k by blast
qed

end
