(* ===== verification/Machine.thy ===== *)
theory Machine
  imports Pic8259_Cycle PitBoard Sched_Props
begin

text \<open>
  The timer interrupt through the whole machine: the handler of counter 0 (\<open>iodev/pit.cc\<close>) drives
  input 0 of the controllers, the processor acknowledges (\<open>cpu/event.cc\<close>), and the kernel's
  \<open>intr_common\<close> (\<open>SSUOS_P6/src/kernel/arch/interrupt.c\<close>) calls the timer handler, ends the
  interrupt and schedules.  \<open>init_pit\<close> and the start-up of the controllers are the port writes the
  kernel makes.  Interrupts are enabled, and \<open>handlers\<close> holds what a handler does to the kernel's
  state, \<open>None\<close> for a null pointer; the printing of the default handler is left out.
\<close>

record machine =
  board :: bx_pit_c
  pics :: bx_pic_c
  kern :: kernel
  handlers :: "nat \<Rightarrow> (kernel \<Rightarrow> kernel) option"
  in_external_intr :: bool

abbreviation INTR_MAX :: nat where "INTR_MAX \<equiv> 256"

section \<open>Ports\<close>

text \<open>A new state of the board; what it has called counter 0's handler with reaches the controllers.\<close>

definition irq_handler :: "bool \<Rightarrow> bx_pic_c \<Rightarrow> bx_pic_c" where
  "irq_handler value s = (if value then raise_irq 0 s else lower_irq 0 s)"

definition deliver :: "bx_pit_c \<Rightarrow> machine \<Rightarrow> machine" where
  "deliver b m =
     (let calls = drop (length (out_calls (counter (timer (board m)) 0))) (out_calls (counter (timer b) 0))
      in m\<lparr> board := b, pics := fold irq_handler calls (pics m) \<rparr>)"

definition outb :: "Bit32u \<Rightarrow> Bit8u \<Rightarrow> machine \<Rightarrow> machine" where
  "outb port v m =
     (if port \<in> {0x20, 0x21, 0xa0, 0xa1} then m\<lparr> pics := pic_write port (ucast v) (pics m) \<rparr>
      else deliver (board_write port (ucast v) (last_usec (board m)) (board m)) m)"

section \<open>The kernel's side\<close>

text \<open>\<open>boot1.asm\<close>: offsets 0x20 and 0x28, the cascade on input 2, and the slave's inputs masked.\<close>

definition Initialize_PIC :: "machine \<Rightarrow> machine" where
  "Initialize_PIC =
     fold (\<lambda>(port, v). outb port v)
       [(0x20, 0x11), (0xa0, 0x11), (0x21, 0x20), (0xa1, 0x28), (0x21, 0x04), (0xa1, 0x02),
        (0x21, 0x01), (0xa1, 0x01), (0xa1, 0xFF)]"

definition PIT_HZ :: int where "PIT_HZ = 1193181"
definition PIT_FRQ_HZ :: int where "PIT_FRQ_HZ = 1000"

text \<open>The two bytes of the count are the quotient modulo 255, not 256, and the quotient shifted.\<close>

definition init_pit :: "machine \<Rightarrow> machine" where
  "init_pit =
     fold (\<lambda>(port, v). outb port v)
       [(0x43, 0x00 OR 0x30 OR 0x04 OR 0x00),
        (0x40, of_int ((PIT_HZ div PIT_FRQ_HZ) mod 0xff)),
        (0x40, of_int (drop_bit 8 (PIT_HZ div PIT_FRQ_HZ)))]"

definition default_handler :: "kernel \<Rightarrow> kernel" where
  "default_handler k = k"

definition reg_handler :: "nat \<Rightarrow> (kernel \<Rightarrow> kernel) \<Rightarrow> machine \<Rightarrow> machine" where
  "reg_handler i h m = m\<lparr> handlers := (handlers m)(i \<mapsto> h) \<rparr>"

definition init_intr :: "(kernel \<Rightarrow> kernel) \<Rightarrow> machine \<Rightarrow> machine" where
  "init_intr syscall_handler m =
     (let m = m\<lparr> kern := (kern m)\<lparr> ticks := 0, sched_on_return := False \<rparr>, in_external_intr := False,
                 handlers := (\<lambda>i. if i < INTR_MAX then Some default_handler else handlers m i) \<rparr>
      in reg_handler 0x30 syscall_handler (reg_handler 32 timer_handler m))"

definition intr_common :: "nat \<Rightarrow> machine \<Rightarrow> machine option" where
  "intr_common vec_no m =
     (let ext = (vec_no \<ge> 0x20 \<and> vec_no < 0x30);
          m = m\<lparr> in_external_intr := ext \<rparr>;
          m = (if ext then m\<lparr> kern := (kern m)\<lparr> sched_on_return := False \<rparr> \<rparr> else m);
          m = m\<lparr> kern := (case handlers m vec_no of Some h \<Rightarrow> h (kern m) | None \<Rightarrow> default_handler (kern m)) \<rparr>
      in if in_external_intr m then
           (let m = m\<lparr> in_external_intr := False \<rparr>;
                m = outb 0x20 0x20 m;
                m = (if vec_no \<ge> 0x28 then outb 0xa0 0x20 m else m)
            in if sched_on_return (kern m) then map_option (\<lambda>k. m\<lparr> kern := k \<rparr>) (schedule (kern m)) else Some m)
         else Some m)"

section \<open>The machine's side\<close>

text \<open>\<open>d\<close> microseconds pass on the board.\<close>

definition elapse :: "Bit64u \<Rightarrow> machine \<Rightarrow> machine" where
  "elapse d m = deliver (handle_timer (last_usec (board m) + d) (board m)) m"

definition InterruptAcknowledge :: "machine \<Rightarrow> machine option" where
  "InterruptAcknowledge m = (let (vector, p) = IAC (pics m) in intr_common (unat vector) (m\<lparr> pics := p \<rparr>))"

definition machine_step :: "Bit64u \<Rightarrow> machine \<Rightarrow> machine option" where
  "machine_step d m = (let m = elapse d m in if INTR (pics m) then InterruptAcknowledge m else Some m)"

primrec machine_run :: "Bit64u list \<Rightarrow> machine \<Rightarrow> machine option" where
  "machine_run [] m = Some m"
| "machine_run (d # ds) m = Option.bind (machine_step d m) (machine_run ds)"

end
