(* ===== verification/Machine_Spec.thy ===== *)
theory Machine_Spec
  imports Machine
begin

text \<open>
  The kernel's clock: with the timer programmed by \<open>init_pit\<close> the controllers deliver one interrupt
  for each period of counter 0, and \<open>ticks\<close> counts them.
\<close>

section \<open>The calls of the OUT handler between two instants\<close>

lemma rate_calls_step:
  assumes "2 \<le> N" "j \<le> j'" "j' < j + N"
  shows "rate_calls N j' = rate_calls N j @
    (if j' div N = j div N then (if j' mod N = N - 1 \<and> j mod N \<noteq> N - 1 then [False] else [])
     else (if j mod N = N - 1 then [True] else [False, True]))"
    and "j' div N = j div N \<Longrightarrow> j mod N = N - 1 \<Longrightarrow> j' mod N = N - 1"
    and "j' div N \<noteq> j div N \<Longrightarrow> j' div N = Suc (j div N) \<and> j' mod N \<noteq> N - 1"
proof -
  let ?q = "j div N" and ?r = "j mod N"
  have j: "j = N * ?q + ?r" by simp
  have r: "?r < N" "j' mod N < N" using assms(1) by simp_all
  show same: "j' div N = ?q \<Longrightarrow> ?r = N - 1 \<Longrightarrow> j' mod N = N - 1"
  proof -
    assume a: "j' div N = ?q" "?r = N - 1"
    then have "j' = N * ?q + j' mod N" by (metis mult_div_mod_eq)
    then show "j' mod N = N - 1" using a(2) assms(2) j r(2) by linarith
  qed
  show next_q: "j' div N \<noteq> ?q \<Longrightarrow> j' div N = Suc ?q \<and> j' mod N \<noteq> N - 1"
  proof -
    assume ne: "j' div N \<noteq> ?q"
    have "?q \<le> j' div N" using assms(2) by (rule div_le_mono)
    then have ge: "Suc ?q \<le> j' div N" using ne by simp
    have "j' < Suc (Suc ?q) * N" using assms(3) j r(1) mult.commute [of N ?q] unfolding mult_Suc by linarith
    then have "j' div N < Suc (Suc ?q)" using assms(1) by (simp only: div_less_iff_less_mult)
    then have q': "j' div N = Suc ?q" using ge by simp
    then have "j' = N * Suc ?q + j' mod N" by (metis mult_div_mod_eq)
    then have "j' = N + N * ?q + j' mod N" by (simp only: mult_Suc_right)
    then have "j' mod N < ?r" using assms(3) j by linarith
    then show ?thesis using q' r(1) by linarith
  qed
  show "rate_calls N j' = rate_calls N j @
    (if j' div N = ?q then (if j' mod N = N - 1 \<and> ?r \<noteq> N - 1 then [False] else [])
     else (if ?r = N - 1 then [True] else [False, True]))"
  proof (cases "j' div N = ?q")
    case True
    then show ?thesis using same by (auto simp: rate_calls_def)
  next
    case False
    then have "j' div N = Suc ?q" "j' mod N \<noteq> N - 1" using next_q by auto
    then show ?thesis using False by (simp add: rate_calls_def concat_replicate_Suc del: replicate_Suc)
  qed
qed

section \<open>The controllers at input 0\<close>

definition tamed :: "bx_pic_c \<Rightarrow> bool" where
  "tamed s \<longleftrightarrow> quiet_pics s \<and> irq_enabled s 0 \<and> irq_vector s 0 = 0x20"

text \<open>The line is high, its interrupt served.\<close>

definition served :: "bx_pic_c \<Rightarrow> bool" where
  "served s \<longleftrightarrow> tamed (lower_irq 0 s) \<and> \<not> INTR s"

lemma INTR_lower_irq [simp]: "INTR (lower_irq n s) = INTR s"
proof -
  obtain c where "forward_ioapic n False s = s\<lparr> ioapic_calls := c \<rparr>" by (rule forward_calls)
  then show ?thesis by (simp add: lower_irq_def Let_def)
qed

lemma tamed_lower: "tamed s \<Longrightarrow> tamed (lower_irq 0 s)"
proof -
  obtain c where c: "forward_ioapic 0 False s = s\<lparr> ioapic_calls := c \<rparr>" by (rule forward_calls)
  assume t: "tamed s"
  then have "IRQ_in (master_pic s) = 0" by (simp add: tamed_def quiet_pics_def quiet_pic_def)
  then have "lower_irq 0 s = s\<lparr> ioapic_calls := c \<rparr>" by (simp add: lower_irq_def c)
  then show ?thesis using t by (simp add: tamed_def quiet_pics_def irq_enabled_def irq_vector_def)
qed

lemma tamed_cycle:
  assumes "tamed s"
  shows "INTR (raise_irq 0 s)" "fst (IAC (raise_irq 0 s)) = 0x20"
    "served (pic_write 0x20 0x20 (snd (IAC (raise_irq 0 s))))"
proof -
  have q: "quiet_pics s" "irq_enabled s 0" "irq_vector s 0 = 0x20" using assms by (simp_all add: tamed_def)
  show "INTR (raise_irq 0 s)" by (rule pic.request_pending [OF q(1,2)])
  show "fst (IAC (raise_irq 0 s)) = 0x20" using pic.ack_vector [OF q(1,2)] q(3) by simp
  let ?s = "pic_write 0x20 0x20 (snd (IAC (raise_irq 0 s)))"
  have e: "end_of_irq 0 (snd (IAC (raise_irq 0 s))) = lower_irq 0 ?s" by (simp add: end_of_irq_def)
  have "tamed (lower_irq 0 ?s)"
    using pic.finish_quiet [OF q(1,2)] pic.finish_enabled [OF q(1,2)] pic.finish_vector [OF q(1,2)] q
    by (simp add: tamed_def e)
  moreover from this have "\<not> INTR ?s" by (simp add: tamed_def quiet_pics_def)
  ultimately show "served ?s" by (simp add: served_def)
qed

section \<open>The kernel on a timer interrupt\<close>

definition kernel_fine :: "kernel \<Rightarrow> bool" where
  "kernel_fine k \<longleftrightarrow> (\<exists>r s d p. kernel_ok k r s d p)"

lemma kernel_fine_flag [simp]: "kernel_fine (k\<lparr> sched_on_return := b \<rparr>) = kernel_fine k"
  by (simp add: kernel_fine_def kernel_ok_def ready_def in_state_def in_order_def)

lemma kernel_fine_timer: "kernel_fine k \<Longrightarrow> kernel_fine (timer_handler k)"
  using kernel_ok_step [of k _ _ _ _ Tick] by (fastforce simp: kernel_fine_def)

lemma kernel_fine_schedule:
  assumes "kernel_fine k"
  shows "\<exists>k'. schedule k = Some k' \<and> kernel_fine k' \<and> ticks k' = ticks k"
proof -
  obtain r s d p where ok: "kernel_ok k r s d p" using assms by (auto simp: kernel_fine_def)
  then obtain c b where "r = c # b" using kernel_okD(2) [OF ok] by (cases r) auto
  from kernel_ok_preempt [OF ok [unfolded this]] show ?thesis unfolding kernel_fine_def by blast
qed

lemma ticks_timer [simp]: "ticks (timer_handler k) = ticks k + 1"
  by (simp add: timer_handler_def do_sched_on_return_def upd_proc_def Let_def)

lemma timer_interrupt:
  assumes "tamed s" "kernel_fine (kern m)" "handlers m 32 = Some timer_handler" "pics m = raise_irq 0 s"
  shows "\<exists>m'. InterruptAcknowledge m = Some m' \<and> served (pics m') \<and> kernel_fine (kern m') \<and>
    ticks (kern m') = ticks (kern m) + 1 \<and> board m' = board m \<and> handlers m' = handlers m"
proof -
  obtain p where iac: "IAC (pics m) = (0x20, p)" "served (pic_write 0x20 0x20 p)"
    using tamed_cycle(2,3) [OF assms(1)] assms(4) by (cases "IAC (pics m)") auto
  let ?k = "timer_handler (kern m\<lparr> sched_on_return := False \<rparr>)"
  have f: "kernel_fine ?k" using assms(2) by (simp add: kernel_fine_timer)
  have t: "ticks ?k = ticks (kern m) + 1" by simp
  let ?m = "m\<lparr> in_external_intr := False, pics := pic_write 0x20 0x20 p, kern := ?k \<rparr>"
  have "InterruptAcknowledge m =
      (if sched_on_return ?k then map_option (\<lambda>k. ?m\<lparr> kern := k \<rparr>) (schedule ?k) else Some ?m)"
    using assms(3) by (simp add: InterruptAcknowledge_def intr_common_def iac(1) outb_def Let_def)
  then show ?thesis using kernel_fine_schedule [OF f] f t iac(2) by (cases "sched_on_return ?k") auto
qed


section \<open>A step of the machine\<close>

text \<open>Counter 0 after \<open>C\<close> cycles of a rate of period \<open>N\<close>, and the state of the controllers that goes with it.\<close>

definition line_ok :: "nat \<Rightarrow> nat \<Rightarrow> bx_pic_c \<Rightarrow> bool" where
  "line_ok N j s \<longleftrightarrow> (if j div N \<noteq> 0 \<and> j mod N \<noteq> N - 1 then served s else tamed s)"

lemma line_ok_quiet: "line_ok N j s \<Longrightarrow> \<not> INTR s"
  by (auto simp: line_ok_def served_def tamed_def quiet_pics_def split: if_splits)

lemma line_ok_low: "line_ok N j s \<Longrightarrow> tamed (lower_irq 0 s)"
  by (auto simp: line_ok_def served_def tamed_lower split: if_splits)

definition calls_from :: "nat \<Rightarrow> nat \<Rightarrow> nat \<Rightarrow> bool list" where
  "calls_from N j j' = (if j' div N = j div N then (if j' mod N = N - 1 \<and> j mod N \<noteq> N - 1 then [False] else [])
     else (if j mod N = N - 1 then [True] else [False, True]))"

lemma calls_reach_pics:
  assumes "2 \<le> N" "j \<le> j'" "j' < j + N" "line_ok N j s"
  shows "j' div N = j div N \<Longrightarrow> line_ok N j' (fold irq_handler (calls_from N j j') s)"
    and "j' div N \<noteq> j div N \<Longrightarrow> j' div N = Suc (j div N) \<and> j' mod N \<noteq> N - 1 \<and>
      (\<exists>s'. tamed s' \<and> fold irq_handler (calls_from N j j') s = raise_irq 0 s')"
proof -
  note st = rate_calls_step(2,3) [OF assms(1-3)]
  show "line_ok N j' (fold irq_handler (calls_from N j j') s)" if same: "j' div N = j div N"
  proof (cases "j' mod N = N - 1 \<and> j mod N \<noteq> N - 1")
    case True
    then show ?thesis using same line_ok_low [OF assms(4)] by (simp add: calls_from_def irq_handler_def line_ok_def)
  next
    case False
    then have "(j' mod N = N - 1) = (j mod N = N - 1)" using st(1) [OF same] by blast
    then show ?thesis using False same assms(4) by (auto simp: calls_from_def line_ok_def)
  qed
  assume new: "j' div N \<noteq> j div N"
  have "\<exists>s'. tamed s' \<and> fold irq_handler (calls_from N j j') s = raise_irq 0 s'"
  proof (cases "j mod N = N - 1")
    case True
    then show ?thesis using new assms(4) by (auto simp: calls_from_def irq_handler_def line_ok_def)
  next
    case False
    then show ?thesis using new line_ok_low [OF assms(4)] by (auto simp: calls_from_def irq_handler_def)
  qed
  then show "j' div N = Suc (j div N) \<and> j' mod N \<noteq> N - 1 \<and>
      (\<exists>s'. tamed s' \<and> fold irq_handler (calls_from N j j') s = raise_irq 0 s')"
    using st(2) [OF new] by blast
qed

text \<open>The board: \<open>u\<close> microseconds of the current second had passed.\<close>

abbreviation whole_ticks :: "int \<Rightarrow> int" where "whole_ticks u \<equiv> u * 1193181 div 1000000"

lemma handle_timer_delivers:
  assumes "totals_ok s" "uint d \<le> 1002" "counter_ok (counter (timer s) 0)"
  shows "\<exists>k. counter (timer (handle_timer (last_usec s + d) s)) 0 = (clock_counter ^^ k) (counter (timer s) 0) \<and>
    totals_ok (handle_timer (last_usec s + d) s) \<and>
    uint (total_usec (handle_timer (last_usec s + d) s)) = (uint (total_usec s) + uint d) mod 1000000 \<and>
    int k = whole_ticks (uint (total_usec s) + uint d) - whole_ticks (uint (total_usec s)) \<and> k \<le> 1196"
proof -
  let ?d = "ucast d :: Bit32u"
  have d: "uint ?d = uint d" using assms(2) by (simp add: unsigned_ucast_eq take_bit_int_eq_self)
  have fr: "timer (handle_timer (last_usec s + d) s) = timer (pass_time (last_usec s + d) s)"
    "totals_ok (handle_timer (last_usec s + d) s) = totals_ok (pass_time (last_usec s + d) s)"
    "total_usec (handle_timer (last_usec s + d) s) = total_usec (pass_time (last_usec s + d) s)"
    by (simp_all add: handle_timer_def rearm_if_def rearm_def totals_ok_def Let_def)
  have small: "(u + uint d) * 1193181 div 1000000 - whole_ticks u \<le> 1196" for u
  proof -
    have "(u + uint d) * 1193181 \<le> u * 1193181 + 1196 * 1000000" using assms(2) by simp
    then have "(u + uint d) * 1193181 div 1000000 \<le> (u * 1193181 + 1196 * 1000000) div 1000000"
      by (rule zdiv_mono1) simp
    also have "\<dots> = whole_ticks u + 1196" using div_mult_self1 [of 1000000 "u * 1193181" 1196] by linarith
    finally show ?thesis by simp
  qed
  show ?thesis
  proof (cases "?d = 0")
    case True
    then have "uint d = 0" using d by simp
    moreover have "pass_time (last_usec s + d) s = s\<lparr> last_usec := last_usec s + d \<rparr>"
      using True by (simp add: pass_time_def Let_def)
    moreover have "uint (total_usec s) mod 1000000 = uint (total_usec s)"
      using assms(1) by (simp add: totals_ok_def)
    ultimately show ?thesis using fr assms(1) by (intro exI [of _ 0]) (simp add: totals_ok_def)
  next
    case False
    then have p: "pass_time (last_usec s + d) s = (periodic ?d s)\<lparr> last_usec := last_usec (periodic ?d s) + d \<rparr>"
      by (simp add: pass_time_def Let_def)
    obtain k where k: "timer (periodic ?d s) = clock_ticks k (timer s)" "totals_ok (periodic ?d s)"
      "uint (total_usec (periodic ?d s)) = (uint (total_usec s) + uint d) mod 1000000"
      "uint k = whole_ticks (uint (total_usec s) + uint d) - whole_ticks (uint (total_usec s))"
      using periodic_delivers [OF assms(1), of ?d] assms(2) d by auto
    have "counter (clock_ticks k (timer s)) 0 = (clock_counter ^^ unat k) (counter (timer s) 0)"
      using clock_ticks_counter [OF _ assms(3), of k] by simp
    then have c: "counter (timer (handle_timer (last_usec s + d) s)) 0 = (clock_counter ^^ unat k) (counter (timer s) 0)"
      using fr(1) p k(1) by simp
    have t: "totals_ok (handle_timer (last_usec s + d) s)" using fr(2) p k(2) by (simp add: totals_ok_def)
    have u: "total_usec (handle_timer (last_usec s + d) s) = total_usec (periodic ?d s)" using fr(3) p by simp
    have ik: "int (unat k) = uint k" by simp
    then have "unat k \<le> 1196" using k(4) small [of "uint (total_usec s)"] by linarith
    with c t u k(3) ik k(4) show ?thesis by (intro exI [of _ "unat k"]) (simp only: simp_thms)
  qed
qed


text \<open>
  The invariant of a run: \<open>c0\<close> is counter 0 when the three writes of \<open>init_pit\<close> are made, \<open>u0\<close> the
  microseconds of the current second and \<open>t0\<close> the kernel's ticks at that time; \<open>T\<close> microseconds have
  passed since.
\<close>

definition pit_cycles :: "int \<Rightarrow> int \<Rightarrow> nat" where
  "pit_cycles u0 T = nat (whole_ticks (u0 + T) - whole_ticks u0)"

definition clock_inv :: "counter_type \<Rightarrow> int \<Rightarrow> Bit32u \<Rightarrow> int \<Rightarrow> machine \<Rightarrow> bool" where
  "clock_inv c0 u0 t0 T m \<longleftrightarrow>
     counter (timer (board m)) 0 = (clock_counter ^^ pit_cycles u0 T) (program_rate 0xAD 4 c0) \<and>
     totals_ok (board m) \<and> uint (total_usec (board m)) = (u0 + T) mod 1000000 \<and>
     line_ok 1197 (pit_cycles u0 T - 1) (pics m) \<and> handlers m 32 = Some timer_handler \<and>
     kernel_fine (kern m) \<and> ticks (kern m) = t0 + of_nat ((pit_cycles u0 T - 1) div 1197)"

lemma program_rate_calls:
  assumes "GATE c0" "OUTpin c0" "out_handler c0"
  shows "out_calls ((clock_counter ^^ C) (program_rate 0xAD 4 c0)) = out_calls c0 @ rate_calls 1197 (C - 1)"
    and "counter_ok ((clock_counter ^^ C) (program_rate 0xAD 4 c0))"
proof -
  let ?p = "program_rate 0xAD 4 c0"
  have v: "latch_value 0xAD 4 \<noteq> 1" "latch_value 0xAD 4 \<noteq> 0" "unat (latch_value 0xAD 4) = 1197"
    by (simp_all add: latch_value_def)
  note p = program_rate_ok [OF assms(1) v(1)]
  show "counter_ok ((clock_counter ^^ C) ?p)"
    using counter_ok_clocks p(1) by (simp add: counter_ok_def)
  have N: "period (clock_counter ?p) = 1197" using p(4) v by simp
  have pl: "pulses (clock_counter ?p) xs = out_calls c0 @ xs" for xs
    using p(3) assms(2,3) by (simp add: pulses_def)
  show "out_calls ((clock_counter ^^ C) ?p) = out_calls c0 @ rate_calls 1197 (C - 1)"
  proof (cases C)
    case 0
    have "out_calls ?p = out_calls c0"
      using assms(2,3) by (simp add: program_rate_def program_counter_3 write_low_byte write_high_byte)
    then show ?thesis using 0 by (simp add: rate_calls_def)
  next
    case (Suc j)
    then have "(clock_counter ^^ C) ?p = (clock_counter ^^ j) (clock_counter ?p)" by (simp add: funpow_swap1)
    then show ?thesis using mode2_calls [OF p(2), of j] Suc N pl by simp
  qed
qed

lemma clock_inv_step:
  assumes "GATE c0" "OUTpin c0" "out_handler c0" "clock_inv c0 u0 t0 T m" "uint d \<le> 1002" "0 \<le> T" "0 \<le> u0"
  shows "\<exists>m'. machine_step d m = Some m' \<and> clock_inv c0 u0 t0 (T + uint d) m'"
proof -
  let ?b = "handle_timer (last_usec (board m) + d) (board m)"
  let ?C = "pit_cycles u0 T" and ?C' = "pit_cycles u0 (T + uint d)"
  note inv = assms(4) [unfolded clock_inv_def]
  note pr = program_rate_calls [OF assms(1-3)]
  obtain k where k: "counter (timer ?b) 0 = (clock_counter ^^ k) (counter (timer (board m)) 0)" "totals_ok ?b"
    "uint (total_usec ?b) = (uint (total_usec (board m)) + uint d) mod 1000000"
    "int k = whole_ticks (uint (total_usec (board m)) + uint d) - whole_ticks (uint (total_usec (board m)))" "k \<le> 1196"
    using handle_timer_delivers [of "board m" d] inv assms(5) pr(2) by auto
  have ik: "int k = whole_ticks (u0 + T + uint d) - whole_ticks (u0 + T)"
    using k(4) inv div_add_whole [of "u0 + T" "uint d"] by simp
  have mono: "whole_ticks u0 \<le> whole_ticks (u0 + T)" using assms(6) by (intro zdiv_mono1) simp_all
  have C': "?C' = ?C + k"
  proof -
    have "nat (b - z) = nat (a - z) + k" if "int k = b - a" "z \<le> a" for a b z using that by linarith
    from this [OF ik mono] show ?thesis by (simp only: pit_cycles_def add.assoc)
  qed
  have cnt: "counter (timer ?b) 0 = (clock_counter ^^ ?C') (program_rate 0xAD 4 c0)"
    using k(1) inv funpow_add_apply [of k clock_counter ?C "program_rate 0xAD 4 c0"] by (simp add: C' add.commute)
  have usec: "uint (total_usec ?b) = (u0 + (T + uint d)) mod 1000000"
    using k(3) inv by (simp add: mod_add_left_eq add.assoc)
  let ?j = "?C - 1" and ?j' = "?C' - 1"
  have j: "?j \<le> ?j'" "?j' < ?j + 1197" using k(5) by (auto simp: C')
  have "out_calls (counter (timer ?b) 0) = out_calls c0 @ rate_calls 1197 ?j'"
    "out_calls (counter (timer (board m)) 0) = out_calls c0 @ rate_calls 1197 ?j"
    using pr(1) cnt inv by simp_all
  then have calls: "drop (length (out_calls (counter (timer (board m)) 0))) (out_calls (counter (timer ?b) 0)) = calls_from 1197 ?j ?j'"
    using rate_calls_step(1) [of 1197 ?j ?j'] j by (simp add: calls_from_def)
  define e where "e = m\<lparr> board := ?b, pics := fold irq_handler (calls_from 1197 ?j ?j') (pics m) \<rparr>"
  have el: "elapse d m = e" by (simp add: elapse_def deliver_def calls e_def)
  have line: "line_ok 1197 ?j (pics m)" using inv by blast
  note reach = calls_reach_pics [OF _ j line]
  show ?thesis
  proof (cases "?j' div 1197 = ?j div 1197")
    case True
    then have l: "line_ok 1197 ?j' (pics e)" using reach(1) by (simp add: e_def)
    then have "machine_step d m = Some e" using line_ok_quiet by (simp add: machine_step_def el)
    moreover have "clock_inv c0 u0 t0 (T + uint d) e"
      using inv True l k(2) cnt usec by (simp add: clock_inv_def e_def)
    ultimately show ?thesis by blast
  next
    case False
    then obtain s' where s': "?j' div 1197 = Suc (?j div 1197)" "?j' mod 1197 \<noteq> 1197 - 1" "tamed s'" "pics e = raise_irq 0 s'"
      using reach(2) by (auto simp: e_def)
    have sel: "kern e = kern m" "handlers e = handlers m" "board e = ?b" by (simp_all add: e_def)
    obtain m' where m': "InterruptAcknowledge e = Some m'" "served (pics m')" "kernel_fine (kern m')"
      "ticks (kern m') = ticks (kern e) + 1" "board m' = board e" "handlers m' = handlers e"
      using timer_interrupt [OF s'(3) _ _ s'(4)] inv sel by auto
    have "machine_step d m = Some m'"
      using tamed_cycle(1) [OF s'(3)] s'(4) m'(1) by (simp add: machine_step_def el)
    moreover have "line_ok 1197 ?j' (pics m')" using m'(2) s'(1,2) by (simp add: line_ok_def)
    then have "clock_inv c0 u0 t0 (T + uint d) m'"
      using inv m' sel s'(1) k(2) cnt usec by (simp add: clock_inv_def)
    ultimately show ?thesis by blast
  qed
qed

lemma clock_inv_run:
  assumes "GATE c0" "OUTpin c0" "out_handler c0" "0 \<le> u0"
  shows "clock_inv c0 u0 t0 T m \<Longrightarrow> 0 \<le> T \<Longrightarrow> \<forall>d \<in> set ds. uint d \<le> 1002 \<Longrightarrow>
    \<exists>m'. machine_run ds m = Some m' \<and> clock_inv c0 u0 t0 (T + sum_list (map uint ds)) m'"
proof (induction ds arbitrary: m T)
  case (Cons d ds)
  obtain m1 where m1: "machine_step d m = Some m1" "clock_inv c0 u0 t0 (T + uint d) m1"
    using clock_inv_step [OF assms(1-3) Cons.prems(1) _ Cons.prems(2) assms(4), of d] Cons.prems(3) by auto
  from Cons.IH [OF m1(2)] Cons.prems obtain m' where
    "machine_run ds m1 = Some m'" "clock_inv c0 u0 t0 (T + uint d + sum_list (map uint ds)) m'" by auto
  then show ?case using m1(1) by (auto simp: add.assoc)
qed simp


section \<open>From the programming of the timer on\<close>

text \<open>
  The machine \<open>init_pit\<close> finds: the board's totals agree, counter 0 is gated on with its output high
  and wired to the controllers, these are quiet with input 0 enabled at vector 0x20, and the kernel
  has its handler in place and its queues in order.
\<close>

definition timer_ready :: "machine \<Rightarrow> bool" where
  "timer_ready m \<longleftrightarrow> totals_ok (board m) \<and> GATE (counter (timer (board m)) 0) \<and> OUTpin (counter (timer (board m)) 0) \<and>
     out_handler (counter (timer (board m)) 0) \<and> tamed (pics m) \<and> handlers m 32 = Some timer_handler \<and> kernel_fine (kern m)"

lemma board_write_now:
  "timer (board_write a v (last_usec s) s) = timer (write_port a (ucast v) s)"
  "totals_ok (board_write a v (last_usec s) s) = totals_ok (write_port a (ucast v) s)"
  "total_usec (board_write a v (last_usec s) s) = total_usec (write_port a (ucast v) s)"
  by (simp_all add: board_write_def pass_time_def rearm_if_def rearm_def totals_ok_def Let_def)

lemma write_port_totals:
  "a \<in> {0x40, 0x43} \<Longrightarrow> totals_ok (write_port a v s) = totals_ok s"
  "a \<in> {0x40, 0x43} \<Longrightarrow> total_usec (write_port a v s) = total_usec s"
  by (auto simp: write_port_def totals_ok_def)

lemma init_pit_ok:
  assumes "timer_ready m"
  shows "clock_inv (counter (timer (board m)) 0) (uint (total_usec (board m))) (ticks (kern m)) 0 (init_pit m)"
proof -
  let ?b = "board m"
  let ?c = "counter (timer ?b) 0"
  note t = assms [unfolded timer_ready_def]
  define b1 where "b1 = board_write 0x43 0x34 (last_usec ?b) ?b"
  define b2 where "b2 = board_write 0x40 0xAD (last_usec b1) b1"
  define b3 where "b3 = board_write 0x40 4 (last_usec b2) b2"
  have cw: "(0x34 :: Bit8u) = control_word 0 2" by (simp add: control_word_def)
  have s1: "timer b1 = pit_write 3 (control_word 0 2) (timer ?b)" "totals_ok b1" "total_usec b1 = total_usec ?b"
    using t unfolding b1_def board_write_now by (simp_all add: write_port_totals) (simp add: write_port_def cw)
  have s2: "timer b2 = pit_write 0 0xAD (timer b1)" "totals_ok b2" "total_usec b2 = total_usec ?b"
    using s1 unfolding b2_def board_write_now by (simp_all add: write_port_totals) (simp add: write_port_def)
  have s3: "timer b3 = pit_write 0 4 (timer b2)" "totals_ok b3" "total_usec b3 = total_usec ?b"
    using s2 unfolding b3_def board_write_now by (simp_all add: write_port_totals) (simp add: write_port_def)
  have c1: "counter (timer b1) 0 = program_counter 3 2 0 ?c"
    unfolding s1(1) by (subst write_control_word) (simp_all add: upd_counter_def)
  have c2: "counter (timer b2) 0 = write_counter 0xAD (program_counter 3 2 0 ?c)"
    unfolding s2(1) by (simp add: pit_write_def upd_counter_def c1)
  have c3: "counter (timer b3) 0 = program_rate 0xAD 4 ?c"
    unfolding s3(1) by (simp add: pit_write_def upd_counter_def c2 program_rate_def)
  have calls: "out_calls (counter (timer b1) 0) = out_calls ?c" "out_calls (counter (timer b2) 0) = out_calls ?c"
    "out_calls (counter (timer b3) 0) = out_calls ?c"
    using t unfolding c1 c2 c3 program_rate_def
    by (simp_all add: program_counter_3 write_low_byte write_high_byte)
  have "init_pit m = deliver b3 (deliver b2 (deliver b1 m))"
    by (simp add: init_pit_def PIT_HZ_def PIT_FRQ_HZ_def outb_def b1_def b2_def b3_def deliver_def Let_def drop_bit_eq_div)
  then have ip: "board (init_pit m) = b3" "pics (init_pit m) = pics m" "handlers (init_pit m) = handlers m" "kern (init_pit m) = kern m"
    using calls by (simp_all add: deliver_def Let_def)
  have "uint (total_usec ?b) mod 1000000 = uint (total_usec ?b)" using t by (simp add: totals_ok_def)
  then show ?thesis
    using t s3(2,3) c3 ip by (simp add: clock_inv_def pit_cycles_def line_ok_def)
qed

text \<open>
  C2. The kernel's clock: once \<open>init_pit\<close> has programmed the timer, and while time passes in steps of
  at most 1002 microseconds (no step holds a whole period) with pending interrupts served after
  each, every period of counter 0 becomes exactly one call of the kernel's timer handler, through the board,
  both controllers and \<open>intr_common\<close>, rescheduling included: \<open>ticks\<close> has grown by the number of whole
  periods of 1197 chip cycles in \<open>\<lfloor>T * 1193181 / 1000000\<rfloor> - 1\<close>, and the queues are in order.
\<close>
theorem kernel_clock_counts_periods:
  assumes "timer_ready m" "\<forall>d \<in> set ds. uint d \<le> 1002"
  shows "\<exists>m'. machine_run ds (init_pit m) = Some m' \<and> kernel_fine (kern m') \<and>
    ticks (kern m') = ticks (kern m) +
      of_nat ((pit_cycles (uint (total_usec (board m))) (sum_list (map uint ds)) - 1) div 1197)"
proof -
  have "GATE (counter (timer (board m)) 0)" "OUTpin (counter (timer (board m)) 0)" "out_handler (counter (timer (board m)) 0)"
    using assms(1) by (simp_all add: timer_ready_def)
  from clock_inv_run [OF this _ init_pit_ok [OF assms(1)] _ assms(2)] show ?thesis
    by (auto simp: clock_inv_def)
qed

text \<open>
  The program calls \<open>init_pit\<close> before \<open>init_intr\<close> and \<open>init_proc\<close>, with interrupts off.  \<open>init_pit\<close> writes ports
  and neither reads nor changes the kernel and its handlers, so that it may come last.
\<close>

lemma init_pit_first:
  "init_pit (m\<lparr> kern := k, handlers := h, in_external_intr := e \<rparr>) = (init_pit m)\<lparr> kern := k, handlers := h, in_external_intr := e \<rparr>"
  by (simp add: init_pit_def outb_def deliver_def Let_def)

text \<open>The machine after its start-up, with the idle process alone: one second is 996 ticks, not 1000.\<close>

definition boot_machine :: machine where
  "boot_machine = init_intr id (Initialize_PIC \<lparr> board = board_init 0 fresh_board, pics = pic_init False, kern = booted,
     handlers = (\<lambda>_. None), in_external_intr = False \<rparr>)"

lemma boot_pics: "pics boot_machine = pics (Initialize_PIC \<lparr> board = board_init 0 fresh_board, pics = pic_init False, kern = booted,
     handlers = (\<lambda>_. None), in_external_intr = False \<rparr>)"
  by (simp add: boot_machine_def init_intr_def reg_handler_def Let_def)

lemma boot_machine_ready: "timer_ready boot_machine" "total_usec (board boot_machine) = 0" "ticks (kern boot_machine) = 0"
proof -
  have p: "pics boot_machine = fold (\<lambda>(port, v). pic_write port (ucast v))
       [(0x20, 0x11 :: Bit8u), (0xa0, 0x11), (0x21, 0x20), (0xa1, 0x28), (0x21, 0x04), (0xa1, 0x02),
        (0x21, 0x01), (0xa1, 0x01), (0xa1, 0xFF)] (pic_init False)"
    and b: "board boot_machine = board_init 0 fresh_board"
    by (simp_all add: boot_machine_def init_intr_def reg_handler_def Initialize_PIC_def outb_def Let_def)
  have "tamed (pics boot_machine)" unfolding p by code_simp
  moreover have k: "kern boot_machine = booted\<lparr> ticks := 0, sched_on_return := False \<rparr>"
    by (simp add: boot_machine_def init_intr_def reg_handler_def Initialize_PIC_def outb_def Let_def)
  moreover have "kernel_fine (booted\<lparr> ticks := 0, sched_on_return := False \<rparr>)"
  proof -
    have "ticks booted = 0" using booted(3) by (simp add: blank_kernel_def)
    then have "booted\<lparr> ticks := 0 \<rparr> = booted" by simp
    then show ?thesis using booted(2) by (auto simp: kernel_fine_def [of booted])
  qed
  moreover have "handlers boot_machine 32 = Some timer_handler"
    by (simp add: boot_machine_def init_intr_def reg_handler_def Let_def)
  moreover have "totals_ok (board boot_machine)" "GATE (counter (timer (board boot_machine)) 0)"
    "OUTpin (counter (timer (board boot_machine)) 0)" "out_handler (counter (timer (board boot_machine)) 0)"
    unfolding b by code_simp+
  ultimately show "timer_ready boot_machine" "total_usec (board boot_machine) = 0" "ticks (kern boot_machine) = 0"
    unfolding b by (simp_all add: timer_ready_def b board_init_def)
qed

lemma kernel_clock_counts_periods_witness:
  "\<exists>m'. machine_run (replicate 1000 1000) (init_pit boot_machine) = Some m' \<and> ticks (kern m') = 996"
proof -
  have "\<forall>d \<in> set (replicate 1000 (1000 :: Bit64u)). uint d \<le> 1002" by simp
  from kernel_clock_counts_periods [OF boot_machine_ready(1) this] show ?thesis
    by (auto simp: boot_machine_ready pit_cycles_def sum_list_replicate)
qed


section \<open>Ending by a system call\<close>

text \<open>
  C40. \<open>exit\<close> comes back: \<open>do_exit\<close> asks for a switch when the interrupt returns, but \<open>intr_common\<close>
  grants it to external interrupts only, and the next one first withdraws the request.  The
  ended process, already on the queue of ended processes, stays current after the system call, and
  after every following timer interrupt until its time slice is used up.
\<close>
theorem ended_process_goes_on:
  assumes "handlers m 0x30 = Some (do_exit status)" "handlers m 32 = Some timer_handler"
    and "time_slice (procs (kern m) (cur_process (kern m))) + 1 < TIMER_MAX"
  shows "\<exists>m1 m2. intr_common 0x30 m = Some m1 \<and> intr_common 32 m1 = Some m2 \<and>
    (\<forall>m' \<in> {m1, m2}. cur_process (kern m') = cur_process (kern m) \<and> switches (kern m') = switches (kern m) \<and>
      state (procs (kern m') (cur_process (kern m'))) = PROC_ZOMBIE)"
proof -
  let ?k = "do_exit status (kern m)"
  have c: "cur_process ?k = cur_process (kern m)" "switches ?k = switches (kern m)"
    "state (procs ?k (cur_process (kern m))) = PROC_ZOMBIE"
    "time_slice (procs ?k (cur_process (kern m))) = time_slice (procs (kern m) (cur_process (kern m)))"
    by (simp_all add: do_exit_def do_sched_on_return_def proc_free_def tell_parent_def upd_proc_def Let_def split: option.split)
  let ?m1 = "m\<lparr> in_external_intr := False, kern := ?k \<rparr>"
  have i1: "intr_common 0x30 m = Some ?m1" using assms(1) by (simp add: intr_common_def Let_def)
  let ?t = "timer_handler (?k\<lparr> sched_on_return := False \<rparr>)"
  have t: "\<not> sched_on_return ?t" "cur_process ?t = cur_process (kern m)" "switches ?t = switches (kern m)"
    "state (procs ?t (cur_process (kern m))) = PROC_ZOMBIE"
    using c assms(3) by (simp_all add: timer_handler_def upd_proc_def do_sched_on_return_def Let_def not_le [symmetric])
  have "\<exists>m2. intr_common 32 ?m1 = Some m2 \<and> kern m2 = ?t"
    using t(1) assms(2) by (simp add: intr_common_def outb_def Let_def)
  then show ?thesis using i1 c t by auto
qed

text \<open>A created process, whose parent is the idle process, is current and exits.\<close>

lemma created_runs:
  obtains k i where "kernel_ok k [i, 0] [] [] [0, i]" "cur_process k = i" "i \<noteq> 0" "parent (procs k i) = Some 0"
    "time_slice (procs k i) = 0"
proof -
  have sl: "\<exists>i < PROC_NUM_MAX. state (procs booted i) = PROC_UNUSED" using slot_left [OF booted(2)] by simp
  obtain k1 i where c: "i \<notin> set [0]" "kernel_ok k1 ([0] @ [i]) [] [] ([0] @ [i])" "parent (procs k1 i) = Some (cur_process booted)"
    using kernel_ok_create [OF booted(2) sl, of 0 None 0 0] by blast
  then have i: "i \<noteq> 0" "kernel_ok k1 (0 # [i]) [] [] [0, i]" "parent (procs k1 i) = Some 0"
    using kernel_okD(3) [OF booted(2)] by simp_all
  from kernel_ok_preempt [OF i(2)] obtain k2 where k2: "kernel_ok k2 [i, 0] [] [] [0, i]" "parent (procs k2 i) = Some 0"
    "time_slice (procs k2 i) = 0" using i(3) by auto
  then show thesis using that [of k2 i] kernel_okD(3) [OF k2(1)] i(1) by simp
qed

lemma ended_process_goes_on_witness:
  "\<exists>k m1 m2. cur_process k \<noteq> 0 \<and> parent (procs k (cur_process k)) = Some 0 \<and>
    intr_common 0x30 (reg_handler 0x30 (do_exit 5) (boot_machine\<lparr> kern := k \<rparr>)) = Some m1 \<and>
    intr_common 32 m1 = Some m2 \<and> cur_process (kern m2) = cur_process k"
proof -
  obtain k i where k: "kernel_ok k [i, 0] [] [] [0, i]" "cur_process k = i" "i \<noteq> 0" "parent (procs k i) = Some 0"
    "time_slice (procs k i) = 0" by (rule created_runs)
  let ?m = "reg_handler 0x30 (do_exit 5) (boot_machine\<lparr> kern := k \<rparr>)"
  have "handlers ?m 0x30 = Some (do_exit 5)" "handlers ?m 32 = Some timer_handler" "kern ?m = k"
    by (simp_all add: boot_machine_def init_intr_def reg_handler_def Let_def)
  moreover have "time_slice (procs k (cur_process k)) + 1 < TIMER_MAX" using k by (simp add: TIMER_MAX_def)
  ultimately show ?thesis using ended_process_goes_on [of ?m 5] k by auto
qed

end
