(* ===== verification/Paging.thy ===== *)
theory Paging
  imports Palloc "HOL-Library.Monad_Syntax"
begin

text \<open>
  Page directories and tables, \<open>SSUOS_P6/src/kernel/mem/paging.c\<close>.  Memory is a map from the physical
  addresses of 32-bit words to their values.  A pointer of the program is a virtual address: with
  paging on, every access of these functions goes through the current directory.  \<open>None\<close> is an access
  that itself faults, which is not followed.  A page given out by the allocator is cleared, as
  \<open>palloc.c\<close> does.  Left out: the refresh of the screen, the registration of \<open>pf_handler\<close> for vector 14 in
  \<open>init_paging\<close>, and the accessed and dirty bits that the processor sets in the entries of a walk, so that
  an entry is called unchanged up to those two bits.
\<close>

unbundle bit_operations_syntax

definition PAGE_FLAG_PRESENT :: Bit32u where "PAGE_FLAG_PRESENT = 0x01"
definition PAGE_FLAG_RW :: Bit32u where "PAGE_FLAG_RW = 0x02"
definition PAGE_FLAG_ACCESS :: Bit32u where "PAGE_FLAG_ACCESS = 0x20"
definition PAGE_MASK_BASE :: Bit32u where "PAGE_MASK_BASE = 0xFFFFF000"
definition PAGE_MASK_PDE :: Bit32u where "PAGE_MASK_PDE = 0xFFC00000"
definition PAGE_MASK_PTE :: Bit32u where "PAGE_MASK_PTE = 0x003FF000"
definition PAGE_OFFSET_PDE :: nat where "PAGE_OFFSET_PDE = 22"
definition PAGE_OFFSET_PTE :: nat where "PAGE_OFFSET_PTE = 12"
definition VKERNEL_HEAP_START :: Bit32u where "VKERNEL_HEAP_START = 0xc0000000"
definition CR0_FLAG_PG :: Bit32u where "CR0_FLAG_PG = 0x80000000"

definition VH_TO_RH :: "Bit32u \<Rightarrow> Bit32u" where
  "VH_TO_RH a = a - VKERNEL_HEAP_START + RKERNEL_HEAP_START"

definition pg_no :: "Bit32u \<Rightarrow> Bit32u" where
  "pg_no page = drop_bit PAGE_OFFSET_PTE page"

record vm =
  cells :: "Bit32u \<Rightarrow> Bit32u"
  pools :: palloc
  cr0 :: Bit32u
  cr3 :: Bit32u
  PID0_PAGE_DIR :: Bit32u

text \<open>The address of \<open>base[i]\<close>.\<close>

definition word_at :: "Bit32u \<Rightarrow> Bit32u \<Rightarrow> Bit32u" where
  "word_at base i = base + 4 * i"

definition pde_idx_addr :: "Bit32u \<Rightarrow> Bit32u" where
  "pde_idx_addr a = drop_bit PAGE_OFFSET_PDE (a AND PAGE_MASK_PDE)"

definition pte_idx_addr :: "Bit32u \<Rightarrow> Bit32u" where
  "pte_idx_addr a = drop_bit PAGE_OFFSET_PTE (a AND PAGE_MASK_PTE)"

definition pt_pde :: "Bit32u \<Rightarrow> Bit32u" where
  "pt_pde pde = pde AND PAGE_MASK_BASE"

section \<open>Memory as the program sees it\<close>

text \<open>The processor's translation of a supervisor access with 4 KB pages.\<close>

definition present :: "Bit32u \<Rightarrow> bool" where
  "present e \<longleftrightarrow> e AND PAGE_FLAG_PRESENT \<noteq> 0"

definition phys :: "vm \<Rightarrow> Bit32u \<Rightarrow> Bit32u option" where
  "phys m a =
     (if cr0 m AND CR0_FLAG_PG = 0 then Some a
      else let pde = cells m (word_at (cr3 m) (pde_idx_addr a));
               pte = cells m (word_at (pt_pde pde) (pte_idx_addr a))
           in if present pde \<and> present pte then Some ((pte AND PAGE_MASK_BASE) OR (a AND NOT PAGE_MASK_BASE)) else None)"

definition ld :: "Bit32u \<Rightarrow> vm \<Rightarrow> Bit32u option" where
  "ld a m = do { p \<leftarrow> phys m a; Some (cells m p) }"

definition store :: "Bit32u \<Rightarrow> Bit32u \<Rightarrow> vm \<Rightarrow> vm" where
  "store a v m = m\<lparr> cells := (cells m)(a := v) \<rparr>"

definition st :: "Bit32u \<Rightarrow> Bit32u \<Rightarrow> vm \<Rightarrow> vm option" where
  "st a v m = do { p \<leftarrow> phys m a; Some (store p v m) }"

definition clear_page :: "Bit32u \<Rightarrow> vm \<Rightarrow> vm" where
  "clear_page q m = m\<lparr> cells := (\<lambda>x. if x - q < PAGE_SIZE then 0 else cells m x) \<rparr>"

definition memset_page :: "Bit32u \<Rightarrow> vm \<Rightarrow> vm option" where
  "memset_page q m = do { p \<leftarrow> phys m q; Some (clear_page p m) }"

definition alloc_page :: "vm \<Rightarrow> (Bit32u \<times> vm) option" where
  "alloc_page m =
     (let (q, ps) = palloc_get_one_page kernel_area (pools m); m = m\<lparr> pools := ps \<rparr>
      in if q \<noteq> 0 then do { m \<leftarrow> memset_page q m; Some (q, m) } else Some (q, m))"

definition get_cur_pd :: "vm \<Rightarrow> Bit32u" where
  "get_cur_pd m = cr3 m"

definition pt_addr :: "Bit32u \<Rightarrow> vm \<Rightarrow> Bit32u option" where
  "pt_addr a m = do { e \<leftarrow> ld (word_at (get_cur_pd m) (pde_idx_addr a)) m; Some (pt_pde e) }"

definition pg_addr :: "Bit32u \<Rightarrow> vm \<Rightarrow> Bit32u option" where
  "pg_addr a m = do { pt \<leftarrow> pt_addr a m; e \<leftarrow> ld (word_at pt (pte_idx_addr a)) m; Some (e AND PAGE_MASK_BASE) }"

section \<open>Copying an address space\<close>

primrec pt_copy_loop :: "nat \<Rightarrow> Bit32u \<Rightarrow> Bit32u \<Rightarrow> Bit32u \<Rightarrow> Bit32u \<Rightarrow> Bit32u \<Rightarrow> Bit32u \<Rightarrow> vm \<Rightarrow> vm option" where
  "pt_copy_loop 0 i pt new_pt pd dest_pd idx m = Some m"
| "pt_copy_loop (Suc n) i pt new_pt pd dest_pd idx m = do {
     e \<leftarrow> ld (word_at pt i) m;
     m \<leftarrow> (if e AND PAGE_FLAG_PRESENT \<noteq> 0 then do {
             d \<leftarrow> ld (word_at pd idx) m;
             m \<leftarrow> st (word_at dest_pd idx) (new_pt OR (d AND NOT PAGE_MASK_BASE AND NOT PAGE_FLAG_ACCESS)) m;
             e \<leftarrow> ld (word_at pt i) m;
             st (word_at new_pt i) e m }
           else Some m);
     pt_copy_loop n (i + 1) pt new_pt pd dest_pd idx m }"

definition pt_copy :: "Bit32u \<Rightarrow> Bit32u \<Rightarrow> Bit32u \<Rightarrow> vm \<Rightarrow> vm option" where
  "pt_copy pd dest_pd idx m = do {
     e \<leftarrow> ld (word_at pd idx) m;
     (new_pt, m) \<leftarrow> alloc_page m;
     pt_copy_loop 1024 0 (pt_pde e) new_pt pd dest_pd idx m }"

primrec pd_copy_loop :: "nat \<Rightarrow> Bit32u \<Rightarrow> Bit32u \<Rightarrow> Bit32u \<Rightarrow> vm \<Rightarrow> vm option" where
  "pd_copy_loop 0 i pd dest_pd m = Some m"
| "pd_copy_loop (Suc n) i pd dest_pd m = do {
     e \<leftarrow> ld (word_at pd i) m;
     m \<leftarrow> (if e AND PAGE_FLAG_PRESENT \<noteq> 0 then pt_copy pd dest_pd i m else Some m);
     pd_copy_loop n (i + 1) pd dest_pd m }"

definition pd_copy :: "Bit32u \<Rightarrow> Bit32u \<Rightarrow> vm \<Rightarrow> vm option" where
  "pd_copy pd dest_pd m = pd_copy_loop 1024 0 pd dest_pd m"

definition pd_create :: "vm \<Rightarrow> (Bit32u \<times> vm) option" where
  "pd_create m = do {
     (pd, m) \<leftarrow> alloc_page m;
     m \<leftarrow> pd_copy (cr3 m) pd m;
     Some (pd, m) }"

section \<open>Start-up\<close>

primrec map_loop :: "nat \<Rightarrow> Bit32u \<Rightarrow> Bit32u \<Rightarrow> vm \<Rightarrow> vm option" where
  "map_loop 0 i page_tbl m = Some m"
| "map_loop (Suc n) i page_tbl m = do {
     m \<leftarrow> st (word_at page_tbl i) (PAGE_SIZE * i OR PAGE_FLAG_RW OR PAGE_FLAG_PRESENT) m;
     map_loop n (i + 1) page_tbl m }"

definition init_paging :: "vm \<Rightarrow> vm option" where
  "init_paging m = do {
     (page_dir, m) \<leftarrow> alloc_page m;
     (page_tbl, m) \<leftarrow> alloc_page m;
     let m = m\<lparr> PID0_PAGE_DIR := page_dir \<rparr>;
     m \<leftarrow> st (word_at page_dir 0) (page_tbl OR PAGE_FLAG_RW OR PAGE_FLAG_PRESENT) m;
     let NUM_PE = RKERNEL_HEAP_START div PAGE_SIZE;
     m \<leftarrow> map_loop (unat NUM_PE) 0 page_tbl m;
     Some (m\<lparr> cr3 := page_dir, cr0 := cr0 m OR CR0_FLAG_PG \<rparr>) }"

section \<open>Page faults\<close>

definition paging_off :: "vm \<Rightarrow> vm" where
  "paging_off m = m\<lparr> cr0 := cr0 m AND NOT CR0_FLAG_PG \<rparr>"

definition paging_on :: "vm \<Rightarrow> vm" where
  "paging_on m = m\<lparr> cr0 := cr0 m OR CR0_FLAG_PG \<rparr>"

definition pf_handler :: "Bit32u \<Rightarrow> vm \<Rightarrow> vm option" where
  "pf_handler fault_addr m = do {
     let pda = cr3 m;
     let pdi = pde_idx_addr fault_addr;
     let pti = pte_idx_addr fault_addr;
     (pta, m) \<leftarrow> (if pda = PID0_PAGE_DIR m then do {
                   let m = paging_off m;
                   e \<leftarrow> ld (word_at pda pdi) m;
                   Some (pt_pde e, paging_on m) }
                 else do { e \<leftarrow> ld (word_at pda pdi) m; Some (pt_pde e, m) });
     if pta = 0 then do {
       let m = paging_off m;
       (pta, m) \<leftarrow> alloc_page m;
       m \<leftarrow> memset_page pta m;
       m \<leftarrow> st (word_at pda pdi) (pta OR PAGE_FLAG_RW OR PAGE_FLAG_PRESENT) m;
       m \<leftarrow> st (word_at pta pti) (fault_addr OR PAGE_FLAG_RW OR PAGE_FLAG_PRESENT) m;
       let pdi = pde_idx_addr pta;
       let pti = pte_idx_addr pta;
       e \<leftarrow> ld (word_at pda pdi) m;
       let tmp_pta = pt_pde e;
       m \<leftarrow> st (word_at tmp_pta pti) (VH_TO_RH pta OR PAGE_FLAG_RW OR PAGE_FLAG_PRESENT) m;
       Some (paging_on m) }
     else st (word_at pta pti) (fault_addr OR PAGE_FLAG_RW OR PAGE_FLAG_PRESENT) m }"

end
