(* ===== verification/Paging_Direct.thy ===== *)
theory Paging_Direct
  imports Paging
begin

text \<open>
  Copying an address space with every access going straight to physical memory: what the copy
  leaves in the new directory and its tables.  \<open>Paging_Spec\<close> shows that the program's copy, whose
  accesses are translated, does the same.
\<close>

section \<open>The copy on physical memory\<close>

definition alloc_page_direct :: "vm \<Rightarrow> Bit32u \<times> vm" where
  "alloc_page_direct m =
     (let (q, ps) = palloc_get_one_page kernel_area (pools m); m = m\<lparr> pools := ps \<rparr>
      in (q, if q \<noteq> 0 then clear_page q m else m))"

primrec pt_copy_loop_direct :: "nat \<Rightarrow> Bit32u \<Rightarrow> Bit32u \<Rightarrow> Bit32u \<Rightarrow> Bit32u \<Rightarrow> Bit32u \<Rightarrow> Bit32u \<Rightarrow> vm \<Rightarrow> vm" where
  "pt_copy_loop_direct 0 i pt new_pt pd dest_pd idx m = m"
| "pt_copy_loop_direct (Suc n) i pt new_pt pd dest_pd idx m =
     (let m = (if cells m (word_at pt i) AND PAGE_FLAG_PRESENT \<noteq> 0
               then (let m = store (word_at dest_pd idx) (new_pt OR
                           (cells m (word_at pd idx) AND NOT PAGE_MASK_BASE AND NOT PAGE_FLAG_ACCESS)) m
                     in store (word_at new_pt i) (cells m (word_at pt i)) m)
               else m)
      in pt_copy_loop_direct n (i + 1) pt new_pt pd dest_pd idx m)"

definition pt_copy_direct :: "Bit32u \<Rightarrow> Bit32u \<Rightarrow> Bit32u \<Rightarrow> vm \<Rightarrow> vm" where
  "pt_copy_direct pd dest_pd idx m =
     (let pt = pt_pde (cells m (word_at pd idx)); (new_pt, m) = alloc_page_direct m
      in pt_copy_loop_direct 1024 0 pt new_pt pd dest_pd idx m)"

primrec pd_copy_loop_direct :: "nat \<Rightarrow> Bit32u \<Rightarrow> Bit32u \<Rightarrow> Bit32u \<Rightarrow> vm \<Rightarrow> vm" where
  "pd_copy_loop_direct 0 i pd dest_pd m = m"
| "pd_copy_loop_direct (Suc n) i pd dest_pd m =
     (let m = (if cells m (word_at pd i) AND PAGE_FLAG_PRESENT \<noteq> 0 then pt_copy_direct pd dest_pd i m else m)
      in pd_copy_loop_direct n (i + 1) pd dest_pd m)"

definition pd_copy_direct :: "Bit32u \<Rightarrow> Bit32u \<Rightarrow> vm \<Rightarrow> vm" where
  "pd_copy_direct pd dest_pd m = pd_copy_loop_direct 1024 0 pd dest_pd m"

definition pd_create_direct :: "vm \<Rightarrow> Bit32u \<times> vm" where
  "pd_create_direct m = (let (pd, m) = alloc_page_direct m in (pd, pd_copy_direct (cr3 m) pd m))"

section \<open>Addresses within a page\<close>

definition page_of :: "Bit32u \<Rightarrow> Bit32u" where
  "page_of x = x AND PAGE_MASK_BASE"

definition aligned :: "Bit32u \<Rightarrow> bool" where
  "aligned q \<longleftrightarrow> take_bit 12 q = 0"

lemma PAGE_MASK_BASE_eq: "PAGE_MASK_BASE = NOT (mask 12)"
  by (simp add: PAGE_MASK_BASE_def mask_eq_exp_minus_1)

lemma page_of_eq: "page_of x = x - take_bit 12 x"
proof -
  have "page_of x = push_bit 12 (drop_bit 12 x)"
    by (rule bit_word_eqI) (auto simp: page_of_def PAGE_MASK_BASE_eq bit_simps)
  then show ?thesis using bits_ident [of 12 x] by (metis add_diff_cancel_right')
qed

lemma take_12_small: "take_bit 12 d = d \<longleftrightarrow> d < 4096" for d :: Bit32u
  by (simp add: word_uint_eq_iff unsigned_take_bit_eq take_bit_int_eq_self_iff word_less_def)

lemma take_12_add: "aligned q \<Longrightarrow> take_bit 12 (q + d) = take_bit 12 d"
proof -
  assume "aligned q"
  then have "uint q mod 4096 = 0" by (simp add: aligned_def word_uint_eq_iff unsigned_take_bit_eq take_bit_eq_mod [where 'a = int])
  then have "(uint q + uint d) mod 4096 = uint d mod 4096" using mod_add_left_eq [of "uint q" 4096 "uint d"] by simp
  then show ?thesis
    by (simp add: word_uint_eq_iff unsigned_take_bit_eq uint_word_ariths take_bit_eq_mod [where 'a = int] mod_mod_cancel)
qed

lemma page_of_aligned: "aligned q \<Longrightarrow> page_of q = q"
  by (simp add: page_of_eq aligned_def)

lemma in_page: "aligned q \<Longrightarrow> x - q < 4096 \<longleftrightarrow> page_of x = q"
  using take_12_add [of q "x - q"] take_12_small [of "x - q"] by (auto simp: page_of_eq algebra_simps)

lemma page_of_word_at: "aligned q \<Longrightarrow> i < 1024 \<Longrightarrow> page_of (word_at q i) = q"
proof -
  assume a: "aligned q" and i: "i < 1024"
  have "uint i < 1024" using i by (simp add: word_less_def)
  then have "uint (4 * i) = 4 * uint i" by (simp add: uint_word_ariths)
  then have "4 * i < 4096" using \<open>uint i < 1024\<close> by (simp add: word_less_def)
  then show ?thesis using in_page [OF a, of "word_at q i"] by (simp add: word_at_def)
qed

lemma word_at_inj: "i < 1024 \<Longrightarrow> j < 1024 \<Longrightarrow> word_at q i = word_at q j \<longleftrightarrow> i = j"
proof -
  assume "i < 1024" "j < 1024"
  then have u: "uint i < 1024" "uint j < 1024" by (simp_all add: word_less_def)
  then have "uint (4 * i) = 4 * uint i" "uint (4 * j) = 4 * uint j" by (simp_all add: uint_word_ariths)
  then have "4 * i = 4 * j \<longleftrightarrow> i = j" by (simp add: word_uint_eq_iff)
  then show ?thesis by (simp add: word_at_def)
qed

lemma idx_less: "pde_idx_addr a < 1024" "pte_idx_addr a < 1024"
proof -
  have "pde_idx_addr a = take_bit 10 (drop_bit 22 a)" "pte_idx_addr a = take_bit 10 (drop_bit 12 a)"
  proof -
    have m: "PAGE_MASK_PDE = push_bit 22 (mask 10)" "PAGE_MASK_PTE = push_bit 12 (mask 10)"
      by (simp_all add: PAGE_MASK_PDE_def PAGE_MASK_PTE_def mask_eq_exp_minus_1 push_bit_eq_mult)
    show "pde_idx_addr a = take_bit 10 (drop_bit 22 a)" "pte_idx_addr a = take_bit 10 (drop_bit 12 a)"
      by (rule bit_word_eqI; auto simp: pde_idx_addr_def pte_idx_addr_def m PAGE_OFFSET_PDE_def PAGE_OFFSET_PTE_def bit_simps)+
  qed
  moreover have "take_bit 10 x < 1024" for x :: Bit32u
  proof -
    have "uint (take_bit 10 x) < 2 ^ 10"
      using take_bit_int_less_exp [of 10 "uint x"] by (simp add: unsigned_take_bit_eq)
    then show ?thesis by (simp add: word_less_def)
  qed
  ultimately show "pde_idx_addr a < 1024" "pte_idx_addr a < 1024" by simp_all
qed

section \<open>Fresh pages\<close>

definition owned :: "vm \<Rightarrow> Bit32u list \<Rightarrow> bool" where
  "owned m held \<longleftrightarrow> palloc_inv (pools m, map (\<lambda>q. (q, 1)) held)"

lemma owned_aligned:
  assumes "owned m held" "q \<in> set held"
  shows "aligned q"
proof -
  have "well_placed (q, 1)" using assms by (auto simp: owned_def palloc_inv_def)
  then obtain i where "q = KERNEL_ADDR + of_nat i * PAGE_SIZE \<or> q = USER_POOL_START + of_nat i * PAGE_SIZE"
    by (auto simp: well_placed_def)
  moreover have "take_bit 12 (of_nat i * PAGE_SIZE) = 0"
  proof -
    have "of_nat i * PAGE_SIZE = push_bit 12 (of_nat i)" by (simp add: push_bit_eq_mult)
    moreover have "take_bit 12 (push_bit 12 (of_nat i :: Bit32u)) = 0" by (rule bit_word_eqI) (simp add: bit_simps)
    ultimately show ?thesis by simp
  qed
  moreover have "aligned KERNEL_ADDR" "aligned USER_POOL_START" by (simp_all add: aligned_def)
  ultimately show ?thesis using take_12_add unfolding aligned_def by metis
qed

lemma enough_kernel_page:
  assumes "owned m held" "length held < 735"
  shows "find_bitmap (pool_bitmap (kernelpool (pools m))) 0 1 False \<noteq> BITMAP_ERROR"
proof -
  let ?b = "pool_bitmap (kernelpool (pools m))"
  let ?live = "kernel_blocks (map (\<lambda>q. (q, 1)) held)"
  have t: "bm.tracks ?b ?live" "unat (bit_count ?b) = 736"
    using assms(1) by (auto simp: owned_def palloc_inv_def pool_ok_def)
  have one: "pages_of x = {fst x}" if "x \<in> set ?live" for x
    using that by (auto simp: kernel_blocks_def block_of_def pages_of_def)
  have "{j. j < 736 \<and> bit_at ?b j} \<subseteq> insert 0 (fst ` set ?live)"
    using t one unfolding bm.tracks_def by auto
  moreover have "card (insert 0 (fst ` set ?live)) \<le> Suc (length held)"
  proof -
    have "card (fst ` set ?live) \<le> length ?live" using card_image_le card_length le_trans by (metis List.finite_set)
    also have "length ?live \<le> length held"
      by (metis kernel_blocks_def length_filter_le length_map)
    finally show ?thesis by (simp add: card_insert_if)
  qed
  ultimately have c: "card {j. j < 736 \<and> bit_at ?b j} \<le> Suc (length held)"
    by (meson card_mono finite_imageI finite_insert List.finite_set le_trans)
  have "Suc (length held) < card {j :: nat. j < 736}" using assms(2) by simp
  then have "{j. j < 736 \<and> bit_at ?b j} \<noteq> {j. j < 736}" using c by (metis not_le)
  then obtain j where j: "j < 736" "\<not> bit_at ?b j" by blast
  have "fits ?b 0 1 False j" using j t(2) by (simp add: fits_def run_def)
  then have ex: "\<exists>i. fits ?b 0 1 False i" and le: "(LEAST i. fits ?b 0 1 False i) \<le> j"
    by (blast, rule Least_le)
  have "unat (of_nat (LEAST i. fits ?b 0 1 False i) :: Bit32u) = (LEAST i. fits ?b 0 1 False i)"
    using le j(1) by (simp add: unsigned_of_nat take_bit_nat_eq_self)
  moreover have "unat BITMAP_ERROR > 736" by (simp add: SIZE_MAX_def unsigned_minus_1_eq_mask mask_eq_exp_minus_1)
  ultimately have "(of_nat (LEAST i. fits ?b 0 1 False i) :: Bit32u) \<noteq> BITMAP_ERROR" using le j(1) by auto
  then show ?thesis using ex by (simp add: find_bitmap_first_fit_lemma)
qed

lemma alloc_page_fresh:
  assumes "owned m held" "length held < 735"
  obtains q m' where "alloc_page_direct m = (q, m')" "owned m' (q # held)" "q \<notin> set held" "aligned q" "q \<noteq> 0"
    "cells m' = (\<lambda>x. if page_of x = q then 0 else cells m x)" "cr3 m' = cr3 m" "cr0 m' = cr0 m"
    "PID0_PAGE_DIR m' = PID0_PAGE_DIR m" "q < USER_POOL_START"
proof -
  obtain q ps where g: "palloc_get_multiple_page kernel_area 1 (pools m) = (q, ps)" by (cases "palloc_get_multiple_page kernel_area 1 (pools m)")
  have inv: "palloc_inv (ps, (q, 1) # map (\<lambda>q. (q, 1)) held)" and low: "q < USER_POOL_START"
    using alloc_kernel_inv [OF _ _ enough_kernel_page [OF assms] g] assms(1) by (simp_all add: owned_def)
  let ?m = "clear_page q (m\<lparr> pools := ps \<rparr>)"
  have o: "owned ?m (q # held)" using inv by (simp add: owned_def clear_page_def)
  have al: "aligned q" using owned_aligned [OF o] by simp
  have "well_placed (q, 1)" using inv by (simp add: palloc_inv_def)
  then have q0: "q \<noteq> 0" using well_placed_cases [of "(q, 1)"] kernel_page(6) user_page(6) by fastforce
  have "disjoint_blocks (map held_bytes ((q, 1) # map (\<lambda>q. (q, 1)) held))"
    using palloc_inv_disjoint [OF inv] .
  then have "q \<notin> set held" by (auto simp: held_bytes_def pages_of_def)
  moreover have "alloc_page_direct m = (q, ?m)" using g q0 by (simp add: alloc_page_direct_def palloc_get_one_page_def Let_def)
  moreover have "cells ?m = (\<lambda>x. if page_of x = q then 0 else cells m x)"
    by (auto simp: clear_page_def in_page [OF al])
  ultimately show ?thesis using that [OF _ o _ al q0] low by (simp add: clear_page_def)
qed

section \<open>Copying a table\<close>

definition copied_pde :: "Bit32u \<Rightarrow> Bit32u \<Rightarrow> Bit32u" where
  "copied_pde q e = q OR (e AND NOT PAGE_MASK_BASE AND NOT PAGE_FLAG_ACCESS)"

lemma present_bit: "present e \<longleftrightarrow> bit e 0"
  by (simp add: present_def PAGE_FLAG_PRESENT_def bit_0 and_one_eq odd_iff_mod_2_eq_one)

lemma copied_pde_simps:
  "aligned q \<Longrightarrow> pt_pde (copied_pde q e) = q" "present e \<Longrightarrow> present (copied_pde q e)"
proof -
  show "pt_pde (copied_pde q e) = q" if "aligned q"
  proof -
    have "q AND PAGE_MASK_BASE = q" using page_of_aligned [OF that] by (simp add: page_of_def)
    moreover have "pt_pde (copied_pde q e) = q AND PAGE_MASK_BASE"
      by (rule bit_word_eqI) (auto simp: pt_pde_def copied_pde_def bit_simps)
    ultimately show ?thesis by simp
  qed
  show "present e \<Longrightarrow> present (copied_pde q e)"
  proof -
    have "\<not> bit PAGE_MASK_BASE 0" "\<not> bit PAGE_FLAG_ACCESS 0"
      by (simp_all add: PAGE_MASK_BASE_def PAGE_FLAG_ACCESS_def bit_0)
    then show "present e \<Longrightarrow> ?thesis" by (simp add: present_bit copied_pde_def bit_simps)
  qed
qed

abbreviation idx :: "nat \<Rightarrow> Bit32u" where "idx j \<equiv> of_nat j"

lemma idx_less_1024: "j < 1024 \<Longrightarrow> idx j < 1024"
  by (simp add: word_less_nat_alt unsigned_of_nat take_bit_nat_eq_self)

lemma idx_inj: "i < 1024 \<Longrightarrow> j < 1024 \<Longrightarrow> idx i = idx j \<longleftrightarrow> i = j"
  by (simp add: word_of_nat_eq_iff take_bit_nat_eq_self)

text \<open>The loop over a table, when the new table and the destination are pages of their own.\<close>

definition copies :: "Bit32u \<Rightarrow> Bit32u \<Rightarrow> Bit32u \<Rightarrow> Bit32u \<Rightarrow> nat \<Rightarrow> nat \<Rightarrow> nat \<Rightarrow> vm \<Rightarrow> vm \<Rightarrow> bool" where
  "copies pt q pd dest k a b m m' \<longleftrightarrow>
     (\<forall>j < 1024. cells m' (word_at q (idx j)) =
        (if a \<le> j \<and> j < b \<and> present (cells m (word_at pt (idx j))) then cells m (word_at pt (idx j))
         else cells m (word_at q (idx j)))) \<and>
     cells m' (word_at dest (idx k)) =
        (if \<exists>j \<in> {a..<b}. present (cells m (word_at pt (idx j)))
         then copied_pde q (cells m (word_at pd (idx k))) else cells m (word_at dest (idx k))) \<and>
     (\<forall>x. page_of x \<noteq> q \<longrightarrow> x \<noteq> word_at dest (idx k) \<longrightarrow> cells m' x = cells m x) \<and>
     pools m' = pools m \<and> cr3 m' = cr3 m \<and> cr0 m' = cr0 m \<and> PID0_PAGE_DIR m' = PID0_PAGE_DIR m"

lemma copies_step:
  assumes "copies pt q pd dest k (Suc a) (Suc a + n) m1 m'" "a < 1024" "k < 1024"
    and "\<And>j. j < 1024 \<Longrightarrow> cells m1 (word_at pt (idx j)) = cells m (word_at pt (idx j))"
    and "cells m1 (word_at pd (idx k)) = cells m (word_at pd (idx k))"
    and "\<And>j. j < 1024 \<Longrightarrow> cells m1 (word_at q (idx j)) =
      (if j = a \<and> present (cells m (word_at pt (idx a))) then cells m (word_at pt (idx a)) else cells m (word_at q (idx j)))"
    and "cells m1 (word_at dest (idx k)) = (if present (cells m (word_at pt (idx a)))
      then copied_pde q (cells m (word_at pd (idx k))) else cells m (word_at dest (idx k)))"
    and "\<And>x. page_of x \<noteq> q \<Longrightarrow> x \<noteq> word_at dest (idx k) \<Longrightarrow> cells m1 x = cells m x"
    and "pools m1 = pools m" "cr3 m1 = cr3 m" "cr0 m1 = cr0 m" "PID0_PAGE_DIR m1 = PID0_PAGE_DIR m"
    and "Suc a + n \<le> 1024"
  shows "copies pt q pd dest k a (a + Suc n) m m'"
proof -
  note c = assms(1) [unfolded copies_def assms(9-12)]
  have range: "(\<exists>j \<in> {a..<a + Suc n}. P j) \<longleftrightarrow> P a \<or> (\<exists>j \<in> {Suc a..<Suc a + n}. P j)" for P
    using le_eq_less_or_eq [of a] by fastforce
  have ex: "(\<exists>j \<in> {Suc a..<Suc a + n}. present (cells m1 (word_at pt (idx j)))) \<longleftrightarrow>
      (\<exists>j \<in> {Suc a..<Suc a + n}. present (cells m (word_at pt (idx j))))"
    using assms(4,13) by (metis atLeastLessThan_iff less_le_trans)
  show ?thesis
    unfolding copies_def
  proof (intro conjI allI impI)
    show "cells m' (word_at q (idx j)) =
        (if a \<le> j \<and> j < a + Suc n \<and> present (cells m (word_at pt (idx j))) then cells m (word_at pt (idx j))
         else cells m (word_at q (idx j)))" if "j < 1024" for j
      using c that assms(4,6) by (cases "j = a") auto
    show "cells m' (word_at dest (idx k)) =
        (if \<exists>j \<in> {a..<a + Suc n}. present (cells m (word_at pt (idx j)))
         then copied_pde q (cells m (word_at pd (idx k))) else cells m (word_at dest (idx k)))"
      using c assms(2,5,7) ex unfolding range by auto
    show "cells m' x = cells m x" if "page_of x \<noteq> q" "x \<noteq> word_at dest (idx k)" for x
      using c that assms(8) by simp
  qed (use c in simp_all)
qed

lemma pt_copy_loop_copies:
  assumes "aligned q" "aligned pt" "aligned pd" "aligned dest" "q \<noteq> pt" "q \<noteq> pd" "q \<noteq> dest" "dest \<noteq> pt" "dest \<noteq> pd" "k < 1024"
  shows "a + n \<le> 1024 \<Longrightarrow> copies pt q pd dest k a (a + n) m (pt_copy_loop_direct n (idx a) pt q pd dest (idx k) m)"
proof (induction n arbitrary: a m)
  case 0
  then show ?case by (auto simp: copies_def)
next
  case (Suc n)
  have pg: "page_of (word_at b (idx j)) = b" if "aligned b" "j < 1024" for b j
    using page_of_word_at [OF that(1) idx_less_1024 [OF that(2)]] .
  have a: "a < 1024" using Suc.prems by simp
  have ne: "word_at q (idx j) \<noteq> word_at dest (idx k)" "word_at pt (idx j) \<noteq> word_at dest (idx k)"
    "word_at pt (idx j) \<noteq> word_at q (idx i)" "word_at pd (idx k) \<noteq> word_at dest (idx k)"
    "word_at pd (idx k) \<noteq> word_at q (idx i)" "word_at dest (idx k) \<noteq> word_at q (idx i)" if "j < 1024" "i < 1024" for i j
    using pg [of q i] pg [of q j] pg [of pt j] pg [of pd k] pg [of dest k] assms that by auto
  have inj: "word_at q (idx j) = word_at q (idx i) \<longleftrightarrow> j = i" if "j < 1024" "i < 1024" for i j
    using word_at_inj idx_less_1024 idx_inj that by metis
  let ?m = "if present (cells m (word_at pt (idx a)))
    then store (word_at q (idx a)) (cells m (word_at pt (idx a)))
      (store (word_at dest (idx k)) (copied_pde q (cells m (word_at pd (idx k)))) m) else m"
  have step: "pt_copy_loop_direct (Suc n) (idx a) pt q pd dest (idx k) m = pt_copy_loop_direct n (idx (Suc a)) pt q pd dest (idx k) ?m"
    using ne [OF a a] by (simp add: present_def [symmetric] copied_pde_def [symmetric] store_def add.commute Let_def)
  have src: "cells ?m (word_at pt (idx j)) = cells m (word_at pt (idx j))"
    "cells ?m (word_at pd (idx k)) = cells m (word_at pd (idx k))" if "j < 1024" for j
    using ne [OF that a] by (simp_all add: store_def)
  have new: "cells ?m (word_at q (idx j)) =
      (if j = a \<and> present (cells m (word_at pt (idx a))) then cells m (word_at pt (idx a)) else cells m (word_at q (idx j)))"
    if "j < 1024" for j
    using ne [OF that a] inj [OF that a] by (simp add: store_def)
  have dst: "cells ?m (word_at dest (idx k)) = (if present (cells m (word_at pt (idx a)))
      then copied_pde q (cells m (word_at pd (idx k))) else cells m (word_at dest (idx k)))"
    using ne [OF a a] by (simp add: store_def)
  have other: "cells ?m x = cells m x" if "page_of x \<noteq> q" "x \<noteq> word_at dest (idx k)" for x
    using that pg [OF assms(1) a] by (auto simp: store_def)
  have rest: "pools ?m = pools m" "cr3 ?m = cr3 m" "cr0 ?m = cr0 m" "PID0_PAGE_DIR ?m = PID0_PAGE_DIR m"
    by (simp_all add: store_def)
  have IH: "copies pt q pd dest k (Suc a) (Suc a + n) ?m (pt_copy_loop_direct n (idx (Suc a)) pt q pd dest (idx k) ?m)"
    using Suc.IH [of "Suc a" ?m] Suc.prems by simp
  show ?case
    unfolding step
    by (rule copies_step [OF IH a _ src(1) src(2) [OF a] new dst other rest]) (use assms(10) Suc.prems in auto)
qed

section \<open>Copying a directory\<close>

text \<open>What a directory entry gives for an index into its table.\<close>

definition lookup :: "vm \<Rightarrow> Bit32u \<Rightarrow> nat \<Rightarrow> Bit32u option" where
  "lookup m e t =
     (if present e \<and> present (cells m (word_at (pt_pde e) (idx t))) then Some (cells m (word_at (pt_pde e) (idx t))) else None)"

abbreviation pde :: "vm \<Rightarrow> Bit32u \<Rightarrow> nat \<Rightarrow> Bit32u" where
  "pde m pd j \<equiv> cells m (word_at pd (idx j))"

lemma page_of_idx: "aligned q \<Longrightarrow> j < 1024 \<Longrightarrow> page_of (word_at q (idx j)) = q"
  by (simp add: page_of_word_at idx_less_1024)

lemma not_present_0 [simp]: "\<not> present 0"
  by (simp add: present_def)

lemma pt_copy_ok:
  assumes "owned m held" "length held < 735" "pd \<in> set held" "dest \<in> set held" "dest \<noteq> pd" "k < 1024"
    and "present (pde m pd k)" "pt_pde (pde m pd k) \<in> set held" "dest \<noteq> pt_pde (pde m pd k)" "pde m dest k = 0"
  shows "\<exists>q. q \<notin> set held \<and> q < USER_POOL_START \<and> owned (pt_copy_direct pd dest (idx k) m) (q # held) \<and>
    (\<forall>t < 1024. lookup (pt_copy_direct pd dest (idx k) m) (pde (pt_copy_direct pd dest (idx k) m) dest k) t = lookup m (pde m pd k) t) \<and>
    (present (pde (pt_copy_direct pd dest (idx k) m) dest k) \<longrightarrow> pt_pde (pde (pt_copy_direct pd dest (idx k) m) dest k) = q) \<and>
    (\<forall>x. page_of x \<noteq> q \<longrightarrow> x \<noteq> word_at dest (idx k) \<longrightarrow> cells (pt_copy_direct pd dest (idx k) m) x = cells m x) \<and>
    cr3 (pt_copy_direct pd dest (idx k) m) = cr3 m \<and> cr0 (pt_copy_direct pd dest (idx k) m) = cr0 m"
proof -
  let ?e = "pde m pd k"
  let ?pt = "pt_pde ?e"
  obtain q m1 where fresh: "alloc_page_direct m = (q, m1)" "owned m1 (q # held)" "q \<notin> set held" "aligned q" "q \<noteq> 0"
    "cells m1 = (\<lambda>x. if page_of x = q then 0 else cells m x)" "cr3 m1 = cr3 m" "cr0 m1 = cr0 m"
    "PID0_PAGE_DIR m1 = PID0_PAGE_DIR m" "q < USER_POOL_START"
    by (rule alloc_page_fresh [OF assms(1,2)])
  note q = fresh(1-4,6-8)
  have al: "aligned pd" "aligned dest" "aligned ?pt" using owned_aligned [OF assms(1)] assms(3,4,8) by auto
  have ne: "q \<noteq> ?pt" "q \<noteq> pd" "q \<noteq> dest" using q(3) assms(3,4,8) by auto
  let ?m = "pt_copy_loop_direct 1024 (idx 0) ?pt q pd dest (idx k) m1"
  have m': "pt_copy_direct pd dest (idx k) m = ?m" by (simp add: pt_copy_direct_def q(1))
  have c: "copies ?pt q pd dest k 0 1024 m1 ?m"
    using pt_copy_loop_copies [OF q(4) al(3,1,2) ne assms(9,5,6), of 0 1024 m1] by simp
  have m1: "cells m1 (word_at ?pt (idx j)) = cells m (word_at ?pt (idx j))" "cells m1 (word_at q (idx j)) = 0" if "j < 1024" for j
    using page_of_idx [OF al(3) that] page_of_idx [OF q(4) that] ne by (simp_all add: q(5))
  have "pde m1 pd k = ?e" "pde m1 dest k = 0"
    using page_of_idx [OF al(1) assms(6)] page_of_idx [OF al(2) assms(6)] ne assms(10) by (simp_all add: q(5))
  then have d: "pde ?m dest k = (if \<exists>j \<in> {0..<1024}. present (cells m (word_at ?pt (idx j))) then copied_pde q ?e else 0)"
    using c m1 unfolding copies_def by (metis (mono_tags, lifting) atLeastLessThan_iff)
  have tbl: "cells ?m (word_at q (idx t)) = (if present (cells m (word_at ?pt (idx t))) then cells m (word_at ?pt (idx t)) else 0)"
    if "t < 1024" for t
    using c m1 [OF that] that unfolding copies_def by simp
  have "lookup ?m (pde ?m dest k) t = lookup m ?e t" if "t < 1024" for t
    using tbl [OF that] d that assms(7) copied_pde_simps(1) [OF q(4), of ?e] copied_pde_simps(2) [of ?e q] by (auto simp: lookup_def)
  moreover have "owned ?m (q # held)" using q(2) c by (simp add: owned_def copies_def)
  moreover have "present (pde ?m dest k) \<longrightarrow> pt_pde (pde ?m dest k) = q"
    using d copied_pde_simps(1) [OF q(4)] by auto
  moreover have "cells ?m x = cells m x" if "page_of x \<noteq> q" "x \<noteq> word_at dest (idx k)" for x
    using c that q(5) by (simp add: copies_def)
  moreover have "cr3 ?m = cr3 m" "cr0 ?m = cr0 m" using c q(6,7) by (simp_all add: copies_def)
  ultimately show ?thesis using q(3) fresh(10) unfolding m' by blast
qed

text \<open>After the entries below \<open>a\<close>: the destination agrees with the source and shares no table with it.\<close>

definition copied_below :: "nat \<Rightarrow> vm \<Rightarrow> Bit32u list \<Rightarrow> Bit32u \<Rightarrow> Bit32u \<Rightarrow> vm \<Rightarrow> Bit32u list \<Rightarrow> bool" where
  "copied_below a m0 held0 pd dest m held \<longleftrightarrow> owned m held \<and> set held0 \<subseteq> set held \<and> dest \<in> set held - set held0 \<and>
     (\<forall>x. page_of x \<in> set held0 \<longrightarrow> cells m x = cells m0 x) \<and>
     (\<forall>j < a. (\<forall>t < 1024. lookup m (pde m dest j) t = lookup m0 (pde m0 pd j) t) \<and>
        (present (pde m dest j) \<longrightarrow> pt_pde (pde m dest j) \<in> set held - set held0 - {dest})) \<and>
     (\<forall>j. a \<le> j \<longrightarrow> j < 1024 \<longrightarrow> pde m dest j = 0) \<and> cr3 m = cr3 m0 \<and> cr0 m = cr0 m0 \<and>
     (\<forall>q \<in> set held - set held0. q < USER_POOL_START)"

definition good_dir :: "vm \<Rightarrow> Bit32u list \<Rightarrow> Bit32u \<Rightarrow> bool" where
  "good_dir m held pd \<longleftrightarrow> pd \<in> set held \<and> (\<forall>j < 1024. present (pde m pd j) \<longrightarrow> pt_pde (pde m pd j) \<in> set held)"

lemma copied_below_skip:
  assumes "copied_below a m0 held0 pd dest m held" "a < 1024" "\<not> present (pde m0 pd a)"
  shows "copied_below (Suc a) m0 held0 pd dest m held"
proof -
  have "pde m dest a = 0" using assms(1,2) by (simp add: copied_below_def)
  then show ?thesis using assms unfolding copied_below_def by (auto simp: less_Suc_eq lookup_def)
qed

lemma copied_below_step:
  assumes "copied_below a m0 held0 pd dest m held" "a < 1024" "present (pde m0 pd a)" "good_dir m0 held0 pd" "length held < 735"
  shows "\<exists>q. copied_below (Suc a) m0 held0 pd dest (pt_copy_direct pd dest (idx a) m) (q # held)"
proof -
  note c = assms(1) [unfolded copied_below_def]
  have own: "owned m held" using c by blast
  have held: "pd \<in> set held0" "pt_pde (pde m0 pd a) \<in> set held0" using assms(2-4) by (auto simp: good_dir_def)
  have al: "aligned x" if "x \<in> set held" for x using owned_aligned [OF own that] .
  have ld: "aligned pd" "aligned dest" using al held(1) c by auto
  have src: "pde m pd a = pde m0 pd a" using c held(1) page_of_idx [OF ld(1) assms(2)] by simp
  have mem: "pd \<in> set held" "dest \<in> set held" "dest \<noteq> pd" "pt_pde (pde m pd a) \<in> set held" "dest \<noteq> pt_pde (pde m pd a)"
    using c held src by auto
  let ?m = "pt_copy_direct pd dest (idx a) m"
  obtain q where low: "q < USER_POOL_START" and q: "q \<notin> set held" "owned ?m (q # held)"
    "\<forall>t < 1024. lookup ?m (pde ?m dest a) t = lookup m (pde m pd a) t"
    "present (pde ?m dest a) \<longrightarrow> pt_pde (pde ?m dest a) = q"
    "\<forall>x. page_of x \<noteq> q \<longrightarrow> x \<noteq> word_at dest (idx a) \<longrightarrow> cells ?m x = cells m x" "cr3 ?m = cr3 m" "cr0 ?m = cr0 m"
    using pt_copy_ok [OF own assms(5) mem(1-3) assms(2)] mem(4,5) src assms(2,3) c by auto
  have keep: "cells ?m x = cells m x" if "page_of x \<in> set held" "page_of x \<noteq> dest" for x
    using that q(1,5) page_of_idx [OF ld(2) assms(2)] by metis
  have other: "pde ?m dest j = pde m dest j" if "j < 1024" "j \<noteq> a" for j
    using q(1,5) mem(2) page_of_idx [OF ld(2) that(1)] word_at_inj idx_less_1024 idx_inj that assms(2) by metis
  have look: "lookup ?m e t = lookup m e t" if "present e \<longrightarrow> pt_pde e \<in> set held - {dest}" "t < 1024" for e t
    using that keep [of "word_at (pt_pde e) (idx t)"] page_of_idx [of "pt_pde e" t] al by (auto simp: lookup_def)
  have src_look: "lookup m (pde m pd a) t = lookup m0 (pde m0 pd a) t" if "t < 1024" for t
    using c held(2) src page_of_idx [of "pt_pde (pde m0 pd a)" t] al that by (auto simp: lookup_def)
  have "copied_below (Suc a) m0 held0 pd dest ?m (q # held)"
    unfolding copied_below_def
  proof (intro conjI allI impI)
    show "cells ?m x = cells m0 x" if "page_of x \<in> set held0" for x
      using keep that c by (metis Diff_iff subsetD)
    show "lookup ?m (pde ?m dest j) t = lookup m0 (pde m0 pd j) t" if "j < Suc a" "t < 1024" for j t
      using that q(3) src_look c other [of j] look [of "pde m dest j" t] assms(2) by (cases "j = a") auto
    show "pt_pde (pde ?m dest j) \<in> set (q # held) - set held0 - {dest}" if "j < Suc a" "present (pde ?m dest j)" for j
      using that q(1,4) c other [of j] assms(2) by (cases "j = a") auto
    show "pde ?m dest j = 0" if "Suc a \<le> j" "j < 1024" for j
      using that other c by simp
  qed (use c q(2,6,7) low in auto)
  then show ?thesis by blast
qed

definition tables_from :: "nat \<Rightarrow> nat \<Rightarrow> vm \<Rightarrow> Bit32u \<Rightarrow> nat" where
  "tables_from a n m pd = length (filter (\<lambda>j. present (pde m pd j)) [a..<a + n])"

lemma tables_from_Suc:
  "tables_from a (Suc n) m pd = (if present (pde m pd a) then 1 else 0) + tables_from (Suc a) n m pd"
proof -
  have "[a..<a + Suc n] = a # [Suc a..<Suc a + n]" by (simp add: upt_conv_Cons)
  then show ?thesis by (simp add: tables_from_def)
qed

lemma pd_copy_loop_ok:
  "copied_below a m0 held0 pd dest m held \<Longrightarrow> a + n = 1024 \<Longrightarrow> good_dir m0 held0 pd \<Longrightarrow>
    length held + tables_from a n m0 pd \<le> 735 \<Longrightarrow>
    \<exists>held'. copied_below 1024 m0 held0 pd dest (pd_copy_loop_direct n (idx a) pd dest m) held'"
proof (induction n arbitrary: a m held)
  case (Suc n)
  have a: "a < 1024" using Suc.prems(2) by simp
  have "aligned pd"
    using Suc.prems(1,3) owned_aligned [of m held pd] by (auto simp: copied_below_def good_dir_def)
  then have src: "pde m pd a = pde m0 pd a"
    using Suc.prems(1,3) page_of_idx [OF _ a, of pd] by (simp add: copied_below_def good_dir_def)
  let ?m = "if present (pde m0 pd a) then pt_copy_direct pd dest (idx a) m else m"
  have step: "pd_copy_loop_direct (Suc n) (idx a) pd dest m = pd_copy_loop_direct n (idx (Suc a)) pd dest ?m"
    using src by (simp add: present_def [symmetric] add.commute Let_def)
  have "\<exists>held1. copied_below (Suc a) m0 held0 pd dest ?m held1 \<and>
      length held1 + tables_from (Suc a) n m0 pd \<le> 735"
  proof (cases "present (pde m0 pd a)")
    case True
    then have "length held < 735" using Suc.prems(4) tables_from_Suc [of a n m0 pd] by simp
    from copied_below_step [OF Suc.prems(1) a True Suc.prems(3) this] obtain q where
      "copied_below (Suc a) m0 held0 pd dest (pt_copy_direct pd dest (idx a) m) (q # held)"
      by blast
    then show ?thesis
      using True Suc.prems(4) tables_from_Suc [of a n m0 pd] by (intro exI [of _ "q # held"]) simp
  next
    case False
    then show ?thesis
      using copied_below_skip [OF Suc.prems(1) a] Suc.prems(4) tables_from_Suc [of a n m0 pd]
      by (intro exI [of _ held]) simp
  qed
  then obtain held1 where h: "copied_below (Suc a) m0 held0 pd dest ?m held1"
      "length held1 + tables_from (Suc a) n m0 pd \<le> 735" by blast
  from Suc.IH [OF h(1) _ Suc.prems(3) h(2)] show ?case
    using Suc.prems(2) unfolding step by auto
qed auto

end
