(* ===== verification/Paging_Spec.thy ===== *)
theory Paging_Spec
  imports Paging_Direct
begin

text \<open>
  Address spaces as the processor sees them.  While the running directory maps the pages below
  4 MB to themselves, the program's copy of a directory is the copy on physical memory of
  \<open>Paging_Direct\<close>; the page-fault handler breaks that mapping for the table it adds.
\<close>

section \<open>Low memory mapped to itself\<close>

definition low :: "vm \<Rightarrow> bool" where
  "low m \<longleftrightarrow> (\<forall>a < 0x400000. phys m a = Some a)"

definition low_dir :: "vm \<Rightarrow> Bit32u list \<Rightarrow> Bit32u \<Rightarrow> bool" where
  "low_dir m held pd \<longleftrightarrow> good_dir m held pd \<and> (\<forall>q \<in> set held. q < USER_POOL_START)"

definition agree :: "vm \<Rightarrow> Bit32u list \<Rightarrow> vm \<Rightarrow> bool" where
  "agree m0 held m \<longleftrightarrow> (\<forall>x. page_of x \<in> set held \<longrightarrow> cells m x = cells m0 x) \<and> cr3 m = cr3 m0 \<and> cr0 m = cr0 m0"

lemma agree_refl [simp]: "agree m held m"
  by (simp add: agree_def)

lemma agree_trans: "agree a h b \<Longrightarrow> agree b h c \<Longrightarrow> agree a h c"
  by (simp add: agree_def)

lemma aligned_below:
  assumes "aligned p" "p < USER_POOL_START" "page_of x = p"
  shows "x < 0x400000"
proof -
  have "x - p < 4096" using in_page [OF assms(1)] assms(3) by simp
  then have "unat (x - p) < 4096" "unat p < 0x3e0000" using assms(2) by (simp_all add: word_less_nat_alt)
  then have "unat (p + (x - p)) < 0x400000" using unat_word_ariths(1) [of p "x - p"] by simp
  then show ?thesis by (simp add: word_less_nat_alt)
qed

lemma word_below: "aligned p \<Longrightarrow> p < USER_POOL_START \<Longrightarrow> j < 1024 \<Longrightarrow> word_at p (idx j) < 0x400000"
  using aligned_below page_of_idx by blast

lemma phys_agree:
  assumes "agree m0 held m" "good_dir m0 held (cr3 m0)" "\<And>q. q \<in> set held \<Longrightarrow> aligned q"
  shows "phys m a = phys m0 a"
proof -
  let ?i = "unat (pde_idx_addr a)" and ?j = "unat (pte_idx_addr a)"
  have ij: "?i < 1024" "?j < 1024" using idx_less [of a] by (simp_all add: word_less_nat_alt)
  have pd: "cr3 m0 \<in> set held" "aligned (cr3 m0)" using assms(2,3) by (auto simp: good_dir_def)
  then have d: "pde m (cr3 m0) ?i = pde m0 (cr3 m0) ?i"
    using assms(1) page_of_idx [OF pd(2) ij(1)] by (simp add: agree_def)
  let ?t = "pt_pde (pde m0 (cr3 m0) ?i)"
  have "pde m ?t ?j = pde m0 ?t ?j" if "present (pde m0 (cr3 m0) ?i)"
  proof -
    have t: "?t \<in> set held" using assms(2) ij(1) that unfolding good_dir_def by blast
    then have "page_of (word_at ?t (idx ?j)) = ?t" using page_of_idx assms(3) ij(2) by blast
    then show ?thesis using assms(1) t by (simp only: agree_def)
  qed
  then show ?thesis
    using assms(1) d by (cases "present (pde m0 (cr3 m0) ?i)") (simp_all add: phys_def agree_def Let_def)
qed

section \<open>The program's copy is the copy on physical memory\<close>

lemma ld_low: "phys m a = Some a \<Longrightarrow> ld a m = Some (cells m a)"
  by (simp add: ld_def)

lemma st_low: "phys m a = Some a \<Longrightarrow> st a v m = Some (store a v m)"
  by (simp add: st_def)

lemma agree_store: "agree m0 held m \<Longrightarrow> page_of x \<notin> set held \<Longrightarrow> agree m0 held (store x v m)"
  by (auto simp: agree_def store_def)

text \<open>What the copy of a table needs of its four pages.\<close>

lemma pt_copy_loop_refines:
  assumes "low m0" "good_dir m0 held (cr3 m0)" "\<And>q. q \<in> set held \<Longrightarrow> aligned q"
    and "aligned pt" "aligned pd" "aligned dest" "aligned q"
    and "pt < USER_POOL_START" "pd < USER_POOL_START" "dest < USER_POOL_START" "q < USER_POOL_START"
    and "dest \<notin> set held" "q \<notin> set held" "k < 1024"
  shows "agree m0 held m \<Longrightarrow> a + n \<le> 1024 \<Longrightarrow>
    pt_copy_loop n (idx a) pt q pd dest (idx k) m = Some (pt_copy_loop_direct n (idx a) pt q pd dest (idx k) m)"
proof (induction n arbitrary: a m)
  case (Suc n)
  have a: "a < 1024" using Suc.prems(2) by simp
  have P: "phys m' x = Some x" if "agree m0 held m'" "x < 0x400000" for m' x
    using phys_agree [OF that(1) assms(2,3)] assms(1) that(2) by (simp add: low_def)
  have w: "word_at pt (idx a) < 0x400000" "word_at pd (idx k) < 0x400000"
      "word_at dest (idx k) < 0x400000" "word_at q (idx a) < 0x400000"
    using word_below assms a by blast+
  have "page_of (word_at dest (idx k)) \<notin> set held" "page_of (word_at q (idx a)) \<notin> set held"
    using page_of_idx assms(6,7,12-14) a by metis+
  note A = agree_store [OF _ this(1)] agree_store [OF _ this(2)]
  note [simp] = ld_low [OF P] st_low [OF P] w A Suc.prems(1)
  have nx: "1 + idx a = idx a + 1" by simp
  show ?case
  proof (cases "cells m (word_at pt (idx a)) AND PAGE_FLAG_PRESENT = 0")
    case True
    then show ?thesis using Suc.IH [OF Suc.prems(1), of "Suc a"] Suc.prems(2) nx by simp
  next
    case False
    let ?m1 = "store (word_at dest (idx k)) (q OR (cells m (word_at pd (idx k)) AND NOT PAGE_MASK_BASE AND NOT PAGE_FLAG_ACCESS)) m"
    let ?m2 = "store (word_at q (idx a)) (cells ?m1 (word_at pt (idx a))) ?m1"
    have "agree m0 held ?m2" by simp
    from Suc.IH [OF this, of "Suc a"] False show ?thesis using Suc.prems(2) nx by (simp add: Let_def)
  qed
qed simp


lemma alloc_page_refines:
  assumes "owned m held" "length held < 735" "low m"
  shows "alloc_page m = Some (alloc_page_direct m)"
proof -
  obtain q m' where f: "alloc_page_direct m = (q, m')" "owned m' (q # held)" "q \<notin> set held" "aligned q" "q \<noteq> 0"
    "cells m' = (\<lambda>x. if page_of x = q then 0 else cells m x)" "cr3 m' = cr3 m" "cr0 m' = cr0 m"
    "PID0_PAGE_DIR m' = PID0_PAGE_DIR m" "q < USER_POOL_START"
    by (rule alloc_page_fresh [OF assms(1,2)])
  obtain q' ps where g: "palloc_get_one_page kernel_area (pools m) = (q', ps)" by fastforce
  have "q' = q" using f(1) g by (simp add: alloc_page_direct_def Let_def)
  moreover have "phys (m\<lparr> pools := ps \<rparr>) q = Some q"
  proof -
    have "q < 0x400000" using f(10) by (simp add: word_less_nat_alt)
    moreover have "phys (m\<lparr> pools := ps \<rparr>) q = phys m q" by (simp add: phys_def)
    ultimately show ?thesis using assms(3) by (simp add: low_def)
  qed
  ultimately show ?thesis
    using g f(5) by (simp add: alloc_page_def alloc_page_direct_def memset_page_def Let_def)
qed

lemma pd_copy_loop_refines:
  assumes "low m0" "low_dir m0 held0 (cr3 m0)" "\<And>q. q \<in> set held0 \<Longrightarrow> aligned q" "dest < USER_POOL_START"
  shows "copied_below a m0 held0 (cr3 m0) dest m held \<Longrightarrow> a + n = 1024 \<Longrightarrow>
    length held + tables_from a n m0 (cr3 m0) \<le> 735 \<Longrightarrow>
    pd_copy_loop n (idx a) (cr3 m0) dest m = Some (pd_copy_loop_direct n (idx a) (cr3 m0) dest m)"
proof (induction n arbitrary: a m held)
  case (Suc n)
  let ?pd = "cr3 m0"
  note c = Suc.prems(1) [unfolded copied_below_def]
  have a: "a < 1024" using Suc.prems(2) by simp
  have gd: "good_dir m0 held0 ?pd" using assms(2) by (simp add: low_dir_def)
  have ag: "agree m0 held0 m" using c by (simp add: agree_def)
  have lm: "phys m x = Some x" if "x < 0x400000" for x
    using phys_agree [OF ag gd assms(3)] assms(1) that by (simp add: low_def)
  have pd: "?pd \<in> set held0" "aligned ?pd" "?pd < USER_POOL_START"
    using assms(2,3) by (auto simp: low_dir_def good_dir_def)
  have dest: "aligned dest" "dest \<notin> set held0" using c owned_aligned by auto
  have wpd: "word_at ?pd (idx a) < 0x400000" using word_below [OF pd(2,3) a] .
  have src: "pde m ?pd a = pde m0 ?pd a" using c pd(1) page_of_idx [OF pd(2) a] by simp
  have nx: "1 + idx a = idx a + 1" by simp
  show ?case
  proof (cases "present (pde m0 ?pd a)")
    case False
    then have "copied_below (Suc a) m0 held0 ?pd dest m held" using copied_below_skip [OF Suc.prems(1) a] by blast
    from Suc.IH [OF this] show ?thesis
      using Suc.prems False lm wpd src tables_from_Suc [of a n m0 ?pd] nx by (simp add: ld_def present_def)
  next
    case True
    have len: "length held < 735" using True Suc.prems(3) tables_from_Suc [of a n m0 ?pd] by simp
    let ?pt = "pt_pde (pde m0 ?pd a)"
    have pt: "?pt \<in> set held0" "?pt < USER_POOL_START" using True assms(2) a by (auto simp: low_dir_def good_dir_def)
    obtain q m1 where f: "alloc_page_direct m = (q, m1)" "owned m1 (q # held)" "q \<notin> set held" "aligned q" "q \<noteq> 0"
      "cells m1 = (\<lambda>x. if page_of x = q then 0 else cells m x)" "cr3 m1 = cr3 m" "cr0 m1 = cr0 m"
      "PID0_PAGE_DIR m1 = PID0_PAGE_DIR m" "q < USER_POOL_START"
      using alloc_page_fresh [of m held] c len by blast
    have q: "q \<notin> set held0" using f(3) c by blast
    have ag1: "agree m0 held0 m1" using ag q f by (auto simp: agree_def)
    have "alloc_page m = Some (q, m1)"
      using alloc_page_refines [of m held] c len lm f(1) by (simp add: low_def)
    moreover have "pt_copy_loop 1024 (idx 0) ?pt q ?pd dest (idx a) m1 = Some (pt_copy_loop_direct 1024 (idx 0) ?pt q ?pd dest (idx a) m1)"
      by (rule pt_copy_loop_refines [OF assms(1) gd assms(3) assms(3) [OF pt(1)] pd(2) dest(1) f(4) pt(2) pd(3) assms(4) f(10)
            dest(2) q a ag1]) simp_all
    ultimately have "pt_copy ?pd dest (idx a) m = Some (pt_copy_direct ?pd dest (idx a) m)"
      using lm [OF wpd] src f(1) by (simp add: pt_copy_def pt_copy_direct_def ld_def)
    moreover obtain q' where "copied_below (Suc a) m0 held0 ?pd dest (pt_copy_direct ?pd dest (idx a) m) (q' # held)"
      using copied_below_step [OF Suc.prems(1) a True gd len] by blast
    note Suc.IH [OF this]
    ultimately show ?thesis
      using True lm [OF wpd] src Suc.prems(2,3) tables_from_Suc [of a n m0 ?pd] nx
      by (simp add: ld_def present_def Let_def)
  qed
qed simp

section \<open>A new address space\<close>

definition tables_in_use :: "vm \<Rightarrow> nat" where
  "tables_in_use m = length (filter (\<lambda>j. present (pde m (cr3 m) j)) [0..<1024])"

text \<open>The pages the kernel holds are \<open>held\<close>; the running directory and its tables are among them, below the user pool, and mapped to themselves.\<close>

definition kernel_space :: "vm \<Rightarrow> Bit32u list \<Rightarrow> bool" where
  "kernel_space m held \<longleftrightarrow> owned m held \<and> low m \<and> low_dir m held (cr3 m)"

lemma pd_create_ok:
  assumes "kernel_space m held" "length held + tables_in_use m < 735"
  shows "\<exists>pd m' held'. pd_create m = Some (pd, m') \<and> copied_below 1024 m held (cr3 m) pd m' held'"
proof -
  have k: "owned m held" "low m" "low_dir m held (cr3 m)" "good_dir m held (cr3 m)"
    using assms(1) by (simp_all add: kernel_space_def low_dir_def)
  have len: "length held < 735" using assms(2) by simp
  obtain q m1 where f: "alloc_page_direct m = (q, m1)" "owned m1 (q # held)" "q \<notin> set held" "aligned q" "q \<noteq> 0"
    "cells m1 = (\<lambda>x. if page_of x = q then 0 else cells m x)" "cr3 m1 = cr3 m" "cr0 m1 = cr0 m"
    "PID0_PAGE_DIR m1 = PID0_PAGE_DIR m" "q < USER_POOL_START"
    by (rule alloc_page_fresh [OF k(1) len])
  have z: "copied_below 0 m held (cr3 m) q m1 (q # held)"
    using f page_of_idx [OF f(4)] by (auto simp: copied_below_def)
  have t: "length (q # held) + tables_from 0 1024 m (cr3 m) \<le> 735"
    using assms(2) by (simp add: tables_from_def tables_in_use_def)
  have al: "aligned x" if "x \<in> set held" for x using owned_aligned [OF k(1) that] .
  have "pd_copy_loop 1024 (idx 0) (cr3 m) q m1 = Some (pd_copy_loop_direct 1024 (idx 0) (cr3 m) q m1)"
    by (rule pd_copy_loop_refines [OF k(2,3) al f(10) z _ t]) simp_all
  then have "pd_create m = Some (q, pd_copy_loop_direct 1024 (idx 0) (cr3 m) q m1)"
    using alloc_page_refines [OF k(1) len k(2)] f(1,7) by (simp add: pd_create_def pd_copy_def)
  moreover obtain held' where "copied_below 1024 m held (cr3 m) q (pd_copy_loop_direct 1024 (idx 0) (cr3 m) q m1) held'"
    using pd_copy_loop_ok [OF z _ k(4) t] by auto
  ultimately show ?thesis by blast
qed


lemma kernel_space_aligned: "kernel_space m held \<Longrightarrow> q \<in> set held \<Longrightarrow> aligned q"
  using owned_aligned by (auto simp: kernel_space_def)

text \<open>The processor's walk in terms of \<open>lookup\<close>.\<close>

lemma phys_lookup:
  "cr0 m AND CR0_FLAG_PG \<noteq> 0 \<Longrightarrow>
    phys m a = map_option (\<lambda>e. (e AND PAGE_MASK_BASE) OR (a AND NOT PAGE_MASK_BASE))
      (lookup m (pde m (cr3 m) (unat (pde_idx_addr a))) (unat (pte_idx_addr a)))"
  by (simp add: phys_def lookup_def Let_def)

lemma copied_translates:
  assumes "copied_below 1024 m held (cr3 m) pd m' held'"
  shows "phys (m'\<lparr> cr3 := pd \<rparr>) a = phys m a"
proof (cases "cr0 m AND CR0_FLAG_PG = 0")
  case True
  then show ?thesis using assms by (simp add: phys_def copied_below_def)
next
  case False
  have "unat (pde_idx_addr a) < 1024" "unat (pte_idx_addr a) < 1024"
    using idx_less [of a] by (simp_all add: word_less_nat_alt)
  then have "lookup m' (pde m' pd (unat (pde_idx_addr a))) (unat (pte_idx_addr a)) =
      lookup m (pde m (cr3 m) (unat (pde_idx_addr a))) (unat (pte_idx_addr a))"
    using assms by (simp only: copied_below_def)
  moreover have "cr0 m' = cr0 m" using assms by (simp add: copied_below_def)
  moreover have "lookup (m'\<lparr> cr3 := pd \<rparr>) e t = lookup m' e t" for e t by (simp add: lookup_def)
  ultimately show ?thesis using False by (simp add: phys_lookup)
qed

lemma copied_space:
  assumes "kernel_space m held" "copied_below 1024 m held (cr3 m) pd m' held'"
  shows "kernel_space (m'\<lparr> cr3 := pd \<rparr>) held'"
proof -
  note c = assms(2) [unfolded copied_below_def]
  have "low (m'\<lparr> cr3 := pd \<rparr>)"
    using assms(1) copied_translates [OF assms(2)] by (simp add: kernel_space_def low_def)
  moreover have "good_dir (m'\<lparr> cr3 := pd \<rparr>) held' pd" using c by (auto simp: good_dir_def)
  moreover have "q < USER_POOL_START" if "q \<in> set held'" for q
    using that c assms(1) by (cases "q \<in> set held") (auto simp: kernel_space_def low_dir_def)
  ultimately show ?thesis using c by (simp add: kernel_space_def low_dir_def owned_def)
qed

text \<open>
  C3. A new process's address space, made in a space whose low memory is mapped to itself
  (\<open>kernel_space\<close>, which start-up establishes) while enough pages are free: the directory and all its tables are pages nobody held, every
  address is translated as in the creator's space, the creator's own pages are unchanged, and the
  new space can itself be copied again.
\<close>
theorem new_space_translates_alike:
  assumes "kernel_space m held" "length held + tables_in_use m < 735"
  shows "\<exists>pd m' held'. pd_create m = Some (pd, m') \<and> pd \<notin> set held \<and>
    (\<forall>a. phys (m'\<lparr> cr3 := pd \<rparr>) a = phys m a) \<and>
    (\<forall>j < 1024. present (pde m' pd j) \<longrightarrow> pt_pde (pde m' pd j) \<notin> set held \<union> {pd}) \<and>
    (\<forall>x. page_of x \<in> set held \<longrightarrow> cells m' x = cells m x) \<and>
    cr3 m' = cr3 m \<and> kernel_space (m'\<lparr> cr3 := pd \<rparr>) held'"
proof -
  obtain pd m' held' where p: "pd_create m = Some (pd, m')" "copied_below 1024 m held (cr3 m) pd m' held'"
    using pd_create_ok [OF assms] by blast
  note c = p(2) [unfolded copied_below_def]
  show ?thesis
    using p c copied_translates [OF p(2)] copied_space [OF assms(1) p(2)]
    by (intro exI [of _ pd] exI [of _ m'] exI [of _ held'] conjI allI impI) auto
qed

end
