(* ===== verification/Paging_Boot.thy ===== *)
theory Paging_Boot
  imports Paging_Spec
begin

text \<open>
  Start-up and page faults: the directory \<open>init_paging\<close> builds maps the first 4 MB to itself and is a
  \<open>kernel_space\<close>, and what the page-fault handler does to such a space.
\<close>

section \<open>The first pages\<close>

abbreviation kpage :: "nat \<Rightarrow> Bit32u" where "kpage i \<equiv> KERNEL_ADDR + of_nat i * PAGE_SIZE"

lemma kernel_bits:
  assumes "owned m (map kpage is)" "\<forall>i \<in> set is. i < 736" "j < 736"
  shows "bit_at (pool_bitmap (kernelpool (pools m))) j \<longleftrightarrow> j = 0 \<or> j \<in> set is"
proof -
  have b: "kernel_blocks (map (\<lambda>q. (q, 1)) (map kpage is)) = map (\<lambda>i. (i, 1)) is"
    using assms(2) kernel_page(2,5) by (simp add: kernel_blocks_def filter_map o_def cong: map_cong)
  then show ?thesis
    using assms(1,3)
    by (auto simp: owned_def palloc_inv_def pool_ok_def bm.tracks_def pages_of_def less_Suc_eq_le dest: le_antisym)
qed

lemma alloc_page_next:
  assumes "owned m (map kpage is)" "set is = {1..<n}" "0 < n" "n < 736" "length is < 735"
  obtains m' where "alloc_page_direct m = (kpage n, m')" "owned m' (map kpage (n # is))"
    "cells m' = (\<lambda>x. if page_of x = kpage n then 0 else cells m x)" "cr3 m' = cr3 m" "cr0 m' = cr0 m"
    "PID0_PAGE_DIR m' = PID0_PAGE_DIR m"
proof -
  let ?b = "pool_bitmap (kernelpool (pools m))"
  obtain q m' where f: "alloc_page_direct m = (q, m')" "owned m' (q # map kpage is)" "q \<notin> set (map kpage is)" "aligned q" "q \<noteq> 0"
    "cells m' = (\<lambda>x. if page_of x = q then 0 else cells m x)" "cr3 m' = cr3 m" "cr0 m' = cr0 m"
    "PID0_PAGE_DIR m' = PID0_PAGE_DIR m" "q < USER_POOL_START"
    by (rule alloc_page_fresh [OF assms(1)]) (use assms(5) in simp)
  have cnt: "unat (bit_count ?b) = 736" using assms(1) by (simp add: owned_def palloc_inv_def pool_ok_def)
  have fit: "fits ?b 0 1 False j \<longleftrightarrow> j < 736 \<and> j \<ge> n" for j
    using kernel_bits [OF assms(1), of j] assms(2-4) cnt by (auto simp: fits_def run_def)
  then have "(LEAST i. fits ?b 0 1 False i) = n" using assms(4) by (intro Least_equality) auto
  then have "find_bitmap ?b 0 1 False = of_nat n" using fit [of n] assms(4) by (auto simp: find_bitmap_first_fit_lemma)
  moreover have "addr (kernelpool (pools m)) = KERNEL_ADDR" using assms(1) by (simp add: owned_def palloc_inv_def pool_ok_def)
  ultimately have "q = kpage n"
    using f(1) by (auto simp: alloc_page_direct_def palloc_get_one_page_def palloc_get_multiple_page_def get_pages_def
        find_set_bitmap_def Let_def split: prod.splits if_splits)
  then show ?thesis using that [of m'] f by simp
qed

section \<open>Filling the table\<close>

lemma map_loop_eq:
  "cr0 m AND CR0_FLAG_PG = 0 \<Longrightarrow> a + n \<le> 2 ^ 30 \<Longrightarrow>
    map_loop n (idx a) tbl m = Some (m\<lparr> cells := (\<lambda>x. if unat (x - tbl) mod 4 = 0 \<and> unat (x - tbl) div 4 \<in> {a..<a + n}
      then PAGE_SIZE * idx (unat (x - tbl) div 4) OR PAGE_FLAG_RW OR PAGE_FLAG_PRESENT else cells m x) \<rparr>)"
proof (induction n arbitrary: a m)
  case (Suc n)
  let ?v = "PAGE_SIZE * idx a OR PAGE_FLAG_RW OR PAGE_FLAG_PRESENT"
  have "unat (4 * idx a) = 4 * a" using Suc.prems(2) by (simp add: unat_word_ariths unsigned_of_nat take_bit_nat_eq_self)
  then have at: "x = word_at tbl (idx a) \<longleftrightarrow> unat (x - tbl) mod 4 = 0 \<and> unat (x - tbl) div 4 = a" for x
  proof -
    have "x = word_at tbl (idx a) \<longleftrightarrow> x - tbl = 4 * idx a" by (auto simp: word_at_def algebra_simps)
    also have "\<dots> \<longleftrightarrow> unat (x - tbl) = 4 * a" using \<open>unat (4 * idx a) = 4 * a\<close> by (simp add: word_unat_eq_iff)
    finally show ?thesis by presburger
  qed
  have "map_loop (Suc n) (idx a) tbl m = map_loop n (idx (Suc a)) tbl (store (word_at tbl (idx a)) ?v m)"
    using Suc.prems(1) by (simp add: st_def phys_def add.commute)
  also have "\<dots> = Some (store (word_at tbl (idx a)) ?v m \<lparr> cells := (\<lambda>x. if unat (x - tbl) mod 4 = 0 \<and> unat (x - tbl) div 4 \<in> {Suc a..<Suc a + n}
      then PAGE_SIZE * idx (unat (x - tbl) div 4) OR PAGE_FLAG_RW OR PAGE_FLAG_PRESENT else cells (store (word_at tbl (idx a)) ?v m) x) \<rparr>)"
    by (rule Suc.IH) (use Suc.prems in \<open>simp_all add: store_def\<close>)
  finally show ?case
    by (auto simp: store_def at fun_eq_iff intro!: arg_cong [of _ _ "\<lambda>f. m\<lparr> cells := f \<rparr>"])
qed auto


section \<open>The walk below 4 MB\<close>

lemma take_22_small: "a < 0x400000 \<longleftrightarrow> take_bit 22 a = a" for a :: Bit32u
  by (simp add: word_uint_eq_iff unsigned_take_bit_eq take_bit_int_eq_self_iff word_less_def)

lemma idx_addr_eq: "pde_idx_addr a = drop_bit 22 a" "pte_idx_addr a = take_bit 10 (drop_bit 12 a)"
proof -
  have m: "PAGE_MASK_PDE = push_bit 22 (mask 10)" "PAGE_MASK_PTE = push_bit 12 (mask 10)"
    by (simp_all add: PAGE_MASK_PDE_def PAGE_MASK_PTE_def mask_eq_exp_minus_1 push_bit_eq_mult)
  show "pde_idx_addr a = drop_bit 22 a"
    by (rule bit_word_eqI) (auto simp: pde_idx_addr_def m PAGE_OFFSET_PDE_def bit_simps dest: bit_imp_le_length)
  show "pte_idx_addr a = take_bit 10 (drop_bit 12 a)"
    by (rule bit_word_eqI) (auto simp: pte_idx_addr_def m PAGE_OFFSET_PTE_def bit_simps)
qed

lemma pde_idx_low: "pde_idx_addr a = 0 \<longleftrightarrow> a < 0x400000"
proof -
  have "a = take_bit 22 a + push_bit 22 (drop_bit 22 a)" using bits_ident [of 22 a] by (simp add: add.commute)
  then have "drop_bit 22 a = 0 \<Longrightarrow> take_bit 22 a = a" by simp
  moreover have "take_bit 22 a = a \<Longrightarrow> drop_bit 22 a = 0" by (metis drop_bit_take_bit diff_self_eq_0 take_bit_0)
  ultimately show ?thesis by (auto simp: idx_addr_eq take_22_small)
qed

text \<open>An identity entry: what both \<open>init_paging\<close> and \<open>pf_handler\<close> write for the page of \<open>a\<close>.\<close>

lemma identity_entry:
  "page_of a = page_of e \<Longrightarrow> ((e OR PAGE_FLAG_RW OR PAGE_FLAG_PRESENT) AND PAGE_MASK_BASE) OR (a AND NOT PAGE_MASK_BASE) = a"
  "present (e OR PAGE_FLAG_RW OR PAGE_FLAG_PRESENT)"
proof -
  have f: "PAGE_FLAG_RW = bitm 1" "PAGE_FLAG_PRESENT = bitm 0"
    by (simp_all add: PAGE_FLAG_RW_def PAGE_FLAG_PRESENT_def bitm_def)
  have "(e OR PAGE_FLAG_RW OR PAGE_FLAG_PRESENT) AND PAGE_MASK_BASE = page_of e"
    by (rule bit_word_eqI) (auto simp: page_of_def PAGE_MASK_BASE_eq f bit_simps)
  moreover have "page_of a OR (a AND NOT PAGE_MASK_BASE) = a"
    by (rule bit_word_eqI) (auto simp: page_of_def bit_simps)
  ultimately show "page_of a = page_of e \<Longrightarrow> ((e OR PAGE_FLAG_RW OR PAGE_FLAG_PRESENT) AND PAGE_MASK_BASE) OR (a AND NOT PAGE_MASK_BASE) = a"
    by simp
  show "present (e OR PAGE_FLAG_RW OR PAGE_FLAG_PRESENT)"
    by (simp add: present_bit bit_simps PAGE_FLAG_PRESENT_def)
qed

lemma pte_page:
  assumes "a < 0x400000"
  shows "PAGE_SIZE * pte_idx_addr a = page_of a"
proof -
  have "take_bit 22 a = a" using assms by (simp add: take_22_small)
  then have h: "bit a n \<Longrightarrow> n < 22" for n by (metis bit_take_bit_iff)
  have "PAGE_SIZE * pte_idx_addr a = push_bit 12 (pte_idx_addr a)" by (simp add: push_bit_eq_mult)
  also have "\<dots> = page_of a"
    by (rule bit_word_eqI) (auto simp: idx_addr_eq page_of_def PAGE_MASK_BASE_eq bit_simps dest: h)
  finally show ?thesis .
qed

section \<open>Start-up\<close>

lemma below_table: "x < tbl \<Longrightarrow> unat tbl < 2 ^ 31 \<Longrightarrow> \<not> unat (x - tbl) div 4 < 8192" for x tbl :: Bit32u
  by (simp add: unat_sub_if_size word_less_nat_alt word_le_nat_alt word_size)


lemma pg_set [simp]: "(c OR CR0_FLAG_PG) AND CR0_FLAG_PG \<noteq> 0" "(c AND NOT CR0_FLAG_PG) AND CR0_FLAG_PG = 0"
proof -
  have "(c OR CR0_FLAG_PG) AND CR0_FLAG_PG = CR0_FLAG_PG" by (rule bit_word_eqI) (auto simp: bit_simps)
  then show "(c OR CR0_FLAG_PG) AND CR0_FLAG_PG \<noteq> 0" by (simp add: CR0_FLAG_PG_def)
  show "(c AND NOT CR0_FLAG_PG) AND CR0_FLAG_PG = 0"
    by (rule bit_word_eqI) (auto simp: bit_simps)
qed

lemma low_off: "cr0 m AND CR0_FLAG_PG = 0 \<Longrightarrow> low m"
  by (simp add: low_def phys_def)

text \<open>The memory \<open>init_paging\<close> leaves: \<open>mem\<close> is what was there after the two pages were cleared.\<close>

definition boot_cells :: "(Bit32u \<Rightarrow> Bit32u) \<Rightarrow> Bit32u \<Rightarrow> Bit32u" where
  "boot_cells mem x =
     (if unat (x - kpage 2) mod 4 = 0 \<and> unat (x - kpage 2) div 4 < 8192
      then PAGE_SIZE * idx (unat (x - kpage 2) div 4) OR PAGE_FLAG_RW OR PAGE_FLAG_PRESENT
      else if x = kpage 1 then kpage 2 OR PAGE_FLAG_RW OR PAGE_FLAG_PRESENT
      else if page_of x = kpage 1 then 0 else mem x)"

lemma init_paging_eq:
  assumes "pools m = init_palloc lmem kmem umem" "cr0 m AND CR0_FLAG_PG = 0"
  shows "\<exists>m' mem. init_paging m = Some m' \<and> owned m' [kpage 2, kpage 1] \<and> cr3 m' = kpage 1 \<and>
    PID0_PAGE_DIR m' = kpage 1 \<and> cr0 m' = cr0 m OR CR0_FLAG_PG \<and> cells m' = boot_cells mem"
proof -
  have o: "owned m (map kpage [])" using assms(1) palloc_inv_init by (simp add: owned_def)
  obtain m1 where m1: "alloc_page_direct m = (kpage 1, m1)" "owned m1 (map kpage [1])"
    "cells m1 = (\<lambda>x. if page_of x = kpage 1 then 0 else cells m x)" "cr3 m1 = cr3 m" "cr0 m1 = cr0 m"
    "PID0_PAGE_DIR m1 = PID0_PAGE_DIR m"
    by (rule alloc_page_next [OF o, of 1]) simp_all
  obtain m2 where m2: "alloc_page_direct m1 = (kpage 2, m2)" "owned m2 (map kpage [2, 1])"
    "cells m2 = (\<lambda>x. if page_of x = kpage 2 then 0 else cells m1 x)" "cr3 m2 = cr3 m1" "cr0 m2 = cr0 m1"
    "PID0_PAGE_DIR m2 = PID0_PAGE_DIR m1"
    by (rule alloc_page_next [OF m1(2), of 2]) auto
  have off: "cr0 m1 AND CR0_FLAG_PG = 0" "cr0 m2 AND CR0_FLAG_PG = 0" using assms(2) m1(5) m2(5) by simp_all
  have a: "alloc_page m = Some (kpage 1, m1)" "alloc_page m1 = Some (kpage 2, m2)"
    using alloc_page_refines [OF o _ low_off [OF assms(2)]] alloc_page_refines [OF m1(2) _ low_off [OF off(1)]] m1(1) m2(1)
    by simp_all
  let ?m3 = "store (kpage 1) (kpage 2 OR PAGE_FLAG_RW OR PAGE_FLAG_PRESENT) (m2\<lparr> PID0_PAGE_DIR := kpage 1 \<rparr>)"
  have al: "aligned (kpage 1)" "aligned (kpage 2)" using owned_aligned [OF m2(2)] by simp_all
  have st1: "st (word_at (kpage 1) 0) v (m2\<lparr> PID0_PAGE_DIR := kpage 1 \<rparr>) = Some (store (kpage 1) v (m2\<lparr> PID0_PAGE_DIR := kpage 1 \<rparr>))" for v
    using off(2) by (simp add: st_def phys_def word_at_def)
  have off3: "cr0 ?m3 AND CR0_FLAG_PG = 0" using off(2) by (simp add: store_def)
  let ?m4 = "?m3\<lparr> cells := (\<lambda>x. if unat (x - kpage 2) mod 4 = 0 \<and> unat (x - kpage 2) div 4 \<in> {0..<0 + 8192}
      then PAGE_SIZE * idx (unat (x - kpage 2) div 4) OR PAGE_FLAG_RW OR PAGE_FLAG_PRESENT else cells ?m3 x) \<rparr>"
  have loop: "map_loop 8192 (idx 0) (kpage 2) ?m3 = Some ?m4"
    by (rule map_loop_eq [OF off3]) simp
  have n: "unat (RKERNEL_HEAP_START div PAGE_SIZE) = 8192" by (simp add: unat_div)
  let ?m5 = "?m4\<lparr> cr3 := kpage 1, cr0 := cr0 ?m4 OR CR0_FLAG_PG \<rparr>"
  have "init_paging m = Some ?m5"
    unfolding init_paging_def using a st1 loop n by (simp add: Let_def)
  moreover have "owned ?m5 [kpage 2, kpage 1]" using m2(2) by (simp add: owned_def store_def)
  moreover have "cells ?m5 = boot_cells (cells m2)"
    using m1(3) m2(3) al by (auto simp: boot_cells_def store_def fun_eq_iff)
  ultimately show ?thesis
    using m1(5) m2(5) by (intro exI [of _ ?m5] exI [of _ "cells m2"]) (simp add: store_def)
qed


lemma boot_dir:
  assumes "cells m = boot_cells mem" "aligned (kpage 1)" "aligned (kpage 2)" "j < 1024"
  shows "pde m (kpage 1) j = (if j = 0 then kpage 2 OR PAGE_FLAG_RW OR PAGE_FLAG_PRESENT else 0)"
proof -
  have pg: "page_of (word_at (kpage 1) (idx j)) = kpage 1" using page_of_idx [OF assms(2,4)] .
  then have "word_at (kpage 1) (idx j) - kpage 1 < 4096" using in_page [OF assms(2)] by simp
  then have d: "unat (word_at (kpage 1) (idx j) - kpage 1) < 4096" by (simp add: word_less_nat_alt)
  have "unat (kpage 1 + d) < 0x102000" if "unat d < 4096" for d using that by (simp add: unat_word_ariths)
  from this [OF d] have "word_at (kpage 1) (idx j) < kpage 2" by (simp add: word_less_nat_alt)
  from below_table [OF this] have "\<not> unat (word_at (kpage 1) (idx j) - kpage 2) div 4 < 8192" by simp
  moreover have "word_at (kpage 1) (idx j) = kpage 1 \<longleftrightarrow> j = 0"
    using word_at_inj [of "idx j" 0 "kpage 1"] idx_less_1024 [OF assms(4)] idx_inj [OF assms(4), of 0] by (simp add: word_at_def)
  ultimately show ?thesis using pg by (simp add: assms(1) boot_cells_def)
qed

lemma boot_table:
  assumes "cells m = boot_cells mem" "j < 8192"
  shows "pde m (kpage 2) j = (PAGE_SIZE * idx j OR PAGE_FLAG_RW OR PAGE_FLAG_PRESENT)"
proof -
  have "unat (4 * idx j :: Bit32u) = 4 * j" using assms(2) by (simp add: unat_word_ariths unsigned_of_nat take_bit_nat_eq_self)
  then show ?thesis using assms(2) by (simp add: assms(1) boot_cells_def word_at_def)
qed

lemma boot_phys:
  assumes "cells m = boot_cells mem" "cr3 m = kpage 1" "cr0 m AND CR0_FLAG_PG \<noteq> 0" "aligned (kpage 1)" "aligned (kpage 2)"
  shows "phys m a = (if a < 0x400000 then Some a else None)"
proof -
  let ?i = "unat (pde_idx_addr a)" and ?j = "unat (pte_idx_addr a)"
  have ij: "?i < 1024" "?j < 1024" using idx_less [of a] by (simp_all add: word_less_nat_alt)
  have d: "pde m (cr3 m) ?i = (if a < 0x400000 then kpage 2 OR PAGE_FLAG_RW OR PAGE_FLAG_PRESENT else 0)"
    using boot_dir [OF assms(1,4,5) ij(1)] assms(2) pde_idx_low [of a] by (simp add: unat_eq_0)
  have t: "pt_pde (kpage 2 OR PAGE_FLAG_RW OR PAGE_FLAG_PRESENT) = kpage 2"
    by (simp add: pt_pde_def PAGE_FLAG_RW_def PAGE_FLAG_PRESENT_def PAGE_MASK_BASE_def)
  have e: "pde m (kpage 2) ?j = (page_of a OR PAGE_FLAG_RW OR PAGE_FLAG_PRESENT)" if "a < 0x400000"
    using boot_table [OF assms(1), of ?j] ij(2) pte_page [OF that] by simp
  have "page_of a = page_of (page_of a)" by (simp add: page_of_def)
  note i = identity_entry(1) [OF this]
  have P: "present (x OR PAGE_FLAG_RW OR PAGE_FLAG_PRESENT)" for x by (rule identity_entry(2))
  show ?thesis
  proof (cases "a < 0x400000")
    case True
    then show ?thesis using d e t i P assms(3) by (simp add: phys_lookup lookup_def)
  next
    case False
    then show ?thesis using d assms(3) by (simp add: phys_lookup lookup_def)
  qed
qed

lemma boot_kernel_space:
  assumes "pools m = init_palloc lmem kmem umem" "cr0 m AND CR0_FLAG_PG = 0"
  shows "\<exists>m'. init_paging m = Some m' \<and> kernel_space m' [0x102000, 0x101000] \<and> tables_in_use m' = 1 \<and>
    cr3 m' = 0x101000 \<and> PID0_PAGE_DIR m' = 0x101000 \<and> cr0 m' = cr0 m OR CR0_FLAG_PG \<and>
    (\<forall>a. phys m' a = (if a < 0x400000 then Some a else None)) \<and>
    (\<forall>j < 1024. pde m' 0x101000 j = (if j = 0 then 0x102003 else 0)) \<and>
    (\<forall>j < 8192. pde m' 0x102000 j = (PAGE_SIZE * idx j OR PAGE_FLAG_RW OR PAGE_FLAG_PRESENT))"
proof -
  obtain m' mem where b: "init_paging m = Some m'" "owned m' [kpage 2, kpage 1]" "cr3 m' = kpage 1"
    "PID0_PAGE_DIR m' = kpage 1" "cr0 m' = cr0 m OR CR0_FLAG_PG" "cells m' = boot_cells mem"
    using init_paging_eq [OF assms] by blast
  have al: "aligned (kpage 1)" "aligned (kpage 2)" using owned_aligned [OF b(2)] by simp_all
  have pg: "cr0 m' AND CR0_FLAG_PG \<noteq> 0" unfolding b(5) by (rule pg_set(1))
  have ph: "phys m' a = (if a < 0x400000 then Some a else None)" for a by (rule boot_phys [OF b(6,3) pg al])
  have D: "pde m' 0x101000 j = (if j = 0 then 0x102003 else 0)" if "j < 1024" for j
    using boot_dir [OF b(6) al that] by (simp add: PAGE_FLAG_RW_def PAGE_FLAG_PRESENT_def)
  have "pde m' 0x102000 j = (PAGE_SIZE * idx j OR PAGE_FLAG_RW OR PAGE_FLAG_PRESENT)" if "j < 8192" for j
    using boot_table [OF b(6) that] by simp
  moreover have "filter (\<lambda>j. present (pde m' 0x101000 j)) [0..<1024] = [0]"
  proof -
    have "filter (\<lambda>j. present (pde m' 0x101000 j)) [0..<1024] = filter (\<lambda>j. j = 0) [0..<1024]"
      using D by (intro filter_cong) (auto simp: present_def PAGE_FLAG_PRESENT_def)
    also have "\<dots> = filter (\<lambda>j. j = 0) (0 # [1..<1024])" by (subst upt_conv_Cons) simp_all
    also have "\<dots> = [0]" by (simp add: filter_empty_conv)
    finally show ?thesis .
  qed
  moreover have "good_dir m' [0x102000, 0x101000] 0x101000"
    using D by (auto simp: good_dir_def present_def PAGE_FLAG_PRESENT_def pt_pde_def PAGE_MASK_BASE_def)
  moreover have "low m'" using ph by (simp add: low_def)
  ultimately show ?thesis
    using b ph D by (intro exI [of _ m']) (simp add: kernel_space_def low_dir_def tables_in_use_def)
qed

end
