(* ===== verification/Paging_Fault.thy ===== *)
theory Paging_Fault
  imports Paging_Boot
begin

text \<open>
  Page faults on such a space.  The first fault of a 4 MB region adds a table and maps the page to
  itself, but it also moves the new table's own address elsewhere; every later fault of the region
  then writes its entry to the wrong place.
\<close>

lemma page_of_idx_addr: "page_of a = page_of b \<longleftrightarrow> pde_idx_addr a = pde_idx_addr b \<and> pte_idx_addr a = pte_idx_addr b"
proof -
  have i: "pde_idx_addr x = drop_bit 22 (page_of x)" "pte_idx_addr x = take_bit 10 (drop_bit 12 (page_of x))" for x
    by (rule bit_word_eqI; auto simp: idx_addr_eq page_of_def PAGE_MASK_BASE_eq bit_simps dest: bit_imp_le_length)+
  have "page_of x = push_bit 22 (pde_idx_addr x) OR push_bit 12 (pte_idx_addr x)" for x
  proof (rule bit_word_eqI)
    show "bit (page_of x) n \<longleftrightarrow> bit (push_bit 22 (pde_idx_addr x) OR push_bit 12 (pte_idx_addr x)) n" if "n < LENGTH(32)" for n
      using that by (cases "n < 22") (auto simp: idx_addr_eq page_of_def PAGE_MASK_BASE_eq bit_simps)
  qed
  then show ?thesis using i by metis
qed

definition own_tables :: "vm \<Rightarrow> bool" where
  "own_tables m \<longleftrightarrow> (\<forall>i < 1024. present (pde m (cr3 m) i) \<longrightarrow> pt_pde (pde m (cr3 m) i) \<noteq> cr3 m \<and>
     (\<forall>j < 1024. present (pde m (cr3 m) j) \<longrightarrow> pt_pde (pde m (cr3 m) i) = pt_pde (pde m (cr3 m) j) \<longrightarrow> i = j))"

abbreviation dir_entry :: "vm \<Rightarrow> Bit32u \<Rightarrow> Bit32u" where
  "dir_entry m a \<equiv> cells m (word_at (cr3 m) (pde_idx_addr a))"

lemma dir_entry_nat: "pde m (cr3 m) (unat (pde_idx_addr a)) = dir_entry m a" "unat (pde_idx_addr a) < 1024"
  using idx_less [of a] by (simp_all add: word_less_nat_alt)

lemma own_tablesD:
  assumes "own_tables m" "present (dir_entry m a)"
  shows "pt_pde (dir_entry m a) \<noteq> cr3 m"
    and "present (dir_entry m b) \<Longrightarrow> pt_pde (dir_entry m a) = pt_pde (dir_entry m b) \<Longrightarrow> pde_idx_addr a = pde_idx_addr b"
  using assms dir_entry_nat(1) [of m a] dir_entry_nat(2) [of a] dir_entry_nat(1) [of m b] dir_entry_nat(2) [of b] unfolding own_tables_def by (metis word_unat_eq_iff)+

lemma kernel_spaceD:
  assumes "kernel_space m held"
  shows "owned m held" "low m" "cr3 m \<in> set held" "aligned (cr3 m)" "cr3 m < USER_POOL_START"
    and "present (dir_entry m a) \<Longrightarrow> pt_pde (dir_entry m a) \<in> set held"
    and "q \<in> set held \<Longrightarrow> q \<noteq> 0 \<and> aligned q \<and> q < USER_POOL_START"
proof -
  show k: "owned m held" "low m" "cr3 m \<in> set held" using assms by (auto simp: kernel_space_def low_dir_def good_dir_def)
  show pages: "q \<noteq> 0 \<and> aligned q \<and> q < USER_POOL_START" if q: "q \<in> set held" for q
  proof -
    have "well_placed (q, 1)" using q k(1) by (auto simp: owned_def palloc_inv_def)
    then have "q \<noteq> 0" using well_placed_cases [of "(q, 1)"] kernel_page(6) user_page(6) by fastforce
    then show ?thesis using assms q owned_aligned [OF k(1)] by (simp add: kernel_space_def low_dir_def)
  qed
  then show "aligned (cr3 m)" "cr3 m < USER_POOL_START" using k(3) by blast+
  show "present (dir_entry m a) \<Longrightarrow> pt_pde (dir_entry m a) \<in> set held"
    using assms dir_entry_nat(1) [of m a] dir_entry_nat(2) [of a] unfolding kernel_space_def low_dir_def good_dir_def by metis
qed

section \<open>The first fault of a region\<close>

lemma paging_off_simps [simp]: "cells (paging_off m) = cells m" "cr3 (paging_off m) = cr3 m"
    "PID0_PAGE_DIR (paging_off m) = PID0_PAGE_DIR m"
  by (simp_all add: paging_off_def)

text \<open>The memory after the first fault at \<open>a\<close>: \<open>q\<close> is the new table.\<close>

definition first_fault_cells :: "Bit32u \<Rightarrow> Bit32u \<Rightarrow> vm \<Rightarrow> Bit32u \<Rightarrow> Bit32u" where
  "first_fault_cells q a m =
     (\<lambda>x. if page_of x = q then 0 else cells m x)
       (word_at (cr3 m) (pde_idx_addr a) := q OR PAGE_FLAG_RW OR PAGE_FLAG_PRESENT,
        word_at q (pte_idx_addr a) := a OR PAGE_FLAG_RW OR PAGE_FLAG_PRESENT,
        word_at (pt_pde (dir_entry m 0)) (pte_idx_addr q) := VH_TO_RH q OR PAGE_FLAG_RW OR PAGE_FLAG_PRESENT)"

lemma pg_on: "c AND CR0_FLAG_PG \<noteq> 0 \<Longrightarrow> c OR CR0_FLAG_PG = c"
proof -
  assume c: "c AND CR0_FLAG_PG \<noteq> 0"
  have g: "CR0_FLAG_PG = bitm 31" by (simp add: CR0_FLAG_PG_def bitm_def push_bit_eq_mult)
  have "bit c 31" using c by (simp add: g)
  then show ?thesis by (intro bit_word_eqI) (auto simp: g bit_simps)
qed

lemma pg_off_on: "(c AND NOT CR0_FLAG_PG) OR CR0_FLAG_PG = c OR CR0_FLAG_PG"
  by (rule bit_word_eqI) (auto simp: bit_simps)

lemma low_entry:
  assumes "low m" "cr0 m AND CR0_FLAG_PG \<noteq> 0" "a < 0x400000"
  shows "present (dir_entry m a)"
  using assms by (auto simp: low_def phys_def Let_def split: if_splits)

lemma pf_handler_first:
  assumes "kernel_space m held" "cr0 m AND CR0_FLAG_PG \<noteq> 0" "own_tables m" "length held < 735"
    and "pt_pde (dir_entry m a) = 0"
  obtains q m' where "pf_handler a m = Some m'" "q \<notin> set held" "aligned q" "q \<noteq> 0" "q < USER_POOL_START" "owned m' (q # held)"
    "cells m' = first_fault_cells q a m" "cr3 m' = cr3 m" "cr0 m' = cr0 m" "PID0_PAGE_DIR m' = PID0_PAGE_DIR m"
proof -
  note k = kernel_spaceD [OF assms(1)]
  let ?off = "paging_off m"
  have o: "owned ?off held" using k(1) by (simp add: owned_def paging_off_def)
  have z: "cr0 ?off AND CR0_FLAG_PG = 0" by (simp add: paging_off_def)
  obtain q m1 where f: "alloc_page_direct ?off = (q, m1)" "owned m1 (q # held)" "q \<notin> set held" "aligned q" "q \<noteq> 0"
    "cells m1 = (\<lambda>x. if page_of x = q then 0 else cells ?off x)" "cr3 m1 = cr3 ?off" "cr0 m1 = cr0 ?off"
    "PID0_PAGE_DIR m1 = PID0_PAGE_DIR ?off" "q < USER_POOL_START"
    by (rule alloc_page_fresh [OF o assms(4)])
  have al: "alloc_page ?off = Some (q, m1)" using alloc_page_refines [OF o assms(4) low_off [OF z]] f(1) by simp
  have z1: "cr0 m1 AND CR0_FLAG_PG = 0" using z f(8) by simp
  have cl: "clear_page q m1 = m1"
    using f(6) by (cases m1) (auto simp: clear_page_def in_page [OF f(4)] fun_eq_iff)
  have "q < 0x400000" using f(10) by (simp add: word_less_nat_alt)
  then have q0: "pde_idx_addr q = 0" by (simp add: pde_idx_low)
  have I: "word_at (cr3 m) 0 < 0x400000" "word_at (cr3 m) (pde_idx_addr a) < 0x400000"
    using aligned_below [OF k(4,5)] page_of_word_at [OF k(4)] idx_less by auto
  have rd: "phys m (word_at (cr3 m) (pde_idx_addr a)) = Some (word_at (cr3 m) (pde_idx_addr a))"
    using k(2) I(2) by (simp add: low_def)
  have d0: "present (dir_entry m 0)" using low_entry [OF k(2) assms(2)] by simp
  have a0: "pde_idx_addr a \<noteq> 0"
    using assms(5) d0 k(6) [of 0] k(7) pde_idx_low [of 0] by auto
  have e0: "cells (store w2 v2 (store (word_at (cr3 m) (pde_idx_addr a)) v1 m1)) (word_at (cr3 m) 0) = dir_entry m 0"
    if "page_of w2 = q" for w2 v2 v1
  proof -
    have "page_of (word_at (cr3 m) 0) = cr3 m" using page_of_word_at [OF k(4)] by simp
    moreover have "cr3 m \<noteq> q" using f(3) k(3) by auto
    moreover have "word_at (cr3 m) 0 \<noteq> word_at (cr3 m) (pde_idx_addr a)"
      using word_at_inj [of 0 "pde_idx_addr a" "cr3 m"] idx_less a0 by auto
    ultimately show ?thesis using that f(6) pde_idx_low [of 0] by (auto simp: store_def paging_off_def)
  qed
  let ?m2 = "store (word_at (cr3 m) (pde_idx_addr a)) (q OR PAGE_FLAG_RW OR PAGE_FLAG_PRESENT) m1"
  let ?m3 = "store (word_at q (pte_idx_addr a)) (a OR PAGE_FLAG_RW OR PAGE_FLAG_PRESENT) ?m2"
  let ?m4 = "store (word_at (pt_pde (dir_entry m 0)) (pte_idx_addr q)) (VH_TO_RH q OR PAGE_FLAG_RW OR PAGE_FLAG_PRESENT) ?m3"
  have P: "phys m1 x = Some x" "phys ?m2 x = Some x" "phys ?m3 x = Some x" for x
    using z1 by (simp_all add: phys_def store_def)
  have e: "cells ?m3 (word_at (cr3 m) 0) = dir_entry m 0"
    by (rule e0) (use page_of_word_at [OF f(4)] idx_less in blast)
  have c: "(cr0 m AND NOT CR0_FLAG_PG) OR CR0_FLAG_PG = cr0 m"
    using pg_on [OF assms(2)] by (simp add: pg_off_on)
  then have on: "paging_on ?off = m" by (simp add: paging_on_def paging_off_def)
  have reads: "ld (word_at (cr3 m) (pde_idx_addr a)) m = Some (dir_entry m a)"
      "ld (word_at (cr3 m) (pde_idx_addr a)) ?off = Some (dir_entry m a)"
    using rd z by (simp_all add: ld_def phys_def [of ?off])
  have head: "(if cr3 m = PID0_PAGE_DIR m then do { e \<leftarrow> ld (word_at (cr3 m) (pde_idx_addr a)) ?off; Some (pt_pde e, paging_on ?off) }
      else do { e \<leftarrow> ld (word_at (cr3 m) (pde_idx_addr a)) m; Some (pt_pde e, m) }) = Some (0, m)"
    unfolding reads on by (simp add: assms(5))
  have steps: "memset_page q m1 = Some m1"
    "st (word_at (cr3 m) (pde_idx_addr a)) (q OR PAGE_FLAG_RW OR PAGE_FLAG_PRESENT) m1 = Some ?m2"
    "st (word_at q (pte_idx_addr a)) (a OR PAGE_FLAG_RW OR PAGE_FLAG_PRESENT) ?m2 = Some ?m3"
    "ld (word_at (cr3 m) (pde_idx_addr q)) ?m3 = Some (dir_entry m 0)"
    "st (word_at (pt_pde (dir_entry m 0)) (pte_idx_addr q)) (VH_TO_RH q OR PAGE_FLAG_RW OR PAGE_FLAG_PRESENT) ?m3 = Some ?m4"
    unfolding memset_page_def st_def ld_def P q0 by (simp_all add: cl e)
  have "pf_handler a m = Some (paging_on ?m4)"
    unfolding pf_handler_def Let_def head by (simp add: al steps del: bind_eq_Some_conv)
  moreover have "owned (paging_on ?m4) (q # held)" using f(2) by (simp add: owned_def paging_on_def store_def)
  moreover have "cells (paging_on ?m4) = first_fault_cells q a m"
    using f(6) unfolding paging_off_simps by (simp add: first_fault_cells_def paging_on_def store_def)
  moreover have "cr0 (paging_on ?m4) = cr0 m" using c f(8) by (simp add: paging_on_def store_def paging_off_def)
  ultimately show ?thesis
    using that [OF _ f(3-5,10)] f(7,9) by (simp add: paging_on_def store_def paging_off_def)
qed


lemma VH_page: "page_of (b + 0x42000000) = VH_TO_RH q" "b + 0x42000000 AND NOT PAGE_MASK_BASE = b AND NOT PAGE_MASK_BASE"
  if "page_of b = q"
proof -
  have c: "aligned (0x42000000 :: Bit32u)" by (simp add: aligned_def)
  have t: "take_bit 12 (b + 0x42000000) = take_bit 12 b"
    using take_12_add [OF c, of b] by (simp add: add.commute)
  have n: "x AND NOT PAGE_MASK_BASE = take_bit 12 x" for x by (simp add: PAGE_MASK_BASE_eq take_bit_eq_mask)
  show "b + 0x42000000 AND NOT PAGE_MASK_BASE = b AND NOT PAGE_MASK_BASE" by (simp add: n t)
  have "page_of (b + 0x42000000) = page_of b + 0x42000000" by (simp add: page_of_eq t)
  then show "page_of (b + 0x42000000) = VH_TO_RH q" using that by (simp add: VH_TO_RH_def VKERNEL_HEAP_START_def)
qed

lemma VH_entry:
  assumes "page_of b = q"
  shows "((VH_TO_RH q OR PAGE_FLAG_RW OR PAGE_FLAG_PRESENT) AND PAGE_MASK_BASE) OR (b AND NOT PAGE_MASK_BASE) = b + 0x42000000"
proof -
  have "page_of (b + 0x42000000) = page_of (VH_TO_RH q)"
    using VH_page(1) [OF assms] by (metis page_of_def and.right_idem)
  from identity_entry(1) [OF this] show ?thesis by (simp only: VH_page(2) [OF assms])
qed

lemma entry_table: "aligned q \<Longrightarrow> pt_pde (q OR PAGE_FLAG_RW OR PAGE_FLAG_PRESENT) = q"
proof -
  have f: "PAGE_FLAG_RW = bitm 1" "PAGE_FLAG_PRESENT = bitm 0"
    by (simp_all add: PAGE_FLAG_RW_def PAGE_FLAG_PRESENT_def bitm_def)
  assume "aligned q"
  moreover have "pt_pde (q OR PAGE_FLAG_RW OR PAGE_FLAG_PRESENT) = page_of q"
    by (rule bit_word_eqI) (auto simp: pt_pde_def page_of_def PAGE_MASK_BASE_eq f bit_simps)
  ultimately show ?thesis by (simp add: page_of_aligned)
qed

lemma page_of_low: "page_of b = q \<Longrightarrow> aligned q \<Longrightarrow> q < USER_POOL_START \<Longrightarrow> pde_idx_addr b = 0"
  using aligned_below pde_idx_low by blast

lemma first_fault_dir:
  assumes "kernel_space m held" "present (dir_entry m 0)" "own_tables m" "q \<notin> set held" "aligned q"
  shows "first_fault_cells q a m (word_at (cr3 m) (pde_idx_addr b)) =
    (if pde_idx_addr b = pde_idx_addr a then q OR PAGE_FLAG_RW OR PAGE_FLAG_PRESENT else dir_entry m b)"
proof -
  note k = kernel_spaceD [OF assms(1)]
  let ?L = "pt_pde (dir_entry m 0)"
  have L: "?L \<in> set held" "?L \<noteq> cr3 m" "aligned ?L"
    using k(6) [OF assms(2)] own_tablesD(1) [OF assms(3,2)] k(7) by auto
  have w: "page_of (word_at (cr3 m) (pde_idx_addr b)) = cr3 m" "page_of (word_at q (pte_idx_addr a)) = q"
      "page_of (word_at ?L (pte_idx_addr q)) = ?L" "cr3 m \<noteq> q"
    using page_of_word_at [OF k(4) idx_less(1)] page_of_word_at [OF assms(5) idx_less(2)]
      page_of_word_at [OF L(3) idx_less(2)] k(3) assms(4) by auto
  then have ne: "word_at (cr3 m) (pde_idx_addr b) \<noteq> word_at q (pte_idx_addr a)"
      "word_at (cr3 m) (pde_idx_addr b) \<noteq> word_at ?L (pte_idx_addr q)" using L(2) by metis+
  have "word_at (cr3 m) (pde_idx_addr b) = word_at (cr3 m) (pde_idx_addr a) \<longleftrightarrow> pde_idx_addr b = pde_idx_addr a"
    by (rule word_at_inj [OF idx_less(1) idx_less(1)])
  then show ?thesis unfolding first_fault_cells_def using ne w by simp
qed

lemma first_fault_phys:
  assumes "kernel_space m held" "cr0 m AND CR0_FLAG_PG \<noteq> 0" "own_tables m" "pt_pde (dir_entry m a) = 0"
    and "q \<notin> set held" "aligned q" "q < USER_POOL_START"
    and "cells m' = first_fault_cells q a m" "cr3 m' = cr3 m" "cr0 m' = cr0 m"
  shows "phys m' b = (if page_of b = page_of a then Some b else if page_of b = q then Some (b + 0x42000000) else phys m b)"
proof -
  note k = kernel_spaceD [OF assms(1)]
  note P = page_of_word_at [OF _ idx_less(1)] page_of_word_at [OF _ idx_less(2)]
  let ?x = "pde_idx_addr b" and ?y = "pte_idx_addr b" and ?L = "pt_pde (dir_entry m 0)"
  have d0: "present (dir_entry m 0)" using low_entry [OF k(2) assms(2), of 0] by simp
  have T0: "?L \<in> set held" "aligned ?L" "?L \<noteq> cr3 m" using k(6) [OF d0] k(7) own_tablesD(1) [OF assms(3) d0] by auto
  have a0: "\<not> present (dir_entry m a)" "pde_idx_addr a \<noteq> 0"
  proof -
    show n: "\<not> present (dir_entry m a)" using k(6) [of a] k(7) assms(4) by fastforce
    then show "pde_idx_addr a \<noteq> 0" using d0 pde_idx_low [of 0] by auto
  qed
  have ne: "cr3 m \<noteq> q" "?L \<noteq> q" using k(3) T0 assms(5) by auto
  have q0: "pde_idx_addr q = 0" using assms(7) by (simp add: pde_idx_low word_less_nat_alt)
  have dir: "cells m' (word_at (cr3 m) ?x) = (if ?x = pde_idx_addr a then q OR PAGE_FLAG_RW OR PAGE_FLAG_PRESENT else dir_entry m b)"
    using first_fault_dir [OF assms(1) d0 assms(3,5,6)] by (simp add: assms(8))
  have new: "cells m' (word_at q ?y) = (if ?y = pte_idx_addr a then a OR PAGE_FLAG_RW OR PAGE_FLAG_PRESENT else 0)"
    using P(2) [OF assms(6), of b] P(1) [OF k(4), of a] P(2) [OF T0(2), of q] ne
      word_at_inj [OF idx_less(2) [of b] idx_less(2) [of a]]
    by (auto simp: assms(8) first_fault_cells_def)
  have old: "cells m' (word_at T ?y) = (if T = ?L \<and> ?y = pte_idx_addr q then VH_TO_RH q OR PAGE_FLAG_RW OR PAGE_FLAG_PRESENT else cells m (word_at T ?y))"
    if "T \<in> set held" "T \<noteq> cr3 m" for T
  proof -
    have "aligned T" "T \<noteq> q" using k(7) that(1) assms(5) by auto
    then show ?thesis
      using P(2) [of T b] P(1) [OF k(4), of a] P(2) [OF T0(2), of q] P(2) [OF assms(6), of a] that(2)
        word_at_inj [OF idx_less(2) [of b] idx_less(2) [of q]]
      by (auto simp: assms(8) first_fault_cells_def)
  qed
  show ?thesis
  proof (cases "?x = pde_idx_addr a")
    case True
    then have "page_of b \<noteq> q" using page_of_low [OF _ assms(6,7)] a0(2) by metis
    moreover have "phys m b = None" using a0(1) True assms(2) by (simp add: phys_def)
    moreover have "page_of b = page_of a \<longleftrightarrow> ?y = pte_idx_addr a" using True page_of_idx_addr by simp
    ultimately show ?thesis
      using True assms(2) dir new entry_table [OF assms(6)] identity_entry by (simp add: phys_def assms(9,10))
  next
    case False
    then have nb: "page_of b \<noteq> page_of a" using page_of_idx_addr by blast
    show ?thesis
    proof (cases "present (dir_entry m b)")
      case np: False
      then have "page_of b \<noteq> q"
        using low_entry [OF k(2) assms(2), of b] aligned_below [OF assms(6,7)] by blast
      then show ?thesis using False np assms(2) nb dir by (simp add: phys_def assms(9,10))
    next
      case True
      let ?T = "pt_pde (dir_entry m b)"
      have T: "?T \<in> set held" "?T \<noteq> cr3 m" using k(6) [OF True] own_tablesD(1) [OF assms(3) True] by auto
      have "pde_idx_addr 0 = 0" using pde_idx_low [of 0] by simp
      then have "?T = ?L \<longleftrightarrow> ?x = 0" using own_tablesD(2) [OF assms(3) True d0] by metis
      then have "?T = ?L \<and> ?y = pte_idx_addr q \<longleftrightarrow> page_of b = q"
        using page_of_idx_addr [of b q] q0 page_of_aligned [OF assms(6)] by auto
      then show ?thesis
        using False True nb assms(2) dir old [OF T] VH_entry [of b q] identity_entry(2) [of "VH_TO_RH q"]
        by (auto simp: phys_def assms(9,10) Let_def)
    qed
  qed
qed


section \<open>The handler's contract on such a space\<close>

definition quiet_space :: "vm \<Rightarrow> Bit32u list \<Rightarrow> bool" where
  "quiet_space m held \<longleftrightarrow> kernel_space m held \<and> cr0 m AND CR0_FLAG_PG \<noteq> 0 \<and> own_tables m \<and> length held < 735"

lemma first_fault:
  assumes "quiet_space m held" "pt_pde (dir_entry m a) = 0"
  obtains q m' where "pf_handler a m = Some m'" "q \<notin> set held" "aligned q" "q \<noteq> 0" "q < USER_POOL_START" "owned m' (q # held)"
    "cells m' = first_fault_cells q a m" "cr3 m' = cr3 m" "cr0 m' = cr0 m"
    "\<forall>b. phys m' b = (if page_of b = page_of a then Some b else if page_of b = q then Some (b + 0x42000000) else phys m b)"
proof -
  have s: "kernel_space m held" "cr0 m AND CR0_FLAG_PG \<noteq> 0" "own_tables m" "length held < 735"
    using assms(1) by (simp_all add: quiet_space_def)
  obtain q m' where f: "pf_handler a m = Some m'" "q \<notin> set held" "aligned q" "q \<noteq> 0" "q < USER_POOL_START" "owned m' (q # held)"
    "cells m' = first_fault_cells q a m" "cr3 m' = cr3 m" "cr0 m' = cr0 m" "PID0_PAGE_DIR m' = PID0_PAGE_DIR m"
    by (rule pf_handler_first [OF s assms(2)])
  show ?thesis by (rule that [OF f(1-9)]) (use first_fault_phys [OF s(1-3) assms(2) f(2,3,5,7-9)] in blast)
qed

text \<open>
  C38. The first page fault of a 4 MB region, on a space whose low memory is mapped to itself: the
  handler takes one free page \<open>q\<close> for the new table and maps the faulting page to itself, and
  nothing else changes, except that the table's own page, until then mapped to itself, now leads
  \<open>0x42000000\<close> bytes further.
\<close>
theorem first_page_fault_of_region:
  assumes "quiet_space m held" "pt_pde (dir_entry m a) = 0"
  shows "\<exists>q m'. pf_handler a m = Some m' \<and> q \<notin> set held \<and> owned m' (q # held) \<and> phys m q = Some q \<and>
    (\<forall>b. phys m' b = (if page_of b = page_of a then Some b
       else if page_of b = q then Some (b + 0x42000000) else phys m b))"
proof -
  have "low m" using assms(1) by (simp add: quiet_space_def kernel_space_def)
  obtain q m' where f: "pf_handler a m = Some m'" "q \<notin> set held" "aligned q" "q \<noteq> 0" "q < USER_POOL_START" "owned m' (q # held)"
    "cells m' = first_fault_cells q a m" "cr3 m' = cr3 m" "cr0 m' = cr0 m"
    "\<forall>b. phys m' b = (if page_of b = page_of a then Some b else if page_of b = q then Some (b + 0x42000000) else phys m b)"
    by (rule first_fault [OF assms])
  have "phys m q = Some q" using \<open>low m\<close> aligned_below [OF f(3,5) page_of_aligned [OF f(3)]] by (simp add: low_def)
  then show ?thesis using f by blast
qed

lemma phys_store_elsewhere:
  assumes "\<And>i. x \<noteq> word_at (cr3 m) (pde_idx_addr i)"
    "\<And>i j. present (dir_entry m i) \<Longrightarrow> x \<noteq> word_at (pt_pde (dir_entry m i)) (pte_idx_addr j)"
  shows "phys (store x v m) b = phys m b"
  using assms(1) [of b] assms(2) [of b b] by (auto simp: phys_def store_def Let_def)

lemma pf_handler_mapped_table:
  assumes "cr0 m AND CR0_FLAG_PG \<noteq> 0" "phys m (word_at (cr3 m) (pde_idx_addr b)) = Some (word_at (cr3 m) (pde_idx_addr b))"
    and "pt_pde (dir_entry m b) = t" "t \<noteq> 0"
  shows "pf_handler b m = st (word_at t (pte_idx_addr b)) (b OR PAGE_FLAG_RW OR PAGE_FLAG_PRESENT) m"
proof -
  have c: "(cr0 m AND NOT CR0_FLAG_PG) OR CR0_FLAG_PG = cr0 m"
    using pg_on [OF assms(1)] by (simp add: pg_off_on)
  then have on: "paging_on (paging_off m) = m" by (simp add: paging_on_def paging_off_def)
  have reads: "ld (word_at (cr3 m) (pde_idx_addr b)) m = Some (dir_entry m b)"
      "ld (word_at (cr3 m) (pde_idx_addr b)) (paging_off m) = Some (dir_entry m b)"
    using assms(2) by (simp_all add: ld_def phys_def [of "paging_off m"]) (simp add: paging_off_def)
  have head: "(if cr3 m = PID0_PAGE_DIR m then do { e \<leftarrow> ld (word_at (cr3 m) (pde_idx_addr b)) (paging_off m); Some (pt_pde e, paging_on (paging_off m)) }
      else do { e \<leftarrow> ld (word_at (cr3 m) (pde_idx_addr b)) m; Some (pt_pde e, m) }) = Some (t, m)"
    unfolding reads on by (simp add: assms(3))
  show ?thesis unfolding pf_handler_def Let_def head using assms(4) by simp
qed


text \<open>
  C39. A second fault in that region cannot be resolved: the entry is written \<open>0x42000000\<close> bytes away
  from the table, the page stays unmapped, and the handler has reached a fixed point, so that the
  faulting instruction, restarted, faults for ever.
\<close>
theorem second_page_fault_never_resolved:
  assumes "quiet_space m held" "pt_pde (dir_entry m a) = 0" "pf_handler a m = Some m1"
    and "pde_idx_addr b = pde_idx_addr a" "page_of b \<noteq> page_of a"
  shows "\<exists>m2. pf_handler b m1 = Some m2 \<and> phys m1 b = None \<and> phys m2 b = None \<and> pf_handler b m2 = Some m2"
proof -
  have s: "kernel_space m held" "cr0 m AND CR0_FLAG_PG \<noteq> 0" "own_tables m" using assms(1) by (simp_all add: quiet_space_def)
  note k = kernel_spaceD [OF s(1)]
  obtain q where f: "q \<notin> set held" "aligned q" "q \<noteq> 0" "q < USER_POOL_START"
    "cells m1 = first_fault_cells q a m" "cr3 m1 = cr3 m" "cr0 m1 = cr0 m"
    and ph: "phys m1 x = (if page_of x = page_of a then Some x else if page_of x = q then Some (x + 0x42000000) else phys m x)" for x
    by (rule first_fault [OF assms(1,2)]) (use assms(3) in auto)
  have below: "page_of x = p \<Longrightarrow> aligned p \<Longrightarrow> p < USER_POOL_START \<Longrightarrow> x < 0x400000" for x p
    using aligned_below by blast
  have a0: "\<not> present (dir_entry m a)" using k(6) [of a] k(7) assms(2) by fastforce
  then have high: "\<not> b < 0x400000" "\<not> a < 0x400000"
    using low_entry [OF k(2) s(2), of b] low_entry [OF k(2) s(2), of a] assms(4) by auto
  have none: "phys m1 b = None"
    using ph [of b] assms(4,5) a0 s(2) below [of b q] f(2,4) high by (auto simp: phys_def)
  have ne: "cr3 m \<noteq> q" using k(3) f(1) by auto
  let ?w = "word_at (cr3 m) (pde_idx_addr b)"
  have w: "page_of ?w = cr3 m" using page_of_word_at [OF k(4) idx_less(1)] .
  have wl: "?w < 0x400000" using below [OF w k(4,5)] .
  then have rd: "phys m1 ?w = Some ?w"
    using ph [of ?w] w ne k(2) page_of_idx_addr [of ?w a] by (auto simp: low_def)
  have d0: "present (dir_entry m 0)" using low_entry [OF k(2) s(2), of 0] by simp
  note dir = first_fault_dir [OF s(1) d0 s(3) f(1,2), of a]
  have e: "cells m1 ?w = q OR PAGE_FLAG_RW OR PAGE_FLAG_PRESENT"
    using dir [of b] assms(4) by (simp add: f(5))
  let ?t = "word_at q (pte_idx_addr b)" and ?v = "b OR PAGE_FLAG_RW OR PAGE_FLAG_PRESENT"
  have tp: "page_of ?t = q" using page_of_word_at [OF f(2) idx_less(2)] .
  have "page_of q \<noteq> page_of a" using below [OF _ f(2,4), of a] high page_of_aligned [OF f(2)] by metis
  then have tph: "phys m1 ?t = Some (?t + 0x42000000)" using ph [of ?t] tp page_of_aligned [OF f(2)] by auto
  have far: "?t + 0x42000000 \<noteq> x" if "x < 0x400000" for x
  proof -
    have "unat ?t < 0x400000" using below [OF tp f(2,4)] by (simp add: word_less_nat_alt)
    then have "unat (?t + 0x42000000) \<ge> 0x42000000" by (simp add: unat_word_ariths)
    then show ?thesis using that by (auto simp: word_less_nat_alt)
  qed
  define m2 where "m2 = store (?t + 0x42000000) ?v m1"
  have same: "phys m2 x = phys m1 x" for x
    unfolding m2_def
  proof (rule phys_store_elsewhere)
    show "?t + 0x42000000 \<noteq> word_at (cr3 m1) (pde_idx_addr i)" for i
      using far below [OF _ k(4,5)] page_of_word_at [OF k(4) idx_less(1) [of i]] f(6) by simp
    show "?t + 0x42000000 \<noteq> word_at (pt_pde (dir_entry m1 i)) (pte_idx_addr j)" if pr: "present (dir_entry m1 i)" for i j
    proof -
      have "pt_pde (dir_entry m1 i) \<in> set (q # held)"
        using pr dir [of i] k(6) [of i] entry_table [OF f(2)] by (auto simp: f(5,6) split: if_splits)
      then have "aligned (pt_pde (dir_entry m1 i))" "pt_pde (dir_entry m1 i) < USER_POOL_START"
        using k(7) f(2,4) by auto
      then show ?thesis using far below page_of_word_at idx_less(2) by metis
    qed
  qed
  have st2: "cr0 m2 AND CR0_FLAG_PG \<noteq> 0" "cr3 m2 = cr3 m" "cells m2 ?w = cells m1 ?w" "cr3 m1 = cr3 m" "cr0 m1 AND CR0_FLAG_PG \<noteq> 0"
    using far [OF wl] f(6,7) s(2) by (auto simp: m2_def store_def)
  have t: "pt_pde (cells m1 ?w) = q" using e entry_table [OF f(2)] by simp
  have "pf_handler b m1 = Some m2"
    using pf_handler_mapped_table [of m1 b q] rd t f(3) st2 tph by (simp add: st_def m2_def)
  moreover have "pf_handler b m2 = Some (store (?t + 0x42000000) ?v m2)"
    using pf_handler_mapped_table [of m2 b q] rd t f(3) st2 tph same by (simp add: st_def)
  moreover have "store (?t + 0x42000000) ?v m2 = m2" by (simp add: m2_def store_def)
  ultimately show ?thesis using none same [of b] by auto
qed


section \<open>From start-up\<close>

text \<open>
  C37. Start-up: from the freshly initialised allocator, \<open>init_paging\<close> takes the first two kernel pages
  for a directory and one table, and turns paging on over a space that maps exactly the first 4 MB,
  each address to itself, and is fit for \<open>pd_create\<close> and the page-fault handler.  Its loop writes 8192
  entries, of which the table's page holds 1024: the others fill the seven pages behind it, and the
  memory from 4 MB up to the end of the user pool stays unmapped.
\<close>
theorem start_up_maps_low_memory:
  assumes "pools m = init_palloc lmem kmem umem" "cr0 m AND CR0_FLAG_PG = 0"
  shows "\<exists>m'. init_paging m = Some m' \<and> quiet_space m' [0x102000, 0x101000] \<and> tables_in_use m' = 1 \<and>
    (\<forall>a. phys m' a = (if a < 0x400000 then Some a else None)) \<and>
    (\<forall>j < 8192. pde m' 0x102000 j = (PAGE_SIZE * idx j OR PAGE_FLAG_RW OR PAGE_FLAG_PRESENT))"
proof -
  obtain m' where b: "init_paging m = Some m'" "kernel_space m' [0x102000, 0x101000]" "tables_in_use m' = 1"
    "cr3 m' = 0x101000" "cr0 m' = cr0 m OR CR0_FLAG_PG" "\<forall>a. phys m' a = (if a < 0x400000 then Some a else None)"
    "\<forall>j < 1024. pde m' 0x101000 j = (if j = 0 then 0x102003 else 0)"
    "\<forall>j < 8192. pde m' 0x102000 j = (PAGE_SIZE * idx j OR PAGE_FLAG_RW OR PAGE_FLAG_PRESENT)"
    using boot_kernel_space [OF assms] by blast
  have "own_tables m'"
    using b(4,7) by (auto simp: own_tables_def present_def PAGE_FLAG_PRESENT_def pt_pde_def PAGE_MASK_BASE_def split: if_splits)
  moreover have "cr0 m' AND CR0_FLAG_PG \<noteq> 0" unfolding b(5) by (rule pg_set(1))
  ultimately show ?thesis using b by (intro exI [of _ m']) (simp add: quiet_space_def)
qed

text \<open>The machine before \<open>init_paging\<close>, with an allocator fresh from \<open>init_palloc\<close>.\<close>

definition boot_vm :: vm where
  "boot_vm = \<lparr> cells = (\<lambda>_. 0), pools = init_palloc (\<lambda>_. 0) (\<lambda>_. 0) (\<lambda>_. 0), cr0 = 0x11, cr3 = 0, PID0_PAGE_DIR = 0 \<rparr>"

lemma boot_vm_ok: "pools boot_vm = init_palloc (\<lambda>_. 0) (\<lambda>_. 0) (\<lambda>_. 0)" "cr0 boot_vm AND CR0_FLAG_PG = 0"
  by (simp_all add: boot_vm_def CR0_FLAG_PG_def)

lemma start_up_maps_low_memory_witness:
  "\<exists>m'. init_paging boot_vm = Some m' \<and> phys m' 0x3FFFFC = Some 0x3FFFFC \<and> phys m' 0x400000 = None \<and>
    pde m' 0x102000 1024 = 0x400003"
proof -
  obtain m' where b: "init_paging boot_vm = Some m'" "\<forall>a. phys m' a = (if a < 0x400000 then Some a else None)"
    "\<forall>j < 8192. pde m' 0x102000 j = (PAGE_SIZE * idx j OR PAGE_FLAG_RW OR PAGE_FLAG_PRESENT)"
    using start_up_maps_low_memory [OF boot_vm_ok] by blast
  have "pde m' 0x102000 1024 = (PAGE_SIZE * idx 1024 OR PAGE_FLAG_RW OR PAGE_FLAG_PRESENT)" using spec [OF b(3), of 1024] by simp
  then show ?thesis using b(1,2) by (intro exI [of _ m']) (simp add: PAGE_FLAG_RW_def PAGE_FLAG_PRESENT_def)
qed

lemma booted_space:
  obtains m' where "init_paging boot_vm = Some m'" "quiet_space m' [0x102000, 0x101000]" "tables_in_use m' = 1"
    "cr3 m' = 0x101000" "\<forall>j < 1024. pde m' 0x101000 j = (if j = 0 then 0x102003 else 0)"
proof -
  obtain m' where b: "init_paging boot_vm = Some m'" "kernel_space m' [0x102000, 0x101000]" "tables_in_use m' = 1"
    "cr3 m' = 0x101000" "cr0 m' = cr0 boot_vm OR CR0_FLAG_PG"
    "\<forall>j < 1024. pde m' 0x101000 j = (if j = 0 then 0x102003 else 0)"
    using boot_kernel_space [OF boot_vm_ok] by blast
  have "own_tables m'"
    using b(4,6) by (auto simp: own_tables_def present_def PAGE_FLAG_PRESENT_def pt_pde_def PAGE_MASK_BASE_def split: if_splits)
  moreover have "cr0 m' AND CR0_FLAG_PG \<noteq> 0" unfolding b(5) by (rule pg_set(1))
  ultimately show ?thesis using that b by (simp add: quiet_space_def)
qed

lemma new_space_translates_alike_witness:
  "\<exists>m pd m'. init_paging boot_vm = Some m \<and> pd_create m = Some (pd, m') \<and> phys (m'\<lparr> cr3 := pd \<rparr>) 0x123456 = phys m 0x123456"
proof -
  obtain m where m: "init_paging boot_vm = Some m" "quiet_space m [0x102000, 0x101000]" "tables_in_use m = 1"
    by (rule booted_space)
  have "kernel_space m [0x102000, 0x101000]" "length [0x102000 :: Bit32u, 0x101000] + tables_in_use m < 735"
    using m(2,3) by (simp_all add: quiet_space_def)
  from new_space_translates_alike [OF this] m(1) show ?thesis by blast
qed

lemma boot_unmapped:
  assumes "cr3 m = 0x101000" "\<forall>j < 1024. pde m 0x101000 j = (if j = 0 then 0x102003 else 0)" "\<not> a < 0x400000"
  shows "pt_pde (dir_entry m a) = 0"
  using assms dir_entry_nat(1) [of m a] dir_entry_nat(2) [of a] pde_idx_low [of a] by (auto simp: pt_pde_def unat_eq_0)

lemma first_page_fault_of_region_witness:
  "\<exists>m m'. init_paging boot_vm = Some m \<and> pf_handler 0x800010 m = Some m' \<and> phys m' 0x800010 = Some 0x800010"
proof -
  obtain m where m: "init_paging boot_vm = Some m" "quiet_space m [0x102000, 0x101000]" "tables_in_use m = 1"
    "cr3 m = 0x101000" "\<forall>j < 1024. pde m 0x101000 j = (if j = 0 then 0x102003 else 0)"
    by (rule booted_space)
  have "pt_pde (dir_entry m 0x800010) = 0" by (rule boot_unmapped [OF m(4,5)]) simp
  from first_page_fault_of_region [OF m(2) this] m(1) show ?thesis by fastforce
qed

lemma second_page_fault_never_resolved_witness:
  "\<exists>m m1 m2. init_paging boot_vm = Some m \<and> pf_handler 0x800010 m = Some m1 \<and> pf_handler 0x801000 m1 = Some m2 \<and>
    phys m2 0x801000 = None \<and> pf_handler 0x801000 m2 = Some m2"
proof -
  obtain m where m: "init_paging boot_vm = Some m" "quiet_space m [0x102000, 0x101000]" "tables_in_use m = 1"
    "cr3 m = 0x101000" "\<forall>j < 1024. pde m 0x101000 j = (if j = 0 then 0x102003 else 0)"
    by (rule booted_space)
  have z: "pt_pde (dir_entry m 0x800010) = 0" by (rule boot_unmapped [OF m(4,5)]) simp
  obtain q m1 where "pf_handler 0x800010 m = Some m1" by (rule first_fault [OF m(2) z])
  moreover have "pde_idx_addr 0x801000 = pde_idx_addr 0x800010" "page_of 0x801000 \<noteq> page_of (0x800010 :: Bit32u)"
    by (simp_all add: pde_idx_addr_def PAGE_MASK_PDE_def PAGE_OFFSET_PDE_def page_of_def PAGE_MASK_BASE_def)
  ultimately show ?thesis using second_page_fault_never_resolved [OF m(2) z] m(1) by blast
qed

end
