(* ===== verification/Proc_Space.thy ===== *)
theory Proc_Space
  imports Sched_Props Paging_Fault
begin

text \<open>
  The whole of \<open>proc_create\<close> (\<open>SSUOS_P6/src/kernel/proc/proc.c\<close>): the table entry and the queues of
  \<open>Sched\<close> together with the memory of \<open>Paging\<close>, in which the new process gets a stack page with its
  first frame and a copy of the current address space.  The process number is taken before the
  memory is; the two parts of the state do not meet, so their order is not visible.
\<close>

definition STACK_SIZE :: nat where "STACK_SIZE = 512"

text \<open>\<open>*(--top) = v\<close> for each value in turn.\<close>

fun push_words :: "Bit32u list \<Rightarrow> Bit32u \<Rightarrow> vm \<Rightarrow> (Bit32u \<times> vm) option" where
  "push_words [] esp m = Some (esp, m)"
| "push_words (v # vs) esp m = do {
     let esp = esp - 4;
     m \<leftarrow> st esp v m;
     push_words vs esp m }"

text \<open>The entry points are where the kernel is linked; \<open>entry\<close> and \<open>aux\<close> are the arguments of the call.\<close>

definition first_frame :: "Bit32u \<Rightarrow> Bit32u \<Rightarrow> Bit32u \<Rightarrow> Bit32u \<Rightarrow> Bit32u \<Rightarrow> Bit32u list" where
  "first_frame aux proc_end_addr entry proc_start_addr ebp =
     [aux, proc_end_addr, entry, proc_start_addr, ebp, 1, 2, 3, 4, 5, 6]"

definition create_process ::
  "nat \<Rightarrow> Bit32u option \<Rightarrow> Bit32u \<Rightarrow> Bit32u \<Rightarrow> Bit32u \<Rightarrow> Bit32u \<Rightarrow> kernel \<Rightarrow> vm \<Rightarrow> (int \<times> kernel \<times> vm) option" where
  "create_process slot0 opt entry aux proc_start_addr proc_end_addr k m = do {
     (page, m) \<leftarrow> alloc_page m;
     let esp = word_at page (of_nat (STACK_SIZE - 1));
     (esp, m) \<leftarrow> push_words (first_frame aux proc_end_addr entry proc_start_addr esp) esp m;
     (dir, m) \<leftarrow> pd_create m;
     (new_pid, k) \<leftarrow> proc_create slot0 opt esp dir k;
     Some (new_pid, k, m) }"

section \<open>Pushing onto a fresh page\<close>

lemma kernel_space_agree:
  assumes "kernel_space m0 held" "agree m0 held m" "owned m held'" "set held \<subseteq> set held'" "\<forall>q \<in> set held'. q < USER_POOL_START"
  shows "kernel_space m held'" "tables_in_use m = tables_in_use m0"
proof -
  note k = kernel_spaceD [OF assms(1)]
  have gd: "good_dir m0 held (cr3 m0)" and lw: "low m0" using assms(1) by (simp_all add: kernel_space_def low_dir_def)
  have c: "cr3 m = cr3 m0" using assms(2) by (simp add: agree_def)
  have d: "pde m (cr3 m0) j = pde m0 (cr3 m0) j" if "j < 1024" for j
    using assms(2) k(3) page_of_idx [OF k(4) that] by (simp add: agree_def)
  have "low m" using phys_agree [OF assms(2) gd] k(7) lw by (simp add: low_def)
  moreover have "good_dir m held' (cr3 m)" using gd d assms(4) c by (auto simp: good_dir_def)
  ultimately show "kernel_space m held'" using assms(3,5) by (simp add: kernel_space_def low_dir_def)
  show "tables_in_use m = tables_in_use m0"
    using d c by (auto simp: tables_in_use_def intro!: arg_cong [of _ _ length] filter_cong)
qed

lemma push_words_ok:
  assumes "kernel_space m0 held" "aligned q" "q < USER_POOL_START" "q \<notin> set held"
  shows "agree m0 held m \<Longrightarrow> length vs \<le> n \<Longrightarrow> n < 1024 \<Longrightarrow>
    \<exists>m'. push_words vs (word_at q (idx n)) m = Some (word_at q (idx (n - length vs)), m') \<and> agree m0 held m' \<and>
      pools m' = pools m \<and> (\<forall>j < length vs. pde m' q (n - Suc j) = vs ! j) \<and>
      (\<forall>j < 1024. n \<le> j \<longrightarrow> pde m' q j = pde m q j) \<and> (\<forall>x. page_of x \<noteq> q \<longrightarrow> cells m' x = cells m x)"
proof (induction vs arbitrary: n m)
  case (Cons v vs)
  then obtain n' where n: "n = Suc n'" by (cases n) auto
  have n': "n' < 1024" "length vs \<le> n'" using Cons.prems(2,3) n by simp_all
  have gd: "good_dir m0 held (cr3 m0)" and lw: "low m0" using assms(1) by (simp_all add: kernel_space_def low_dir_def)
  have "word_at q (idx n') < 0x400000" by (rule word_below [OF assms(2,3) n'(1)])
  then have ph: "phys m (word_at q (idx n')) = Some (word_at q (idx n'))"
    using phys_agree [OF Cons.prems(1) gd] kernel_spaceD(7) [OF assms(1)] lw by (simp add: low_def)
  let ?m = "store (word_at q (idx n')) v m"
  have top: "word_at q (idx n) - 4 = word_at q (idx n')" by (simp add: word_at_def n algebra_simps)
  have pg: "page_of (word_at q (idx n')) = q" by (rule page_of_idx [OF assms(2) n'(1)])
  have ag: "agree m0 held ?m" using agree_store [OF Cons.prems(1)] pg assms(4) by simp
  obtain m' where m': "push_words vs (word_at q (idx n')) ?m = Some (word_at q (idx (n' - length vs)), m')" "agree m0 held m'"
    "pools m' = pools ?m" "\<forall>j < length vs. pde m' q (n' - Suc j) = vs ! j"
    "\<forall>j < 1024. n' \<le> j \<longrightarrow> pde m' q j = pde ?m q j" "\<forall>x. page_of x \<noteq> q \<longrightarrow> cells m' x = cells ?m x"
    using Cons.IH [OF ag n'(2,1)] by blast
  have inj: "word_at q (idx j) = word_at q (idx n') \<longleftrightarrow> j = n'" if "j < 1024" for j
    using word_at_inj idx_less_1024 idx_inj that n'(1) by metis
  have "push_words (v # vs) (word_at q (idx n)) m = Some (word_at q (idx (n - length (v # vs))), m')"
    using m'(1) ph unfolding push_words.simps Let_def top by (simp add: st_def n)
  moreover have "\<forall>j < length (v # vs). pde m' q (n - Suc j) = (v # vs) ! j"
    using m'(4,5) n'(1) by (auto simp: n less_Suc_eq_0_disj store_def)
  moreover have "\<forall>j < 1024. n \<le> j \<longrightarrow> pde m' q j = pde m q j"
    using m'(5) inj by (auto simp: n store_def)
  moreover have "\<forall>x. page_of x \<noteq> q \<longrightarrow> cells m' x = cells m x"
    using m'(6) pg by (auto simp: store_def)
  ultimately show ?case using m'(2,3) by (intro exI [of _ m'] conjI) (simp_all add: store_def)
qed simp


section \<open>A created process\<close>

lemma ld_phys: "phys m a = Some a \<Longrightarrow> ld a m = Some (cells m a)"
  by (simp add: ld_def)

lemma stack_index: "511 - Suc j = 510 - j" for j :: nat
  by simp

text \<open>
  C9. A created process starts: with a free slot and enough free pages, \<open>proc_create\<close> returns; the new
  process is at the end of the run queue and of the list of all processes; its address space
  translates every address as its creator's; and in that space its stack pointer points at the eleven words
  the switch and the first return consume: six registers, the frame pointer, \<open>proc_start\<close>, the
  entry, \<open>proc_end\<close> and the argument.
\<close>
theorem created_process_starts:
  assumes "kernel_ok k r s d p" "\<exists>i < PROC_NUM_MAX. state (procs k i) = PROC_UNUSED"
    and "kernel_space m held" "length held + tables_in_use m < 734"
  shows "\<exists>k' m' i. create_process slot0 opt entry aux pstart pend k m = Some (lately_pid k + 1, k', m') \<and> i \<notin> set p \<and>
    kernel_ok k' (r @ [i]) s d (p @ [i]) \<and>
    (\<forall>a. phys (m'\<lparr> cr3 := pd (procs k' i) \<rparr>) a = phys m a) \<and>
    (\<exists>ebp. \<forall>j < 11. ld (stack (procs k' i) + 4 * of_nat j) (m'\<lparr> cr3 := pd (procs k' i) \<rparr>) =
       Some ([6, 5, 4, 3, 2, 1, ebp, pstart, entry, pend, aux] ! j))"
proof -
  note ks = kernel_spaceD [OF assms(3)]
  have gd: "good_dir m held (cr3 m)" and lw: "low m" using assms(3) by (simp_all add: kernel_space_def low_dir_def)
  have len0: "length held < 735" using assms(4) by simp
  obtain q m1 where f: "alloc_page_direct m = (q, m1)" "owned m1 (q # held)" "q \<notin> set held" "aligned q" "q \<noteq> 0"
    "cells m1 = (\<lambda>x. if page_of x = q then 0 else cells m x)" "cr3 m1 = cr3 m" "cr0 m1 = cr0 m"
    "PID0_PAGE_DIR m1 = PID0_PAGE_DIR m" "q < USER_POOL_START"
    by (rule alloc_page_fresh [OF ks(1) len0])
  have al: "alloc_page m = Some (q, m1)"
    using alloc_page_refines [OF ks(1) _ lw] assms(4) f(1) by simp
  have ag1: "agree m held m1" using f(3,6-8) by (auto simp: agree_def)
  let ?ebp = "word_at q (idx 511)" and ?vs = "first_frame aux pend entry pstart (word_at q (idx 511))"
  have len: "length ?vs = 11" by (simp add: first_frame_def)
  obtain m2 where m2: "push_words ?vs (word_at q (idx 511)) m1 = Some (word_at q (idx 500), m2)" "agree m held m2"
    "pools m2 = pools m1" "\<forall>j < 11. pde m2 q (511 - Suc j) = ?vs ! j" "\<forall>x. page_of x \<noteq> q \<longrightarrow> cells m2 x = cells m1 x"
    using push_words_ok [OF assms(3) f(4,10,3) ag1, of ?vs 511] unfolding len by auto
  have o2: "owned m2 (q # held)" using f(2) m2(3) by (simp add: owned_def)
  have "\<forall>x \<in> set (q # held). x < USER_POOL_START" using f(10) ks(7) by simp
  note sp2 = kernel_space_agree [OF assms(3) m2(2) o2 _ this]
  have sp: "kernel_space m2 (q # held)" and tb: "tables_in_use m2 = tables_in_use m" using sp2 by auto
  have len2: "length (q # held) + tables_in_use m2 < 735" using assms(4) tb by simp
  obtain dir m3 held3 where m3: "pd_create m2 = Some (dir, m3)" "copied_below 1024 m2 (q # held) (cr3 m2) dir m3 held3"
    using pd_create_ok [OF sp len2] by blast
  have ph: "phys (m3\<lparr> cr3 := dir \<rparr>) a = phys m a" for a
    using copied_translates [OF m3(2), of a] phys_agree [OF m2(2) gd, of a] ks(7) by simp
  obtain k' i where k': "proc_create slot0 opt (word_at q (idx 500)) dir k = Some (lately_pid k + 1, k')" "i \<notin> set p"
    "kernel_ok k' (r @ [i]) s d (p @ [i])" "stack (procs k' i) = word_at q (idx 500)" "pd (procs k' i) = dir"
    using kernel_ok_create [OF assms(1,2)] by blast
  have "create_process slot0 opt entry aux pstart pend k m = Some (lately_pid k + 1, k', m3)"
    using al m2(1) m3(1) k'(1) by (simp add: create_process_def STACK_SIZE_def Let_def)
  moreover have "ld (stack (procs k' i) + 4 * of_nat j) (m3\<lparr> cr3 := dir \<rparr>) =
      Some ([6, 5, 4, 3, 2, 1, ?ebp, pstart, entry, pend, aux] ! j)" if j: "j < 11" for j
  proof -
    have a: "stack (procs k' i) + 4 * of_nat j = word_at q (idx (500 + j))"
      by (simp add: k'(4) word_at_def algebra_simps)
    have jl: "500 + j < 1024" using j by simp
    have "phys m (word_at q (idx (500 + j))) = Some (word_at q (idx (500 + j)))"
      using lw word_below [OF f(4,10) jl] by (simp add: low_def)
    then have "ld (word_at q (idx (500 + j))) (m3\<lparr> cr3 := dir \<rparr>) = Some (pde m3 q (500 + j))"
      using ph by (simp add: ld_def)
    also have "pde m3 q (500 + j) = pde m2 q (500 + j)"
      using m3(2) page_of_idx [OF f(4) jl] by (simp add: copied_below_def)
    also have "\<dots> = ?vs ! (10 - j)"
      using m2(4) [rule_format, of "10 - j"] j by simp
    also have "\<dots> = [6, 5, 4, 3, 2, 1, ?ebp, pstart, entry, pend, aux] ! j"
    proof -
      have "rev ?vs = [6, 5, 4, 3, 2, 1, ?ebp, pstart, entry, pend, aux]" by (simp add: first_frame_def)
      moreover have "rev ?vs ! j = ?vs ! (10 - j)"
      proof -
        have "rev ?vs ! j = ?vs ! (length ?vs - Suc j)" by (rule rev_nth) (use j len in simp)
        moreover have "length ?vs - Suc j = 10 - j" using len j by simp
        ultimately show ?thesis by (simp only:)
      qed
      ultimately show ?thesis by (simp only:)
    qed
    finally show ?thesis using a by simp
  qed
  ultimately show ?thesis using k'(2,3,5) ph by blast
qed

lemma created_process_starts_witness:
  "\<exists>m k' m' i. init_paging boot_vm = Some m \<and> create_process 0 None 0x2000 7 0x3000 0x4000 booted m = Some (lately_pid booted + 1, k', m') \<and>
    ld (stack (procs k' i) + 32) (m'\<lparr> cr3 := pd (procs k' i) \<rparr>) = Some 0x2000"
proof -
  obtain m where m: "init_paging boot_vm = Some m" "quiet_space m [0x102000, 0x101000]" "tables_in_use m = 1"
    by (rule booted_space)
  have "kernel_space m [0x102000, 0x101000]" "length [0x102000 :: Bit32u, 0x101000] + tables_in_use m < 734"
    using m(2,3) by (simp_all add: quiet_space_def)
  moreover have "\<exists>i < PROC_NUM_MAX. state (procs booted i) = PROC_UNUSED" by (rule slot_left [OF booted(2)]) simp
  ultimately obtain k' m' i ebp where c: "create_process 0 None 0x2000 7 0x3000 0x4000 booted m = Some (lately_pid booted + 1, k', m')"
    "\<forall>j < 11. ld (stack (procs k' i) + 4 * of_nat j) (m'\<lparr> cr3 := pd (procs k' i) \<rparr>) =
       Some ([6, 5, 4, 3, 2, 1, ebp, 0x3000, 0x2000, 0x4000, 7] ! j)"
    using created_process_starts [OF booted(2), of m "[0x102000, 0x101000]" 0 None "0x2000" 7 "0x3000" "0x4000"] by blast
  have "ld (stack (procs k' i) + 4 * of_nat 8) (m'\<lparr> cr3 := pd (procs k' i) \<rparr>) = Some 0x2000"
    using spec [OF c(2), of 8] by simp
  then show ?thesis using c(1) m(1) by auto
qed

end
