(* ===== verification/LevelHash.thy ===== *)
theory LevelHash
  imports Prelude
begin

text \<open>
  The level hash table of the kernel \<open>ssuos\<close>, \<open>ssuos/src/kernel/mem/hashing.c\<close> and
  \<open>include/mem/hashing.h\<close>: the page allocator enters every block it hands out under the index of its
  first page.  Two levels of buckets with four slots each; a page has two buckets on each level, and one
  bucket of the lower level is shared by two of the upper.  An array is a list of its fixed length, and a
  bucket or slot number a \<open>nat\<close>.  Printing is left out.
\<close>

section \<open>The table\<close>

abbreviation (input) SLOT_NUM :: nat where "SLOT_NUM \<equiv> 4"
abbreviation (input) CAPACITY :: "'a :: numeral" where "CAPACITY \<equiv> 256"

record entry =
  key :: Bit32u
  the_value :: Bit32u

record level_bucket =
  token :: "Bit8u list"
  slot :: "entry list"

record level_hash =
  top_buckets :: "level_bucket list"
  bottom_buckets :: "level_bucket list"

definition F_IDX :: "Bit32u \<Rightarrow> Bit32u \<Rightarrow> Bit32u" where
  "F_IDX addr capacity = addr mod (capacity div 2 - 1)"

definition S_IDX :: "Bit32u \<Rightarrow> Bit32u \<Rightarrow> Bit32u" where
  "S_IDX addr capacity = (addr * 7) mod (capacity div 2 - 1) + capacity div 2"

definition ssuos_VH_TO_RH :: "Bit32u \<Rightarrow> Bit32u" where
  "ssuos_VH_TO_RH addr = addr - 0xc0000000 + 0x00200000"

definition ssuos_RH_TO_VH :: "Bit32u \<Rightarrow> Bit32u" where
  "ssuos_RH_TO_VH addr = addr - 0x00200000 + 0xc0000000"

text \<open>Access to slot \<open>i\<close> of bucket \<open>b\<close> of a level.\<close>

datatype level = Top | Bottom

primrec buckets :: "level \<Rightarrow> level_hash \<Rightarrow> level_bucket list" where
  "buckets Top h = top_buckets h"
| "buckets Bottom h = bottom_buckets h"

primrec upd_buckets :: "level \<Rightarrow> (level_bucket list \<Rightarrow> level_bucket list) \<Rightarrow> level_hash \<Rightarrow> level_hash" where
  "upd_buckets Top f h = h\<lparr> top_buckets := f (top_buckets h) \<rparr>"
| "upd_buckets Bottom f h = h\<lparr> bottom_buckets := f (bottom_buckets h) \<rparr>"

definition token_at :: "level \<Rightarrow> nat \<Rightarrow> nat \<Rightarrow> level_hash \<Rightarrow> Bit8u" where
  "token_at lv b i h = token (buckets lv h ! b) ! i"

definition slot_at :: "level \<Rightarrow> nat \<Rightarrow> nat \<Rightarrow> level_hash \<Rightarrow> entry" where
  "slot_at lv b i h = slot (buckets lv h ! b) ! i"

definition set_token :: "level \<Rightarrow> nat \<Rightarrow> nat \<Rightarrow> Bit8u \<Rightarrow> level_hash \<Rightarrow> level_hash" where
  "set_token lv b i t = upd_buckets lv (\<lambda>bs. bs[b := (bs ! b)\<lparr> token := (token (bs ! b))[i := t] \<rparr>])"

definition set_slot :: "level \<Rightarrow> nat \<Rightarrow> nat \<Rightarrow> (entry \<Rightarrow> entry) \<Rightarrow> level_hash \<Rightarrow> level_hash" where
  "set_slot lv b i f =
     upd_buckets lv (\<lambda>bs. bs[b := (bs ! b)\<lparr> slot := (slot (bs ! b))[i := f (slot (bs ! b) ! i)] \<rparr>])"

text \<open>The three assignments with which every branch of the insertion takes a slot.\<close>

definition store_slot :: "level \<Rightarrow> nat \<Rightarrow> nat \<Rightarrow> Bit32u \<Rightarrow> Bit32u \<Rightarrow> level_hash \<Rightarrow> level_hash" where
  "store_slot lv b i k v h =
     set_slot lv b i (the_value_update (\<lambda>_. v)) (set_slot lv b i (key_update (\<lambda>_. k)) (set_token lv b i 1 h))"

text \<open>The body of the two loops that clear the table.\<close>

definition clear_slot :: "level \<Rightarrow> nat \<Rightarrow> nat \<Rightarrow> level_hash \<Rightarrow> level_hash" where
  "clear_slot lv i j h =
     set_slot lv i j (the_value_update (\<lambda>_. 0)) (set_slot lv i j (key_update (\<lambda>_. 0)) (set_token lv i j 0 h))"

definition init_hash_table :: "level_hash \<Rightarrow> level_hash" where
  "init_hash_table h =
     fold (\<lambda>i. fold (clear_slot Bottom i) [0..<SLOT_NUM]) [0..<CAPACITY div 2]
       (fold (\<lambda>i. fold (clear_slot Top i) [0..<SLOT_NUM]) [0..<CAPACITY] h)"

section \<open>Insertion\<close>

text \<open>
  The first two loops of the insertion: the slots of the two buckets of a level in turn, \<open>n\<close> turns left.
  \<open>None\<close>: every turn has counted up \<open>full_top\<close>, so the test of the counter after the loop succeeds.
\<close>

primrec insert_slots :: "nat \<Rightarrow> nat \<Rightarrow> level \<Rightarrow> nat \<Rightarrow> nat \<Rightarrow> Bit32u \<Rightarrow> Bit32u \<Rightarrow> level_hash \<Rightarrow> level_hash option" where
  "insert_slots 0 i lv b1 b2 k v h = None"
| "insert_slots (Suc n) i lv b1 b2 k v h =
     (if token_at lv b1 i h = 0 then Some (store_slot lv b1 i k v h)
      else if token_at lv b2 i h = 0 then Some (store_slot lv b2 i k v h)
      else insert_slots n (i + 1) lv b1 b2 k v h)"

text \<open>The inner loops over \<open>j\<close>: the first free slot of one bucket.\<close>

primrec insert_free :: "nat \<Rightarrow> nat \<Rightarrow> level \<Rightarrow> nat \<Rightarrow> Bit32u \<Rightarrow> Bit32u \<Rightarrow> level_hash \<Rightarrow> level_hash option" where
  "insert_free 0 j lv b k v h = None"
| "insert_free (Suc n) j lv b k v h =
     (if token_at lv b j h = 0 then Some (store_slot lv b j k v h) else insert_free n (j + 1) lv b k v h)"

text \<open>
  The loops that look for another bucket of an entry of a full bucket \<open>b\<close>, on the upper and on the lower
  level.  They return the table (\<open>Inl\<close>) or the counter \<open>new_hash_count\<close> (\<open>Inr\<close>).
\<close>

primrec relocate_top :: "nat \<Rightarrow> nat \<Rightarrow> nat \<Rightarrow> Bit32u \<Rightarrow> Bit32u \<Rightarrow> level_hash \<Rightarrow> nat \<Rightarrow> level_hash + nat" where
  "relocate_top 0 i b k v h count = Inr count"
| "relocate_top (Suc n) i b k v h count =
     (let virt_value = ssuos_RH_TO_VH (the_value (slot_at Top b i h));
          find_hash1 = unat (F_IDX virt_value CAPACITY);
          find_hash2 = unat (S_IDX virt_value CAPACITY)
      in if b = find_hash1
         then (case insert_free SLOT_NUM 0 Top find_hash2 k v h of Some h' \<Rightarrow> Inl h'
               | None \<Rightarrow> relocate_top n (i + 1) b k v h count)
         else if b = find_hash2
         then (case insert_free SLOT_NUM 0 Top find_hash1 k v h of Some h' \<Rightarrow> Inl h'
               | None \<Rightarrow> relocate_top n (i + 1) b k v h count)
         else relocate_top n (i + 1) b k v h (count + 1))"

text \<open>The second branch of the lower level tests and fills the upper one, as the code does.\<close>

primrec relocate_bottom :: "nat \<Rightarrow> nat \<Rightarrow> nat \<Rightarrow> Bit32u \<Rightarrow> Bit32u \<Rightarrow> level_hash \<Rightarrow> nat \<Rightarrow> level_hash + nat" where
  "relocate_bottom 0 i b k v h count = Inr count"
| "relocate_bottom (Suc n) i b k v h count =
     (let virt_value = ssuos_RH_TO_VH (the_value (slot_at Bottom b i h));
          find_hash1 = unat (F_IDX virt_value CAPACITY);
          find_hash2 = unat (S_IDX virt_value CAPACITY)
      in if b = find_hash1 div 2
         then (case insert_free SLOT_NUM 0 Bottom (find_hash2 div 2) k v h of Some h' \<Rightarrow> Inl h'
               | None \<Rightarrow> relocate_bottom n (i + 1) b k v h count)
         else if b = find_hash2 div 2
         then (case insert_free SLOT_NUM 0 Top (find_hash1 div 2) k v h of Some h' \<Rightarrow> Inl h'
               | None \<Rightarrow> relocate_bottom n (i + 1) b k v h count)
         else relocate_bottom n (i + 1) b k v h (count + 1))"

text \<open>A return ends the function; otherwise it goes on with the counter.\<close>

primrec or_else :: "level_hash + nat \<Rightarrow> (nat \<Rightarrow> level_hash + nat) \<Rightarrow> level_hash + nat" where
  "or_else (Inl h) f = Inl h"
| "or_else (Inr n) f = f n"

definition insert_hash_table :: "Bit32u \<Rightarrow> Bit32u \<Rightarrow> level_hash \<Rightarrow> level_hash" where
  "insert_hash_table pages page_idx h =
     (let hash1_idx = unat (F_IDX pages CAPACITY);
          hash2_idx = unat (S_IDX pages CAPACITY);
          v = ssuos_VH_TO_RH pages;
          k = page_idx
      in case insert_slots SLOT_NUM 0 Top hash1_idx hash2_idx k v h of Some h' \<Rightarrow> h'
         | None \<Rightarrow> (case insert_slots SLOT_NUM 0 Bottom (hash1_idx div 2) (hash2_idx div 2) k v h of Some h' \<Rightarrow> h'
         | None \<Rightarrow>
           (case or_else (or_else (or_else (relocate_top SLOT_NUM 0 hash1_idx k v h 0)
                   (\<lambda>n. if n = SLOT_NUM then relocate_top SLOT_NUM 0 hash2_idx k v h n else Inr n))
                   (\<lambda>n. if n = SLOT_NUM * 2 then relocate_bottom SLOT_NUM 0 (hash1_idx div 2) k v h n else Inr n))
                   (\<lambda>n. if n = SLOT_NUM * 3 then relocate_bottom SLOT_NUM 0 (hash2_idx div 2) k v h n else Inr n)
            of Inl h' \<Rightarrow> h' | Inr n \<Rightarrow> h)))"

section \<open>Deletion\<close>

primrec delete_slots :: "nat \<Rightarrow> nat \<Rightarrow> level \<Rightarrow> nat \<Rightarrow> nat \<Rightarrow> Bit32u \<Rightarrow> level_hash \<Rightarrow> level_hash option" where
  "delete_slots 0 i lv b1 b2 k h = None"
| "delete_slots (Suc n) i lv b1 b2 k h =
     (if key (slot_at lv b1 i h) = k then Some (set_token lv b1 i 0 h)
      else if key (slot_at lv b2 i h) = k then Some (set_token lv b2 i 0 h)
      else delete_slots n (i + 1) lv b1 b2 k h)"

definition delete_hash_table :: "Bit32u \<Rightarrow> Bit32u \<Rightarrow> level_hash \<Rightarrow> level_hash" where
  "delete_hash_table pages page_idx h =
     (let hash1_idx = unat (F_IDX pages CAPACITY);
          hash2_idx = unat (S_IDX pages CAPACITY);
          k = page_idx
      in case delete_slots SLOT_NUM 0 Top hash1_idx hash2_idx k h of Some h' \<Rightarrow> h'
         | None \<Rightarrow> (case delete_slots SLOT_NUM 0 Bottom (hash1_idx div 2) (hash2_idx div 2) k h of Some h' \<Rightarrow> h'
         | None \<Rightarrow> h))"

end
