(* ===== verification/LevelHash_Spec.thy ===== *)
theory LevelHash_Spec
  imports LevelHash
begin

text \<open>
  The level hash table seen as a finite map: a place is a level, a bucket and a slot.  Insertion takes the
  first free one of the sixteen places of a page, deletion vacates the first one with its key; both leave
  every other place as it is.
\<close>

section \<open>Places\<close>

type_synonym place = "level \<times> nat \<times> nat"

primrec level_size :: "level \<Rightarrow> nat" where
  "level_size Top = 256"
| "level_size Bottom = 128"

fun in_table :: "place \<Rightarrow> bool" where
  "in_table (lv, b, i) \<longleftrightarrow> b < level_size lv \<and> i < SLOT_NUM"

fun live :: "level_hash \<Rightarrow> place \<Rightarrow> bool" where
  "live h (lv, b, i) \<longleftrightarrow> token_at lv b i h \<noteq> 0"

fun item :: "level_hash \<Rightarrow> place \<Rightarrow> entry" where
  "item h (lv, b, i) = slot_at lv b i h"

fun put :: "place \<Rightarrow> entry \<Rightarrow> level_hash \<Rightarrow> level_hash" where
  "put (lv, b, i) e h = store_slot lv b i (key e) (the_value e) h"

fun vacate :: "place \<Rightarrow> level_hash \<Rightarrow> level_hash" where
  "vacate (lv, b, i) h = set_token lv b i 0 h"

definition bucket_ok :: "level_bucket \<Rightarrow> bool" where
  "bucket_ok bk \<longleftrightarrow> length (token bk) = SLOT_NUM \<and> length (slot bk) = SLOT_NUM"

definition hash_ok :: "level_hash \<Rightarrow> bool" where
  "hash_ok h \<longleftrightarrow> (\<forall>lv. length (buckets lv h) = level_size lv \<and> (\<forall>bk \<in> set (buckets lv h). bucket_ok bk))"

lemma buckets_upd [simp]: "buckets lv (upd_buckets lv' f h) = (if lv = lv' then f (buckets lv h) else buckets lv h)"
  by (cases lv; cases lv') simp_all

lemma bucket_at: "hash_ok h \<Longrightarrow> b < level_size lv \<Longrightarrow> b < length (buckets lv h) \<and> bucket_ok (buckets lv h ! b)"
  unfolding hash_ok_def by (metis nth_mem)

lemma hash_ok_upd:
  assumes "hash_ok h" "\<And>bk. bucket_ok bk \<Longrightarrow> bucket_ok (f bk)"
  shows "hash_ok (upd_buckets lv (\<lambda>bs. bs[b := f (bs ! b)]) h)"
proof (cases "b < level_size lv")
  case True
  then have "bucket_ok (buckets lv h ! b)" using bucket_at [OF assms(1)] by simp
  then show ?thesis
    using assms set_update_subset_insert [of "buckets lv h" b "f (buckets lv h ! b)"]
    unfolding hash_ok_def by (auto dest!: subsetD)
next
  case False
  then have "upd_buckets lv (\<lambda>bs. bs[b := f (bs ! b)]) h = h"
    using assms(1) by (cases lv) (simp_all add: hash_ok_def list_update_beyond, (metis buckets.simps level_size.simps linorder_not_less list_update_beyond level_hash.surjective level_hash.update_convs)+)
  then show ?thesis using assms(1) by simp
qed

lemma hash_ok_steps [simp]:
  assumes "hash_ok h"
  shows "hash_ok (set_token lv b i t h)" "hash_ok (set_slot lv b i f h)" "hash_ok (store_slot lv b i k v h)"
    "hash_ok (clear_slot lv b i h)" "hash_ok (put p e h)" "hash_ok (vacate p h)"
proof -
  have 1: "hash_ok (set_token lv b i t h)" if "hash_ok h" for lv b i t h
    unfolding set_token_def by (rule hash_ok_upd [OF that]) (simp add: bucket_ok_def)
  have 2: "hash_ok (set_slot lv b i f h)" if "hash_ok h" for lv b i f h
    unfolding set_slot_def by (rule hash_ok_upd [OF that]) (simp add: bucket_ok_def)
  show "hash_ok (set_token lv b i t h)" "hash_ok (set_slot lv b i f h)" "hash_ok (store_slot lv b i k v h)"
    "hash_ok (clear_slot lv b i h)" "hash_ok (put p e h)" "hash_ok (vacate p h)"
    using assms 1 2 by (cases p; simp add: store_slot_def clear_slot_def)+
qed

lemma at_upd:
  assumes "hash_ok h" "in_table (lv, b, i)"
  shows "token_at lv' b' i' (set_token lv b i t h) = (if (lv', b', i') = (lv, b, i) then t else token_at lv' b' i' h)"
    "slot_at lv' b' i' (set_token lv b i t h) = slot_at lv' b' i' h"
    "token_at lv' b' i' (set_slot lv b i f h) = token_at lv' b' i' h"
    "slot_at lv' b' i' (set_slot lv b i f h) = (if (lv', b', i') = (lv, b, i) then f (slot_at lv b i h) else slot_at lv' b' i' h)"
proof -
  have "b < length (buckets lv h)" "i < length (token (buckets lv h ! b))" "i < length (slot (buckets lv h ! b))"
    using assms bucket_at [OF assms(1)] by (simp_all add: bucket_ok_def)
  then show "token_at lv' b' i' (set_token lv b i t h) = (if (lv', b', i') = (lv, b, i) then t else token_at lv' b' i' h)"
    "slot_at lv' b' i' (set_token lv b i t h) = slot_at lv' b' i' h"
    "token_at lv' b' i' (set_slot lv b i f h) = token_at lv' b' i' h"
    "slot_at lv' b' i' (set_slot lv b i f h) = (if (lv', b', i') = (lv, b, i) then f (slot_at lv b i h) else slot_at lv' b' i' h)"
    by (auto simp: token_at_def slot_at_def set_token_def set_slot_def nth_list_update)
qed

lemma live_put [simp]: "hash_ok h \<Longrightarrow> in_table p \<Longrightarrow> live (put p e h) q \<longleftrightarrow> q = p \<or> live h q"
  by (cases p; cases q) (auto simp: store_slot_def at_upd simp del: in_table.simps)

lemma item_put [simp]: "hash_ok h \<Longrightarrow> in_table p \<Longrightarrow> item (put p e h) q = (if q = p then e else item h q)"
  by (cases p; cases q) (auto simp: store_slot_def at_upd simp del: in_table.simps)

lemma live_vacate [simp]: "hash_ok h \<Longrightarrow> in_table p \<Longrightarrow> live (vacate p h) q \<longleftrightarrow> q \<noteq> p \<and> live h q"
  by (cases p; cases q) (auto simp: at_upd simp del: in_table.simps)

lemma item_vacate [simp]: "hash_ok h \<Longrightarrow> in_table p \<Longrightarrow> item (vacate p h) q = item h q"
  by (cases p; cases q) (auto simp: at_upd simp del: in_table.simps)

section \<open>The cleared table\<close>

lemma clear_at:
  assumes "hash_ok h" "in_table p"
  shows "live (clear_slot (fst p) (fst (snd p)) (snd (snd p)) h) q \<longleftrightarrow> q \<noteq> p \<and> live h q"
  using assms by (cases p; cases q) (auto simp: clear_slot_def at_upd simp del: in_table.simps)

lemma clear_fold:
  assumes "hash_ok h" "b < level_size lv" "set js \<subseteq> {..<SLOT_NUM}"
  shows "hash_ok (fold (clear_slot lv b) js h) \<and>
    (\<forall>q. live (fold (clear_slot lv b) js h) q \<longleftrightarrow> q \<notin> (\<lambda>j. (lv, b, j)) ` set js \<and> live h q)"
  using assms
proof (induction js arbitrary: h)
  case (Cons j js)
  have 1: "hash_ok (clear_slot lv b j h)" using Cons.prems by simp
  have 2: "live (clear_slot lv b j h) q \<longleftrightarrow> q \<noteq> (lv, b, j) \<and> live h q" for q
    using clear_at [of h "(lv, b, j)" q] Cons.prems by simp
  show ?case
    using Cons.IH [OF 1] Cons.prems 2 by auto
qed simp

lemma clear_loops:
  assumes "hash_ok h" "set bs \<subseteq> {..<level_size lv}"
  shows "hash_ok (fold (\<lambda>b. fold (clear_slot lv b) [0..<SLOT_NUM]) bs h) \<and>
    (\<forall>q. live (fold (\<lambda>b. fold (clear_slot lv b) [0..<SLOT_NUM]) bs h) q \<longleftrightarrow>
      q \<notin> {(lv, b, j) | b j. b \<in> set bs \<and> j < SLOT_NUM} \<and> live h q)"
  using assms
proof (induction bs arbitrary: h)
  case (Cons b bs)
  have 1: "hash_ok (fold (clear_slot lv b) [0..<SLOT_NUM] h)"
    "\<And>q. live (fold (clear_slot lv b) [0..<SLOT_NUM] h) q \<longleftrightarrow> q \<notin> (\<lambda>j. (lv, b, j)) ` {0..<SLOT_NUM} \<and> live h q"
    using clear_fold [of h b lv "[0..<SLOT_NUM]"] Cons.prems by (auto simp: lessThan_atLeast0)
  show ?case
    using Cons.IH [OF 1(1)] Cons.prems by (auto simp: 1(2))
qed simp

lemma init_empty:
  assumes "hash_ok h"
  shows "hash_ok (init_hash_table h)" "in_table p \<Longrightarrow> \<not> live (init_hash_table h) p"
proof -
  let ?t = "fold (\<lambda>i. fold (clear_slot Top i) [0..<SLOT_NUM]) [0..<CAPACITY] h"
  have t: "hash_ok ?t" "\<And>q. live ?t q \<longleftrightarrow> q \<notin> {(Top, b, j) | b j. b \<in> set [0..<256] \<and> j < SLOT_NUM} \<and> live h q"
    using clear_loops [OF assms, of "[0..<CAPACITY]" Top] by (auto simp: lessThan_atLeast0)
  have b: "hash_ok (init_hash_table h)"
    "\<And>q. live (init_hash_table h) q \<longleftrightarrow> q \<notin> {(Bottom, b, j) | b j. b \<in> set [0..<128] \<and> j < SLOT_NUM} \<and> live ?t q"
    unfolding init_hash_table_def
    using clear_loops [OF t(1), of "[0..<CAPACITY div 2]" Bottom] by (auto simp: lessThan_atLeast0)
  show "hash_ok (init_hash_table h)" by (rule b(1))
  show "\<not> live (init_hash_table h) p" if "in_table p"
    unfolding b(2) t(2) using that
    by (cases p; cases "fst p") simp_all
qed

section \<open>The loops as searches\<close>

text \<open>The places of a page in the order in which insertion and deletion try them.\<close>

definition level_places :: "level \<Rightarrow> nat \<Rightarrow> nat \<Rightarrow> nat list \<Rightarrow> place list" where
  "level_places lv b1 b2 is = concat (map (\<lambda>i. [(lv, b1, i), (lv, b2, i)]) is)"

definition first_bucket :: "Bit32u \<Rightarrow> nat" where
  "first_bucket a = unat (F_IDX a CAPACITY)"

definition second_bucket :: "Bit32u \<Rightarrow> nat" where
  "second_bucket a = unat (S_IDX a CAPACITY)"

definition top_places :: "Bit32u \<Rightarrow> place list" where
  "top_places a = level_places Top (first_bucket a) (second_bucket a) [0..<SLOT_NUM]"

definition bottom_places :: "Bit32u \<Rightarrow> place list" where
  "bottom_places a = level_places Bottom (first_bucket a div 2) (second_bucket a div 2) [0..<SLOT_NUM]"

definition places :: "Bit32u \<Rightarrow> place list" where
  "places a = top_places a @ bottom_places a"

lemma buckets_bounds: "first_bucket a < 127" "128 \<le> second_bucket a" "second_bucket a < 255"
proof -
  have "unat (a mod 127) < 127" "unat (a * 7 mod 127) < 127" by (simp_all add: unat_mod)
  then show "first_bucket a < 127" "128 \<le> second_bucket a" "second_bucket a < 255"
    by (simp_all add: first_bucket_def second_bucket_def F_IDX_def S_IDX_def unat_word_ariths)
qed

lemma set_level_places: "set (level_places lv b1 b2 is) = {(lv, b, i) | b i. b \<in> {b1, b2} \<and> i \<in> set is}"
  by (auto simp: level_places_def)

lemma set_places:
  "set (top_places a) = {(Top, b, i) | b i. b \<in> {first_bucket a, second_bucket a} \<and> i < SLOT_NUM}"
  "set (bottom_places a) = {(Bottom, b, i) | b i. b \<in> {first_bucket a div 2, second_bucket a div 2} \<and> i < SLOT_NUM}"
  "set (places a) = set (top_places a) \<union> set (bottom_places a)"
  by (simp_all add: top_places_def bottom_places_def places_def set_level_places lessThan_atLeast0)

lemma places_in_table: "p \<in> set (places a) \<Longrightarrow> in_table p"
  using buckets_bounds [of a] by (auto simp: set_places)

lemma find_append: "find P (xs @ ys) = (case find P xs of None \<Rightarrow> find P ys | Some x \<Rightarrow> Some x)"
  by (induction xs) simp_all

lemma insert_slots_first:
  "insert_slots n i lv b1 b2 k v h =
   map_option (\<lambda>p. put p \<lparr> key = k, the_value = v \<rparr> h) (find (\<lambda>p. \<not> live h p) (level_places lv b1 b2 [i..<i + n]))"
proof (induction n arbitrary: i)
  case (Suc n)
  have "[i..<i + Suc n] = i # [i + 1..<i + 1 + n]" by (simp add: upt_conv_Cons)
  then show ?case using Suc.IH [of "i + 1"] by (simp add: level_places_def)
qed (simp add: level_places_def)

lemma insert_free_first:
  "insert_free n j lv b k v h =
   map_option (\<lambda>p. put p \<lparr> key = k, the_value = v \<rparr> h) (find (\<lambda>p. \<not> live h p) (map (\<lambda>j. (lv, b, j)) [j..<j + n]))"
proof (induction n arbitrary: j)
  case (Suc n)
  have "[j..<j + Suc n] = j # [j + 1..<j + 1 + n]" by (simp add: upt_conv_Cons)
  then show ?case using Suc.IH [of "j + 1"] by simp
qed simp

lemma delete_slots_first:
  "delete_slots n i lv b1 b2 k h =
   map_option (\<lambda>p. vacate p h) (find (\<lambda>p. key (item h p) = k) (level_places lv b1 b2 [i..<i + n]))"
proof (induction n arbitrary: i)
  case (Suc n)
  have "[i..<i + Suc n] = i # [i + 1..<i + 1 + n]" by (simp add: upt_conv_Cons)
  then show ?case using Suc.IH [of "i + 1"] by (simp add: level_places_def)
qed (simp add: level_places_def)

lemma delete_first:
  "delete_hash_table a k h =
   (case find (\<lambda>p. key (item h p) = k) (places a) of Some p \<Rightarrow> vacate p h | None \<Rightarrow> h)"
  by (simp add: delete_hash_table_def Let_def delete_slots_first places_def top_places_def bottom_places_def
      find_append first_bucket_def second_bucket_def split: option.splits)

lemma insert_first:
  assumes "find (\<lambda>p. \<not> live h p) (places a) = Some p"
  shows "insert_hash_table a k h = put p \<lparr> key = k, the_value = ssuos_VH_TO_RH a \<rparr> h"
  using assms
  by (simp add: insert_hash_table_def Let_def insert_slots_first places_def top_places_def bottom_places_def
      find_append first_bucket_def second_bucket_def split: option.splits)

section \<open>Full buckets\<close>

text \<open>A table in which \<open>e\<close> has been put into one of the free places.\<close>

definition put_free :: "entry \<Rightarrow> level_hash \<Rightarrow> level_hash \<Rightarrow> bool" where
  "put_free e h h' \<longleftrightarrow> (\<exists>p. in_table p \<and> \<not> live h p \<and> h' = put p e h)"

lemma insert_free_puts:
  assumes "insert_free SLOT_NUM 0 lv b k v h = Some h'" "b < level_size lv"
  shows "put_free \<lparr> key = k, the_value = v \<rparr> h h'"
proof -
  obtain p where p: "find (\<lambda>p. \<not> live h p) (map (\<lambda>j. (lv, b, j)) [0..<SLOT_NUM]) = Some p"
    and h': "h' = put p \<lparr> key = k, the_value = v \<rparr> h"
    using assms(1) by (auto simp: insert_free_first simp del: upt_conv_Cons)
  have "\<not> live h p" "p \<in> set (map (\<lambda>j. (lv, b, j)) [0..<SLOT_NUM])"
    using p by (auto simp: find_Some_iff simp del: live.simps)
  moreover have "in_table p" using calculation(2) assms(2) by auto
  ultimately show ?thesis using h' unfolding put_free_def by blast
qed

lemma relocate_puts:
  "relocate_top n i b k v h c = Inl h' \<Longrightarrow> put_free \<lparr> key = k, the_value = v \<rparr> h h'"
  "relocate_bottom n i b k v h c = Inl h' \<Longrightarrow> put_free \<lparr> key = k, the_value = v \<rparr> h h'"
proof -
  have b: "unat (F_IDX a CAPACITY) < level_size Top" "unat (S_IDX a CAPACITY) < level_size Top"
    "unat (F_IDX a CAPACITY) div 2 < level_size Top" "unat (S_IDX a CAPACITY) div 2 < level_size Bottom" for a
    using buckets_bounds [of a] by (simp_all add: first_bucket_def second_bucket_def)
  note puts = insert_free_puts [OF _ b(1)] insert_free_puts [OF _ b(2)] insert_free_puts [OF _ b(3)] insert_free_puts [OF _ b(4)]
  show "relocate_top n i b k v h c = Inl h' \<Longrightarrow> put_free \<lparr> key = k, the_value = v \<rparr> h h'"
    by (induction n arbitrary: i c) (auto simp: Let_def split: if_splits option.splits dest: puts)
  show "relocate_bottom n i b k v h c = Inl h' \<Longrightarrow> put_free \<lparr> key = k, the_value = v \<rparr> h h'"
    by (induction n arbitrary: i c) (auto simp: Let_def split: if_splits option.splits dest: puts)
qed

lemma or_else_Inl: "or_else x f = Inl h \<longleftrightarrow> x = Inl h \<or> (\<exists>n. x = Inr n \<and> f n = Inl h)"
  by (cases x) simp_all

lemma insert_full:
  assumes "\<And>p. p \<in> set (places a) \<Longrightarrow> live h p"
  shows "insert_hash_table a k h = h \<or> put_free \<lparr> key = k, the_value = ssuos_VH_TO_RH a \<rparr> h (insert_hash_table a k h)"
proof -
  have no: "find (\<lambda>p. \<not> live h p) (top_places a) = None" "find (\<lambda>p. \<not> live h p) (bottom_places a) = None"
    using assms by (auto simp: find_None_iff places_def)
  show ?thesis
    using no
    unfolding insert_hash_table_def Let_def insert_slots_first top_places_def bottom_places_def
      first_bucket_def second_bucket_def
    by (auto simp: or_else_Inl split: sum.splits if_splits dest: relocate_puts)
qed

declare in_table.simps [simp del] live.simps [simp del] item.simps [simp del] put.simps [simp del] vacate.simps [simp del]

end
