(* ===== verification/LevelHash_Heap.thy ===== *)
theory LevelHash_Heap
  imports LevelHash_Spec
begin

text \<open>
  The hash table as the register of the pages of the kernel heap.  The heap has as many pages as the page
  list of \<open>ssuos/src/kernel/mem/palloc.c\<close> has entries; the client enters pages that are not entered and
  deletes pages that are.  Both hash functions are the page number modulo 127 in another order, so that a
  page competes with at most eight others, for the eight slots of its two upper buckets.
\<close>

section \<open>Pages\<close>

abbreviation (input) heap_pages :: nat where "heap_pages \<equiv> 1024"

definition page :: "nat \<Rightarrow> Bit32u" where
  "page i = 0xc0000000 + of_nat i * 4096"

definition page_entry :: "nat \<Rightarrow> entry" where
  "page_entry i = \<lparr> key = of_nat i, the_value = ssuos_VH_TO_RH (page i) \<rparr>"

inductive registered :: "nat set \<Rightarrow> level_hash \<Rightarrow> bool" where
  empty: "hash_ok h \<Longrightarrow> registered {} (init_hash_table h)"
| enter: "registered A h \<Longrightarrow> i < heap_pages \<Longrightarrow> i \<notin> A \<Longrightarrow>
    registered (insert i A) (insert_hash_table (page i) (of_nat i) h)"
| leave: "registered A h \<Longrightarrow> i \<in> A \<Longrightarrow> registered (A - {i}) (delete_hash_table (page i) (of_nat i) h)"

lemma of_nat_page_eq [simp]: "i < heap_pages \<Longrightarrow> j < heap_pages \<Longrightarrow> (of_nat i :: Bit32u) = of_nat j \<longleftrightarrow> i = j"
  by (simp add: of_nat_eq_iff word_of_nat_eq_iff take_bit_nat_eq_self)

lemma page_buckets:
  assumes "i < heap_pages"
  shows "first_bucket (page i) = (3221225472 + 4096 * i) mod 127"
    "second_bucket (page i) = 128 + (1073741824 + 28672 * i) mod 127"
proof -
  have p: "unat (page i) = 3221225472 + 4096 * i"
    using assms by (simp add: page_def unat_word_ariths unsigned_of_nat take_bit_eq_mod)
  then show "first_bucket (page i) = (3221225472 + 4096 * i) mod 127"
    by (simp add: first_bucket_def F_IDX_def unat_mod)
  have "(22548578304 + 28672 * i) mod 4294967296 = (1073741824 + 28672 * i + 5 * 4294967296) mod 4294967296"
    by simp
  also have "\<dots> = 1073741824 + 28672 * i" using assms by (subst mod_mult_self1) simp
  finally have "unat (page i * 7) = 1073741824 + 28672 * i" by (simp add: unat_word_ariths p)
  moreover have "(1073741824 + 28672 * i) mod 127 < 127" by simp
  ultimately show "second_bucket (page i) = 128 + (1073741824 + 28672 * i) mod 127"
    by (simp add: second_bucket_def S_IDX_def unat_word_ariths unat_mod)
qed

text \<open>Each bucket determines the page number modulo 127: 4 and 55 are the inverses of 4096 and 28672.\<close>

lemma recover_mod: "m = i + 127 * q \<Longrightarrow> d * x + e = m \<Longrightarrow> (d * (x mod 127) + e) mod 127 = i mod 127" for i :: nat
  by (metis mod_add_left_eq mod_mult_right_eq mod_mult_self2)

lemma recover_page:
  "(4 * ((3221225472 + 4096 * i) mod 127) + 79) mod 127 = (i :: nat) mod 127"
  "(55 * ((1073741824 + 28672 * i) mod 127) + 34) mod 127 = (i :: nat) mod 127"
proof -
  have 1: "4 * (3221225472 + 4096 * i) + 79 = i + 127 * (129 * i + 101455921)" by simp
  show "(4 * ((3221225472 + 4096 * i) mod 127) + 79) mod 127 = (i :: nat) mod 127"
    by (rule recover_mod [OF 1 refl])
  have 2: "55 * (1073741824 + 28672 * i) + 34 = i + 127 * (12417 * i + 465006302)" by simp
  show "(55 * ((1073741824 + 28672 * i) mod 127) + 34) mod 127 = (i :: nat) mod 127"
    by (rule recover_mod [OF 2 refl])
qed

lemma same_bucket:
  assumes "i < heap_pages" "j < heap_pages"
  shows "first_bucket (page i) = first_bucket (page j) \<Longrightarrow> i mod 127 = j mod 127"
    "second_bucket (page i) = second_bucket (page j) \<Longrightarrow> i mod 127 = j mod 127"
  using recover_page [of i] recover_page [of j] assms by (simp_all add: page_buckets)

lemma same_top_place:
  assumes "i < heap_pages" "j < heap_pages" "p \<in> set (top_places (page i))" "p \<in> set (places (page j))"
  shows "i mod 127 = j mod 127"
  using assms buckets_bounds [of "page i"] buckets_bounds [of "page j"] same_bucket [of i j]
  by (auto simp: set_places)

lemma few_rivals:
  assumes "i < heap_pages" "S \<subseteq> {..<heap_pages}" "\<And>j. j \<in> S \<Longrightarrow> j mod 127 = i mod 127"
  shows "card S \<le> 9"
proof -
  have "S \<subseteq> (\<lambda>q. i mod 127 + 127 * q) ` {..<9}"
  proof
    fix j assume "j \<in> S"
    then have "i mod 127 = j mod 127" "j div 127 < 9" using assms by (auto simp: subset_iff)
    then have "j = i mod 127 + 127 * (j div 127)" by simp
    with \<open>j div 127 < 9\<close> show "j \<in> (\<lambda>q. i mod 127 + 127 * q) ` {..<9}" by blast
  qed
  then have "card S \<le> card ((\<lambda>q. i mod 127 + 127 * q) ` {..<9})" by (intro card_mono) simp_all
  also have "\<dots> \<le> 9" using card_image_le [of "{..<9}" "\<lambda>q. i mod 127 + 127 * q"] by simp
  finally show ?thesis .
qed

lemma card_top_places: "card (set (top_places a)) = 8"
proof -
  have "set (top_places a) = {Top} \<times> {first_bucket a, second_bucket a} \<times> {..<SLOT_NUM}"
    by (auto simp: set_places)
  then show ?thesis using buckets_bounds [of a] by (simp add: card_cartesian_product card_insert_if)
qed

section \<open>The register in order\<close>

text \<open>The place where deletion looks for a page, and what it means that it finds it there.\<close>

definition seat :: "level_hash \<Rightarrow> nat \<Rightarrow> place option" where
  "seat h i = find (\<lambda>p. key (item h p) = of_nat i) (places (page i))"

definition seated :: "level_hash \<Rightarrow> nat \<Rightarrow> place \<Rightarrow> bool" where
  "seated h i p \<longleftrightarrow> seat h i = Some p \<and> live h p \<and> item h p = page_entry i"

text \<open>
  Every page has its seat, every live place is a seat, and at most one of the pages that compete is on the
  lower level.
\<close>

definition register_ok :: "nat set \<Rightarrow> level_hash \<Rightarrow> bool" where
  "register_ok A h \<longleftrightarrow> hash_ok h \<and> A \<subseteq> {..<heap_pages} \<and> (\<forall>i \<in> A. \<exists>p. seated h i p) \<and>
     (\<forall>p. in_table p \<longrightarrow> live h p \<longrightarrow> (\<exists>i \<in> A. seated h i p)) \<and>
     (\<forall>i \<in> A. \<forall>j \<in> A. \<forall>b. \<forall>b'. seated h i (Bottom, b) \<longrightarrow> seated h j (Bottom, b') \<longrightarrow> i mod 127 = j mod 127 \<longrightarrow> i = j)"

lemma register_okD:
  assumes "register_ok A h"
  shows "hash_ok h" "i \<in> A \<Longrightarrow> i < heap_pages" "i \<in> A \<Longrightarrow> \<exists>p. seated h i p"
    "in_table p \<Longrightarrow> live h p \<Longrightarrow> \<exists>i \<in> A. seated h i p"
    "i \<in> A \<Longrightarrow> j \<in> A \<Longrightarrow> seated h i (Bottom, b) \<Longrightarrow> seated h j (Bottom, b') \<Longrightarrow> i mod 127 = j mod 127 \<Longrightarrow> i = j"
  using assms unfolding register_ok_def by blast+

lemma register_okI:
  assumes "hash_ok h" "A \<subseteq> {..<heap_pages}" "\<And>i. i \<in> A \<Longrightarrow> \<exists>p. seated h i p"
    "\<And>p. in_table p \<Longrightarrow> live h p \<Longrightarrow> \<exists>i \<in> A. seated h i p"
    "\<And>i j b b'. i \<in> A \<Longrightarrow> j \<in> A \<Longrightarrow> seated h i (Bottom, b) \<Longrightarrow> seated h j (Bottom, b') \<Longrightarrow>
      i mod 127 = j mod 127 \<Longrightarrow> i = j"
  shows "register_ok A h"
  using assms unfolding register_ok_def by blast

lemma seatedD:
  assumes "seated h i p"
  shows "p \<in> set (places (page i))" "in_table p" "live h p" "item h p = page_entry i" "key (item h p) = of_nat i"
  using assms places_in_table [of p "page i"] unfolding seated_def seat_def
  by (auto simp: find_Some_iff page_entry_def)

lemma seated_unique:
  "seated h i p \<Longrightarrow> seated h i q \<Longrightarrow> p = q"
  "seated h i p \<Longrightarrow> seated h j p \<Longrightarrow> i < heap_pages \<Longrightarrow> j < heap_pages \<Longrightarrow> i = j"
  by (simp add: seated_def, metis of_nat_page_eq seatedD(5))

text \<open>A seat stays one while no earlier place takes the key.\<close>

lemma find_shrink: "find P xs = Some p \<Longrightarrow> Q p \<Longrightarrow> (\<And>q. q \<in> set xs \<Longrightarrow> Q q \<Longrightarrow> P q) \<Longrightarrow> find Q xs = Some p"
  by (induction xs) (auto split: if_splits)

lemma seated_keep:
  assumes "seated h i p" "item h' p = item h p" "live h' p"
    and "\<And>q. in_table q \<Longrightarrow> key (item h' q) = of_nat i \<Longrightarrow> key (item h q) = of_nat i"
  shows "seated h' i p"
  using assms seatedD [OF assms(1)] places_in_table
  by (auto simp: seated_def seat_def page_entry_def intro: find_shrink)

section \<open>Room for every page\<close>

lemma seat_of_place:
  assumes "register_ok A h" "i < heap_pages" "p \<in> set (places (page i))" "live h p"
  shows "\<exists>j \<in> A. seated h j p \<and> p \<in> set (places (page j)) \<and> j < heap_pages"
  using register_okD(4) [OF assms(1) places_in_table [OF assms(3)] assms(4)] seatedD(1) register_okD(2) [OF assms(1)]
  by blast

text \<open>The pages in the slots of the upper buckets of a page are eight rivals of it.\<close>

lemma top_rivals:
  assumes ok: "register_ok A h" and i: "i < heap_pages" and full: "\<And>p. p \<in> set (top_places (page i)) \<Longrightarrow> live h p"
  obtains S where "card S = 8" "S \<subseteq> A" "\<And>j. j \<in> S \<Longrightarrow> j mod 127 = i mod 127"
    "\<And>j. j \<in> S \<Longrightarrow> \<exists>p \<in> set (top_places (page i)). seated h j p"
proof -
  let ?T = "set (top_places (page i))"
  have "\<exists>j \<in> A. seated h j p \<and> p \<in> set (places (page j)) \<and> j < heap_pages" if "p \<in> ?T" for p
    by (rule seat_of_place [OF ok i _ full [OF that]]) (simp add: set_places(3) that)
  then obtain f where f: "\<And>p. p \<in> ?T \<Longrightarrow> f p \<in> A \<and> seated h (f p) p \<and> p \<in> set (places (page (f p))) \<and> f p < heap_pages"
    by metis
  have "inj_on f ?T"
    by (rule inj_onI) (metis f seated_unique(1))
  then have "card (f ` ?T) = 8" by (simp add: card_image card_top_places)
  moreover have "j mod 127 = i mod 127" if "j \<in> f ` ?T" for j
    using that f same_top_place [OF i] by fastforce
  moreover have "f ` ?T \<subseteq> A" using f by blast
  moreover have "\<exists>p \<in> ?T. seated h j p" if "j \<in> f ` ?T" for j using that f by blast
  ultimately show thesis using that [of "f ` ?T"] by blast
qed

text \<open>A page that goes to the lower level has no rival there.\<close>

lemma alone_below:
  assumes ok: "register_ok A h" and i: "i < heap_pages" "i \<notin> A"
    and full: "\<And>p. p \<in> set (top_places (page i)) \<Longrightarrow> live h p"
    and j: "j \<in> A" "seated h j (Bottom, b)"
  shows "j mod 127 \<noteq> i mod 127"
proof
  assume r: "j mod 127 = i mod 127"
  obtain S where S: "card S = 8" "S \<subseteq> A" "\<And>j. j \<in> S \<Longrightarrow> j mod 127 = i mod 127"
    "\<And>j. j \<in> S \<Longrightarrow> \<exists>p \<in> set (top_places (page i)). seated h j p"
    using top_rivals [OF ok i(1) full] by blast
  have "j \<notin> S"
  proof
    assume "j \<in> S"
    then obtain p where "p \<in> set (top_places (page i))" "seated h j p" using S(4) by blast
    then show False using seated_unique(1) [OF j(2), of p] by (auto simp: set_places)
  qed
  moreover have "i \<notin> S" "finite S" using S i(2) by (auto intro: card_ge_0_finite)
  ultimately have "card (insert i (insert j S)) = 10" using i(2) j(1) S(1) by (simp add: card_insert_if) blast
  moreover have "card (insert i (insert j S)) \<le> 9"
    by (rule few_rivals [OF i(1)]) (use S r i(1) j(1) register_okD(2) [OF ok] in auto)
  ultimately show False by simp
qed

lemma bottom_has_room:
  assumes ok: "register_ok A h" and i: "i < heap_pages"
  shows "\<exists>p \<in> set (bottom_places (page i)). \<not> live h p"
proof (rule ccontr)
  let ?b = "first_bucket (page i) div 2"
  assume "\<not> ?thesis"
  then have full: "\<And>p. p \<in> set (bottom_places (page i)) \<Longrightarrow> live h p" by blast
  have in_b: "(Bottom, ?b, x) \<in> set (bottom_places (page i))" if "x < SLOT_NUM" for x
    using that by (auto simp: set_places)
  have "\<exists>j \<in> A. seated h j (Bottom, ?b, x) \<and> j < heap_pages \<and> first_bucket (page j) div 2 = ?b" if x: "x < SLOT_NUM" for x
  proof -
    obtain j where "j \<in> A" "seated h j (Bottom, ?b, x)" "(Bottom, ?b, x) \<in> set (places (page j))" "j < heap_pages"
      using seat_of_place [OF ok i, of "(Bottom, ?b, x)"] full [OF in_b [OF x]] in_b [OF x]
      by (auto simp: set_places(3))
    moreover from this have "first_bucket (page j) div 2 = ?b"
      using buckets_bounds [of "page j"] buckets_bounds [of "page i"] by (auto simp: set_places)
    ultimately show ?thesis by blast
  qed
  then obtain f where f: "\<And>x. x < SLOT_NUM \<Longrightarrow> f x \<in> A \<and> seated h (f x) (Bottom, ?b, x) \<and> f x < heap_pages \<and>
      first_bucket (page (f x)) div 2 = ?b" by metis
  have same: "x = y" if "x < SLOT_NUM" "y < SLOT_NUM" "first_bucket (page (f x)) = first_bucket (page (f y))" for x y
  proof -
    have "f x mod 127 = f y mod 127" using f [OF that(1)] f [OF that(2)] same_bucket(1) that(3) by blast
    then have "f x = f y" using f [OF that(1)] f [OF that(2)] register_okD(5) [OF ok] by blast
    then show ?thesis using f [OF that(1)] f [OF that(2)] seated_unique(1) by fastforce
  qed
  have halves: "n div 2 = b \<Longrightarrow> n = 2 * b \<or> n = 2 * b + 1" for n b :: nat by presburger
  have "first_bucket (page (f x)) = 2 * ?b \<or> first_bucket (page (f x)) = 2 * ?b + 1" if "x < SLOT_NUM" for x
    using f [OF that] halves [of "first_bucket (page (f x))"] by blast
  from this [of 0] this [of 1] this [of 2] same [of 0 1] same [of 0 2] same [of 1 2] show False by auto
qed

section \<open>The events\<close>

lemma first_room:
  assumes "register_ok A h" "i < heap_pages"
  obtains p where "find (\<lambda>p. \<not> live h p) (places (page i)) = Some p" "p \<in> set (places (page i))" "\<not> live h p"
    "\<And>q. fst p = Bottom \<Longrightarrow> q \<in> set (top_places (page i)) \<Longrightarrow> live h q"
proof -
  have "find (\<lambda>p. \<not> live h p) (places (page i)) \<noteq> None"
    using bottom_has_room [OF assms] by (auto simp: find_None_iff places_def)
  then obtain p where p: "find (\<lambda>p. \<not> live h p) (places (page i)) = Some p" by blast
  then have 1: "p \<in> set (places (page i))" "\<not> live h p" by (auto simp: find_Some_iff)
  have "live h q" if "fst p = Bottom" "q \<in> set (top_places (page i))" for q
  proof (rule ccontr)
    assume "\<not> live h q"
    then have "find (\<lambda>p. \<not> live h p) (top_places (page i)) \<noteq> None" using that(2) unfolding find_None_iff by blast
    then obtain r where "find (\<lambda>p. \<not> live h p) (top_places (page i)) = Some r" by blast
    moreover from this have "r \<in> set (top_places (page i))" by (auto simp: find_Some_iff)
    ultimately show False using p that(1) by (auto simp: places_def find_append set_places)
  qed
  then show thesis using that [OF p 1] by blast
qed

lemma register_enter:
  assumes ok: "register_ok A h" and i: "i < heap_pages" "i \<notin> A"
  shows "register_ok (insert i A) (insert_hash_table (page i) (of_nat i) h)"
proof -
  obtain p where p: "find (\<lambda>p. \<not> live h p) (places (page i)) = Some p" "p \<in> set (places (page i))" "\<not> live h p"
    and full: "\<And>q. fst p = Bottom \<Longrightarrow> q \<in> set (top_places (page i)) \<Longrightarrow> live h q"
    using first_room [OF ok i(1)] by blast
  let ?h = "put p (page_entry i) h"
  have h': "insert_hash_table (page i) (of_nat i) h = ?h"
    using insert_first [OF p(1)] by (simp add: page_entry_def)
  note hok = register_okD(1) [OF ok] and pin = places_in_table [OF p(2)]
  have keep: "seated ?h j q" if "j \<in> A" "seated h j q" for j q
  proof (rule seated_keep [OF that(2)])
    have "q \<noteq> p" using seatedD(3) [OF that(2)] p(3) by blast
    then show "item ?h q = item h q" "live ?h q" using seatedD(3) [OF that(2)] hok pin by simp_all
    show "key (item h r) = of_nat j" if "in_table r" "key (item ?h r) = of_nat j" for r
      using that hok pin \<open>j \<in> A\<close> i register_okD(2) [OF ok \<open>j \<in> A\<close>] by (auto simp: page_entry_def split: if_splits)
  qed
  have "seat ?h i = Some p"
    unfolding seat_def
  proof (rule find_shrink [OF p(1)])
    show "key (item ?h p) = of_nat i" using hok pin by (simp add: page_entry_def)
    show "\<not> live h q" if q: "q \<in> set (places (page i))" "key (item ?h q) = of_nat i" for q
    proof
      assume l: "live h q"
      then obtain j where "j \<in> A" "seated h j q" using register_okD(4) [OF ok places_in_table [OF q(1)]] by blast
      then show False
        using q(2) l p(3) hok pin seatedD(5) [of h j q] i register_okD(2) [OF ok \<open>j \<in> A\<close>] by (auto split: if_splits)
    qed
  qed
  then have new: "seated ?h i p" using hok pin by (simp add: seated_def)
  have before: "seated h j q" if "j \<in> A" "seated ?h j q" for j q
    using register_okD(3) [OF ok that(1)] keep [OF that(1)] seated_unique(1) [OF that(2)] by blast
  have "\<exists>j \<in> insert i A. seated ?h j q" if "in_table q" "live ?h q" for q
  proof (cases "q = p")
    case False
    then have "live h q" using that(2) hok pin by simp
    then show ?thesis using register_okD(4) [OF ok that(1)] keep by blast
  qed (use new in blast)
  moreover have "j = k" if "j \<in> insert i A" "k \<in> insert i A" "seated ?h j (Bottom, b)" "seated ?h k (Bottom, b')"
    "j mod 127 = k mod 127" for j k b b'
  proof -
    have alone: "k mod 127 \<noteq> i mod 127" if "seated ?h i (Bottom, b)" "k \<in> A" "seated ?h k (Bottom, b')" for k b b'
    proof (rule alone_below [OF ok i _ that(2) before [OF that(2,3)]])
      have "fst p = Bottom" using seated_unique(1) [OF new that(1)] by simp
      then show "live h q" if "q \<in> set (top_places (page i))" for q using full that by blast
    qed
    from that show ?thesis
      using alone before register_okD(5) [OF ok] by (metis insertE)
  qed
  moreover have "\<exists>q. seated ?h j q" if "j \<in> insert i A" for j
    using that new keep register_okD(3) [OF ok] by blast
  moreover have "insert i A \<subseteq> {..<heap_pages}" using i register_okD(2) [OF ok] by auto
  ultimately show ?thesis unfolding h' by (intro register_okI hash_ok_steps hok)
qed

lemma register_leave:
  assumes ok: "register_ok A h" and i: "i \<in> A"
  shows "register_ok (A - {i}) (delete_hash_table (page i) (of_nat i) h)"
proof -
  obtain p where p: "seated h i p" using register_okD(3) [OF ok i] by blast
  let ?h = "vacate p h"
  have h': "delete_hash_table (page i) (of_nat i) h = ?h"
    using p by (simp add: delete_first seated_def seat_def)
  note hok = register_okD(1) [OF ok] and pin = seatedD(2) [OF p] and lt = register_okD(2) [OF ok]
  have same: "seated ?h j q \<longleftrightarrow> seated h j q" if "j \<in> A - {i}" for j q
  proof -
    have "q \<noteq> p" if "seated h j q" using seated_unique(2) [OF p, of j] that \<open>j \<in> A - {i}\<close> lt [OF i] lt [of j] by blast
    moreover have "seat ?h j = seat h j" using hok pin by (simp add: seat_def)
    ultimately show ?thesis using hok pin by (auto simp: seated_def)
  qed
  have "\<exists>j \<in> A - {i}. seated ?h j q" if q: "in_table q" "live ?h q" for q
  proof -
    have "q \<noteq> p" "live h q" using q hok pin by simp_all
    then obtain j where "j \<in> A" "seated h j q" using register_okD(4) [OF ok q(1)] by blast
    moreover from this have "j \<noteq> i" using seated_unique(1) [OF p] \<open>q \<noteq> p\<close> by blast
    ultimately show ?thesis using same by blast
  qed
  moreover have "\<exists>q. seated ?h j q" if "j \<in> A - {i}" for j
    using that same register_okD(3) [OF ok] by blast
  moreover have "j = k" if "j \<in> A - {i}" "k \<in> A - {i}" "seated ?h j (Bottom, b)" "seated ?h k (Bottom, b')"
    "j mod 127 = k mod 127" for j k b b'
    using that same register_okD(5) [OF ok] by (metis DiffD1)
  moreover have "A - {i} \<subseteq> {..<heap_pages}" using lt by blast
  ultimately show ?thesis unfolding h' by (intro register_okI hash_ok_steps hok)
qed

lemma register_empty: "hash_ok h \<Longrightarrow> register_ok {} (init_hash_table h)"
  using init_empty [of h] by (simp add: register_ok_def)

lemma registered_ok: "registered A h \<Longrightarrow> register_ok A h"
  by (induction rule: registered.induct) (simp_all add: register_empty register_enter register_leave)

section \<open>Properties\<close>

lemma page_entry_inj: "i < heap_pages \<Longrightarrow> j < heap_pages \<Longrightarrow> page_entry i = page_entry j \<Longrightarrow> i = j"
  by (simp add: page_entry_def)

lemma register_entries:
  assumes ok: "register_ok A h"
  shows "bij_betw (item h) {p. in_table p \<and> live h p} (page_entry ` A)"
proof (rule bij_betwI')
  fix p q assume p: "p \<in> {p. in_table p \<and> live h p}" and q: "q \<in> {p. in_table p \<and> live h p}"
  obtain i j where i: "i \<in> A" "seated h i p" and j: "j \<in> A" "seated h j q"
    using register_okD(4) [OF ok] p q by blast
  show "item h p = item h q \<longleftrightarrow> p = q"
    using seatedD(4) [OF i(2)] seatedD(4) [OF j(2)] register_okD(2) [OF ok] i j page_entry_inj seated_unique(1) by metis
next
  fix p assume "p \<in> {p. in_table p \<and> live h p}"
  then show "item h p \<in> page_entry ` A" using register_okD(4) [OF ok] seatedD(4) by blast
next
  fix e assume "e \<in> page_entry ` A"
  then obtain i p where "e = page_entry i" "seated h i p" using register_okD(3) [OF ok] by blast
  then show "\<exists>p \<in> {p. in_table p \<and> live h p}. e = item h p" using seatedD by (intro bexI [of _ p]) auto
qed

text \<open>
  C14. The table is a register of the heap: after any sequence in which pages that are not entered are
  entered and pages that are entered are deleted, its live slots hold exactly one entry for each page of the
  register, with the number and the physical address of the page, in one of the page's four buckets; and
  every page of the heap finds a free slot there, so none is lost and no entry has to move.
\<close>
theorem hash_table_registers_heap:
  assumes "registered A h"
  shows "bij_betw (item h) {p. in_table p \<and> live h p} (page_entry ` A) \<and>
    (\<forall>i \<in> A. \<exists>p \<in> set (places (page i)). live h p \<and> item h p = page_entry i) \<and>
    (\<forall>i < heap_pages. \<exists>p \<in> set (places (page i)). \<not> live h p)"
proof -
  note ok = registered_ok [OF assms]
  have 1: "\<exists>p \<in> set (places (page i)). live h p \<and> item h p = page_entry i" if "i \<in> A" for i
    using register_okD(3) [OF ok that] seatedD(1,3,4) by blast
  have 2: "\<exists>p \<in> set (places (page i)). \<not> live h p" if "i < heap_pages" for i
    using bottom_has_room [OF ok that] unfolding set_places(3) by blast
  show ?thesis by (intro conjI ballI allI impI register_entries [OF ok] 1 2)
qed

definition blank_table :: level_hash where
  "blank_table =
     (let b = \<lparr> token = replicate 4 0, slot = replicate 4 \<lparr> key = 0, the_value = 0 \<rparr> \<rparr>
      in \<lparr> top_buckets = replicate 256 b, bottom_buckets = replicate 128 b \<rparr>)"

lemma all_levels: "(\<forall>lv. P lv) \<longleftrightarrow> P Top \<and> P Bottom"
  by (metis level.exhaust)

lemma hash_ok_level: "hash_ok h \<longleftrightarrow> length (top_buckets h) = 256 \<and> (\<forall>bk \<in> set (top_buckets h). bucket_ok bk) \<and>
    length (bottom_buckets h) = 128 \<and> (\<forall>bk \<in> set (bottom_buckets h). bucket_ok bk)"
  by (auto simp: hash_ok_def all_levels)

lemma hash_ok_blank: "hash_ok blank_table"
  by (simp add: hash_ok_level blank_table_def bucket_ok_def Let_def)

text \<open>Pages 3 and 130 have the same buckets.\<close>

lemma hash_table_registers_heap_witness:
  "let h = delete_hash_table (page 3) 3 (insert_hash_table (page 130) 130 (insert_hash_table (page 3) 3
       (init_hash_table blank_table)))
   in card {p. in_table p \<and> live h p} = 1 \<and> (\<exists>p \<in> set (places (page 130)). item h p = page_entry 130)"
proof -
  have "registered ({} \<union> {3}) (insert_hash_table (page 3) (of_nat 3) (init_hash_table blank_table))"
    using registered.enter [OF registered.empty [OF hash_ok_blank], of 3] by simp
  from registered.leave [OF registered.enter [OF this, of 130], of 3]
  have r: "registered {130} (delete_hash_table (page 3) 3 (insert_hash_table (page 130) 130 (insert_hash_table (page 3) 3
       (init_hash_table blank_table))))" by (simp add: insert_Diff_if)
  from hash_table_registers_heap [OF r] show ?thesis
    unfolding Let_def by (auto dest: bij_betw_same_card)
qed

text \<open>
  What the code does where a page finds no free slot, which takes more pages than the heap has.  It
  means to move an entry of a full bucket and to take its slot.  It either does nothing, so that the page is
  lost without a sign, or writes the new page into the other bucket of an old one, where deletion of the
  page does not look: the entry stays for ever.
\<close>
theorem full_buckets_lose_page:
  assumes "hash_ok h" "\<forall>p \<in> set (places a). live h p"
  shows "let h' = insert_hash_table a k h in
    h' = h \<or> (\<exists>p. in_table p \<and> p \<notin> set (places a) \<and> \<not> live h p \<and>
      item h' p = \<lparr> key = k, the_value = ssuos_VH_TO_RH a \<rparr> \<and> live h' p \<and> live (delete_hash_table a k h') p)"
proof -
  have "live (delete_hash_table a k h') p" if "live h' p" "p \<notin> set (places a)" "hash_ok h'" for h' p
  proof (cases "find (\<lambda>p. key (item h' p) = k) (places a)")
    case (Some q)
    then have "q \<in> set (places a)" by (auto simp: find_Some_iff)
    then show ?thesis using that places_in_table by (auto simp: delete_first Some)
  qed (use that in \<open>simp add: delete_first\<close>)
  moreover have "insert_hash_table a k h = h \<or> put_free \<lparr> key = k, the_value = ssuos_VH_TO_RH a \<rparr> h (insert_hash_table a k h)"
    using insert_full assms(2) by blast
  ultimately show ?thesis
    using assms unfolding put_free_def Let_def by (metis hash_ok_steps(5) item_put live_put)
qed

text \<open>
  A full table but for one bucket, the second one of the entries that fill the first bucket of the page.
\<close>

definition full_table :: level_hash where
  "full_table =
     (let e = \<lparr> key = 9, the_value = ssuos_VH_TO_RH 12 \<rparr>; b = \<lparr> token = replicate 4 1, slot = replicate 4 e \<rparr>
      in \<lparr> top_buckets = (replicate 256 b)[unat (S_IDX 12 CAPACITY) := b\<lparr> token := replicate 4 0 \<rparr>],
          bottom_buckets = replicate 128 b \<rparr>)"

lemma hash_ok_full: "hash_ok full_table"
  using set_update_subset_insert [of "replicate 256 _"]
  by (simp add: hash_ok_level full_table_def bucket_ok_def Let_def) fastforce

lemma full_buckets_lose_page_witness:
  "\<exists>p. \<not> live full_table p \<and> live (delete_hash_table (page 0) 0 (insert_hash_table (page 0) 0 full_table)) p"
proof -
  have b: "first_bucket (page 0) = 12" "second_bucket (page 0) = 132" by (simp_all add: page_buckets)
  have "\<forall>p \<in> set (places (page 0)). live full_table p"
    by (auto simp: set_places b live.simps token_at_def full_table_def S_IDX_def Let_def)
  moreover have "insert_hash_table (page 0) 0 full_table \<noteq> full_table"
  proof -
    have "token_at Top 212 0 (insert_hash_table (page 0) 0 full_table) = 1" "token_at Top 212 0 full_table = 0"
      by code_simp+
    then show ?thesis by auto
  qed
  ultimately show ?thesis using full_buckets_lose_page [OF hash_ok_full, of "page 0" 0] unfolding Let_def by blast
qed

end
