(* ===== verification/HeapPages.thy ===== *)
theory HeapPages
  imports Bitmap LevelHash_Heap
begin

text \<open>
  The page allocator of the kernel \<open>ssuos\<close>, \<open>ssuos/src/kernel/mem/palloc.c\<close>: blocks of pages from the end
  of the heap, and a list of returned blocks that are handed out again when a request has exactly their
  size.  Every block is entered in the hash table under its first page.  A pointer into \<open>khpage_list\<close> is
  its index (\<open>None\<close> for \<open>NULL\<close>); of a \<open>khpage\<close> only the fields the program uses are kept.  \<open>cleared\<close> logs the
  calls of \<open>memset (pages, 0, n)\<close> as (start, length), latest first.
\<close>

section \<open>The code\<close>

record khpage =
  nalloc :: Bit16u
  next_page :: "Bit32u option"

record heap_alloc =
  khpage_list :: "Bit32u \<Rightarrow> khpage"
  free_list :: "Bit32u option"
  nfree :: Bit32u
  page_alloc_index :: Bit32u
  cleared :: "(Bit32u \<times> Bit32u) list"
  hash_table :: level_hash

abbreviation (input) HEAP_START :: Bit32u where "HEAP_START \<equiv> 0xc0000000"


definition set_next_page :: "Bit32u \<Rightarrow> Bit32u option \<Rightarrow> heap_alloc \<Rightarrow> heap_alloc" where
  "set_next_page k q s = s\<lparr> khpage_list := (khpage_list s)(k := (khpage_list s k)\<lparr> next_page := q \<rparr>) \<rparr>"

definition set_nalloc :: "Bit32u \<Rightarrow> Bit16u \<Rightarrow> heap_alloc \<Rightarrow> heap_alloc" where
  "set_nalloc k n s = s\<lparr> khpage_list := (khpage_list s)(k := (khpage_list s k)\<lparr> nalloc := n \<rparr>) \<rparr>"

text \<open>
  The search of \<open>palloc_get_multiple\<close>.  The result is the index of the block it takes off the list.  A
  \<open>NULL\<close> predecessor of a later block, which cannot be, would be dereferenced.
\<close>

partial_function (option) find_block ::
  "Bit32u \<Rightarrow> Bit32u option \<Rightarrow> Bit32u option \<Rightarrow> heap_alloc \<Rightarrow> (Bit32u option \<times> heap_alloc) option" where
  "find_block page_cnt khpage prepage s =
     (case khpage of None \<Rightarrow> Some (None, s)
      | Some k \<Rightarrow>
          if ucast (nalloc (khpage_list s k)) = page_cnt
          then (if prepage = khpage
                then Some (khpage, s\<lparr> free_list := next_page (khpage_list s k), nfree := nfree s - 1 \<rparr>)
                else case prepage of None \<Rightarrow> None
                     | Some q \<Rightarrow> Some (khpage, (set_next_page q (next_page (khpage_list s k)) s)\<lparr> nfree := nfree s - 1 \<rparr>))
          else find_block page_cnt (next_page (khpage_list s k)) khpage s)"

definition palloc_get_multiple :: "Bit32u \<Rightarrow> heap_alloc \<Rightarrow> (Bit32u \<times> heap_alloc) option" where
  "palloc_get_multiple page_cnt s =
     (if page_cnt = 0 then Some (0, s)
      else case find_block page_cnt (free_list s) (free_list s) s of None \<Rightarrow> None
      | Some (found, s) \<Rightarrow>
          let (pages, page_idx) = (case found of None \<Rightarrow> (0, 0)
                                   | Some k \<Rightarrow> (HEAP_START + k * 4096, k));
              (pages, page_idx, s) =
                (if pages = 0
                 then (HEAP_START + page_alloc_index s * 4096, page_alloc_index s,
                       s\<lparr> page_alloc_index := page_alloc_index s + page_cnt \<rparr>)
                 else (pages, page_idx, s));
              s = (if pages \<noteq> 0 then s\<lparr> cleared := (pages, 4096 * page_cnt) # cleared s \<rparr> else s)
          in Some (pages, s\<lparr> hash_table := insert_hash_table pages page_idx (hash_table s) \<rparr>))"

definition palloc_get_page :: "heap_alloc \<Rightarrow> (Bit32u \<times> heap_alloc) option" where
  "palloc_get_page = palloc_get_multiple 1"

text \<open>The walk to the end of the list.\<close>

partial_function (option) last_page :: "Bit32u \<Rightarrow> heap_alloc \<Rightarrow> Bit32u option" where
  "last_page k s = (case next_page (khpage_list s k) of None \<Rightarrow> Some k | Some q \<Rightarrow> last_page q s)"

definition palloc_free_multiple :: "Bit32u \<Rightarrow> Bit32u \<Rightarrow> heap_alloc \<Rightarrow> heap_alloc option" where
  "palloc_free_multiple pages page_cnt s =
     (let page_idx = (pages - HEAP_START) div 4096
      in if pages = 0 \<or> page_cnt = 0 then Some s
         else let s = s\<lparr> hash_table := delete_hash_table pages page_idx (hash_table s) \<rparr>
         in case free_list s of
              None \<Rightarrow>
                (let s = set_next_page page_idx None
                           (set_nalloc page_idx (ucast page_cnt) (s\<lparr> free_list := Some page_idx \<rparr>))
                 in Some (s\<lparr> nfree := nfree s + 1 \<rparr>))
            | Some khpage \<Rightarrow>
                (case last_page khpage s of None \<Rightarrow> None
                 | Some k \<Rightarrow>
                     let s = set_next_page page_idx None
                               (set_nalloc page_idx (ucast page_cnt) (set_next_page k (Some page_idx) s))
                     in Some (s\<lparr> nfree := nfree s + 1 \<rparr>)))"

definition palloc_free_page :: "Bit32u \<Rightarrow> heap_alloc \<Rightarrow> heap_alloc option" where
  "palloc_free_page pages = palloc_free_multiple pages 1"

section \<open>A register of blocks\<close>



section \<open>The list of returned blocks\<close>






section \<open>A client of the heap\<close>



















section \<open>What the client can rely on\<close>








end
