(* ===== verification/Spec2Isabelle.thy ===== *)
theory Spec2Isabelle
  imports CpuCond_Spec CpuShift_Spec CpuBcd Machine_Spec Proc_Space HeapPages
begin

text \<open>
  A verification development for an operating-systems course repository: the teaching kernel SSUOS
  (C, \<open>src/semester3-2/oslab/SSUOS_P6/src/kernel/\<close>) and the PC emulator it is run on
  (C++, \<open>src/semester3-2/oslab/bochs-2.6.8/\<close>).  The development follows one path through both:
  the timer chip of the machine counts, its output raises an input of the interrupt controllers,
  the controllers signal the processor, and the kernel's timer handler accounts for the running
  process; below the kernel's scheduler are its linked lists, its page allocator and its page
  tables, and below its compiled code the arithmetic and the flags of the emulated processor.
  File names below are relative to those two directories.

  \<^bold>\<open>Conventions.\<close>  A C integer is a word of its width and wraps.  A C struct or class is a record, an
  operation a function from the state to the new state, with its result first when it has one.
  A loop that follows links or pointers is a \<open>partial_function (option)\<close>, whose value \<open>None\<close>
  means that it does not return; every property about such a loop proves that it returns.  A
  loop over a counter is a \<open>primrec\<close> on the number of turns left, which the code fixes, so
  that no fuel is chosen anywhere.  \<open>BX_PANIC\<close> is recorded in a log of the state, the other
  logging calls, save and restore of the emulator's state and its debugger output are left out.
  Definitions that are not named after a function of the source are a part of one, such as a loop
  body, and say so where they are declared.

  \<^bold>\<open>Prelude.\<close>  The integer types, single-bit masks and tests as C writes them, and the collections
  \<open>frame_simps\<close> (fields an operation leaves alone) and \<open>inv_intros\<close> (one rule per operation for
  the invariant of its component).

  \<^bold>\<open>Interrupt controllers.\<close>  \<open>Pic8259\<close> models \<open>iodev/pic.cc\<close>: the two cascaded 8259A, their ports,
  the request, service and mask registers, initialisation words, rotation, special mask and
  automatic end of interrupt, and the acknowledge cycle \<open>IAC\<close>.  \<open>Pic8259_Spec\<close> states the ranking of
  inputs without loops and shows that the scans compute it, and that a state invariant (the
  interrupt line equals the master's request pin, and so on) survives every event.
  \<open>Pic8259_Cycle\<close> states what a client relies on as the locale \<open>irq_controller\<close> and interprets it
  on the model: requests are delivered in order, once each, and leave the controllers quiet.

  \<^bold>\<open>Timer chip.\<close>  \<open>Pit82c54\<close> models \<open>iodev/pit82c54.cc\<close>: three counters in the six modes, binary and
  packed decimal, the ports with their latches, GATE and OUT.  \<open>Pit82c54_Spec\<close> gives the count as
  a number, \<open>Pit82c54_Modes\<close> the locale \<open>counter_mode\<close>, in which advancing a counter from one change
  of its output to the next is shown to be the same as clocking it every cycle; the locale is
  interpreted on the modes 2, 0 (\<open>Pit82c54_OneShot\<close>) and 3 (\<open>Pit82c54_Square\<close>), each with what a
  driver that programs the counter through the ports sees on OUT.  \<open>Pit82c54_Chip\<close> has the
  invariant of the whole chip and the equivalence of jumping and clocking.  \<open>PitBoard\<close> models
  \<open>iodev/pit.cc\<close>: the ports 0x40 to 0x43 and 0x61, the conversion between microseconds and ticks,
  and the virtual timer; for the states of the contract no tick is lost however time is cut into calls.
  The virtual timer is armed for the time \<open>get_next_event_time\<close> returns, which leaves out the other two
  counters while counter 0 is idle (\<open>idle_counter_0_stops_timer\<close>).

  \<^bold>\<open>Processor.\<close>  \<open>LazyFlags\<close> models \<open>cpu/lazy_flags.h\<close> and the flag accessors: the six arithmetic
  flags are kept as a result and a word of auxiliary bits, and \<open>LazyFlags_Spec\<close> shows that they
  read as the flags of the integer operation.  \<open>CpuState\<close> has the general registers of \<open>cpu/cpu.h\<close>
  with their byte, word and double-word views, \<open>CpuArith\<close> the register and immediate forms of
  \<open>cpu/arith8.cc\<close>, \<open>arith16.cc\<close> and \<open>arith32.cc\<close>, \<open>CpuCond\<close> the SETcc and CMOVcc instructions of
  \<open>cpu/bit.cc\<close> and \<open>cpu/data_xfer\<close>; \<open>CpuArith_Spec\<close> and \<open>CpuCond_Spec\<close> give result and flags of every
  one of them, and the meaning of each condition after a comparison.  \<open>CpuLogic\<close> and \<open>CpuShift\<close> model
  the register forms of \<open>cpu/logical8.cc\<close> to \<open>logical32.cc\<close> and \<open>cpu/shift8.cc\<close> to \<open>shift32.cc\<close>;
  \<open>CpuShift_Spec\<close> shows that a shift or rotate by a count is that many single steps, flags included, and
  that a double shift is a rotation of the joined operands.  \<open>CpuMul\<close> models \<open>cpu/mult8.cc\<close> to
  \<open>mult32.cc\<close>, where a divide error is the left value of a sum; \<open>CpuMul_Spec\<close> shows that products are
  exact and that a quotient is exact or refused.  \<open>CpuBcd\<close> models \<open>cpu/bcd.cc\<close> and shows that the
  adjustments make binary addition and subtraction decimal.

  \<^bold>\<open>Memory of the kernel.\<close>  \<open>Bitmap\<close> models \<open>bitmap.c\<close> and shows that it is an array of bits with
  first-fit search; its locale \<open>page_map\<close> is what the allocator needs of it, and the interpretation
  discharges it.  \<open>Palloc\<close> models \<open>mem/palloc.c\<close>: two pools of 4096-byte pages.  The invariant
  ties the bitmaps to the blocks that a client holds; the clearing of pages reaches the bitmaps, which
  live in the first page of each pool, and the error properties state what a full pool and a wrong release
  do.  \<open>Paging\<close> models \<open>mem/paging.c\<close> over a memory of 32-bit words: every access of
  the program is translated through the current directory while paging is on.
  \<open>Paging_Direct\<close> is the copy of an address space on physical memory, \<open>Paging_Spec\<close> shows that the
  program's copy refines it while low memory is mapped to itself and that the new space translates
  every address alike, \<open>Paging_Boot\<close> that start-up establishes this, and \<open>Paging_Fault\<close> what page
  faults do to such a space.

  \<^bold>\<open>Kernel heap.\<close>  The kernel of an earlier exercise, \<open>ssuos/src/kernel/\<close>, has another page allocator.
  \<open>LevelHash\<close> models its \<open>mem/hashing.c\<close>, a level hash table with two buckets for a page on each of two
  levels; \<open>LevelHash_Spec\<close> shows that insertion takes the first free of the sixteen places of a page and
  deletion vacates the first one with its key, and \<open>LevelHash_Heap\<close> that for the 1024 pages of the heap
  nothing is lost and no entry has to move, with what the code does where one would have to.
  \<open>HeapPages\<close> models \<open>mem/palloc.c\<close>: blocks from the end of the heap and a list of returned ones.  What it
  relies on is the locale \<open>page_register\<close>, interpreted on the hash table; blocks are disjoint and
  registered, and the loops over the list return.  The bound of 1024 pages is the length of its
  \<open>khpage_list\<close>; the code does not test it.

  \<^bold>\<open>Lists and scheduler of the kernel.\<close>  \<open>DList\<close> models \<open>list.c\<close> on a heap of links, \<open>DList_Spec\<close> the
  sequences such a heap holds and the locale \<open>queues\<close> for the scheduler's use of them,
  \<open>DList_Order\<close> and \<open>DList_Sort\<close> ordered insertion, extrema and the in-place natural merge sort,
  \<open>DList_Edit\<close> the remaining operations and the properties.  \<open>Sched\<close> models \<open>proc/proc.c\<close>,
  \<open>proc/sched.c\<close>, the timer handler of \<open>arch/interrupt.c\<close> and \<open>arch/do_syscall.c\<close>.
  \<open>Sched_Spec\<close> states each operation on the queues, \<open>Sched_Runs\<close> the events as a step relation
  with the invariant \<open>kernel_ok\<close>, and \<open>Sched_Props\<close> the properties from boot on.  \<open>Proc_Space\<close> is the whole
  of \<open>proc_create\<close>, with the address space and the first stack frame of the new process.

  \<^bold>\<open>The parts together.\<close>  \<open>Machine\<close> joins \<open>PitBoard\<close>, \<open>Pic8259\<close> and \<open>Sched\<close>: the output of counter 0 calls
  the controllers (\<open>irq_handler\<close> of \<open>iodev/pit.cc\<close>), the processor acknowledges (\<open>cpu/event.cc\<close>), and
  \<open>intr_common\<close> runs the timer handler, ends the interrupt and reschedules; \<open>Initialize_PIC\<close> of the
  boot code and \<open>init_pit\<close> set it up.  (The kernel calls \<open>init_pit\<close> first, the theorems start from it: \<open>init_pit_first\<close> shows that the
  order is immaterial.)  \<open>Machine_Spec\<close> shows that the kernel's tick count is the number of
  whole timer periods of 1197 chip cycles that have passed, when the processor takes the interrupt at least
  once per period (time passes in steps of at most 1002 microseconds; writing a port takes none), and that
  a process which ends by a system call runs on.

  \<^bold>\<open>Not modelled.\<close>  Of the emulator: memory operands (they need the segment and memory units), the
  other instruction groups, the floating-point and vector units, the instruction decoder, the other
  devices, the displays, the BIOS, the debugger and the configuration code.  Of the kernel: the
  console, the keyboard and disk drivers, the file system, printing and the assembly stubs; \<open>malloc\<close>,
  the string functions, and the semaphores, which only the disk driver uses.  The earlier states of the
  kernel (\<open>SSUOS_P3\<close>, \<open>SSUOS_P4\<close>, \<open>ssuos_p2_\<close>, and of \<open>ssuos\<close> all but the heap), the table of
  \<open>level_hashing/\<close>, which no kernel links, and the other course work are not modelled.  \<open>PROJECT.json\<close> lists these parts one by one.
\<close>

end
